(* ===== verification/Prelude.thy ===== *)
theory Prelude
  imports Complex_Main "HOL-Library.Word" "HOL-Library.Multiset" "HOL-Library.AList"
begin

text \<open>
  What the components of the development share.

  \<^item> Rust strings: a \<open>String\<close> is a sequence of Unicode scalar values (\<open>ustr\<close>), with the
    standard library's byte length, trimming and character classes written out.
  \<^item> Machine integers: \<open>i64\<close> and \<open>u64\<close> are 64-bit words; decimal printing and
    parsing as \<open>format!\<close> and \<open>str::parse\<close> do them.
  \<^item> \<open>HashMap\<close>s: association lists with distinct keys, whose list order is the order in
    which the table is walked.
  \<^item> Reachability of a step relation, and the locale \<open>invariant\<close> that every state machine
    of the development interprets.
\<close>

section \<open>Strings\<close>

type_synonym uchar = nat
type_synonym ustr = "uchar list"

text \<open>A string literal of the source (all of those used here are ASCII).\<close>

definition lit :: "string \<Rightarrow> ustr" where
  "lit s = map of_char s"

lemma length_lit [simp]: "length (lit s) = length s"
  by (simp add: lit_def)

lemma lit_Nil [simp]: "lit [] = []"
  by (simp add: lit_def)

lemma lit_Cons: "lit (c # s) = of_char c # lit s"
  by (simp add: lit_def)

text \<open>\<open>str::len\<close> counts the bytes of the UTF-8 encoding.\<close>

definition utf8_width :: "uchar \<Rightarrow> nat" where
  "utf8_width c = (if c < 128 then 1 else if c < 2048 then 2 else if c < 65536 then 3 else 4)"

definition byte_len :: "ustr \<Rightarrow> nat" where
  "byte_len s = sum_list (map utf8_width s)"

lemma utf8_width_pos [simp]: "0 < utf8_width c"
  by (simp add: utf8_width_def)

lemma byte_len_Nil [simp]: "byte_len [] = 0"
  by (simp add: byte_len_def)

lemma byte_len_Cons [simp]: "byte_len (c # s) = utf8_width c + byte_len s"
  by (simp add: byte_len_def)

lemma byte_len_append [simp]: "byte_len (s @ t) = byte_len s + byte_len t"
  by (simp add: byte_len_def)

lemma length_le_byte_len: "length s \<le> byte_len s"
proof (induction s)
  case (Cons c s)
  then show ?case using utf8_width_pos [of c] by (simp del: utf8_width_pos)
qed simp

text \<open>\<open>char::is_control\<close> (general category Cc) and \<open>char::is_whitespace\<close> (White_Space).\<close>

definition is_control :: "uchar \<Rightarrow> bool" where
  "is_control c = (c < 32 \<or> (127 \<le> c \<and> c < 160))"

definition is_whitespace :: "uchar \<Rightarrow> bool" where
  "is_whitespace c = ((9 \<le> c \<and> c \<le> 13) \<or> c = 32 \<or> c = 133 \<or> c = 160 \<or> c = 5760 \<or>
     (8192 \<le> c \<and> c \<le> 8202) \<or> c = 8232 \<or> c = 8233 \<or> c = 8239 \<or> c = 8287 \<or> c = 12288)"

definition is_ascii_digit :: "uchar \<Rightarrow> bool" where
  "is_ascii_digit c = (48 \<le> c \<and> c \<le> 57)"

definition is_ascii_alphanumeric :: "uchar \<Rightarrow> bool" where
  "is_ascii_alphanumeric c =
     (is_ascii_digit c \<or> (65 \<le> c \<and> c \<le> 90) \<or> (97 \<le> c \<and> c \<le> 122))"

definition is_ascii_hexdigit :: "uchar \<Rightarrow> bool" where
  "is_ascii_hexdigit c =
     (is_ascii_digit c \<or> (65 \<le> c \<and> c \<le> 70) \<or> (97 \<le> c \<and> c \<le> 102))"

definition to_ascii_lowercase :: "ustr \<Rightarrow> ustr" where
  "to_ascii_lowercase = map (\<lambda>c. if 65 \<le> c \<and> c \<le> 90 then c + 32 else c)"

text \<open>\<open>trim_matches\<close> drops the matching characters at both ends; \<open>trim\<close> is its instance
  for white space.\<close>

definition trim_start_matches :: "(uchar \<Rightarrow> bool) \<Rightarrow> ustr \<Rightarrow> ustr" where
  "trim_start_matches p s = dropWhile p s"

definition trim_end_matches :: "(uchar \<Rightarrow> bool) \<Rightarrow> ustr \<Rightarrow> ustr" where
  "trim_end_matches p s = rev (dropWhile p (rev s))"

definition trim_matches :: "(uchar \<Rightarrow> bool) \<Rightarrow> ustr \<Rightarrow> ustr" where
  "trim_matches p s = trim_end_matches p (trim_start_matches p s)"

definition trim :: "ustr \<Rightarrow> ustr" where
  "trim s = trim_matches is_whitespace s"

lemma set_trim_matches: "set (trim_matches p s) \<subseteq> set s"
  by (auto simp: trim_matches_def trim_end_matches_def trim_start_matches_def
      dest!: set_dropWhileD)

lemma set_trim: "set (trim s) \<subseteq> set s"
  by (simp add: trim_def set_trim_matches)

lemma last_dropWhile: "dropWhile p s \<noteq> [] \<Longrightarrow> last (dropWhile p s) = last s"
  by (metis append_Nil2 last_appendR takeWhile_dropWhile_id)

lemma hd_rev_dropWhile_rev:
  "rev (dropWhile p (rev s)) \<noteq> [] \<Longrightarrow> hd (rev (dropWhile p (rev s))) = hd s"
  by (metis hd_rev last_dropWhile rev_is_Nil_conv rev_rev_ident)

lemma hd_trim_matches: "trim_matches p s \<noteq> [] \<Longrightarrow> \<not> p (hd (trim_matches p s))"
  unfolding trim_matches_def trim_end_matches_def trim_start_matches_def
  by (metis dropWhile.simps(1) hd_dropWhile hd_rev_dropWhile_rev rev.simps(1))

lemma last_trim_matches: "trim_matches p s \<noteq> [] \<Longrightarrow> \<not> p (last (trim_matches p s))"
  unfolding trim_matches_def trim_end_matches_def
  by (metis hd_dropWhile last_rev rev_is_Nil_conv)

lemma trim_keeps: "s = [] \<or> \<not> is_whitespace (hd s) \<and> \<not> is_whitespace (last s) \<Longrightarrow> trim s = s"
proof (cases s rule: rev_cases)
  case (snoc t c)
  assume "s = [] \<or> \<not> is_whitespace (hd s) \<and> \<not> is_whitespace (last s)"
  with snoc have "\<not> is_whitespace (hd s)" "\<not> is_whitespace c" by auto
  then have "dropWhile is_whitespace s = s" by (simp add: dropWhile_eq_self_iff)
  then show ?thesis using snoc \<open>\<not> is_whitespace c\<close>
    by (simp add: trim_def trim_matches_def trim_start_matches_def trim_end_matches_def)
qed (simp add: trim_def trim_matches_def trim_start_matches_def trim_end_matches_def)

text \<open>\<open>strip_prefix\<close>, \<open>starts_with\<close>, \<open>split\<close> on a character, \<open>contains\<close>.\<close>

definition strip_prefix :: "ustr \<Rightarrow> ustr \<Rightarrow> ustr option" where
  "strip_prefix p s = (if take (length p) s = p then Some (drop (length p) s) else None)"

definition starts_with :: "ustr \<Rightarrow> ustr \<Rightarrow> bool" where
  "starts_with p s = (take (length p) s = p)"

definition strip_suffix :: "ustr \<Rightarrow> ustr \<Rightarrow> ustr option" where
  "strip_suffix p s = map_option rev (strip_prefix (rev p) (rev s))"

fun contains :: "ustr \<Rightarrow> ustr \<Rightarrow> bool" where
  "contains p [] = (p = [])"
| "contains p (c # s) = (starts_with p (c # s) \<or> contains p s)"

fun split_on :: "uchar \<Rightarrow> ustr \<Rightarrow> ustr list" where
  "split_on d [] = [[]]"
| "split_on d (c # s) =
     (if c = d then [] # split_on d s
      else (case split_on d s of [] \<Rightarrow> [[c]] | w # ws \<Rightarrow> (c # w) # ws))"

lemma split_on_ne [simp]: "split_on d s \<noteq> []"
  by (cases s) (auto split: list.splits)

lemma split_on_no_sep: "d \<notin> set s \<Longrightarrow> split_on d s = [s]"
  by (induction s) auto

lemma split_on_append: "d \<notin> set s \<Longrightarrow> split_on d (s @ d # t) = s # split_on d t"
  by (induction s) auto

lemma strip_prefix_append [simp]: "strip_prefix p (p @ s) = Some s"
  by (simp add: strip_prefix_def)

lemma strip_prefix_Some: "strip_prefix p s = Some r \<longleftrightarrow> s = p @ r"
  by (auto simp: strip_prefix_def split: if_splits) (metis append_take_drop_id)

text \<open>The text between runs of separators (\<open>split_whitespace\<close>).\<close>

fun split_ws :: "ustr \<Rightarrow> ustr \<Rightarrow> ustr list" where
  "split_ws w [] = (if w = [] then [] else [rev w])"
| "split_ws w (c # s) =
     (if is_whitespace c then (if w = [] then split_ws [] s else rev w # split_ws [] s)
      else split_ws (c # w) s)"

definition split_whitespace :: "ustr \<Rightarrow> ustr list" where
  "split_whitespace = split_ws []"

text \<open>\<open>rsplit_once\<close>: split at the last occurrence of a character.\<close>

definition rsplit_once :: "uchar \<Rightarrow> ustr \<Rightarrow> (ustr \<times> ustr) option" where
  "rsplit_once d s =
     (if d \<in> set s
      then Some (rev (tl (dropWhile (\<lambda>c. c \<noteq> d) (rev s))), rev (takeWhile (\<lambda>c. c \<noteq> d) (rev s)))
      else None)"

text \<open>\<open>split_once\<close>: split at the first occurrence of a character; \<open>find\<close> and \<open>split_once\<close> for a text.\<close>

definition split_once :: "uchar \<Rightarrow> ustr \<Rightarrow> (ustr \<times> ustr) option" where
  "split_once d s =
     (if d \<in> set s then Some (takeWhile (\<lambda>c. c \<noteq> d) s, tl (dropWhile (\<lambda>c. c \<noteq> d) s)) else None)"

lemma split_once_append [simp]: "d \<notin> set s \<Longrightarrow> split_once d (s @ d # t) = Some (s, t)"
  by (auto simp: split_once_def takeWhile_append dropWhile_append)

lemma split_once_Some:
  assumes "split_once d s = Some (a, b)"
  shows "s = a @ d # b" "d \<notin> set a"
proof -
  from assms have "d \<in> set s" by (simp add: split_once_def split: if_splits)
  then obtain ys zs where "s = ys @ d # zs" "d \<notin> set ys" by (auto dest: split_list_first)
  with assms show "s = a @ d # b" "d \<notin> set a" by simp_all
qed

fun split_at_text :: "ustr \<Rightarrow> ustr \<Rightarrow> (ustr \<times> ustr) option" where
  "split_at_text p [] = (if p = [] then Some ([], []) else None)"
| "split_at_text p (c # s) =
     (case strip_prefix p (c # s) of
        Some r \<Rightarrow> Some ([], r)
      | None \<Rightarrow> map_option (\<lambda>(a, b). (c # a, b)) (split_at_text p s))"

lemma split_at_text_Some: "split_at_text p s = Some (a, b) \<Longrightarrow> s = a @ p @ b"
  by (induction s arbitrary: a) (auto simp: strip_prefix_Some split: option.splits if_splits)

text \<open>\<open>str::lines\<close>: split at line feeds, without a carriage return in front of one and without the empty piece
  behind the last one.\<close>

definition strip_cr :: "ustr \<Rightarrow> ustr" where
  "strip_cr l = (case strip_suffix [13] l of Some r \<Rightarrow> r | None \<Rightarrow> l)"

definition str_lines :: "ustr \<Rightarrow> ustr list" where
  "str_lines s =
     (let ps = split_on 10 s in map strip_cr (butlast ps) @ (if last ps = [] then [] else [last ps]))"

section \<open>Machine integers and decimal text\<close>

type_synonym i64 = "64 word"
type_synonym u64 = "64 word"
type_synonym u8 = "8 word"

text \<open>\<open>format!("{n}")\<close> for an unsigned number.\<close>

fun dec :: "nat \<Rightarrow> ustr" where
  "dec n = (if n < 10 then [48 + n] else dec (n div 10) @ [48 + n mod 10])"

declare dec.simps [simp del]

definition digits_value :: "ustr \<Rightarrow> nat" where
  "digits_value s = foldl (\<lambda>v c. 10 * v + (c - 48)) 0 s"

text \<open>\<open>str::parse\<close> for an unsigned type with the given number of values: an optional plus
  sign, at least one digit, and a value that fits.\<close>

definition parse_unsigned :: "nat \<Rightarrow> ustr \<Rightarrow> nat option" where
  "parse_unsigned bound s =
     (let ds = (case s of c # r \<Rightarrow> if c = 43 then r else s | [] \<Rightarrow> [])
      in if ds \<noteq> [] \<and> list_all is_ascii_digit ds \<and> digits_value ds < bound
         then Some (digits_value ds) else None)"

definition parse_u64 :: "ustr \<Rightarrow> nat option" where
  "parse_u64 = parse_unsigned (2 ^ 64)"

lemma dec_digits: "list_all is_ascii_digit (dec n)"
proof (induction n rule: dec.induct)
  case (1 n)
  then show ?case
    by (cases "n < 10") (simp_all add: dec.simps [of n] is_ascii_digit_def)
qed

lemma dec_ne [simp]: "dec n \<noteq> []"
  by (subst dec.simps) simp

lemma digits_value_snoc [simp]: "digits_value (s @ [c]) = 10 * digits_value s + (c - 48)"
  by (simp add: digits_value_def)

lemma digits_value_dec [simp]: "digits_value (dec n) = n"
proof (induction n rule: dec.induct)
  case (1 n)
  show ?case
  proof (cases "n < 10")
    case True
    then show ?thesis by (subst dec.simps) (simp add: digits_value_def)
  next
    case False
    with 1 show ?thesis by (subst dec.simps) simp
  qed
qed

lemma dec_no_plus: "hd (dec n) \<noteq> 43"
proof -
  have "hd (dec n) \<in> set (dec n)" by (rule hd_in_set) simp
  then have "is_ascii_digit (hd (dec n))" using dec_digits [of n] by (simp add: list_all_iff)
  then show ?thesis by (auto simp: is_ascii_digit_def)
qed

lemma parse_dec:
  assumes "n < b"
  shows "parse_unsigned b (dec n) = Some n"
proof -
  have "(case dec n of c # r \<Rightarrow> if c = 43 then r else dec n | [] \<Rightarrow> []) = dec n"
    using dec_no_plus [of n] dec_ne [of n] by (cases "dec n") auto
  with assms dec_digits [of n] show ?thesis
    by (simp add: parse_unsigned_def)
qed

section \<open>Floating point values\<close>

text \<open>
  An \<open>f64\<close> as far as the code looks at it without rounding: a finite value is the rational it
  denotes; \<open>is_finite\<close> and the comparisons are exact on those.
\<close>

datatype f64 = Fin rat | PosInf | NegInf | NaN

fun f64_is_finite :: "f64 \<Rightarrow> bool" where
  "f64_is_finite (Fin _) = True"
| "f64_is_finite _ = False"

fun f64_in_unit :: "f64 \<Rightarrow> bool" where
  "f64_in_unit (Fin q) = (0 \<le> q \<and> q \<le> 1)"
| "f64_in_unit _ = False"

section \<open>Hash maps\<close>

text \<open>
  A \<open>HashMap\<close> is an association list with distinct keys. Its order is the order in which an
  iterator walks the table, which the standard library leaves open: the step relations that use
  one allow it to be permuted at any time.
\<close>

type_synonym ('k, 'v) hmap = "('k \<times> 'v) list"

abbreviation hget :: "('k, 'v) hmap \<Rightarrow> 'k \<Rightarrow> 'v option" where
  "hget m k \<equiv> map_of m k"

abbreviation hkeys :: "('k, 'v) hmap \<Rightarrow> 'k list" where
  "hkeys m \<equiv> map fst m"

definition hput :: "'k \<Rightarrow> 'v \<Rightarrow> ('k, 'v) hmap \<Rightarrow> ('k, 'v) hmap" where
  "hput k v m = AList.update k v m"

definition hdel :: "'k \<Rightarrow> ('k, 'v) hmap \<Rightarrow> ('k, 'v) hmap" where
  "hdel k m = filter (\<lambda>(k', _). k' \<noteq> k) m"

definition hwf :: "('k, 'v) hmap \<Rightarrow> bool" where
  "hwf m = distinct (hkeys m)"

lemma hput_Nil [simp]: "hput k v [] = [(k, v)]"
  by (simp add: hput_def)

lemma hput_Cons [simp]:
  "hput k v ((k', v') # m) = (if k' = k then (k, v) # m else (k', v') # hput k v m)"
  by (simp add: hput_def)

lemma hdel_Nil [simp]: "hdel k [] = []"
  by (simp add: hdel_def)

lemma hdel_Cons [simp]:
  "hdel k ((k', v') # m) = (if k' = k then hdel k m else (k', v') # hdel k m)"
  by (simp add: hdel_def)

lemma hget_hput [simp]: "hget (hput k v m) k' = (if k' = k then Some v else hget m k')"
  by (simp add: hput_def update_conv')

lemma hget_hdel [simp]: "hget (hdel k m) k' = (if k' = k then None else hget m k')"
  by (induction m) auto

lemma set_hkeys_hput [simp]: "set (hkeys (hput k v m)) = insert k (set (hkeys m))"
proof (induction m)
  case (Cons p m)
  then show ?case by (cases p) (simp add: insert_commute)
qed simp

lemma set_hkeys_hdel [simp]: "set (hkeys (hdel k m)) = set (hkeys m) - {k}"
  by (auto simp: hdel_def image_iff)

lemma hwf_Nil [simp]: "hwf []"
  by (simp add: hwf_def)

lemma hwf_hput [simp]: "hwf m \<Longrightarrow> hwf (hput k v m)"
  by (simp add: hwf_def hput_def distinct_update)

lemma hwf_hdel [simp]: "hwf m \<Longrightarrow> hwf (hdel k m)"
  by (simp add: hwf_def hdel_def distinct_map_filter)

lemma set_hput: "set (hput k v m) \<subseteq> insert (k, v) (set m)"
  by (induction m) (auto split: if_splits)

lemma set_hdel: "set (hdel k m) \<subseteq> set m"
  by (auto simp: hdel_def)

lemma length_hput: "length (hput k v m) = (if k \<in> set (hkeys m) then length m else Suc (length m))"
proof (induction m)
  case (Cons p m)
  then show ?case by (cases p) simp
qed simp

lemma hdel_absent: "k \<notin> set (hkeys m) \<Longrightarrow> hdel k m = m"
  by (induction m) (auto simp: hdel_def)

lemma length_hdel:
  assumes "hwf m" and "k \<in> set (hkeys m)"
  shows "Suc (length (hdel k m)) = length m"
proof -
  obtain v m1 m2 where m: "m = m1 @ (k, v) # m2"
    using assms(2) by (auto dest!: split_list)
  with assms(1) have "hdel k m1 = m1" "hdel k m2 = m2"
    by (auto simp: hwf_def intro!: hdel_absent)
  with m show ?thesis by (simp add: hdel_def)
qed

lemma length_hdel_le: "length (hdel k m) \<le> length m"
  by (simp add: hdel_def)

lemma hget_in_set: "hget m k = Some v \<Longrightarrow> (k, v) \<in> set m"
  by (rule map_of_SomeD)

lemma hget_mem_keys: "hget m k = Some v \<Longrightarrow> k \<in> set (hkeys m)"
  by (induction m) (auto split: if_splits)

lemma hget_eq_None: "hget m k = None \<longleftrightarrow> k \<notin> set (hkeys m)"
  by (simp add: map_of_eq_None_iff)

text \<open>All values of a table satisfy a predicate.\<close>

definition hall :: "('v \<Rightarrow> bool) \<Rightarrow> ('k, 'v) hmap \<Rightarrow> bool" where
  "hall P m = list_all (\<lambda>(_, v). P v) m"

lemma hall_Nil [simp]: "hall P []"
  by (simp add: hall_def)

lemma hall_Cons [simp]: "hall P ((k, v) # m) \<longleftrightarrow> P v \<and> hall P m"
  by (simp add: hall_def)

lemma hall_hput [intro]: "hall P m \<Longrightarrow> P v \<Longrightarrow> hall P (hput k v m)"
  using set_hput [of k v m] by (auto simp: hall_def list_all_iff)

lemma hall_hdel [intro]: "hall P m \<Longrightarrow> hall P (hdel k m)"
  using set_hdel [of k m] by (auto simp: hall_def list_all_iff)

lemma hall_hget: "hall P m \<Longrightarrow> hget m k = Some v \<Longrightarrow> P v"
  by (auto simp: hall_def list_all_iff dest: hget_in_set)

lemma hall_mset: "mset m' = mset m \<Longrightarrow> hall P m' = hall P m"
  by (simp add: hall_def list_all_iff flip: set_mset_mset)

lemma hwf_mset: "mset m' = mset m \<Longrightarrow> hwf m' = hwf m"
  by (metis hwf_def mset_eq_imp_distinct_iff mset_map)

lemma hget_mset: "mset m' = mset m \<Longrightarrow> hwf m \<Longrightarrow> hget m' k = hget m k"
  by (metis hwf_def hwf_mset map_of_eqI map_of_eq_None_iff map_of_inject_set mset_eq_setD)

section \<open>Reachable states and invariants\<close>

inductive reachable :: "('s \<Rightarrow> bool) \<Rightarrow> ('s \<Rightarrow> 's \<Rightarrow> bool) \<Rightarrow> 's \<Rightarrow> bool"
  for init :: "'s \<Rightarrow> bool" and step :: "'s \<Rightarrow> 's \<Rightarrow> bool" where
  reachable_init: "init s \<Longrightarrow> reachable init step s"
| reachable_step: "reachable init step s \<Longrightarrow> step s t \<Longrightarrow> reachable init step t"

text \<open>The contract of a state machine with an invariant: it holds at the start and every step
  keeps it. Everything reachable then satisfies it.\<close>

locale invariant =
  fixes init :: "'s \<Rightarrow> bool"
    and step :: "'s \<Rightarrow> 's \<Rightarrow> bool"
    and inv :: "'s \<Rightarrow> bool"
  assumes inv_init: "init s \<Longrightarrow> inv s"
    and inv_step: "inv s \<Longrightarrow> step s t \<Longrightarrow> inv t"
begin

lemma inv_reachable: "reachable init step s \<Longrightarrow> inv s"
  by (induction rule: reachable.induct) (auto intro: inv_init inv_step)

lemma inv_rtranclp: "step\<^sup>*\<^sup>* s t \<Longrightarrow> inv s \<Longrightarrow> inv t"
  by (induction rule: rtranclp_induct) (auto intro: inv_step)

end

end
