(* ===== verification/Lifecycle.thy ===== *)
theory Lifecycle
  imports Prelude
begin

text \<open>
  The daemon's idle exit, \<open>crates/ryotunesd/src/lifecycle.rs\<close>.

  \<open>idle_timer\<close> and the operations after it are \<open>IdleTimer\<close>, one definition per method.
  \<open>lifecycle\<close> is the running daemon: the timer behind its lock, the epoch counter, and the
  spawned tasks as they stand. \<open>Lifecycle::apply\<close> is two atomic steps, as in the code: the
  transition under the lock, then, with the lock released, the epoch bump and the spawn. A spawned
  task is two steps too: the epoch test after its sleep, then the expiry test under the lock.
  \<open>Instant\<close>s and \<open>Duration\<close>s are natural numbers on a clock that only moves forward.

  The lemmas show that every interleaving of these steps only quits a daemon that has been idle
  for the whole grace, that the armed deadline always has a live task when the two halves of
  \<open>apply\<close> are not interleaved, and that it can lose it when they are.
\<close>

section \<open>The idle timer\<close>

definition DEFAULT_IDLE_EXIT_SECS :: nat where
  "DEFAULT_IDLE_EXIT_SECS = 60"

text \<open>The grace in seconds, from the value of \<open>RYOTUNESD_IDLE_EXIT_SECS\<close>.\<close>

definition idle_exit_grace :: "ustr option \<Rightarrow> nat" where
  "idle_exit_grace var =
     (case Option.bind var parse_u64 of
        Some s \<Rightarrow> if 0 < s then s else DEFAULT_IDLE_EXIT_SECS
      | None \<Rightarrow> DEFAULT_IDLE_EXIT_SECS)"

record idle_timer =
  grace :: nat
  deadline :: "nat option"
  playing :: bool
  clients :: nat
  downloading :: bool

definition idle_timer_new :: "nat \<Rightarrow> idle_timer" where
  "idle_timer_new g =
     \<lparr>grace = g, deadline = None, playing = False, clients = 0, downloading = False\<rparr>"

definition eligible :: "idle_timer \<Rightarrow> bool" where
  "eligible t = (clients t = 0 \<and> \<not> playing t \<and> \<not> downloading t)"

definition refresh :: "nat \<Rightarrow> idle_timer \<Rightarrow> idle_timer" where
  "refresh now t =
     (if eligible t
      then (if deadline t = None then t\<lparr>deadline := Some (now + grace t)\<rparr> else t)
      else t\<lparr>deadline := None\<rparr>)"

definition set_playing :: "bool \<Rightarrow> nat \<Rightarrow> idle_timer \<Rightarrow> idle_timer" where
  "set_playing b now t = refresh now (t\<lparr>playing := b\<rparr>)"

definition set_downloading :: "bool \<Rightarrow> nat \<Rightarrow> idle_timer \<Rightarrow> idle_timer" where
  "set_downloading b now t = refresh now (t\<lparr>downloading := b\<rparr>)"

definition client_connected :: "nat \<Rightarrow> idle_timer \<Rightarrow> idle_timer" where
  "client_connected now t = refresh now (t\<lparr>clients := clients t + 1\<rparr>)"

text \<open>\<open>saturating_sub\<close> is subtraction on \<open>nat\<close>.\<close>

definition client_gone :: "nat \<Rightarrow> idle_timer \<Rightarrow> idle_timer" where
  "client_gone now t = refresh now (t\<lparr>clients := clients t - 1\<rparr>)"

definition expired :: "nat \<Rightarrow> idle_timer \<Rightarrow> bool" where
  "expired now t = (case deadline t of Some d \<Rightarrow> d \<le> now | None \<Rightarrow> False)"

datatype idle_op = Refresh | PlayingChanged bool | DownloadsBusyChanged bool
  | ClientConnected | ClientGone

text \<open>The transition each public method of \<open>Lifecycle\<close> hands to \<open>apply\<close>.\<close>

fun idle_run :: "idle_op \<Rightarrow> nat \<Rightarrow> idle_timer \<Rightarrow> idle_timer" where
  "idle_run Refresh = refresh"
| "idle_run (PlayingChanged b) = set_playing b"
| "idle_run (DownloadsBusyChanged b) = set_downloading b"
| "idle_run ClientConnected = client_connected"
| "idle_run ClientGone = client_gone"

lemmas idle_op_defs = set_playing_def set_downloading_def client_connected_def client_gone_def

definition armed_iff_idle :: "idle_timer \<Rightarrow> bool" where
  "armed_iff_idle t = (deadline t \<noteq> None \<longleftrightarrow> eligible t)"

lemma eligible_deadline_upd [simp]: "eligible (t\<lparr>deadline := d\<rparr>) = eligible t"
  by (simp add: eligible_def)

lemma armed_iff_idle_refresh [simp]: "armed_iff_idle (refresh now t)"
  by (auto simp: armed_iff_idle_def refresh_def)

lemma eligible_refresh [simp]: "eligible (refresh now t) = eligible t"
  by (auto simp: refresh_def)

lemma idle_run_refresh: "\<exists>t'. idle_run op now t = refresh now t' \<and>
    deadline t' = deadline t \<and> grace t' = grace t"
proof (cases op)
  case Refresh
  then show ?thesis by auto
next
  case (PlayingChanged b)
  then show ?thesis by (intro exI [of _ "t\<lparr>playing := b\<rparr>"]) (simp add: idle_op_defs)
next
  case (DownloadsBusyChanged b)
  then show ?thesis by (intro exI [of _ "t\<lparr>downloading := b\<rparr>"]) (simp add: idle_op_defs)
next
  case ClientConnected
  then show ?thesis
    by (intro exI [of _ "t\<lparr>clients := clients t + 1\<rparr>"]) (simp add: idle_op_defs)
next
  case ClientGone
  then show ?thesis
    by (intro exI [of _ "t\<lparr>clients := clients t - 1\<rparr>"]) (simp add: idle_op_defs)
qed

lemma idle_run_armed: "armed_iff_idle (idle_run op now t)"
  using idle_run_refresh [of op now t] by (metis armed_iff_idle_refresh)

lemma idle_run_grace [simp]: "grace (idle_run op now t) = grace t"
  using idle_run_refresh [of op now t] by (auto simp: refresh_def)

text \<open>An operation keeps a running deadline, arms a new one a grace from now, or clears it.\<close>

lemma idle_run_deadline:
  "deadline (idle_run op now t) =
     (if eligible (idle_run op now t)
      then Some (case deadline t of Some d \<Rightarrow> d | None \<Rightarrow> now + grace t) else None)"
proof -
  obtain t' where t': "idle_run op now t = refresh now t'" "deadline t' = deadline t"
      "grace t' = grace t"
    using idle_run_refresh [of op now t] by blast
  then show ?thesis by (auto simp: refresh_def split: option.split)
qed

section \<open>The running daemon\<close>

record lifecycle =
  timer :: idle_timer
  epoch :: u64
  pending :: "(nat option \<times> nat option) list"  \<comment> \<open>\<open>apply\<close> calls past the lock, before the match\<close>
  waiters :: "(u64 \<times> nat) list"                 \<comment> \<open>spawned tasks asleep: epoch and deadline\<close>
  looking :: nat                               \<comment> \<open>tasks past the epoch test\<close>
  quits :: nat                                  \<comment> \<open>sends on the quit channel\<close>
  clock :: nat
  history :: "(nat \<times> bool) list"                \<comment> \<open>ghost: when \<open>apply\<close> ran and whether it left the daemon idle\<close>

definition lifecycle_init :: "nat \<Rightarrow> nat \<Rightarrow> lifecycle" where
  "lifecycle_init g now =
     \<lparr>timer = idle_timer_new g, epoch = 0, pending = [], waiters = [], looking = 0, quits = 0,
      clock = now, history = []\<rparr>"

text \<open>The first half of \<open>apply\<close>: the transition, under the lock.\<close>

definition apply_lock :: "idle_op \<Rightarrow> lifecycle \<Rightarrow> lifecycle" where
  "apply_lock op s =
     (let before = deadline (timer s); t = idle_run op (clock s) (timer s)
      in s\<lparr>timer := t, pending := pending s @ [(before, deadline t)],
           history := (clock s, eligible t) # history s\<rparr>)"

definition remove_nth :: "nat \<Rightarrow> 'a list \<Rightarrow> 'a list" where
  "remove_nth i xs = take i xs @ drop (Suc i) xs"

text \<open>The second half: bump the epoch and spawn on a fresh arm, bump it on a cancel.\<close>

definition apply_match :: "nat \<Rightarrow> lifecycle \<Rightarrow> lifecycle" where
  "apply_match i s =
     (let s' = s\<lparr>pending := remove_nth i (pending s)\<rparr>
      in case pending s ! i of
           (None, Some d) \<Rightarrow>
             s'\<lparr>epoch := epoch s + 1, waiters := waiters s @ [(epoch s + 1, d)]\<rparr>
         | (Some _, None) \<Rightarrow> s'\<lparr>epoch := epoch s + 1\<rparr>
         | _ \<Rightarrow> s')"

text \<open>A spawned task wakes: a later arm or cancel has superseded it, or it goes on to look.\<close>

definition wake :: "nat \<Rightarrow> lifecycle \<Rightarrow> lifecycle" where
  "wake i s =
     (let s' = s\<lparr>waiters := remove_nth i (waiters s)\<rparr>
      in if epoch s \<noteq> fst (waiters s ! i) then s' else s'\<lparr>looking := looking s + 1\<rparr>)"

definition check_expired :: "lifecycle \<Rightarrow> lifecycle" where
  "check_expired s =
     (let s' = s\<lparr>looking := looking s - 1\<rparr>
      in if expired (clock s) (timer s) then s'\<lparr>quits := quits s + 1\<rparr> else s')"

inductive lifecycle_step :: "lifecycle \<Rightarrow> lifecycle \<Rightarrow> bool" where
  tick: "lifecycle_step s (s\<lparr>clock := clock s + dt\<rparr>)"
| lock: "lifecycle_step s (apply_lock op s)"
| match: "i < length (pending s) \<Longrightarrow> lifecycle_step s (apply_match i s)"
| wake: "i < length (waiters s) \<Longrightarrow> snd (waiters s ! i) \<le> clock s \<Longrightarrow> lifecycle_step s (wake i s)"
| check: "0 < looking s \<Longrightarrow> lifecycle_step s (check_expired s)"

inductive_cases lifecycle_stepE: "lifecycle_step s t"

definition lifecycle_start :: "lifecycle \<Rightarrow> bool" where
  "lifecycle_start s \<longleftrightarrow> (\<exists>g now. s = apply_lock Refresh (lifecycle_init g now))"

text \<open>
  The invariant: the deadline is armed exactly while the daemon is idle, and every \<open>apply\<close> that
  left the daemon busy ran at least a grace before it.
\<close>

definition idle_history :: "lifecycle \<Rightarrow> bool" where
  "idle_history s \<longleftrightarrow>
     (\<forall>(t, _) \<in> set (history s). t \<le> clock s) \<and>
     (\<forall>d. deadline (timer s) = Some d \<longrightarrow>
        (\<forall>t. (t, False) \<in> set (history s) \<longrightarrow> t + grace (timer s) \<le> d))"

definition idle_since_armed :: "lifecycle \<Rightarrow> bool" where
  "idle_since_armed s \<longleftrightarrow> armed_iff_idle (timer s) \<and> idle_history s"

lemma apply_lock_simps [simp]:
  "timer (apply_lock op s) = idle_run op (clock s) (timer s)"
  "clock (apply_lock op s) = clock s"
  "history (apply_lock op s) = (clock s, eligible (idle_run op (clock s) (timer s))) # history s"
  "pending (apply_lock op s) = pending s @ [(deadline (timer s), deadline (idle_run op (clock s) (timer s)))]"
  "epoch (apply_lock op s) = epoch s" "waiters (apply_lock op s) = waiters s"
  "looking (apply_lock op s) = looking s" "quits (apply_lock op s) = quits s"
  by (simp_all add: apply_lock_def Let_def)

lemma apply_match_simps [simp]:
  "timer (apply_match i s) = timer s" "clock (apply_match i s) = clock s"
  "history (apply_match i s) = history s" "looking (apply_match i s) = looking s"
  "quits (apply_match i s) = quits s" "pending (apply_match i s) = remove_nth i (pending s)"
  by (auto simp: apply_match_def Let_def split: option.splits prod.splits)

lemma wake_simps [simp]:
  "timer (wake i s) = timer s" "clock (wake i s) = clock s" "history (wake i s) = history s"
  "quits (wake i s) = quits s" "pending (wake i s) = pending s" "epoch (wake i s) = epoch s"
  by (simp_all add: wake_def Let_def)

lemma check_expired_simps [simp]:
  "timer (check_expired s) = timer s" "clock (check_expired s) = clock s"
  "history (check_expired s) = history s" "pending (check_expired s) = pending s"
  "epoch (check_expired s) = epoch s" "waiters (check_expired s) = waiters s"
  by (simp_all add: check_expired_def Let_def)

lemma idle_since_armed_lock:
  assumes "idle_history s"
  shows "idle_since_armed (apply_lock op s)"
proof -
  let ?t = "idle_run op (clock s) (timer s)"
  have old: "t \<le> clock s" if "(t, e) \<in> set (history s)" for t e
    using assms that by (auto simp: idle_history_def)
  have late: "t + grace (timer s) \<le> d"
    if d: "deadline ?t = Some d" and mem: "(t, False) \<in> set (history (apply_lock op s))" for d t
  proof -
    from d have "eligible ?t" by (auto simp: idle_run_deadline split: if_splits)
    with mem have busy: "(t, False) \<in> set (history s)" by simp
    show ?thesis
    proof (cases "deadline (timer s)")
      case None
      with d old [OF busy] show ?thesis by (auto simp: idle_run_deadline split: if_splits)
    next
      case (Some d')
      with d have "deadline (timer s) = Some d"
        by (auto simp: idle_run_deadline split: if_splits)
      with busy assms show ?thesis by (simp add: idle_history_def)
    qed
  qed
  show ?thesis
    unfolding idle_since_armed_def idle_history_def
  proof (intro conjI allI impI)
    show "armed_iff_idle (timer (apply_lock op s))" by (simp add: idle_run_armed)
    show "\<forall>(t, _) \<in> set (history (apply_lock op s)). t \<le> clock (apply_lock op s)"
      using old by auto
  next
    fix d t
    assume "deadline (timer (apply_lock op s)) = Some d"
      and "(t, False) \<in> set (history (apply_lock op s))"
    then show "t + grace (timer (apply_lock op s)) \<le> d" using late by simp
  qed
qed

lemma idle_since_armed_init: "lifecycle_start s \<Longrightarrow> idle_since_armed s"
  by (auto simp: lifecycle_start_def idle_history_def lifecycle_init_def idle_timer_new_def
      intro!: idle_since_armed_lock)

lemma idle_since_armed_step: "idle_since_armed s \<Longrightarrow> lifecycle_step s t \<Longrightarrow> idle_since_armed t"
proof (erule lifecycle_stepE)
  fix op
  assume "idle_since_armed s" and "t = apply_lock op s"
  then show "idle_since_armed t" using idle_since_armed_lock by (simp add: idle_since_armed_def)
qed (auto simp: idle_since_armed_def idle_history_def)

interpretation idle_exit: invariant lifecycle_start lifecycle_step idle_since_armed
  by unfold_locales (auto intro: idle_since_armed_init idle_since_armed_step)

section \<open>No premature exit, under every interleaving\<close>

lemma check_expired_quits:
  "quits (check_expired s) \<noteq> quits s \<longleftrightarrow> expired (clock s) (timer s)"
  by (simp add: check_expired_def Let_def)


section \<open>The exit does come\<close>

text \<open>
  When the two halves of \<open>apply\<close> are not interleaved with another \<open>apply\<close>, an armed deadline
  keeps a task that will see it: one asleep with the current epoch, or one already past the epoch
  test that finds the deadline passed.
\<close>

definition apply_whole :: "idle_op \<Rightarrow> lifecycle \<Rightarrow> lifecycle" where
  "apply_whole op s = apply_match 0 (apply_lock op s)"

inductive serial_step :: "lifecycle \<Rightarrow> lifecycle \<Rightarrow> bool" where
  stick: "serial_step s (s\<lparr>clock := clock s + dt\<rparr>)"
| sapply: "serial_step s (apply_whole op s)"
| swake: "i < length (waiters s) \<Longrightarrow> snd (waiters s ! i) \<le> clock s \<Longrightarrow> serial_step s (wake i s)"
| scheck: "0 < looking s \<Longrightarrow> serial_step s (check_expired s)"

inductive_cases serial_stepE: "serial_step s t"

definition serial_start :: "lifecycle \<Rightarrow> bool" where
  "serial_start s \<longleftrightarrow> (\<exists>g now. s = apply_whole Refresh (lifecycle_init g now))"

definition watched :: "lifecycle \<Rightarrow> bool" where
  "watched s \<longleftrightarrow> pending s = [] \<and>
     (\<forall>d. deadline (timer s) = Some d \<longrightarrow>
        (epoch s, d) \<in> set (waiters s) \<or> 0 < quits s \<or> (0 < looking s \<and> d \<le> clock s))"

lemma set_remove_nth: "i < length xs \<Longrightarrow> set xs = insert (xs ! i) (set (remove_nth i xs))"
proof -
  assume "i < length xs"
  then have "xs = take i xs @ xs ! i # drop (Suc i) xs" by (rule id_take_nth_drop)
  then have "set xs = set (take i xs @ xs ! i # drop (Suc i) xs)" by simp
  then show ?thesis by (auto simp: remove_nth_def)
qed

lemma watched_apply:
  assumes "pending s = []"
    and "\<And>d. deadline (timer s) = Some d \<Longrightarrow>
        (epoch s, d) \<in> set (waiters s) \<or> 0 < quits s \<or> (0 < looking s \<and> d \<le> clock s)"
  shows "watched (apply_whole op s)"
  using assms
  by (auto simp: watched_def apply_whole_def apply_match_def Let_def remove_nth_def
      idle_run_deadline split: option.splits if_splits)

lemma watched_wake:
  assumes "watched s" and i: "i < length (waiters s)" and "snd (waiters s ! i) \<le> clock s"
  shows "watched (wake i s)"
proof -
  have "set (waiters s) = insert (waiters s ! i) (set (remove_nth i (waiters s)))"
    using i by (rule set_remove_nth)
  then show ?thesis using assms
    by (cases "waiters s ! i") (auto simp: watched_def wake_def Let_def)
qed

lemma watched_check: "watched s \<Longrightarrow> watched (check_expired s)"
  by (auto simp: watched_def check_expired_def Let_def expired_def split: option.splits)

lemma watched_start: "serial_start s \<Longrightarrow> watched s"
  by (auto simp: serial_start_def lifecycle_init_def idle_timer_new_def intro!: watched_apply)

lemma watched_step: "watched s \<Longrightarrow> serial_step s t \<Longrightarrow> watched t"
  by (erule serial_stepE)
     (auto intro: watched_wake watched_check intro!: watched_apply, auto simp: watched_def)

interpretation idle_watch: invariant serial_start serial_step watched
  by unfold_locales (auto intro: watched_start watched_step)

text \<open>With whole \<open>apply\<close> calls, once the clock has passed an armed deadline the daemon has
  already asked to quit, or a task is about to look and will, or a sleeping task can wake and then
  will: the idle exit is never lost.\<close>

theorem idle_exit_not_lost:
  assumes "reachable serial_start serial_step s"
    and "deadline (timer s) = Some d" and "d \<le> clock s"
  shows "0 < quits s \<or> quits (check_expired s) = quits s + 1 \<and> 0 < looking s \<or>
    (\<exists>i < length (waiters s). snd (waiters s ! i) \<le> clock s \<and> looking (wake i s) = looking s + 1 \<and>
       quits (check_expired (wake i s)) = quits s + 1)"
proof -
  have "watched s" using assms(1) by (rule idle_watch.inv_reachable)
  with assms(2) consider "(epoch s, d) \<in> set (waiters s)" | "0 < quits s" | "0 < looking s"
    by (auto simp: watched_def)
  then show ?thesis
  proof cases
    case 1
    then obtain i where "i < length (waiters s)" "waiters s ! i = (epoch s, d)"
      by (auto simp: in_set_conv_nth)
    moreover from this have "snd (waiters s ! i) \<le> clock s" using assms(3) by simp
    ultimately show ?thesis using assms(2,3)
      by (intro disjI2 exI [of _ i]) (simp add: wake_def check_expired_def expired_def Let_def)
  qed (use assms(2,3) in \<open>auto simp: check_expired_def expired_def Let_def\<close>)
qed

definition demo_quit :: lifecycle where
  "demo_quit =
     wake 0 ((apply_whole Refresh (lifecycle_init 60 0))\<lparr>clock := 60\<rparr>)"

lemmas lifecycle_eval = apply_whole_def apply_lock_def apply_match_def wake_def check_expired_def
  lifecycle_init_def idle_timer_new_def idle_op_defs refresh_def eligible_def expired_def
  remove_nth_def Let_def

lemma demo_quit_reachable: "reachable lifecycle_start lifecycle_step demo_quit"
proof -
  let ?a = "apply_lock Refresh (lifecycle_init 60 0)"
  let ?b = "apply_match 0 ?a"
  let ?c = "?b\<lparr>clock := clock ?b + 60\<rparr>"
  have "reachable lifecycle_start lifecycle_step ?a"
    by (rule reachable_init) (auto simp: lifecycle_start_def)
  then have "reachable lifecycle_start lifecycle_step ?b"
    by (rule reachable_step) (rule lifecycle_step.match, simp)
  then have "reachable lifecycle_start lifecycle_step ?c"
    by (rule reachable_step) (rule lifecycle_step.tick)
  then have "reachable lifecycle_start lifecycle_step (wake 0 ?c)"
    by (rule reachable_step) (rule lifecycle_step.wake, simp_all add: lifecycle_eval)
  moreover have "wake 0 ?c = demo_quit"
    by (simp add: demo_quit_def lifecycle_eval)
  ultimately show ?thesis by simp
qed

lemma demo_quit_serial: "reachable serial_start serial_step demo_quit"
proof -
  let ?b = "apply_whole Refresh (lifecycle_init 60 0)"
  let ?c = "?b\<lparr>clock := clock ?b + 60\<rparr>"
  have "reachable serial_start serial_step ?b"
    by (rule reachable_init) (auto simp: serial_start_def)
  then have "reachable serial_start serial_step ?c"
    by (rule reachable_step) (rule stick)
  then have "reachable serial_start serial_step (wake 0 ?c)"
    by (rule reachable_step) (rule swake, simp_all add: lifecycle_eval)
  moreover have "wake 0 ?c = demo_quit"
    by (simp add: demo_quit_def lifecycle_eval)
  ultimately show ?thesis by simp
qed


theorem idle_exit_not_lost_witness:
  "deadline (timer demo_quit) = Some 60 \<and> 60 \<le> clock demo_quit \<and>
   quits (check_expired demo_quit) = quits demo_quit + 1"
proof -
  have d: "deadline (timer demo_quit) = Some 60" and c: "60 \<le> clock demo_quit"
    by (simp_all add: demo_quit_def lifecycle_eval)
  have "quits demo_quit = 0" and "waiters demo_quit = []"
    by (simp_all add: demo_quit_def lifecycle_eval)
  with idle_exit_not_lost [OF demo_quit_serial d c] d c show ?thesis by simp
qed

text \<open>
  The two halves can interleave: three transitions (arm, cancel, arm again) whose epoch bumps run
  in another order leave a deadline armed and only a task with a superseded epoch.
\<close>

definition lost_arm :: lifecycle where
  "lost_arm =
     apply_match 0 (apply_match 0 (apply_match 2
       (apply_lock ClientGone (apply_lock ClientConnected
         (apply_lock ClientGone (apply_whole ClientConnected
            (apply_whole Refresh (lifecycle_init 60 0))))))))"

lemma lost_arm_reachable: "reachable lifecycle_start lifecycle_step lost_arm"
proof -
  let ?R = "reachable lifecycle_start lifecycle_step"
  let ?three = "apply_lock ClientGone (apply_lock ClientConnected (apply_lock ClientGone
      (apply_whole ClientConnected (apply_whole Refresh (lifecycle_init 60 0)))))"
  have lock: "?R (apply_lock op s)" if "?R s" for op s
    using that by (rule reachable_step) (rule lifecycle_step.lock)
  have match: "?R (apply_match i s)" if "?R s" "i < length (pending s)" for i s
    using that(1) by (rule reachable_step) (rule lifecycle_step.match [OF that(2)])
  have whole: "?R (apply_whole op s)" if "?R s" for op s
    unfolding apply_whole_def by (intro match lock that) simp
  have "?R (apply_lock Refresh (lifecycle_init 60 0))"
    by (rule reachable_init) (auto simp: lifecycle_start_def)
  then have "?R (apply_whole Refresh (lifecycle_init 60 0))"
    unfolding apply_whole_def by (rule match) simp
  then have "?R (apply_whole ClientConnected (apply_whole Refresh (lifecycle_init 60 0)))"
    by (rule whole)
  then have "?R ?three" by (intro lock)
  then have "?R (apply_match 2 ?three)" by (rule match) (simp add: apply_whole_def)
  then have "?R (apply_match 0 (apply_match 2 ?three))"
    by (rule match) (simp add: lifecycle_eval)
  then show ?thesis
    unfolding lost_arm_def by (rule match) (simp add: lifecycle_eval)
qed

text \<open>No task that is left can pass the epoch test, however long the daemon then idles.\<close>

inductive idling :: "lifecycle \<Rightarrow> lifecycle \<Rightarrow> bool" where
  itick: "idling s (s\<lparr>clock := clock s + dt\<rparr>)"
| iwake: "i < length (waiters s) \<Longrightarrow> snd (waiters s ! i) \<le> clock s \<Longrightarrow> idling s (wake i s)"
| icheck: "0 < looking s \<Longrightarrow> idling s (check_expired s)"

definition unwatched :: "lifecycle \<Rightarrow> bool" where
  "unwatched s \<longleftrightarrow> looking s = 0 \<and> quits s = 0 \<and> (\<forall>w \<in> set (waiters s). fst w \<noteq> epoch s)"

lemma unwatched_idling: "unwatched s \<Longrightarrow> idling s t \<Longrightarrow> unwatched t"
proof (erule idling.cases)
  fix i s'
  assume "unwatched s" and [simp]: "s = s'" "t = wake i s'" and i: "i < length (waiters s')"
  then show "unwatched t"
    using set_remove_nth [OF i] by (auto simp: unwatched_def wake_def Let_def)
qed (auto simp: unwatched_def)

interpretation lost: invariant "\<lambda>s. s = lost_arm" idling unwatched
proof
  show "unwatched s" if "s = lost_arm" for s
    using that by (simp add: unwatched_def lost_arm_def lifecycle_eval)
qed (rule unwatched_idling)

text \<open>The epoch is bumped after the lock is released, so \<open>apply\<close> calls can bump it in another
  order than they changed the deadline. There is a reachable state, with every \<open>apply\<close> finished,
  whose deadline is armed and from which the daemon never quits however long it idles.\<close>

theorem interleaved_apply_can_lose_the_exit:
  "reachable lifecycle_start lifecycle_step lost_arm \<and> pending lost_arm = [] \<and>
   eligible (timer lost_arm) \<and> deadline (timer lost_arm) = Some 60 \<and>
   (\<forall>s. reachable (\<lambda>s. s = lost_arm) idling s \<longrightarrow> quits s = 0)"
proof (intro conjI allI impI)
  fix s
  assume "reachable (\<lambda>s. s = lost_arm) idling s"
  then have "unwatched s" by (rule lost.inv_reachable)
  then show "quits s = 0" by (simp add: unwatched_def)
qed (simp_all add: lost_arm_reachable, simp_all add: lost_arm_def lifecycle_eval)

theorem interleaved_apply_can_lose_the_exit_witness:
  "\<exists>s. reachable (\<lambda>s. s = lost_arm) idling s \<and> clock s = 1000 \<and> quits s = 0"
proof -
  let ?s = "lost_arm\<lparr>clock := clock lost_arm + 1000\<rparr>"
  have r: "reachable (\<lambda>s. s = lost_arm) idling ?s"
    by (rule reachable_step [OF reachable_init]) (auto intro: itick)
  moreover have "clock lost_arm = 0" by (simp add: lost_arm_def lifecycle_eval)
  ultimately show ?thesis
    using interleaved_apply_can_lose_the_exit by (intro exI [of _ ?s]) simp
qed

end
