(* ===== verification/Listen_Protocol.thy ===== *)
theory Listen_Protocol
  imports Prelude
begin

text \<open>
  The shared wire types of Listen Together, \<open>crates/listen-protocol/src/lib.rs\<close>: tracks, room
  state, playback actions and the messages of both directions, with \<open>live_position_ms\<close>, which
  extrapolates a room's position on 64-bit integers as the release build computes it (additions
  wrap). The JSON text of a message is serde's and is not modelled.
\<close>

record track =
  track_id :: ustr
  title :: ustr
  artist :: ustr
  thumbnail :: "ustr option"
  duration_ms :: i64
  queued_by :: "ustr option"

record user =
  user_id :: ustr
  username :: ustr
  is_host :: bool
  is_connected :: bool

record room_state =
  room_code :: ustr
  host_id :: ustr
  users :: "user list"
  current_track :: "track option"
  is_playing :: bool
  position_ms :: i64
  last_update_ms :: i64
  volume :: f64
  queue :: "track list"

definition live_position_ms :: "room_state \<Rightarrow> i64 \<Rightarrow> i64" where
  "live_position_ms s now_ms =
     (let p = position_ms s;
          p = (if is_playing s \<and> 0 <s last_update_ms s
               then (let elapsed = now_ms - last_update_ms s
                     in if 0 <s elapsed then p + elapsed else p)
               else p)
      in if p <s 0 then 0 else p)"

record suggestion =
  suggestion_id :: ustr
  from_user_id :: ustr
  from_username :: ustr
  suggested :: track

datatype playback_kind = Play | Pause | Seek | ChangeTrack | SyncQueue | SetVolume

record playback =
  kind :: playback_kind
  pb_position_ms :: i64
  server_time_ms :: i64
  pb_track :: "track option"
  pb_queue :: "track list option"
  pb_playing :: bool
  pb_volume :: f64

definition playback_new :: "playback_kind \<Rightarrow> playback" where
  "playback_new k =
     \<lparr>kind = k, pb_position_ms = 0, server_time_ms = 0, pb_track = None, pb_queue = None,
      pb_playing = False, pb_volume = Fin 0\<rparr>"

definition playback_at :: "playback_kind \<Rightarrow> i64 \<Rightarrow> playback" where
  "playback_at k pos = (playback_new k)\<lparr>pb_position_ms := pos\<rparr>"

datatype client_message =
    CreateRoom ustr
  | JoinRoom ustr ustr
  | Reconnect ustr
  | LeaveRoom
  | ApproveJoin ustr
  | RejectJoin ustr
  | KickUser ustr
  | TransferHost ustr
  | PlaybackMsg playback
  | Suggest track
  | ApproveSuggestion ustr
  | RejectSuggestion ustr
  | RequestSync
  | Ping

datatype server_message =
    RoomCreated ustr ustr ustr room_state
  | JoinRequest ustr ustr
  | JoinApproved ustr ustr room_state
  | JoinRejected ustr
  | Reconnected ustr bool room_state
  | UserJoined user
  | UserLeft ustr
  | UserDisconnected ustr
  | UserReconnected ustr
  | HostChanged ustr
  | SyncPlayback playback
  | SyncState room_state
  | SuggestionReceived suggestion
  | SuggestionApproved ustr
  | SuggestionRejected ustr ustr
  | Kicked ustr
  | ErrorMsg ustr ustr
  | Pong

section \<open>The live position\<close>

text \<open>The range of the result: never negative, whatever the state holds.\<close>

lemma live_position_nonneg: "0 \<le> sint (live_position_ms s now)"
  by (simp add: live_position_ms_def Let_def word_sless_alt)

lemma sint_add_no_overflow:
  "- (2 ^ 63) \<le> sint a + sint b \<Longrightarrow> sint a + sint b < 2 ^ 63 \<Longrightarrow>
   sint (a + b :: i64) = sint a + sint b"
  by (simp add: signed_take_bit_int_eq_self sint_word_ariths)

lemma sint_diff_no_overflow:
  "- (2 ^ 63) \<le> sint a - sint b \<Longrightarrow> sint a - sint b < 2 ^ 63 \<Longrightarrow>
   sint (a - b :: i64) = sint a - sint b"
  by (simp add: signed_take_bit_int_eq_self sint_word_ariths)

text \<open>The live position is the stored position plus the wall-clock time since its stamp while
  playing, and the stored position otherwise, never below zero; exactly so whenever the sum fits 64
  bits (the two clock readings being nonnegative).\<close>

theorem live_position_exact:
  assumes "0 \<le> sint (last_update_ms s)" "0 \<le> sint now"
    and "sint (position_ms s) + (sint now - sint (last_update_ms s)) < 2 ^ 63"
  shows "sint (live_position_ms s now) =
    (if is_playing s \<and> 0 < sint (last_update_ms s) \<and> sint (last_update_ms s) < sint now
     then max 0 (sint (position_ms s) + (sint now - sint (last_update_ms s)))
     else max 0 (sint (position_ms s)))"
proof -
  have lt: "sint (x :: i64) < 2 ^ 63" "- (2 ^ 63) \<le> sint x" for x
    using sint_lt [of x] sint_ge [of x] by simp_all
  have elapsed: "sint (now - last_update_ms s) = sint now - sint (last_update_ms s)"
    using assms(1,2) lt(1) [of now] lt(1) [of "last_update_ms s"]
    by (intro sint_diff_no_overflow) simp_all
  have sum: "sint (position_ms s + (now - last_update_ms s)) =
      sint (position_ms s) + (sint now - sint (last_update_ms s))"
    if "sint (last_update_ms s) < sint now"
    using assms(3) that lt(2) [of "position_ms s"]
    by (subst sint_add_no_overflow) (simp_all add: elapsed)
  show ?thesis
    by (auto simp: live_position_ms_def Let_def word_sless_alt elapsed sum max_def)
qed

theorem live_position_exact_witness:
  "sint (live_position_ms \<lparr>room_code = [], host_id = [], users = [], current_track = None,
     is_playing = True, position_ms = 1000, last_update_ms = 10000, volume = Fin 1, queue = []\<rparr>
     15000) = 6000"
  by (subst live_position_exact) simp_all

end
