(* ===== verification/Play_Queue.thy ===== *)
theory Play_Queue
  imports Listen_Protocol "HOL-Library.Signed_Division"
begin

text \<open>
  The play queue of \<open>crates/core/src/state.rs\<close>: \<open>QueueState\<close> and the pure functions on it (where
  adds land, duplicates, shuffle and un-shuffle, radio continuation, pages of a playlist, durations).
  \<open>SongItem\<close> is the one of \<open>crates/innertube/src/models/metadata.rs\<close>. The random generator is a
  parameter: \<open>sh i xs\<close> is what \<open>xs.shuffle(..)\<close> leaves of the slice \<open>xs\<close> that starts at index
  \<open>i\<close> of the queue; all that is known of it is that it permutes.
\<close>

section \<open>Data\<close>

datatype rating = Like | Dislike | Indifferent

record artist_run =
  run_text :: ustr
  run_id :: "ustr option"

record song_item =
  video_id :: ustr
  song_title :: ustr
  artists :: ustr
  artist_id :: "ustr option"
  artist_runs :: "artist_run list"
  album :: "ustr option"
  album_id :: "ustr option"
  song_duration :: "ustr option"
  play_count :: "ustr option"
  song_thumbnail :: "ustr option"
  set_video_id :: "ustr option"
  added_by :: "ustr option"
  added_by_avatar :: "ustr option"
  song_rating :: "rating option"
  song_queued_by :: "ustr option"
  queued :: bool
  queued_end :: bool
  queued_from :: "ustr option"
  autoplay :: bool
  is_video :: bool
  is_upload :: bool
  explicit :: bool

datatype repeat_mode = RepeatOff | RepeatAll | RepeatOne

record queue_state =
  items :: "song_item list"
  current :: nat
  played_from :: nat
  shuffle_orig :: "song_item list option"
  repeat :: repeat_mode
  radio_seed :: "ustr option"
  source_name :: "ustr option"
  radio :: bool
  lookahead_loaded :: "nat option"
  current_client :: "ustr option"
  lookahead_client :: "ustr option"
  lookahead_gain :: "f64 option option"
  playback_ping :: "ustr option"
  lookahead_playback_ping :: "ustr option"
  cpn :: ustr
  history_pinged :: bool
  queue_duration :: f64
  retried :: "ustr option"

type_synonym shuffler = "nat \<Rightarrow> song_item list \<Rightarrow> song_item list"

definition queue_state_new :: queue_state where
  "queue_state_new = \<lparr>items = [], current = 0, played_from = 0, shuffle_orig = None,
     repeat = RepeatOff, radio_seed = None, source_name = None, radio = False,
     lookahead_loaded = None, current_client = None, lookahead_client = None,
     lookahead_gain = None, playback_ping = None, lookahead_playback_ping = None, cpn = [],
     history_pinged = False, queue_duration = Fin 0, retried = None\<rparr>"

definition seek_to :: "nat \<Rightarrow> queue_state \<Rightarrow> queue_state" where
  "seek_to index q = q\<lparr>current := index, played_from := min (played_from q) index\<rparr>"

definition is_manual :: "song_item \<Rightarrow> bool" where
  "is_manual i = (queued i \<or> queued_end i)"

section \<open>Where things go\<close>

text \<open>\<open>Vec::remove\<close> and \<open>Vec::splice(at..at, ..)\<close> at an index within the vector.\<close>

definition remove_nth :: "nat \<Rightarrow> 'a list \<Rightarrow> 'a list" where
  "remove_nth i xs = take i xs @ drop (Suc i) xs"

definition splice_at :: "nat \<Rightarrow> 'a list \<Rightarrow> 'a list \<Rightarrow> 'a list" where
  "splice_at k new xs = take k xs @ new @ drop k xs"

text \<open>\<open>retain\<close> with a running index: everything up to \<open>cur\<close> stays.\<close>

definition retain_after :: "nat \<Rightarrow> ('a \<Rightarrow> bool) \<Rightarrow> 'a list \<Rightarrow> 'a list" where
  "retain_after cur keep xs = take (Suc cur) xs @ filter keep (drop (Suc cur) xs)"

text \<open>The first index from \<open>k\<close> on whose element does not satisfy \<open>p\<close>.\<close>

definition run_end :: "('a \<Rightarrow> bool) \<Rightarrow> nat \<Rightarrow> 'a list \<Rightarrow> nat" where
  "run_end p k xs = k + length (takeWhile p (drop k xs))"

definition enqueue_at :: "queue_state \<Rightarrow> nat" where
  "enqueue_at q = run_end is_manual (min (current q + 1) (length (items q))) (items q)"

definition guest_insert_index :: "song_item list \<Rightarrow> nat \<Rightarrow> nat" where
  "guest_insert_index xs cur = run_end queued (min (cur + 1) (length xs)) xs"

fun drop_duplicates_loop :: "ustr set \<Rightarrow> nat \<Rightarrow> song_item list \<times> nat \<times> nat \<times> bool
    \<Rightarrow> song_item list \<times> nat \<times> nat \<times> bool" where
  "drop_duplicates_loop ids 0 st = st"
| "drop_duplicates_loop ids (Suc i) (xs, cur, pf, removed) =
     (if i \<noteq> cur \<and> video_id (xs ! i) \<in> ids
      then drop_duplicates_loop ids i
        (remove_nth i xs, if i < cur then cur - 1 else cur,
         if i < cur \<and> i < pf then pf - 1 else pf, True)
      else drop_duplicates_loop ids i (xs, cur, pf, removed))"

definition drop_duplicates :: "ustr set \<Rightarrow> song_item list \<Rightarrow> nat \<Rightarrow> nat
    \<Rightarrow> song_item list \<times> nat \<times> nat \<times> bool" where
  "drop_duplicates ids xs cur pf = drop_duplicates_loop ids (length xs) (xs, cur, pf, False)"

definition next_index :: "nat \<Rightarrow> nat \<Rightarrow> repeat_mode \<Rightarrow> nat option" where
  "next_index len cur r =
     (if len = 0 then None
      else if cur + 1 < len then Some (cur + 1)
      else if r = RepeatAll then Some 0 else None)"

definition upcoming_queued :: "song_item list \<Rightarrow> nat \<Rightarrow> song_item list" where
  "upcoming_queued xs cur = filter is_manual (drop (cur + 1) xs)"

section \<open>Shuffle\<close>

text \<open>The runs of an album or playlist inside the manual block, each shuffled in place.\<close>

function shuffle_runs :: "shuffler \<Rightarrow> nat \<Rightarrow> song_item list \<Rightarrow> song_item list" where
  "shuffle_runs sh i [] = []"
| "shuffle_runs sh i (x # xs) =
     (case queued_from x of
        None \<Rightarrow> x # shuffle_runs sh (i + 1) xs
      | Some from \<Rightarrow>
          let run = takeWhile (\<lambda>y. queued_from y = Some from) xs
          in sh i (x # run) @
             shuffle_runs sh (i + 1 + length run) (dropWhile (\<lambda>y. queued_from y = Some from) xs))"
  by pat_completeness auto
termination
  by (relation "measure (\<lambda>(_, _, xs). length xs)") (auto simp: le_imp_less_Suc length_dropWhile_le)

definition shuffle_upcoming :: "shuffler \<Rightarrow> song_item list \<Rightarrow> nat \<Rightarrow> song_item list" where
  "shuffle_upcoming sh xs cur =
     (let start = run_end is_manual (cur + 1) xs;
          block = take (start - (cur + 1)) (drop (cur + 1) xs);
          rest = drop start xs
      in take (cur + 1) xs @ shuffle_runs sh (cur + 1) block @
         (if start < length xs then sort_key autoplay (sh start rest) else rest))"

definition shuffle_new_queue :: "shuffler \<Rightarrow> song_item list \<Rightarrow> nat \<Rightarrow> song_item list \<times> nat" where
  "shuffle_new_queue sh xs start =
     (if xs = [] then (xs, 0)
      else let k = min start (length xs - 1);
               xs = xs[0 := xs ! k, k := xs ! 0]
           in (shuffle_upcoming sh xs 0, 0))"

fun position_of :: "('a \<Rightarrow> bool) \<Rightarrow> 'a list \<Rightarrow> nat option" where
  "position_of p [] = None"
| "position_of p (x # xs) = (if p x then Some 0 else map_option Suc (position_of p xs))"

definition unshuffled :: "song_item list \<Rightarrow> ustr set \<Rightarrow> ustr \<Rightarrow> nat \<Rightarrow> song_item list \<times> nat" where
  "unshuffled orig heard playing_id fallback =
     (let idx = (case position_of (\<lambda>i. video_id i = playing_id) orig of
                   Some i \<Rightarrow> i | None \<Rightarrow> min fallback (length orig - 1));
          its = retain_after idx (\<lambda>it. video_id it \<notin> heard) orig;
          k = min (idx + 1) (length its);
          tail = drop k its
      in (take k its @ filter is_manual tail @ filter (\<lambda>it. \<not> is_manual it) tail, idx))"

section \<open>Radio and playlist pages\<close>

definition without_vl :: "ustr \<Rightarrow> ustr" where
  "without_vl s = (case strip_prefix (lit ''VL'') s of Some r \<Rightarrow> r | None \<Rightarrow> s)"

definition radio_seed_for :: "ustr option \<Rightarrow> ustr option" where
  "radio_seed_for source_id = map_option (\<lambda>s.
     let s = without_vl s in if starts_with (lit ''RD'') s then s else lit ''RDAMPL'' @ s) source_id"

definition is_mix :: "ustr option \<Rightarrow> bool" where
  "is_mix source_id = (case source_id of None \<Rightarrow> False
     | Some s \<Rightarrow> starts_with (lit ''RD'') (without_vl s))"

fun extend_new :: "song_item list \<Rightarrow> ustr set \<Rightarrow> song_item list \<Rightarrow> song_item list" where
  "extend_new xs seen [] = xs"
| "extend_new xs seen (i # fresh) =
     (if video_id i \<in> seen then extend_new xs seen fresh
      else extend_new (xs @ [i]) (insert (video_id i) seen) fresh)"

definition splice_radio_into ::
    "shuffler \<Rightarrow> song_item list \<Rightarrow> ustr \<Rightarrow> ustr option \<Rightarrow> queue_state \<Rightarrow> queue_state" where
  "splice_radio_into sh new seed name q =
     (let carried = upcoming_queued (items q) (current q);
          xs = take (current q + 1) (items q) @ carried;
          xs = extend_new xs (video_id ` set xs) new;
          q = q\<lparr>items := xs, radio_seed := Some seed, source_name := name, radio := True\<rparr>
      in if shuffle_orig q \<noteq> None
         then q\<lparr>shuffle_orig := Some (items q), items := shuffle_upcoming sh (items q) (current q)\<rparr>
         else q)"

fun merge_radio_loop :: "song_item list \<Rightarrow> song_item list \<Rightarrow> ustr set \<Rightarrow> nat \<Rightarrow> nat
    \<Rightarrow> song_item list \<times> nat" where
  "merge_radio_loop xs [] existing cap added = (xs, added)"
| "merge_radio_loop xs (i # fresh) existing cap added =
     (if cap \<le> added then (xs, added)
      else if video_id i \<in> existing then merge_radio_loop xs fresh existing cap added
      else merge_radio_loop (xs @ [i\<lparr>autoplay := True\<rparr>]) fresh
        (insert (video_id i) existing) cap (added + 1))"

definition merge_radio :: "song_item list \<Rightarrow> song_item list \<Rightarrow> ustr set \<Rightarrow> nat
    \<Rightarrow> song_item list \<times> nat" where
  "merge_radio xs fresh existing cap = merge_radio_loop xs fresh existing cap 0"

definition append_page :: "shuffler \<Rightarrow> song_item list \<Rightarrow> bool \<Rightarrow> queue_state \<Rightarrow> queue_state" where
  "append_page sh page playing q =
     (let q = q\<lparr>shuffle_orig := map_option (\<lambda>orig. orig @ page) (shuffle_orig q)\<rparr>
      in if playing
         then let q = q\<lparr>items := items q @ page\<rparr>
              in if shuffle_orig q \<noteq> None
                 then let pivot = (case lookahead_loaded q of
                                     Some i \<Rightarrow> if current q < i then i else current q
                                   | None \<Rightarrow> current q)
                      in q\<lparr>items := shuffle_upcoming sh (items q) pivot\<rparr>
                 else q
         else q\<lparr>items := splice_at (enqueue_at q) page (items q)\<rparr>)"

section \<open>Durations and metadata\<close>

text \<open>\<open>str::parse::<i64>\<close>: an optional sign, digits, and a value in range.\<close>

definition parse_i64 :: "ustr \<Rightarrow> i64 option" where
  "parse_i64 s =
     (case s of
        c # r \<Rightarrow>
          if c = 45
          then if r \<noteq> [] \<and> list_all is_ascii_digit r \<and> digits_value r \<le> 2 ^ 63
               then Some (of_int (- int (digits_value r))) else None
          else map_option of_nat (parse_unsigned (2 ^ 63) s)
      | [] \<Rightarrow> None)"

fun duration_secs :: "i64 list \<Rightarrow> i64" where
  "duration_secs [s] = s"
| "duration_secs [m, s] = m * 60 + s"
| "duration_secs [h, m, s] = h * 3600 + m * 60 + s"
| "duration_secs _ = 0"

definition parse_duration_ms :: "ustr option \<Rightarrow> i64" where
  "parse_duration_ms s = (case s of None \<Rightarrow> 0
     | Some s \<Rightarrow> duration_secs (List.map_filter (\<lambda>p. parse_i64 (trim p)) (split_on 58 s)) * 1000)"

text \<open>\<open>{}\<close> and \<open>{:02}\<close> of a signed number.\<close>

definition dec_int :: "int \<Rightarrow> ustr" where
  "dec_int n = (if n < 0 then 45 # dec (nat (- n)) else dec (nat n))"

definition dec_int2 :: "int \<Rightarrow> ustr" where
  "dec_int2 n = (if 0 \<le> n \<and> n < 10 then 48 # dec_int n else dec_int n)"

definition format_duration :: "i64 \<Rightarrow> ustr" where
  "format_duration ms =
     (let total = sint ms sdiv 1000
      in if total sdiv 3600 = 0
         then dec_int (total sdiv 60) @ [58] @ dec_int2 (total smod 60)
         else dec_int (total sdiv 3600) @ [58] @ dec_int2 ((total smod 3600) sdiv 60) @ [58] @
              dec_int2 (total smod 60))"

definition backfill_metadata ::
    "ustr option \<Rightarrow> ustr option \<Rightarrow> bool option \<Rightarrow> song_item \<Rightarrow> song_item" where
  "backfill_metadata length_seconds author video item =
     (let item = (case song_duration item of
            Some _ \<Rightarrow> item
          | None \<Rightarrow> (case Option.bind length_seconds (\<lambda>s. parse_i64 (trim s)) of
              Some secs \<Rightarrow> item\<lparr>song_duration := Some (format_duration (secs * 1000))\<rparr>
            | None \<Rightarrow> item));
          item = (case video of Some v \<Rightarrow> item\<lparr>is_video := v\<rparr> | None \<Rightarrow> item)
      in case Option.bind author (\<lambda>a. if trim a = [] then None else Some (trim a)) of
           Some a \<Rightarrow> if trim (artists item) = [] \<or> 8226 \<in> set (artists item)
                     then item\<lparr>artists := a, artist_runs := []\<rparr> else item
         | None \<Rightarrow> item)"

definition song_to_track :: "song_item \<Rightarrow> track" where
  "song_to_track s = \<lparr>track_id = video_id s, title = song_title s, artist = artists s,
     thumbnail = song_thumbnail s, duration_ms = parse_duration_ms (song_duration s),
     queued_by = song_queued_by s\<rparr>"

definition track_to_song :: "track \<Rightarrow> song_item" where
  "track_to_song t = \<lparr>video_id = track_id t, song_title = title t, artists = artist t,
     artist_id = None, artist_runs = [], album = None, album_id = None,
     song_duration = (if 0 <s duration_ms t then Some (format_duration (duration_ms t)) else None),
     play_count = None, song_thumbnail = thumbnail t, set_video_id = None, added_by = None,
     added_by_avatar = None, song_rating = None, song_queued_by = queued_by t, queued = False,
     queued_end = False, queued_from = None, autoplay = False, is_video = False,
     is_upload = False, explicit = False\<rparr>"

end
