(* ===== verification/Track_Ids.thy ===== *)
theory Track_Ids
  imports Prelude
begin

text \<open>
  The identifiers the daemon mints and tells apart: local files (\<open>crates/core/src/local.rs\<close>),
  radio stations (\<open>crates/core/src/radio.rs\<close>), Spotify, SoundCloud and TIDAL items
  (\<open>crates/core/src/spotify.rs\<close>), and the catalogue selector \<open>Provider\<close>.
\<close>

section \<open>Prefixes\<close>

definition SONG_PREFIX :: ustr where "SONG_PREFIX = lit ''LOCAL:''"
definition RADIO_ID_PREFIX :: ustr where "RADIO_ID_PREFIX = lit ''RYOTUNES_RADIO:''"
definition SPOTIFY_TRACK_PREFIX :: ustr where "SPOTIFY_TRACK_PREFIX = lit ''spotify:track:''"
definition SC_TRACK_PREFIX :: ustr where "SC_TRACK_PREFIX = lit ''sc:track:''"
definition SC_USER_PREFIX :: ustr where "SC_USER_PREFIX = lit ''sc:user:''"
definition SC_PLAYLIST_PREFIX :: ustr where "SC_PLAYLIST_PREFIX = lit ''sc:playlist:''"
definition SC_SYSTEM_PREFIX :: ustr where "SC_SYSTEM_PREFIX = lit ''sc:system:''"
definition TIDAL_TRACK_PREFIX :: ustr where "TIDAL_TRACK_PREFIX = lit ''tidal:track:''"
definition TIDAL_ARTIST_PREFIX :: ustr where "TIDAL_ARTIST_PREFIX = lit ''tidal:artist:''"
definition TIDAL_ALBUM_PREFIX :: ustr where "TIDAL_ALBUM_PREFIX = lit ''tidal:album:''"
definition TIDAL_PLAYLIST_PREFIX :: ustr where "TIDAL_PLAYLIST_PREFIX = lit ''tidal:playlist:''"

section \<open>Recognising an id\<close>

definition is_local_song :: "ustr \<Rightarrow> bool" where
  "is_local_song s = starts_with SONG_PREFIX s"

definition song_path :: "ustr \<Rightarrow> ustr option" where
  "song_path s = strip_prefix SONG_PREFIX s"

definition is_radio_id :: "ustr \<Rightarrow> bool" where
  "is_radio_id s = starts_with RADIO_ID_PREFIX s"

definition is_spotify_id :: "ustr \<Rightarrow> bool" where
  "is_spotify_id s = starts_with (lit ''spotify:'') s"

definition is_sc_id :: "ustr \<Rightarrow> bool" where
  "is_sc_id s = starts_with (lit ''sc:'') s"

definition is_tidal_id :: "ustr \<Rightarrow> bool" where
  "is_tidal_id s = starts_with (lit ''tidal:'') s"

text \<open>A non-empty rest behind the prefix, or a number behind it.\<close>

definition rest_of :: "ustr \<Rightarrow> ustr \<Rightarrow> ustr option" where
  "rest_of p s = Option.bind (strip_prefix p s) (\<lambda>r. if r = [] then None else Some r)"

definition number_of :: "ustr \<Rightarrow> ustr \<Rightarrow> nat option" where
  "number_of p s = Option.bind (strip_prefix p s) parse_u64"

definition spotify_track_id :: "ustr \<Rightarrow> ustr option" where
  "spotify_track_id s = rest_of SPOTIFY_TRACK_PREFIX s"

definition sc_track_id :: "ustr \<Rightarrow> nat option" where
  "sc_track_id s = number_of SC_TRACK_PREFIX s"

definition sc_user_id :: "ustr \<Rightarrow> nat option" where
  "sc_user_id s = number_of SC_USER_PREFIX s"

definition sc_playlist_id :: "ustr \<Rightarrow> nat option" where
  "sc_playlist_id s = number_of SC_PLAYLIST_PREFIX s"

definition sc_system_id :: "ustr \<Rightarrow> ustr option" where
  "sc_system_id s = rest_of SC_SYSTEM_PREFIX s"

definition tidal_track_id :: "ustr \<Rightarrow> nat option" where
  "tidal_track_id s = number_of TIDAL_TRACK_PREFIX s"

definition tidal_artist_id :: "ustr \<Rightarrow> nat option" where
  "tidal_artist_id s = number_of TIDAL_ARTIST_PREFIX s"

definition tidal_album_id :: "ustr \<Rightarrow> nat option" where
  "tidal_album_id s = number_of TIDAL_ALBUM_PREFIX s"

definition tidal_playlist_id :: "ustr \<Rightarrow> ustr option" where
  "tidal_playlist_id s = rest_of TIDAL_PLAYLIST_PREFIX s"

lemma number_of_mint: "n < 2 ^ 64 \<Longrightarrow> number_of p (p @ dec n) = Some n"
  by (simp add: number_of_def parse_u64_def parse_dec)

lemma rest_of_mint: "r \<noteq> [] \<Longrightarrow> rest_of p (p @ r) = Some r"
  by (simp add: rest_of_def)

section \<open>The catalogue selector\<close>

datatype provider = Youtube | Spotify | Soundcloud | Tidal

fun provider_as_str :: "provider \<Rightarrow> ustr" where
  "provider_as_str Youtube = lit ''youtube''"
| "provider_as_str Spotify = lit ''spotify''"
| "provider_as_str Soundcloud = lit ''soundcloud''"
| "provider_as_str Tidal = lit ''tidal''"

definition provider_parse :: "ustr \<Rightarrow> provider option" where
  "provider_parse s =
     (if s = lit ''youtube'' then Some Youtube
      else if s = lit ''spotify'' then Some Spotify
      else if s = lit ''soundcloud'' then Some Soundcloud
      else if s = lit ''tidal'' then Some Tidal
      else None)"

lemma provider_parse_as_str: "provider_parse (provider_as_str p) = Some p"
  by (cases p) (simp_all add: provider_parse_def lit_Cons)

end
