(* ===== verification/Queue_Ops.thy ===== *)
theory Queue_Ops
  imports Play_Queue Track_Ids
begin

text \<open>
  What \<open>AppState\<close> does to the queue (\<open>crates/core/src/state.rs\<close>), one definition per critical
  section: the code between taking and dropping the queue lock, with the player calls made there.
  \<open>app\<close> holds the queue, the two atomics the handlers use (\<open>generation\<close>,
  \<open>stop_after_current\<close>) and what the code has told mpv: the entry it plays, the entries appended
  behind it for the gapless advance, and \<open>loop-file\<close>. The network calls between two critical
  sections are the arguments of the second one. Events to the UI are not modelled.
\<close>

section \<open>State\<close>

record app =
  app_queue :: queue_state
  generation :: nat
  stop_after :: bool
  player_loaded :: "ustr option"
  player_appended :: "ustr list"
  player_loop :: bool

definition app_new :: app where
  "app_new = \<lparr>app_queue = queue_state_new, generation = 0, stop_after = False,
     player_loaded = None, player_appended = [], player_loop = False\<rparr>"

definition upd :: "(queue_state \<Rightarrow> queue_state) \<Rightarrow> app \<Rightarrow> app" where
  "upd f a = a\<lparr>app_queue := f (app_queue a)\<rparr>"

text \<open>\<open>Player::clear_playlist\<close>, \<open>Player::load\<close> and \<open>Player::enqueue\<close>: mpv's \<open>playlist-clear\<close>,
  \<open>loadfile replace\<close> and \<open>loadfile append\<close>.\<close>

definition clear_playlist :: "app \<Rightarrow> app" where
  "clear_playlist a = a\<lparr>player_appended := []\<rparr>"

definition player_load :: "ustr \<Rightarrow> app \<Rightarrow> app" where
  "player_load v a = a\<lparr>player_loaded := Some v, player_appended := []\<rparr>"

definition player_enqueue :: "ustr \<Rightarrow> app \<Rightarrow> app" where
  "player_enqueue v a = a\<lparr>player_appended := player_appended a @ [v]\<rparr>"

definition take_lookahead :: "app \<Rightarrow> app" where
  "take_lookahead a =
     (if lookahead_loaded (app_queue a) \<noteq> None
      then clear_playlist (upd (\<lambda>q. q\<lparr>lookahead_loaded := None\<rparr>) a) else a)"

definition id_at :: "song_item list \<Rightarrow> nat \<Rightarrow> ustr option" where
  "id_at xs i = (if i < length xs then Some (video_id (xs ! i)) else None)"

definition playing_id :: "queue_state \<Rightarrow> ustr option" where
  "playing_id q = id_at (items q) (current q)"

section \<open>Starting something\<close>

definition bump :: "app \<Rightarrow> app" where
  "bump a = a\<lparr>generation := generation a + 1\<rparr>"

definition play_song :: "song_item \<Rightarrow> app \<Rightarrow> app" where
  "play_song seed a = upd (\<lambda>q.
     let carried = upcoming_queued (items q) (current q);
         xs = seed # carried
     in q\<lparr>source_name := (if is_local_song (video_id seed) then None
                           else Some (song_title seed @ lit '' Radio'')),
          items := xs, current := 0, played_from := 0, lookahead_loaded := None,
          radio_seed := None, radio := False,
          shuffle_orig := (if shuffle_orig q \<noteq> None then Some xs else None)\<rparr>) (bump a)"

text \<open>The radio that \<open>next\<close> answered for the seed, if nothing else was started meanwhile.\<close>

definition hydrate_song :: "shuffler \<Rightarrow> nat \<Rightarrow> ustr \<Rightarrow> song_item list \<Rightarrow> app \<Rightarrow> app" where
  "hydrate_song sh gen v fetched a =
     (if generation a \<noteq> gen then a
      else upd (\<lambda>q.
        let q = q\<lparr>items := items q @ filter (\<lambda>i. video_id i \<noteq> v) fetched\<rparr>
        in if shuffle_orig q \<noteq> None
           then q\<lparr>shuffle_orig := Some (items q), items := shuffle_upcoming sh (items q) (current q)\<rparr>
           else q) a)"

definition play_tracks :: "shuffler \<Rightarrow> nat \<Rightarrow> bool \<Rightarrow> song_item list \<Rightarrow> nat option \<Rightarrow> ustr option
    \<Rightarrow> ustr option \<Rightarrow> bool option \<Rightarrow> app \<Rightarrow> app" where
  "play_tracks sh draw guest xs start source_id name shuffle a =
     (if xs = [] \<or> guest then a
      else upd (\<lambda>q.
        let keep_shuffled = (case shuffle of Some b \<Rightarrow> b
              | None \<Rightarrow> start \<noteq> None \<and> shuffle_orig q \<noteq> None);
            start = (case start of Some i \<Rightarrow> min i (length xs - 1)
              | None \<Rightarrow> if keep_shuffled then draw mod length xs else 0);
            carried = upcoming_queued (items q) (current q);
            (its, cur, orig) =
              (if keep_shuffled
               then let (ys, c) = shuffle_new_queue sh xs start in (ys, c, Some xs)
               else (xs, start, None))
        in q\<lparr>items := splice_at (cur + 1) carried its, current := cur, lookahead_loaded := None,
             radio_seed := radio_seed_for source_id, source_name := name, radio := False,
             shuffle_orig := orig, played_from := cur\<rparr>) (bump a))"

text \<open>Radio on the song that is already playing.\<close>

definition splice_radio ::
    "shuffler \<Rightarrow> song_item list \<Rightarrow> ustr \<Rightarrow> ustr option \<Rightarrow> app \<Rightarrow> app" where
  "splice_radio sh new seed name a = take_lookahead (upd (splice_radio_into sh new seed name) a)"

datatype fill = FillPlaying | FillQueued "ustr option"

text \<open>One page of the background walk of a playlist.\<close>

definition fill_page :: "shuffler \<Rightarrow> nat \<Rightarrow> fill \<Rightarrow> song_item list \<Rightarrow> app \<Rightarrow> app" where
  "fill_page sh gen f page a =
     (if generation a \<noteq> gen \<or> page = [] then a
      else let page = (case f of FillPlaying \<Rightarrow> page
                 | FillQueued from \<Rightarrow> map (\<lambda>i. i\<lparr>queued_end := True, queued_from := from\<rparr>) page);
               a = upd (append_page sh page (f = FillPlaying)) a;
               q = app_queue a;
               expected = next_index (length (items q)) (current q) (repeat q)
           in if lookahead_loaded q \<noteq> None \<and> lookahead_loaded q \<noteq> expected
              then clear_playlist (upd (\<lambda>q. q\<lparr>lookahead_loaded := None\<rparr>) a) else a)"

text \<open>The walk: pages until one fails, comes empty or says it is the last, at most fifty.\<close>

fun fill_playlist :: "shuffler \<Rightarrow> nat \<Rightarrow> fill \<Rightarrow> (ustr \<Rightarrow> (song_item list \<times> ustr option) option) \<Rightarrow> nat
    \<Rightarrow> ustr \<Rightarrow> app \<Rightarrow> app" where
  "fill_playlist sh gen f fetch 0 token a = a"
| "fill_playlist sh gen f fetch (Suc n) token a =
     (case fetch token of
        None \<Rightarrow> a
      | Some (page, cont) \<Rightarrow>
          if generation a \<noteq> gen \<or> page = [] then a
          else case cont of
                 Some next \<Rightarrow> fill_playlist sh gen f fetch n next (fill_page sh gen f page a)
               | None \<Rightarrow> fill_page sh gen f page a)"

definition play_index :: "bool \<Rightarrow> nat \<Rightarrow> app \<Rightarrow> app" where
  "play_index guest index a =
     (if guest then a
      else let a = bump a
           in if length (items (app_queue a)) \<le> index then a
              else upd (\<lambda>q. (seek_to index q)\<lparr>lookahead_loaded := None\<rparr>) a)"

definition next_in_queue :: "queue_state \<Rightarrow> nat option" where
  "next_in_queue q = next_index (length (items q)) (current q)
     (if repeat q = RepeatOne then RepeatAll else repeat q)"

definition prev_in_queue :: "queue_state \<Rightarrow> nat" where
  "prev_in_queue q = current q - 1"

section \<open>The end of a track\<close>

datatype ended = Stopped | Ignored | LoadNext nat | Gapless | TryAutoplay

definition on_track_ended :: "bool \<Rightarrow> bool \<Rightarrow> ustr \<Rightarrow> app \<Rightarrow> ended \<times> app" where
  "on_track_ended guest idle fresh_cpn a =
     (if guest then (Ignored, a)
      else if stop_after a then (Stopped, a\<lparr>stop_after := False\<rparr>)
      else let q = app_queue a
           in case next_index (length (items q)) (current q) (repeat q) of
                None \<Rightarrow> (TryAutoplay, bump a)
              | Some next \<Rightarrow>
                  let primed = (lookahead_loaded q = Some next);
                      a = upd (seek_to next) a
                  in if \<not> primed \<or> idle
                     then let a = bump a
                          in (LoadNext (generation a), upd (\<lambda>q. q\<lparr>lookahead_loaded := None\<rparr>) a)
                     else (Gapless, upd (\<lambda>q. q\<lparr>lookahead_gain := None, lookahead_loaded := None,
                         current_client := lookahead_client q, lookahead_client := None,
                         playback_ping := lookahead_playback_ping q,
                         lookahead_playback_ping := None, cpn := fresh_cpn,
                         history_pinged := False, queue_duration := Fin 0\<rparr>) a))"

text \<open>The detached task of the last branch, after \<open>extend_queue_radio\<close> returned.\<close>

definition autoplay_step :: "nat \<Rightarrow> app \<Rightarrow> app" where
  "autoplay_step added a =
     (if 0 < added then upd (\<lambda>q. q\<lparr>current := current q + 1, lookahead_loaded := None\<rparr>) a else a)"

definition on_track_failed :: "ustr \<Rightarrow> ustr \<Rightarrow> app \<Rightarrow> nat option \<times> app" where
  "on_track_failed main_client cache a =
     (let q = app_queue a; vid = playing_id q;
          already = (vid \<noteq> None \<and> vid = retried q)
      in case (vid, current_client q) of
           (Some v, Some c) \<Rightarrow>
             if (c = main_client \<or> c = cache) \<and> \<not> already
             then let a = bump (upd (\<lambda>q. q\<lparr>retried := Some v, lookahead_loaded := None\<rparr>) a)
                  in (Some (generation a), a)
             else (None, a)
         | _ \<Rightarrow> (None, a))"

section \<open>Loading the current track\<close>

text \<open>What resolving a track answers; \<open>data_gain\<close> is the gain \<open>loudness_gain\<close> computes from the
  reported loudness, in floating point.\<close>

record playback_data =
  stream_client :: ustr
  data_gain :: "f64 option"
  data_ping :: "ustr option"
  data_duration :: "ustr option"
  data_artists :: "ustr option"
  data_is_video :: "bool option"

datatype resolve_error = LocalMissing | SignInRequired | Unplayable

datatype started = Superseded | NothingThere | Exhausted | NeedsSignIn | NoMore | Again
  | Found song_item playback_data

text \<open>One turn of the loop of \<open>start_current\<close>: the resolution has answered \<open>res\<close>.\<close>

definition start_turn :: "nat \<Rightarrow> (resolve_error + playback_data) \<Rightarrow> app \<Rightarrow> started \<times> app" where
  "start_turn gen res a =
     (let q = app_queue a
      in if generation a \<noteq> gen then (Superseded, a)
         else if length (items q) \<le> current q then (NothingThere, a)
         else case res of
           Inr d \<Rightarrow> (Found (items q ! current q) d, a)
         | Inl LocalMissing \<Rightarrow>
             (let q = q\<lparr>items := remove_nth (current q) (items q), lookahead_loaded := None\<rparr>
              in if length (items q) \<le> current q
                 then (Exhausted, a\<lparr>app_queue := seek_to (length (items q) - 1) q\<rparr>)
                 else (Again, a\<lparr>app_queue := q\<rparr>))
         | Inl SignInRequired \<Rightarrow> (NeedsSignIn, a)
         | Inl Unplayable \<Rightarrow>
             (if length (items q) \<le> current q + 1 then (NoMore, a)
              else (Again, a\<lparr>app_queue := q\<lparr>current := current q + 1, lookahead_loaded := None\<rparr>\<rparr>)))"

text \<open>The loop, as long as nothing else moves the queue meanwhile.\<close>

function start_loop ::
    "nat \<Rightarrow> (ustr \<Rightarrow> bool \<Rightarrow> resolve_error + playback_data) \<Rightarrow> app \<Rightarrow> started \<times> app" where
  "start_loop gen resolve a =
     (let q = app_queue a;
          res = (if current q < length (items q)
                 then resolve (video_id (items q ! current q)) (is_upload (items q ! current q))
                 else Inl Unplayable)
      in case start_turn gen res a of
           (Again, b) \<Rightarrow> start_loop gen resolve b
         | r \<Rightarrow> r)"
  by pat_completeness auto
termination
proof (relation "measure (\<lambda>(_, _, a). length (items (app_queue a)) - current (app_queue a))",
    goal_cases)
  case (2 gen resolve a x xa p b)
  then show ?case
    by (auto simp: start_turn_def Let_def remove_nth_def min_def
        split: if_splits sum.splits resolve_error.splits)
qed simp

declare start_loop.simps [simp del]

text \<open>After the loop: the stream goes to mpv and the queue learns what serves it.\<close>

definition start_loaded :: "nat \<Rightarrow> ustr \<Rightarrow> song_item \<Rightarrow> playback_data \<Rightarrow> app \<Rightarrow> app" where
  "start_loaded gen fresh_cpn item d a =
     (if generation a \<noteq> gen then a
      else upd (\<lambda>q.
        let q = q\<lparr>current_client := Some (stream_client d), playback_ping := data_ping d,
              cpn := fresh_cpn, history_pinged := False, queue_duration := Fin 0\<rparr>
        in if id_at (items q) (current q) = Some (video_id item)
           then q\<lparr>items := (items q)[current q := backfill_metadata (data_duration d)
                  (data_artists d) (data_is_video d) (items q ! current q)]\<rparr>
           else q) (player_load (video_id item) a))"

section \<open>The gapless lookahead\<close>

definition prime_pick :: "app \<Rightarrow> (nat \<times> ustr) option" where
  "prime_pick a =
     (let q = app_queue a
      in case next_index (length (items q)) (current q) (repeat q) of
           None \<Rightarrow> None
         | Some next \<Rightarrow>
             if lookahead_loaded q = Some next then None
             else if list_ex (\<lambda>i. case id_at (items q) i of Some v \<Rightarrow> is_spotify_id v | None \<Rightarrow> False)
                    [current q, next]
             then None
             else map_option (\<lambda>v. (next, v)) (id_at (items q) next))"

definition enqueue_lookahead :: "nat \<Rightarrow> nat \<Rightarrow> ustr \<Rightarrow> playback_data \<Rightarrow> app \<Rightarrow> app" where
  "enqueue_lookahead gen next_idx next_video d a =
     (let q = app_queue a
      in if generation a \<noteq> gen \<or> id_at (items q) next_idx \<noteq> Some next_video \<or>
            lookahead_loaded q = Some next_idx
         then a
         else upd (\<lambda>q. q\<lparr>lookahead_loaded := Some next_idx,
             lookahead_client := Some (stream_client d),
             lookahead_gain := Some (data_gain d),
             lookahead_playback_ping := data_ping d,
             items := (items q)[next_idx := backfill_metadata (data_duration d) (data_artists d)
               (data_is_video d) (items q ! next_idx)]\<rparr>) (player_enqueue next_video a))"

section \<open>Autoplay\<close>

datatype autoplay_source = RadioSource ustr ustr | SoundcloudSource nat

definition extend_source :: "bool \<Rightarrow> bool \<Rightarrow> queue_state \<Rightarrow> autoplay_source option" where
  "extend_source enabled guest q =
     (if \<not> enabled \<or> guest \<or> repeat q \<noteq> RepeatOff \<or> 2 < length (items q) - current q \<or> items q = []
      then None
      else let v = video_id (last (items q))
           in case sc_track_id v of
                Some n \<Rightarrow> Some (SoundcloudSource n)
              | None \<Rightarrow>
                  if radio_seed q = None \<and> (is_local_song v \<or> is_radio_id v \<or> is_spotify_id v)
                  then None
                  else Some (RadioSource v
                    (case radio_seed q of Some s \<Rightarrow> s | None \<Rightarrow> lit ''RDAMVM'' @ v)))"

definition AUTOPLAY_BATCH :: nat where "AUTOPLAY_BATCH = 20"

definition extend_merge :: "nat \<Rightarrow> ustr set \<Rightarrow> song_item list \<Rightarrow> app \<Rightarrow> nat \<times> app" where
  "extend_merge gen existing fresh a =
     (if generation a \<noteq> gen then (0, a)
      else let (xs, added) = merge_radio (items (app_queue a)) fresh existing AUTOPLAY_BATCH
           in (added, upd (\<lambda>q. q\<lparr>items := xs\<rparr>) a))"

section \<open>Editing\<close>

definition toggle_shuffle_queue :: "shuffler \<Rightarrow> queue_state \<Rightarrow> queue_state" where
  "toggle_shuffle_queue sh q =
     (case shuffle_orig q of
        Some orig \<Rightarrow>
          let heard = video_id ` set (take (current q + 1) (items q));
              (xs, idx) = unshuffled orig heard (video_id (items q ! current q)) (current q)
          in q\<lparr>shuffle_orig := None, items := xs, current := idx, played_from := idx\<rparr>
      | None \<Rightarrow>
          q\<lparr>shuffle_orig := Some (items q), items := shuffle_upcoming sh (items q) (current q)\<rparr>)"

definition toggle_shuffle :: "shuffler \<Rightarrow> bool \<Rightarrow> app \<Rightarrow> app" where
  "toggle_shuffle sh guest a =
     (if guest \<or> items (app_queue a) = [] then a
      else take_lookahead (upd (toggle_shuffle_queue sh) a))"

definition set_stop_after_current :: "bool \<Rightarrow> app \<Rightarrow> app" where
  "set_stop_after_current enabled a =
     (if enabled
      then let was_one = (repeat (app_queue a) = RepeatOne);
               a = upd (\<lambda>q. q\<lparr>repeat := (if was_one then RepeatOff else repeat q),
                 lookahead_loaded := None, lookahead_client := None, lookahead_gain := None,
                 lookahead_playback_ping := None\<rparr>) (a\<lparr>stop_after := True\<rparr>)
           in clear_playlist (if was_one then a\<lparr>player_loop := False\<rparr> else a)
      else a\<lparr>stop_after := False\<rparr>)"

definition set_repeat :: "bool \<Rightarrow> repeat_mode \<Rightarrow> app \<Rightarrow> app" where
  "set_repeat guest mode a =
     (if guest then a
      else (upd (\<lambda>q. q\<lparr>repeat := mode\<rparr>) a)\<lparr>
        stop_after := (if mode = RepeatOne then False else stop_after a),
        player_loop := (mode = RepeatOne)\<rparr>)"

text \<open>\<open>enqueue\<close>: the attribution a host stamps on what it adds.\<close>

definition stamp_host :: "ustr option \<Rightarrow> song_item list \<Rightarrow> song_item list" where
  "stamp_host by xs =
     (case by of Some name \<Rightarrow> map (\<lambda>i. i\<lparr>song_queued_by := Some name\<rparr>) xs | None \<Rightarrow> xs)"

definition mark_queued :: "bool \<Rightarrow> ustr option \<Rightarrow> song_item list \<Rightarrow> song_item list" where
  "mark_queued next from xs =
     map (\<lambda>i. i\<lparr>queued := next, queued_end := \<not> next, queued_from := from\<rparr>) xs"

text \<open>The part of \<open>insert_queued\<close> that takes copies of the added tracks out first.\<close>

definition insert_make_room :: "bool \<Rightarrow> ustr set \<Rightarrow> queue_state \<Rightarrow> bool \<times> queue_state" where
  "insert_make_room dedupe ids q =
     (let (xs, cur, pf, removed) =
            (if dedupe then drop_duplicates ids (items q) (current q) (played_from q)
             else (items q, current q, played_from q, False));
          ys = retain_after cur (\<lambda>it. \<not> (is_manual it \<and> video_id it \<in> ids)) xs;
          removed = (removed \<or> length ys \<noteq> length xs);
          orig = (if removed
                  then map_option (filter (\<lambda>i. video_id i \<in> video_id ` set ys)) (shuffle_orig q)
                  else shuffle_orig q)
      in (removed, q\<lparr>items := ys, current := cur, played_from := pf, shuffle_orig := orig\<rparr>))"

definition insert_queued :: "shuffler \<Rightarrow> bool \<Rightarrow> bool \<Rightarrow> ustr option \<Rightarrow> song_item list \<Rightarrow> app \<Rightarrow> app" where
  "insert_queued sh dedupe next from new a =
     (if new = [] then a
      else let new = mark_queued next from new;
               q0 = app_queue a;
               before = id_at (items q0) (current q0 + 1);
               (removed, q) = insert_make_room dedupe (video_id ` set new) q0;
               k = (if next then guest_insert_index (items q) (current q) else enqueue_at q);
               q' = q\<lparr>shuffle_orig := map_option (\<lambda>orig. orig @ new) (shuffle_orig q)\<rparr>;
               block = (if shuffle_orig q' \<noteq> None \<and> from \<noteq> None then sh k new else new);
               q' = q'\<lparr>items := splice_at k block (items q')\<rparr>;
               expected = next_index (length (items q')) (current q') (repeat q');
               after = id_at (items q') (current q' + 1);
               stale = (lookahead_loaded q' \<noteq> None \<and>
                 (removed \<or> lookahead_loaded q' \<noteq> expected \<or> before \<noteq> after))
           in if stale then clear_playlist (a\<lparr>app_queue := q'\<lparr>lookahead_loaded := None\<rparr>\<rparr>)
              else a\<lparr>app_queue := q'\<rparr>)"

definition remove_from_queue :: "bool \<Rightarrow> nat \<Rightarrow> app \<Rightarrow> app" where
  "remove_from_queue guest index a =
     (let q = app_queue a
      in if guest \<or> length (items q) \<le> index \<or> index = current q then a
         else let q' = q\<lparr>items := remove_nth index (items q)\<rparr>;
                  q' = (if index < current q'
                        then q'\<lparr>current := current q' - 1,
                               played_from := (if index < played_from q' then played_from q' - 1
                                               else played_from q')\<rparr>
                        else q')
              in case lookahead_loaded q' of
                   Some i \<Rightarrow>
                     if i = index
                     then clear_playlist (a\<lparr>app_queue := q'\<lparr>lookahead_loaded := None\<rparr>\<rparr>)
                     else if index < i then a\<lparr>app_queue := q'\<lparr>lookahead_loaded := Some (i - 1)\<rparr>\<rparr>
                     else a\<lparr>app_queue := q'\<rparr>
                 | None \<Rightarrow> a\<lparr>app_queue := q'\<rparr>)"

definition move_in_queue :: "bool \<Rightarrow> nat \<Rightarrow> nat \<Rightarrow> app \<Rightarrow> app" where
  "move_in_queue guest from to a =
     (let q = app_queue a; first = current q + 1
      in if guest \<or> from < first \<or> length (items q) \<le> from \<or> to < first \<or> length (items q) \<le> to
            \<or> from = to
         then a
         else let before = id_at (items q) first;
                  item = items q ! from;
                  q' = q\<lparr>items := splice_at to [item] (remove_nth from (items q))\<rparr>;
                  expected = next_index (length (items q')) (current q') (repeat q');
                  stale = (lookahead_loaded q' \<noteq> None \<and>
                    (lookahead_loaded q' \<noteq> expected \<or> before \<noteq> id_at (items q') first))
              in if stale then clear_playlist (a\<lparr>app_queue := q'\<lparr>lookahead_loaded := None\<rparr>\<rparr>)
                 else a\<lparr>app_queue := q'\<rparr>)"

definition clear_queued :: "bool \<Rightarrow> app \<Rightarrow> app" where
  "clear_queued guest a =
     (if guest then a
      else let q = app_queue a;
               ys = retain_after (current q) (\<lambda>i. \<not> is_manual i) (items q)
           in if length ys = length (items q) then a
              else take_lookahead (upd (\<lambda>q. q\<lparr>items := ys\<rparr>) a))"

section \<open>Listen Together\<close>

definition lt_upcoming :: "queue_state \<Rightarrow> track list" where
  "lt_upcoming q = map song_to_track (take 50 (drop (current q + 1) (items q)))"

definition lt_broadcast_queue :: "queue_state \<Rightarrow> playback" where
  "lt_broadcast_queue q = (playback_new SyncQueue)\<lparr>pb_queue := Some (lt_upcoming q)\<rparr>"

definition lt_broadcast_current_track :: "i64 \<Rightarrow> bool \<Rightarrow> queue_state \<Rightarrow> playback option" where
  "lt_broadcast_current_track pos playing q =
     (if current q < length (items q)
      then Some ((playback_new ChangeTrack)\<lparr>pb_track := Some (song_to_track (items q ! current q)),
             pb_position_ms := pos, pb_playing := playing, pb_queue := Some (lt_upcoming q)\<rparr>)
      else None)"

definition lt_mirror_queue :: "track list \<Rightarrow> app \<Rightarrow> app" where
  "lt_mirror_queue upcoming a = upd (\<lambda>q.
     q\<lparr>items := take (current q + 1) (items q) @ map track_to_song upcoming\<rparr>) a"

definition lt_apply_change_track :: "track \<Rightarrow> track list \<Rightarrow> app \<Rightarrow> app" where
  "lt_apply_change_track t upcoming a = upd (\<lambda>q.
     q\<lparr>items := track_to_song t # map track_to_song upcoming, current := 0, played_from := 0,
       lookahead_loaded := None, shuffle_orig := None, radio_seed := None, source_name := None\<rparr>)
     (bump a)"

section \<open>Well-formed queues\<close>

text \<open>The playing index is an index (or the queue is empty), the played run ends at it, and a
  primed slot is a slot.\<close>

definition queue_ok :: "queue_state \<Rightarrow> bool" where
  "queue_ok q \<longleftrightarrow>
     (current q < length (items q) \<or> items q = [] \<and> current q = 0) \<and> played_from q \<le> current q \<and>
     (case lookahead_loaded q of None \<Rightarrow> True | Some i \<Rightarrow> i < length (items q))"

definition permutes_shuf :: "shuffler \<Rightarrow> bool" where
  "permutes_shuf sh \<longleftrightarrow> (\<forall>i xs. mset (sh i xs) = mset xs)"

lemma permutes_length [simp]: "permutes_shuf sh \<Longrightarrow> length (sh i xs) = length xs"
  by (metis permutes_shuf_def mset_eq_length)

lemma mset_shuffle_runs: "permutes_shuf sh \<Longrightarrow> mset (shuffle_runs sh i xs) = mset xs"
proof (induction sh i xs rule: shuffle_runs.induct)
  case (2 sh i x xs)
  show ?case
  proof (cases "queued_from x")
    case (Some f)
    have "mset (takeWhile (\<lambda>y. queued_from y = Some f) xs) +
        mset (dropWhile (\<lambda>y. queued_from y = Some f) xs) = mset xs"
      by (metis mset_append takeWhile_dropWhile_id)
    with 2 Some show ?thesis by (simp add: Let_def permutes_shuf_def add.assoc)
  qed (use 2 in simp)
qed simp

lemma run_end_bounds: "k \<le> run_end p k xs" "k \<le> length xs \<Longrightarrow> run_end p k xs \<le> length xs"
  using length_takeWhile_le [of p "drop k xs"] by (auto simp: run_end_def)

lemma mset_shuffle_upcoming:
  assumes "permutes_shuf sh"
  shows "mset (shuffle_upcoming sh xs cur) = mset xs"
proof -
  let ?start = "run_end is_manual (cur + 1) xs"
  have "mset (if ?start < length xs then sort_key autoplay (sh ?start (drop ?start xs))
      else drop ?start xs) = mset (drop ?start xs)"
    using assms by (auto simp: permutes_shuf_def)
  moreover have "take (cur + 1) xs @ take (?start - (cur + 1)) (drop (cur + 1) xs) @ drop ?start xs = xs"
    using run_end_bounds(1) [of "cur + 1" is_manual xs]
    by (metis add.commute append_take_drop_id drop_drop le_add_diff_inverse2)
  ultimately show ?thesis
    using mset_shuffle_runs [OF assms]
    by (metis (no_types, lifting) mset_append shuffle_upcoming_def)
qed

lemma length_shuffle_upcoming [simp]:
  "permutes_shuf sh \<Longrightarrow> length (shuffle_upcoming sh xs cur) = length xs"
  by (rule mset_eq_length) (rule mset_shuffle_upcoming)

lemma shuffle_upcoming_short: "length xs \<le> cur + 1 \<Longrightarrow> shuffle_upcoming sh xs cur = xs"
  by (simp add: shuffle_upcoming_def run_end_def Let_def)

lemma take_shuffle_upcoming [simp]: "k \<le> cur + 1 \<Longrightarrow> take k (shuffle_upcoming sh xs cur) = take k xs"
proof (cases "length xs \<le> cur + 1")
  case False
  assume "k \<le> cur + 1"
  with False show ?thesis by (simp add: shuffle_upcoming_def Let_def take_append min_def)
qed (simp add: shuffle_upcoming_short)

lemma nth_shuffle_upcoming [simp]: "i \<le> cur \<Longrightarrow> i < length xs \<Longrightarrow> permutes_shuf sh \<Longrightarrow>
    shuffle_upcoming sh xs cur ! i = xs ! i"
  using take_shuffle_upcoming [of "Suc i" cur sh xs]
  by (metis Suc_eq_plus1 Suc_le_mono lessI nth_take)

lemma length_splice_at [simp]: "k \<le> length xs \<Longrightarrow> length (splice_at k new xs) = length xs + length new"
  by (simp add: splice_at_def)

lemma nth_splice_at_before [simp]: "i < k \<Longrightarrow> k \<le> length xs \<Longrightarrow> splice_at k new xs ! i = xs ! i"
  by (simp add: splice_at_def nth_append)

lemma length_remove_nth [simp]: "i < length xs \<Longrightarrow> length (remove_nth i xs) = length xs - 1"
  by (simp add: remove_nth_def)

lemma nth_remove_nth: "i < length xs \<Longrightarrow> j < length xs - 1 \<Longrightarrow>
    remove_nth i xs ! j = (if j < i then xs ! j else xs ! Suc j)"
  by (auto simp: remove_nth_def nth_append min_def)

lemma length_retain_after: "length (retain_after cur p xs) \<le> length xs"
  unfolding retain_after_def
  by (metis append_take_drop_id length_append length_filter_le nat_add_left_cancel_le)

lemma retain_after_less: "cur < length xs \<Longrightarrow> cur < length (retain_after cur p xs)"
  by (simp add: retain_after_def)

lemma nth_retain_after [simp]: "i \<le> cur \<Longrightarrow> cur < length xs \<Longrightarrow> retain_after cur p xs ! i = xs ! i"
  by (simp add: retain_after_def nth_append)

lemma insert_index_bounds:
  "min (cur + 1) (length xs) \<le> guest_insert_index xs cur" "guest_insert_index xs cur \<le> length xs"
  "min (current q + 1) (length (items q)) \<le> enqueue_at q" "enqueue_at q \<le> length (items q)"
  using run_end_bounds(1) [of "min (cur + 1) (length xs)" queued xs]
    run_end_bounds(2) [of "min (cur + 1) (length xs)" xs queued]
    run_end_bounds(1) [of "min (current q + 1) (length (items q))" is_manual "items q"]
    run_end_bounds(2) [of "min (current q + 1) (length (items q))" "items q" is_manual]
  by (simp_all add: guest_insert_index_def enqueue_at_def)

lemma insert_index_after: "cur < length xs \<Longrightarrow> cur < guest_insert_index xs cur"
  "current q < length (items q) \<Longrightarrow> current q < enqueue_at q"
  using insert_index_bounds(1) [of cur xs] insert_index_bounds(3) [of q] by auto

end
