(* ===== verification/Queue_Edits.thy ===== *)
theory Queue_Edits
  imports Queue_Ops
begin

text \<open>
  Editing the queue under a playing track: what each edit keeps, and that the player and the queue
  agree on what plays and on what plays next.
\<close>

section \<open>Duplicates\<close>

definition kept :: "ustr set \<Rightarrow> nat \<Rightarrow> song_item list \<Rightarrow> nat \<Rightarrow> bool" where
  "kept ids cur xs j \<longleftrightarrow> j = cur \<or> video_id (xs ! j) \<notin> ids"

definition dropped_below :: "ustr set \<Rightarrow> nat \<Rightarrow> song_item list \<Rightarrow> nat \<Rightarrow> nat" where
  "dropped_below ids cur xs n = length (filter (\<lambda>j. \<not> kept ids cur xs j) [0..<n])"

lemma dropped_below_Suc: "dropped_below ids cur xs (Suc n) =
    dropped_below ids cur xs n + (if kept ids cur xs n then 0 else 1)"
  by (simp add: dropped_below_def)

lemma dropped_below_le: "dropped_below ids cur xs n \<le> n"
  using length_filter_le [of _ "[0..<n]"] by (simp add: dropped_below_def)

lemma dropped_below_mono: "m \<le> n \<Longrightarrow> dropped_below ids cur xs m \<le> dropped_below ids cur xs n"
  by (induction n) (auto simp: dropped_below_Suc le_Suc_eq)

lemma kept_count: "length (filter (kept ids cur xs) [0..<n]) = n - dropped_below ids cur xs n"
  using sum_length_filter_compl [of "kept ids cur xs" "[0..<n]"] by (simp add: dropped_below_def)

lemma drop_duplicates_loop_eq:
  assumes "n \<le> length xs" "pf \<le> cur"
  shows "drop_duplicates_loop ids n (xs, cur, pf, rm) =
    (map (nth xs) (filter (kept ids cur xs) [0..<n]) @ drop n xs,
     cur - dropped_below ids cur xs (min n cur), pf - dropped_below ids cur xs (min n pf),
     rm \<or> 0 < dropped_below ids cur xs n)"
  using assms
proof (induction n arbitrary: xs cur pf rm)
  case 0
  then show ?case by (simp add: dropped_below_def)
next
  case (Suc i)
  show ?case
  proof (cases "kept ids cur xs i")
    case True
    have min: "dropped_below ids cur xs (min (Suc i) m) = dropped_below ids cur xs (min i m)"
      for m using True by (cases "m \<le> i") (auto simp: min_def dropped_below_Suc)
    have "map (nth xs) (filter (kept ids cur xs) [0..<Suc i]) @ drop (Suc i) xs =
        map (nth xs) (filter (kept ids cur xs) [0..<i]) @ drop i xs"
      using True Suc.prems by (simp add: Cons_nth_drop_Suc)
    with Suc True show ?thesis by (auto simp: kept_def min dropped_below_Suc)
  next
    case False
    let ?xs = "remove_nth i xs" and ?cur = "if i < cur then cur - 1 else cur"
    let ?pf = "if i < cur \<and> i < pf then pf - 1 else pf"
    have keep: "kept ids ?cur ?xs j = kept ids cur xs j" if "j < i" for j
      using that Suc.prems False by (auto simp: kept_def nth_remove_nth)
    have below: "dropped_below ids ?cur ?xs m = dropped_below ids cur xs m" if "m \<le> i" for m
      using that keep unfolding dropped_below_def by (intro arg_cong [of _ _ length] filter_cong) auto
    have items: "map (nth ?xs) (filter (kept ids ?cur ?xs) [0..<i]) =
        map (nth xs) (filter (kept ids cur xs) [0..<Suc i])"
    proof -
      have "filter (kept ids ?cur ?xs) [0..<i] = filter (kept ids cur xs) [0..<i]"
        using keep by (intro filter_cong) auto
      moreover have "?xs ! j = xs ! j" if "j < i" for j
        using that Suc.prems by (simp add: nth_remove_nth)
      ultimately show ?thesis using False by (auto intro!: map_cong)
    qed
    have tail: "drop i ?xs = drop (Suc i) xs" using Suc.prems by (simp add: remove_nth_def)
    have shift: "m - 1 - dropped_below ids cur xs (min i (m - 1)) =
        m - dropped_below ids cur xs (min (Suc i) m)" if "i < m" for m
      using that False by (simp add: min_def dropped_below_Suc)
    have same: "m - dropped_below ids cur xs (min i m) = m - dropped_below ids cur xs (min (Suc i) m)"
      if "m \<le> i" for m using that by (simp add: min_def)
    have pf: "?pf \<le> ?cur" "i \<le> length ?xs" using Suc.prems False by (auto simp: kept_def)
    have "drop_duplicates_loop ids (Suc i) (xs, cur, pf, rm) =
        drop_duplicates_loop ids i (?xs, ?cur, ?pf, True)"
      using False by (simp add: kept_def)
    also have "\<dots> = (map (nth xs) (filter (kept ids cur xs) [0..<Suc i]) @ drop (Suc i) xs,
        ?cur - dropped_below ids cur xs (min i ?cur), ?pf - dropped_below ids cur xs (min i ?pf), True)"
      using Suc.IH [OF pf(2,1), of True] items tail below by simp
    also have "?cur - dropped_below ids cur xs (min i ?cur) = cur - dropped_below ids cur xs (min (Suc i) cur)"
      using shift [of cur] same [of cur] by auto
    also have "?pf - dropped_below ids cur xs (min i ?pf) = pf - dropped_below ids cur xs (min (Suc i) pf)"
      using shift [of pf] same [of pf] Suc.prems by auto
    finally show ?thesis using False by (simp add: dropped_below_Suc)
  qed
qed

lemma drop_duplicates_eq:
  assumes "pf \<le> cur" "cur < length xs"
  shows "drop_duplicates ids xs cur pf =
    (map (nth xs) (filter (kept ids cur xs) [0..<length xs]),
     length (filter (kept ids cur xs) [0..<cur]), length (filter (kept ids cur xs) [0..<pf]),
     0 < dropped_below ids cur xs (length xs))"
  using assms drop_duplicates_loop_eq [of "length xs" xs pf cur ids False]
  by (simp add: drop_duplicates_def kept_count min_def)

lemma upt_split: "cur < n \<Longrightarrow> [0..<n] = [0..<cur] @ cur # [Suc cur..<n]"
  using upt_add_eq_append [of 0 cur "n - cur"] by (simp add: upt_conv_Cons)

lemma filter_upt_mono: "m \<le> n \<Longrightarrow> length (filter p [0..<m]) \<le> length (filter p [0..<n])"
  by (induction n) (auto simp: le_Suc_eq)

lemma kept_current:
  assumes "cur < length xs" "ys = map (nth xs) (filter (kept ids cur xs) [0..<length xs])"
    and "c = length (filter (kept ids cur xs) [0..<cur])"
  shows "c < length ys" and "ys ! c = xs ! cur"
proof -
  have "filter (kept ids cur xs) [0..<length xs] =
      filter (kept ids cur xs) [0..<cur] @ cur # filter (kept ids cur xs) [Suc cur..<length xs]"
    by (simp add: upt_split [OF assms(1)] kept_def)
  then show "c < length ys" "ys ! c = xs ! cur" by (simp_all add: assms(2,3) nth_append)
qed

text \<open>C36: "Prevent duplicates" takes out every copy of the added tracks except the playing one and
  nothing else, in order; the playing index and the start of the played run are exactly the number
  of rows left in front of them, so the playing track stays the playing track.\<close>

theorem drop_duplicates_spec:
  assumes "pf \<le> cur" "cur < length xs" "drop_duplicates ids xs cur pf = (ys, c, p, removed)"
  shows "ys = map (nth xs) (filter (\<lambda>j. j = cur \<or> video_id (xs ! j) \<notin> ids) [0..<length xs]) \<and>
    c = length (filter (\<lambda>j. video_id (xs ! j) \<notin> ids) [0..<cur]) \<and>
    p = length (filter (\<lambda>j. video_id (xs ! j) \<notin> ids) [0..<pf]) \<and>
    c < length ys \<and> ys ! c = xs ! cur \<and> p \<le> c \<and> (removed \<longleftrightarrow> length ys \<noteq> length xs)"
proof -
  have keep: "kept ids cur xs = (\<lambda>j. j = cur \<or> video_id (xs ! j) \<notin> ids)" by (simp add: kept_def fun_eq_iff)
  have below: "filter (kept ids cur xs) [0..<m] = filter (\<lambda>j. video_id (xs ! j) \<notin> ids) [0..<m]"
    if "m \<le> cur" for m using that by (intro filter_cong) (auto simp: kept_def)
  have eq: "ys = map (nth xs) (filter (kept ids cur xs) [0..<length xs])"
    "c = length (filter (kept ids cur xs) [0..<cur])" "p = length (filter (kept ids cur xs) [0..<pf])"
    "removed = (0 < dropped_below ids cur xs (length xs))"
    using assms(3) by (simp_all add: drop_duplicates_eq [OF assms(1,2)])
  have "p \<le> c" unfolding eq by (rule filter_upt_mono [OF assms(1)])
  moreover have "removed \<longleftrightarrow> length ys \<noteq> length xs"
    using kept_count [of ids cur xs "length xs"] dropped_below_le [of ids cur xs "length xs"] eq(1,4)
    by auto
  ultimately show ?thesis
    using kept_current [OF assms(2) eq(1,2)] eq(1-3) below [of cur] below [OF assms(1)]
    by (simp add: keep)
qed

theorem drop_duplicates_spec_witness:
  "case drop_duplicates {[1]} (map (\<lambda>n. (track_to_song \<lparr>track_id = [n], title = [], artist = [],
      thumbnail = None, duration_ms = 0, queued_by = None\<rparr>)) [1, 2, 1, 1]) 2 1 of
     (ys, c, p, removed) \<Rightarrow> map video_id ys = [[2], [1]] \<and> c = 1 \<and> p = 0 \<and> removed"
proof -
  let ?xs = "map (\<lambda>n. (track_to_song \<lparr>track_id = [n], title = [], artist = [],
      thumbnail = None, duration_ms = 0, queued_by = None\<rparr>)) [1, 2, 1, 1]"
  obtain ys c p r where d: "drop_duplicates {[1]} ?xs 2 1 = (ys, c, p, r)" by (metis prod_cases4)
  from drop_duplicates_spec [OF _ _ this] show ?thesis
    unfolding d by (simp add: track_to_song_def upt_conv_Cons numeral_eq_Suc)
qed

section \<open>What edits keep\<close>

text \<open>The entry mpv holds behind the playing one is the queue's next row, or there is none.\<close>

definition primed_ok :: "app \<Rightarrow> bool" where
  "primed_ok a =
     (case lookahead_loaded (app_queue a) of
        None \<Rightarrow> player_appended a = []
      | Some i \<Rightarrow>
          next_index (length (items (app_queue a))) (current (app_queue a)) (repeat (app_queue a)) = Some i \<and>
          i < length (items (app_queue a)) \<and>
          player_appended a = [video_id (items (app_queue a) ! i)])"

definition active :: "app \<Rightarrow> bool" where
  "active a \<longleftrightarrow> queue_ok (app_queue a) \<and> current (app_queue a) < length (items (app_queue a))"

definition edit_keeps :: "app \<Rightarrow> app \<Rightarrow> bool" where
  "edit_keeps a b \<longleftrightarrow> active b \<and> player_loaded b = player_loaded a \<and>
     playing_id (app_queue b) = playing_id (app_queue a) \<and> (primed_ok a \<longrightarrow> primed_ok b)"

lemma edit_keeps_refl: "active a \<Longrightarrow> edit_keeps a a"
  by (simp add: edit_keeps_def)

lemma app_simps [simp]:
  "app_queue (upd f a) = f (app_queue a)" "player_loaded (upd f a) = player_loaded a"
  "player_appended (upd f a) = player_appended a" "generation (upd f a) = generation a"
  "stop_after (upd f a) = stop_after a" "player_loop (upd f a) = player_loop a"
  "app_queue (clear_playlist a) = app_queue a" "player_loaded (clear_playlist a) = player_loaded a"
  "player_appended (clear_playlist a) = []" "generation (clear_playlist a) = generation a"
  "app_queue (bump a) = app_queue a" "player_loaded (bump a) = player_loaded a"
  "player_appended (bump a) = player_appended a" "generation (bump a) = generation a + 1"
  by (simp_all add: upd_def clear_playlist_def bump_def)

lemma take_lookahead_simps [simp]:
  "app_queue (take_lookahead a) = (app_queue a)\<lparr>lookahead_loaded := None\<rparr>"
  "player_loaded (take_lookahead a) = player_loaded a"
  by (auto simp: take_lookahead_def)

text \<open>An edit that ends with no primed slot only has to keep the playing row.\<close>

lemma edit_keeps_unprimed:
  assumes "active a" "player_loaded b = player_loaded a"
    and "current (app_queue b) < length (items (app_queue b))"
    and "played_from (app_queue b) \<le> current (app_queue b)"
    and "video_id (items (app_queue b) ! current (app_queue b)) =
         video_id (items (app_queue a) ! current (app_queue a))"
    and "lookahead_loaded (app_queue b) = None" "primed_ok a \<longrightarrow> player_appended b = []"
  shows "edit_keeps a b"
  using assms by (simp add: edit_keeps_def active_def queue_ok_def playing_id_def id_at_def primed_ok_def)

lemma take_lookahead_appended:
  "primed_ok a \<Longrightarrow> player_appended a' = player_appended a \<Longrightarrow>
   lookahead_loaded (app_queue a') = lookahead_loaded (app_queue a) \<Longrightarrow>
   player_appended (take_lookahead a') = []"
  by (auto simp: take_lookahead_def primed_ok_def Let_def split: option.splits)

lemma remove_keeps:
  assumes "active a"
  shows "edit_keeps a (remove_from_queue guest index a)"
proof (cases "guest \<or> length (items (app_queue a)) \<le> index \<or> index = current (app_queue a)")
  case True
  then show ?thesis using assms by (auto simp: remove_from_queue_def Let_def edit_keeps_refl)
next
  case False
  let ?q = "app_queue a"
  have i: "index < length (items ?q)" "index \<noteq> current ?q" using False by auto
  show ?thesis
  proof (cases "lookahead_loaded ?q")
    case None
    with i assms False show ?thesis
      by (auto simp: remove_from_queue_def Let_def active_def queue_ok_def nth_remove_nth primed_ok_def
          intro!: edit_keeps_unprimed)
  next
    case (Some n)
    have base: "played_from ?q \<le> current ?q" "current ?q < length (items ?q)" "n < length (items ?q)"
      using assms Some by (auto simp: active_def queue_ok_def)
    consider "n = index" | "index < n" | "n < index" by linarith
    then show ?thesis
    proof cases
      case 1
      with i assms False Some base show ?thesis
        by (auto simp: remove_from_queue_def Let_def nth_remove_nth intro!: edit_keeps_unprimed)
    next
      case 2
      have p: "remove_nth index (items ?q) ! (n - 1) = items ?q ! n"
        using 2 i base by (simp add: nth_remove_nth)
      show ?thesis
      proof (cases "index < current ?q")
        case True
        with 2 i assms False Some base p show ?thesis
          by (simp add: remove_from_queue_def Let_def active_def queue_ok_def nth_remove_nth
            edit_keeps_def playing_id_def id_at_def primed_ok_def next_index_def) auto
      next
        case False
        with i have c: "current ?q < index" by simp
        with 2 Some base have "\<not> primed_ok a" by (auto simp: primed_ok_def next_index_def split: if_splits)
        with c 2 i assms \<open>\<not> (guest \<or> _ \<or> _)\<close> Some base p show ?thesis
          by (simp add: remove_from_queue_def Let_def active_def queue_ok_def nth_remove_nth
            edit_keeps_def playing_id_def id_at_def) auto
      qed
    next
      case 3
      have p: "remove_nth index (items ?q) ! n = items ?q ! n"
        using 3 i base by (simp add: nth_remove_nth)
      show ?thesis
      proof (cases "index < current ?q")
        case True
        with 3 i assms False Some base p show ?thesis
          by (simp add: remove_from_queue_def Let_def active_def queue_ok_def nth_remove_nth
            edit_keeps_def playing_id_def id_at_def primed_ok_def next_index_def) auto
      next
        case False
        with i have "current ?q < index" by simp
        with 3 i assms \<open>\<not> (guest \<or> _ \<or> _)\<close> Some base p show ?thesis
          by (simp add: remove_from_queue_def Let_def active_def queue_ok_def nth_remove_nth
            edit_keeps_def playing_id_def id_at_def primed_ok_def next_index_def) auto
      qed
    qed
  qed
qed

lemma move_keeps:
  assumes "active a"
  shows "edit_keeps a (move_in_queue guest src dst a)"
proof -
  let ?q = "app_queue a"
  let ?xs = "splice_at dst [items ?q ! src] (remove_nth src (items ?q))"
  show ?thesis
  proof (cases "guest \<or> src < current ?q + 1 \<or> length (items ?q) \<le> src \<or> dst < current ?q + 1 \<or>
      length (items ?q) \<le> dst \<or> src = dst")
    case True
    then show ?thesis using assms by (auto simp: move_in_queue_def Let_def edit_keeps_refl)
  next
    case False
    then have b: "src < length (items ?q)" "dst \<le> length (remove_nth src (items ?q))" by auto
    then have len: "length ?xs = length (items ?q)" by simp
    have cur: "?xs ! current ?q = items ?q ! current ?q" using False b by (simp add: nth_remove_nth)
    show ?thesis
      using False assms len cur
      by (auto simp: move_in_queue_def Let_def active_def queue_ok_def edit_keeps_def playing_id_def
          id_at_def primed_ok_def next_index_def split: if_splits option.splits)
  qed
qed

lemma activeD: "active a \<Longrightarrow> current (app_queue a) < length (items (app_queue a))"
  "active a \<Longrightarrow> played_from (app_queue a) \<le> current (app_queue a)"
  by (simp_all add: active_def queue_ok_def)

lemma clear_keeps:
  assumes "active a"
  shows "edit_keeps a (clear_queued guest a)"
proof (cases "guest \<or> length (retain_after (current (app_queue a)) (\<lambda>i. \<not> is_manual i) (items (app_queue a))) =
    length (items (app_queue a))")
  case True
  then show ?thesis using assms by (auto simp: clear_queued_def Let_def edit_keeps_refl)
next
  case False
  then show ?thesis using assms activeD [OF assms]
    by (auto simp: clear_queued_def Let_def retain_after_less
        intro!: edit_keeps_unprimed take_lookahead_appended)
qed

lemma insert_make_room_keeps:
  assumes "active a" "insert_make_room dedupe ids (app_queue a) = (removed, q)"
  shows "current q < length (items q)" "played_from q \<le> current q"
    and "video_id (items q ! current q) = video_id (items (app_queue a) ! current (app_queue a))"
    and "lookahead_loaded q = lookahead_loaded (app_queue a)" "repeat q = repeat (app_queue a)"
    and "\<not> removed \<Longrightarrow> items q = items (app_queue a) \<and> current q = current (app_queue a)"
proof -
  let ?q = "app_queue a"
  obtain xs c p r where d: "(if dedupe then drop_duplicates ids (items ?q) (current ?q) (played_from ?q)
      else (items ?q, current ?q, played_from ?q, False)) = (xs, c, p, r)" by (metis prod_cases4)
  note act = activeD [OF assms(1)]
  have xs: "c < length xs" "p \<le> c" "xs ! c = items ?q ! current ?q"
    "\<not> r \<Longrightarrow> xs = items ?q \<and> c = current ?q"
  proof -
    show "c < length xs" "p \<le> c" "xs ! c = items ?q ! current ?q"
    proof (atomize (full), cases dedupe)
      case True
      with d have eq: "xs = map (nth (items ?q)) (filter (kept ids (current ?q) (items ?q)) [0..<length (items ?q)])"
        "c = length (filter (kept ids (current ?q) (items ?q)) [0..<current ?q])"
        "p = length (filter (kept ids (current ?q) (items ?q)) [0..<played_from ?q])"
        by (simp_all add: drop_duplicates_eq [OF act(2,1)])
      show "c < length xs \<and> p \<le> c \<and> xs ! c = items ?q ! current ?q"
        using kept_current [OF act(1) eq(1,2)] filter_upt_mono [OF act(2)] by (simp add: eq(2,3))
    qed (use d act in auto)
    assume "\<not> r"
    then have "\<not> dedupe \<or> dropped_below ids (current ?q) (items ?q) (length (items ?q)) = 0"
      using d drop_duplicates_eq [OF act(2,1), of ids] by (auto split: if_splits)
    then show "xs = items ?q \<and> c = current ?q"
    proof
      assume z: "dropped_below ids (current ?q) (items ?q) (length (items ?q)) = 0"
      then have all: "kept ids (current ?q) (items ?q) j" if "j < length (items ?q)" for j
        using that by (auto simp: dropped_below_def filter_empty_conv)
      then have "filter (kept ids (current ?q) (items ?q)) [0..<n] = [0..<n]" if "n \<le> length (items ?q)" for n
        using that by (auto simp: filter_id_conv)
      with d act drop_duplicates_eq [OF act(2,1), of ids] show ?thesis
        by (auto simp: map_nth split: if_splits)
    qed (use d in auto)
  qed
  let ?ys = "retain_after c (\<lambda>it. \<not> (is_manual it \<and> video_id it \<in> ids)) xs"
  have q: "items q = ?ys" "current q = c" "played_from q = p"
    "lookahead_loaded q = lookahead_loaded ?q" "repeat q = repeat ?q"
    "removed = (r \<or> length ?ys \<noteq> length xs)"
    using assms(2) d by (auto simp: insert_make_room_def Let_def)
  have same: "?ys = xs" if "length ?ys = length xs"
  proof -
    have "length (filter (\<lambda>it. \<not> (is_manual it \<and> video_id it \<in> ids)) (drop (Suc c) xs)) =
        length (drop (Suc c) xs)"
      using that xs(1) by (simp add: retain_after_def)
    then have "filter (\<lambda>it. \<not> (is_manual it \<and> video_id it \<in> ids)) (drop (Suc c) xs) = drop (Suc c) xs"
      by (metis filter_id_conv length_filter_less less_irrefl)
    then show ?thesis by (simp add: retain_after_def)
  qed
  show "current q < length (items q)" "played_from q \<le> current q"
    "video_id (items q ! current q) = video_id (items ?q ! current ?q)"
    "lookahead_loaded q = lookahead_loaded ?q" "repeat q = repeat ?q"
    using xs by (simp_all add: q retain_after_less)
  show "items q = items ?q \<and> current q = current ?q" if "\<not> removed"
    using that q(6) same xs(4) by (simp add: q)
qed

lemma next_index_less: "next_index len cur r = Some i \<Longrightarrow> i < len"
  by (auto simp: next_index_def split: if_splits)

lemma insert_keeps:
  assumes "active a" "permutes_shuf sh"
  shows "edit_keeps a (insert_queued sh dedupe next src new a)"
proof (cases "new = []")
  case True
  with assms show ?thesis by (simp add: insert_queued_def edit_keeps_refl)
next
  case False
  let ?q = "app_queue a"
  let ?new = "mark_queued next src new"
  obtain removed q where mr: "insert_make_room dedupe (video_id ` set ?new) ?q = (removed, q)"
    by fastforce
  note room = insert_make_room_keeps [OF assms(1) mr]
  let ?k = "if next then guest_insert_index (items q) (current q) else enqueue_at q"
  let ?block = "if shuffle_orig q \<noteq> None \<and> src \<noteq> None then sh ?k ?new else ?new"
  let ?xs = "splice_at ?k ?block (items q)"
  have k: "current q < ?k" "?k \<le> length (items q)"
    using insert_index_after(1) [of "current q" "items q"] insert_index_after(2) [of q]
      insert_index_bounds(2) [of "items q" "current q"] insert_index_bounds(4) [of q] room(1) by auto
  have xs: "current q < length ?xs" "?xs ! current q = items q ! current q"
    using k room(1) by simp_all
  define q' where "q' = q\<lparr>shuffle_orig := map_option (\<lambda>orig. orig @ ?new) (shuffle_orig q), items := ?xs\<rparr>"
  have q': "items q' = ?xs" "current q' = current q" "played_from q' = played_from q"
    "lookahead_loaded q' = lookahead_loaded ?q" "repeat q' = repeat ?q"
    using room(4,5) by (simp_all add: q'_def)
  let ?stale = "lookahead_loaded q' \<noteq> None \<and>
      (removed \<or> lookahead_loaded q' \<noteq> next_index (length (items q')) (current q') (repeat q') \<or>
       id_at (items ?q) (current ?q + 1) \<noteq> id_at (items q') (current q' + 1))"
  have eq: "insert_queued sh dedupe next src new a =
      (if ?stale then clear_playlist (a\<lparr>app_queue := q'\<lparr>lookahead_loaded := None\<rparr>\<rparr>)
       else a\<lparr>app_queue := q'\<rparr>)"
    using False mr by (simp add: insert_queued_def Let_def q'_def)
  show ?thesis
  proof (cases "?stale")
    case True
    then show ?thesis unfolding eq using assms(1) room xs q'
      by (auto intro!: edit_keeps_unprimed)
  next
    case fresh: False
    show ?thesis
    proof (cases "lookahead_loaded ?q")
      case None
      with fresh show ?thesis unfolding eq using assms(1) room xs q'
        by (auto intro!: edit_keeps_unprimed simp: primed_ok_def)
    next
      case (Some i)
      with fresh have nr: "\<not> removed" and nx: "next_index (length ?xs) (current q) (repeat ?q) = Some i"
        and same: "id_at (items ?q) (current ?q + 1) = id_at ?xs (current q + 1)"
        by (simp_all add: q')
      note room' = room(6) [OF nr]
      have "primed_ok (a\<lparr>app_queue := q'\<rparr>)" if p: "primed_ok a"
      proof -
        from p Some have old: "next_index (length (items ?q)) (current ?q) (repeat ?q) = Some i"
          "i < length (items ?q)" "player_appended a = [video_id (items ?q ! i)]"
          by (simp_all add: primed_ok_def)
        have "video_id (?xs ! i) = video_id (items ?q ! i)"
        proof (cases "i = current ?q + 1")
          case True
          with same old(2) room' nx show ?thesis
            by (auto simp: id_at_def dest: next_index_less split: if_splits)
        next
          case False
          with old(1) have "i = 0" by (auto simp: next_index_def split: if_splits)
          with k room' show ?thesis by simp
        qed
        with Some nx old next_index_less [OF nx] show ?thesis by (simp add: primed_ok_def q')
      qed
      moreover have "lookahead_loaded q' = Some i" "i < length (items q')"
        "current q' < length (items q')" "played_from q' \<le> current q'"
        "video_id (items q' ! current q') = video_id (items ?q ! current ?q)"
        using Some next_index_less [OF nx] room xs by (simp_all only: q')
      ultimately show ?thesis
        unfolding eq if_not_P [OF fresh] using activeD(1) [OF assms(1)]
        by (simp add: edit_keeps_def active_def queue_ok_def playing_id_def id_at_def)
    qed
  qed
qed

end
