(* ===== verification/Queue_Session.thy ===== *)
theory Queue_Session
  imports Queue_Edits
begin

text \<open>
  The queue and the player through a whole listening session: shuffling and un-shuffling, pages and
  radio arriving, the gapless advance, loading a track, and where the two can come apart.
\<close>

section \<open>Shuffle\<close>

lemma position_of_Some: "position_of p xs = Some i \<Longrightarrow> i < length xs \<and> p (xs ! i)"
  by (induction xs arbitrary: i) (auto split: if_splits)

lemma position_of_None: "position_of p xs = None \<longleftrightarrow> (\<forall>x \<in> set xs. \<not> p x)"
  by (induction xs) auto

lemma unshuffled_current:
  assumes "unshuffled orig heard v fb = (xs, idx)" "orig \<noteq> []"
  shows "idx < length xs" "xs ! idx = orig ! idx" "idx < length orig"
    and "v \<in> video_id ` set orig \<Longrightarrow> video_id (orig ! idx) = v"
proof -
  let ?idx = "case position_of (\<lambda>i. video_id i = v) orig of Some i \<Rightarrow> i | None \<Rightarrow> min fb (length orig - 1)"
  let ?its = "retain_after ?idx (\<lambda>it. video_id it \<notin> heard) orig"
  have i: "?idx < length orig" using assms(2)
    by (cases orig) (auto simp: min_less_iff_disj split: option.split dest: position_of_Some)
  have its: "?idx < length ?its" "?its ! ?idx = orig ! ?idx"
    using i by (simp_all add: retain_after_less)
  have r: "idx = ?idx" "xs = take (?idx + 1) ?its @ filter is_manual (drop (?idx + 1) ?its) @
      filter (\<lambda>it. \<not> is_manual it) (drop (?idx + 1) ?its)"
    using assms(1) its(1) by (auto simp: unshuffled_def Let_def min_absorb1 Suc_leI)
  show "idx < length xs" "xs ! idx = orig ! idx" "idx < length orig"
    using its i by (simp_all add: r nth_append)
  assume "v \<in> video_id ` set orig"
  then have "position_of (\<lambda>i. video_id i = v) orig \<noteq> None" by (auto simp: position_of_None)
  then show "video_id (orig ! idx) = v" by (auto simp: r(1) dest: position_of_Some)
qed

lemma set_retain_after: "set (retain_after k p xs) \<subseteq> set xs"
proof -
  have "set (take (Suc k) xs) \<subseteq> set xs" "set (drop (Suc k) xs) \<subseteq> set xs"
    by (rule set_take_subset, rule set_drop_subset)
  then show ?thesis by (auto simp: retain_after_def)
qed

lemma set_take_filters: "set (take k ys @ filter p (drop k ys) @ filter r (drop k ys)) \<subseteq> set ys"
  using set_take_subset [of k ys] set_drop_subset [of k ys] by auto

lemma unshuffled_subset:
  assumes "unshuffled orig heard v fb = (xs, idx)"
  shows "set xs \<subseteq> set orig"
proof -
  let ?its = "retain_after idx (\<lambda>it. video_id it \<notin> heard) orig"
  let ?k = "min (idx + 1) (length ?its)"
  have xs: "xs = take ?k ?its @ filter is_manual (drop ?k ?its) @
      filter (\<lambda>it. \<not> is_manual it) (drop ?k ?its)"
    using assms by (auto simp: unshuffled_def Let_def)
  have "set xs \<subseteq> set ?its" by (subst xs) (rule set_take_filters)
  then show ?thesis using set_retain_after by (rule subset_trans)
qed

lemma toggle_keeps:
  assumes "active a" "permutes_shuf sh"
    and "\<And>orig. shuffle_orig (app_queue a) = Some orig \<Longrightarrow>
      video_id (items (app_queue a) ! current (app_queue a)) \<in> video_id ` set orig"
  shows "edit_keeps a (toggle_shuffle sh guest a)"
proof (cases "guest \<or> items (app_queue a) = []")
  case True
  then show ?thesis using assms(1) by (auto simp: toggle_shuffle_def edit_keeps_refl)
next
  case False
  let ?q = "app_queue a"
  note act = activeD [OF assms(1)]
  show ?thesis
  proof (cases "shuffle_orig ?q")
    case None
    with False assms(1,2) act show ?thesis
      by (auto simp: toggle_shuffle_def toggle_shuffle_queue_def
          intro!: edit_keeps_unprimed take_lookahead_appended)
  next
    case (Some orig)
    let ?heard = "video_id ` set (take (current ?q + 1) (items ?q))"
    obtain xs idx where u: "unshuffled orig ?heard (video_id (items ?q ! current ?q)) (current ?q) = (xs, idx)"
      by fastforce
    have "orig \<noteq> []" using assms(3) [OF Some] by auto
    from unshuffled_current [OF u this] assms(3) [OF Some] False Some u assms(1) show ?thesis
      by (auto simp: toggle_shuffle_def toggle_shuffle_queue_def Let_def
          intro!: edit_keeps_unprimed take_lookahead_appended)
  qed
qed

lemma shuffle_upcoming_split:
  assumes "permutes_shuf sh" "cur < length xs"
  defines "start \<equiv> run_end is_manual (cur + 1) xs"
  shows "shuffle_upcoming sh xs cur = take (cur + 1) xs @
      shuffle_runs sh (cur + 1) (take (start - (cur + 1)) (drop (cur + 1) xs)) @
      (if start < length xs then sort_key autoplay (sh start (drop start xs)) else [])"
    and "length (shuffle_runs sh (cur + 1) (take (start - (cur + 1)) (drop (cur + 1) xs))) = start - (cur + 1)"
    and "cur + 1 \<le> start" "start \<le> length xs"
proof -
  show b: "cur + 1 \<le> start" "start \<le> length xs"
    unfolding start_def using assms(2) run_end_bounds(1) [of "cur + 1" is_manual xs]
      run_end_bounds(2) [of "cur + 1" xs is_manual] by auto
  then show "shuffle_upcoming sh xs cur = take (cur + 1) xs @
      shuffle_runs sh (cur + 1) (take (start - (cur + 1)) (drop (cur + 1) xs)) @
      (if start < length xs then sort_key autoplay (sh start (drop start xs)) else [])"
    by (simp add: shuffle_upcoming_def Let_def start_def)
  show "length (shuffle_runs sh (cur + 1) (take (start - (cur + 1)) (drop (cur + 1) xs))) = start - (cur + 1)"
    using mset_eq_length [OF mset_shuffle_runs [OF assms(1)]] b by simp
qed

lemma shuffle_runs_loose:
  assumes "permutes_shuf sh" "j < length xs" "queued_from (xs ! j) = None"
  shows "shuffle_runs sh i xs ! j = xs ! j"
  using assms
proof (induction sh i xs arbitrary: j rule: shuffle_runs.induct)
  case (2 sh i x xs)
  show ?case
  proof (cases "queued_from x")
    case None
    with 2 show ?thesis by (cases j) auto
  next
    case (Some f)
    let ?run = "takeWhile (\<lambda>y. queued_from y = Some f) xs"
    let ?rest = "dropWhile (\<lambda>y. queued_from y = Some f) xs"
    have xs: "xs = ?run @ ?rest" by simp
    have j: "length (x # ?run) \<le> j"
    proof (rule ccontr)
      assume "\<not> length (x # ?run) \<le> j"
      then have lt: "j < length (x # ?run)" by simp
      then have "(x # xs) ! j = (x # ?run) ! j" by (metis xs append_Cons nth_append)
      moreover have "(x # ?run) ! j \<in> set (x # ?run)" using lt by (rule nth_mem)
      ultimately show False using 2(5) Some by (auto dest: set_takeWhileD)
    qed
    let ?j = "j - length (x # ?run)"
    have "(x # xs) ! j = ?rest ! ?j"
      using j by (metis xs append_Cons nth_append not_less)
    moreover have "?j < length ?rest" using 2(4) j
      by (metis xs append_Cons length_append nat_add_left_cancel_less le_add_diff_inverse)
    moreover have "shuffle_runs sh i (x # xs) ! j = shuffle_runs sh (i + 1 + length ?run) ?rest ! ?j"
      using j Some 2(3) by (simp add: Let_def nth_append)
    ultimately show ?thesis using 2(2) [OF Some refl 2(3)] 2(5) by simp
  qed
qed simp

lemma shuffle_runs_set: "permutes_shuf sh \<Longrightarrow> set (shuffle_runs sh i xs) = set xs"
  by (metis mset_shuffle_runs set_mset_mset)

lemma sorted_autoplay_split:
  "sorted (map autoplay xs) \<Longrightarrow> xs = filter (\<lambda>i. \<not> autoplay i) xs @ filter autoplay xs"
proof (induction xs)
  case (Cons x xs)
  then show ?case
  proof (cases "autoplay x")
    case True
    with Cons.prems have "\<forall>y \<in> set xs. autoplay y" by auto
    then have "filter autoplay xs = xs" "filter (\<lambda>i. \<not> autoplay i) xs = []"
      by (auto simp: filter_id_conv filter_empty_conv)
    with True show ?thesis by simp
  qed auto
qed simp

text \<open>Shuffling touches only what is upcoming: the rows up to the playing one stay, nothing is
  added or lost, the manual block stays in front (rows queued one at a time in their exact places),
  and behind it every autoplay row comes after every chosen one.\<close>

theorem shuffle_upcoming_spec:
  assumes "permutes_shuf sh" "cur < length xs"
  shows "let ys = shuffle_upcoming sh xs cur; start = run_end is_manual (cur + 1) xs
    in take (cur + 1) ys = take (cur + 1) xs \<and> mset ys = mset xs \<and>
       list_all is_manual (take (start - (cur + 1)) (drop (cur + 1) ys)) \<and>
       (\<forall>j. cur < j \<and> j < start \<and> queued_from (xs ! j) = None \<longrightarrow> ys ! j = xs ! j) \<and>
       drop start ys = filter (\<lambda>i. \<not> autoplay i) (drop start ys) @ filter autoplay (drop start ys)"
proof -
  let ?start = "run_end is_manual (cur + 1) xs"
  let ?block = "take (?start - (cur + 1)) (drop (cur + 1) xs)"
  let ?runs = "shuffle_runs sh (cur + 1) ?block"
  note split = shuffle_upcoming_split [OF assms]
  have block: "list_all is_manual ?block"
  proof -
    have "?block = takeWhile is_manual (drop (cur + 1) xs)"
      by (simp add: run_end_def takeWhile_eq_take [symmetric])
    then show ?thesis by (auto simp: list_all_iff dest: set_takeWhileD)
  qed
  have runs: "take (?start - (cur + 1)) (drop (cur + 1) (shuffle_upcoming sh xs cur)) = ?runs"
    using assms(2) split by simp
  have rest: "drop ?start (shuffle_upcoming sh xs cur) =
      (if ?start < length xs then sort_key autoplay (sh ?start (drop ?start xs)) else [])"
    using assms(2) split by simp
  have "sorted (map autoplay (drop ?start (shuffle_upcoming sh xs cur)))"
    unfolding rest by simp
  note sorted = sorted_autoplay_split [OF this]
  have loose: "shuffle_upcoming sh xs cur ! j = xs ! j"
    if "cur < j" "j < ?start" "queued_from (xs ! j) = None" for j
  proof -
    have j: "j - (cur + 1) < length ?block" "?block ! (j - (cur + 1)) = xs ! j"
      using that assms(2) split(3,4) by simp_all
    have "shuffle_upcoming sh xs cur ! j = ?runs ! (j - (cur + 1))"
      unfolding split(1) using that assms(2) split(2) by (simp add: nth_append)
    with shuffle_runs_loose [OF assms(1) j(1), of "cur + 1"] j(2) that(3) show ?thesis by simp
  qed
  show ?thesis
    using block runs sorted loose mset_shuffle_upcoming [OF assms(1), of xs cur]
      shuffle_runs_set [OF assms(1), of "cur + 1" ?block]
    by (simp add: Let_def list_all_iff)
qed

definition sample_song :: "nat \<Rightarrow> song_item" where
  "sample_song n = track_to_song \<lparr>track_id = [n], title = [n], artist = [n], thumbnail = None,
     duration_ms = 0, queued_by = None\<rparr>"

lemma sample_song_simps [simp]:
  "video_id (sample_song n) = [n]" "queued (sample_song n) = False"
  "queued_end (sample_song n) = False" "queued_from (sample_song n) = None"
  "autoplay (sample_song n) = False" "is_manual (sample_song n) = False"
  "song_title (sample_song n) = [n]" "is_upload (sample_song n) = False"
  by (simp_all add: sample_song_def track_to_song_def is_manual_def)

lemma sample_song_inj [simp]: "sample_song m = sample_song n \<longleftrightarrow> m = n"
  by (metis list.inject sample_song_simps(1))

definition sample_shuffle :: shuffler where
  "sample_shuffle i xs = rev xs"

lemma sample_shuffle_permutes: "permutes_shuf sample_shuffle"
  by (simp add: permutes_shuf_def sample_shuffle_def)

theorem shuffle_upcoming_spec_witness:
  "mset (shuffle_upcoming sample_shuffle [sample_song 5, sample_song 6, sample_song 7] 0) =
     mset [sample_song 5, sample_song 6, sample_song 7] \<and>
   take 1 (shuffle_upcoming sample_shuffle [sample_song 5, sample_song 6, sample_song 7] 0) = [sample_song 5]"
  using shuffle_upcoming_spec [OF sample_shuffle_permutes, of 0 "[sample_song 5, sample_song 6, sample_song 7]"]
  by (simp add: Let_def)

section \<open>Shuffle off\<close>


definition sample_queue :: queue_state where
  "sample_queue = queue_state_new\<lparr>items := [sample_song 5, sample_song 6, sample_song 7]\<rparr>"

definition sample_app :: app where
  "sample_app = app_new\<lparr>app_queue := sample_queue, player_loaded := Some [5]\<rparr>"

lemma sample_app_active: "active sample_app"
  by (simp add: active_def queue_ok_def sample_app_def sample_queue_def queue_state_new_def)


text \<open>Un-shuffling does not keep the playing track when autoplay appended it: the radio's rows
  are never put into the snapshot, so if the playing track is not in it (here: the radio brought it
  in while shuffled), turning shuffle off makes another track the current one, and the playing track
  is not in the queue any more.\<close>

theorem unshuffle_loses_the_playing_track:
  assumes "active a" "shuffle_orig (app_queue a) = Some orig" "orig \<noteq> []"
    and "video_id (items (app_queue a) ! current (app_queue a)) \<notin> video_id ` set orig"
  shows "playing_id (app_queue (toggle_shuffle sh False a)) \<noteq> playing_id (app_queue a) \<and>
    video_id (items (app_queue a) ! current (app_queue a)) \<notin>
      video_id ` set (items (app_queue (toggle_shuffle sh False a)))"
proof -
  let ?q = "app_queue a"
  let ?heard = "video_id ` set (take (current ?q + 1) (items ?q))"
  let ?v = "video_id (items ?q ! current ?q)"
  obtain xs idx where u: "unshuffled orig ?heard ?v (current ?q) = (xs, idx)" by fastforce
  have ne: "items ?q \<noteq> []" using activeD(1) [OF assms(1)] by auto
  have q: "items (app_queue (toggle_shuffle sh False a)) = xs"
    "current (app_queue (toggle_shuffle sh False a)) = idx"
    using ne u by (simp_all add: toggle_shuffle_def toggle_shuffle_queue_def Let_def assms(2))
  from unshuffled_subset [OF u] have "set xs \<subseteq> set orig" .
  with assms(4) have not_in: "?v \<notin> video_id ` set xs" by blast
  moreover have "xs ! idx \<in> set xs" using unshuffled_current(1) [OF u assms(3)] by (rule nth_mem)
  ultimately have "video_id (xs ! idx) \<noteq> ?v" by (metis imageI)
  with not_in show ?thesis using unshuffled_current(1) [OF u assms(3)] activeD(1) [OF assms(1)]
    by (simp add: q playing_id_def id_at_def)
qed

text \<open>The run that gets there: a shuffled queue, the radio's first track, and the advance to it.\<close>

definition sample_autoplayed :: app where
  "sample_autoplayed = upd (seek_to 3) (snd (extend_merge 0 {[5], [6], [7]} [sample_song 8]
     (toggle_shuffle sample_shuffle False sample_app)))"

theorem unshuffle_loses_the_playing_track_witness:
  "playing_id (app_queue sample_autoplayed) = Some [8] \<and>
   playing_id (app_queue (toggle_shuffle sample_shuffle False sample_autoplayed)) \<noteq> Some [8]"
proof -
  have sh: "shuffle_upcoming sample_shuffle [sample_song 5, sample_song 6, sample_song 7] 0 =
      [sample_song 5, sample_song 7, sample_song 6]"
    by (simp add: shuffle_upcoming_def run_end_def sample_shuffle_def Let_def)
  have q: "items (app_queue sample_autoplayed) =
      [sample_song 5, sample_song 7, sample_song 6, (sample_song 8)\<lparr>autoplay := True\<rparr>]"
    "current (app_queue sample_autoplayed) = 3"
    "shuffle_orig (app_queue sample_autoplayed) = Some [sample_song 5, sample_song 6, sample_song 7]"
    "lookahead_loaded (app_queue sample_autoplayed) = None" "played_from (app_queue sample_autoplayed) = 0"
    by (simp_all add: sample_autoplayed_def toggle_shuffle_def toggle_shuffle_queue_def sh
        sample_app_def sample_queue_def queue_state_new_def take_lookahead_def app_new_def
        extend_merge_def merge_radio_def AUTOPLAY_BATCH_def upd_def seek_to_def)
  have act: "active sample_autoplayed" by (simp add: active_def queue_ok_def q)
  from unshuffle_loses_the_playing_track [OF act q(3), of sample_shuffle] show ?thesis
    by (simp add: q playing_id_def id_at_def)
qed

end
