(* ===== verification/Queue_Player.thy ===== *)
theory Queue_Player
  imports Queue_Session
begin

text \<open>
  The queue and the player together: as long as a session is made of edits, lookaheads primed for the
  row that is next, gapless advances and loads, what mpv plays is the queue's current row and what
  mpv would play next is the queue's next row. Then the ways the code can leave that.
\<close>

section \<open>The remaining edits\<close>

lemma append_playing_items:
  "items (append_page sh page True q) =
     (if shuffle_orig q = None then items q @ page
      else shuffle_upcoming sh (items q @ page)
        (case lookahead_loaded q of Some i \<Rightarrow> if current q < i then i else current q | None \<Rightarrow> current q))"
  by (cases "lookahead_loaded q") (simp_all add: append_page_def Let_def)

lemma append_playing:
  assumes "permutes_shuf sh"
  shows "length (items (append_page sh page True q)) = length (items q) + length page"
    and "current (append_page sh page True q) = current q"
    and "played_from (append_page sh page True q) = played_from q"
    and "lookahead_loaded (append_page sh page True q) = lookahead_loaded q"
    and "repeat (append_page sh page True q) = repeat q"
    and "j \<le> current q \<or> lookahead_loaded q = Some j \<Longrightarrow> j < length (items q) \<Longrightarrow>
      items (append_page sh page True q) ! j = items q ! j"
proof -
  let ?pivot = "case lookahead_loaded q of Some i \<Rightarrow> if current q < i then i else current q | None \<Rightarrow> current q"
  have j: "j \<le> ?pivot" if "j \<le> current q \<or> lookahead_loaded q = Some j" for j
    using that by (auto split: option.splits)
  show "length (items (append_page sh page True q)) = length (items q) + length page"
    "current (append_page sh page True q) = current q"
    "played_from (append_page sh page True q) = played_from q"
    "lookahead_loaded (append_page sh page True q) = lookahead_loaded q"
    "repeat (append_page sh page True q) = repeat q"
    using assms by (simp_all add: append_page_def Let_def)
  assume "j \<le> current q \<or> lookahead_loaded q = Some j" "j < length (items q)"
  with j [OF this(1)] show "items (append_page sh page True q) ! j = items q ! j"
    unfolding append_playing_items using assms by (auto simp: nth_append)
qed

lemma fill_keeps:
  assumes "active a" "permutes_shuf sh"
  shows "edit_keeps a (fill_page sh gen FillPlaying page a)"
proof (cases "generation a \<noteq> gen \<or> page = []")
  case True
  then show ?thesis using assms(1) by (auto simp: fill_page_def edit_keeps_refl)
next
  case False
  let ?q = "app_queue a" and ?q' = "append_page sh page True (app_queue a)"
  note ap = append_playing [OF assms(2), where q = ?q and page = page]
  note act = activeD [OF assms(1)]
  let ?stale = "lookahead_loaded ?q' \<noteq> None \<and>
      lookahead_loaded ?q' \<noteq> next_index (length (items ?q')) (current ?q') (repeat ?q')"
  have eq: "fill_page sh gen FillPlaying page a =
      (if ?stale then clear_playlist (upd (\<lambda>q. q\<lparr>lookahead_loaded := None\<rparr>) (a\<lparr>app_queue := ?q'\<rparr>))
       else a\<lparr>app_queue := ?q'\<rparr>)"
    using False by (simp add: fill_page_def Let_def upd_def)
  have cur: "items ?q' ! current ?q = items ?q ! current ?q" using act by (intro ap(6)) auto
  show ?thesis
  proof (cases "?stale")
    case True
    then show ?thesis unfolding eq if_P [OF True] using assms(1) act ap(1-5) cur
      by (intro edit_keeps_unprimed) simp_all
  next
    case fresh: False
    show ?thesis
    proof (cases "lookahead_loaded ?q")
      case None
      then show ?thesis unfolding eq if_not_P [OF fresh] using assms(1) act ap(1-5) cur
        by (intro edit_keeps_unprimed) (simp_all add: primed_ok_def)
    next
      case (Some i)
      then have i: "i < length (items ?q)" using assms(1) by (simp add: active_def queue_ok_def)
      then have same: "items ?q' ! i = items ?q ! i" using Some by (intro ap(6)) auto
      have nx: "next_index (length (items ?q')) (current ?q') (repeat ?q') = Some i"
        using fresh Some ap(4) by simp
      have "primed_ok (a\<lparr>app_queue := ?q'\<rparr>)" if "primed_ok a"
        using that Some nx next_index_less [OF nx] same ap(4) by (simp add: primed_ok_def)
      moreover have "active (a\<lparr>app_queue := ?q'\<rparr>)"
        using act i ap Some by (simp add: active_def queue_ok_def)
      ultimately show ?thesis unfolding eq if_not_P [OF fresh] using act ap(1,2) cur
        by (simp add: edit_keeps_def playing_id_def id_at_def)
    qed
  qed
qed

lemma merge_radio_prefix: "\<exists>new. fst (merge_radio_loop xs fresh ex cap added) = xs @ new"
proof (induction fresh arbitrary: xs ex added)
  case (Cons i fresh)
  show ?case
  proof (cases "cap \<le> added \<or> video_id i \<in> ex")
    case False
    from Cons [of "xs @ [i\<lparr>autoplay := True\<rparr>]" "insert (video_id i) ex" "added + 1"]
    show ?thesis using False by auto
  qed (use Cons in auto)
qed simp

lemma extend_keeps:
  assumes "active a" "repeat (app_queue a) \<noteq> RepeatAll"
  shows "edit_keeps a (snd (extend_merge gen ex fresh a))"
proof (cases "generation a = gen")
  case True
  obtain xs added where m: "merge_radio (items (app_queue a)) fresh ex AUTOPLAY_BATCH = (xs, added)"
    by fastforce
  with merge_radio_prefix obtain new where xs: "xs = items (app_queue a) @ new"
    unfolding merge_radio_def by (metis fst_conv)
  have b: "snd (extend_merge gen ex fresh a) = upd (\<lambda>q. q\<lparr>items := xs\<rparr>) a"
    using True m by (simp add: extend_merge_def)
  show ?thesis unfolding b using assms activeD [OF assms(1)]
    by (auto simp: edit_keeps_def active_def queue_ok_def playing_id_def id_at_def nth_append xs
        primed_ok_def next_index_def split: option.splits if_splits)
qed (use assms in \<open>simp add: extend_merge_def edit_keeps_refl\<close>)

lemma set_repeat_keeps:
  assumes "active a"
    and "lookahead_loaded (app_queue a) = None \<or>
      next_index (length (items (app_queue a))) (current (app_queue a)) mode =
      next_index (length (items (app_queue a))) (current (app_queue a)) (repeat (app_queue a))"
  shows "edit_keeps a (set_repeat guest mode a)"
  using assms
  by (auto simp: set_repeat_def edit_keeps_def active_def queue_ok_def playing_id_def primed_ok_def upd_def
      split: option.splits)

lemma set_stop_keeps: "active a \<Longrightarrow> edit_keeps a (set_stop_after_current on a)"
  by (auto simp: set_stop_after_current_def Let_def edit_keeps_def active_def queue_ok_def
      playing_id_def primed_ok_def upd_def clear_playlist_def split: option.splits)

lemma video_id_backfill [simp]: "video_id (backfill_metadata l au v i) = video_id i"
  by (simp add: backfill_metadata_def Let_def split: option.splits)

lemma prime_keeps:
  assumes "active a" "prime_pick a = Some (i, v)"
  shows "edit_keeps a (enqueue_lookahead (generation a) i v d a)"
proof -
  let ?q = "app_queue a"
  have i: "next_index (length (items ?q)) (current ?q) (repeat ?q) = Some i"
    "lookahead_loaded ?q \<noteq> Some i" "i < length (items ?q)" "v = video_id (items ?q ! i)"
    using assms(2) by (auto simp: prime_pick_def Let_def id_at_def split: option.splits if_splits)
  have none: "player_appended a = []" if "primed_ok a"
    using that i by (auto simp: primed_ok_def split: option.splits)
  have same: "video_id ((items ?q)[i := backfill_metadata l au w (items ?q ! i)] ! j) = video_id (items ?q ! j)"
    if "j < length (items ?q)" for j l au w using that by (cases "j = i") auto
  show ?thesis using assms(1) i none activeD [OF assms(1)]
    by (auto simp: enqueue_lookahead_def Let_def id_at_def edit_keeps_def active_def queue_ok_def
        playing_id_def primed_ok_def player_enqueue_def same)
qed

section \<open>A session\<close>

definition coherent :: "app \<Rightarrow> bool" where
  "coherent a \<longleftrightarrow> active a \<and> player_loaded a = playing_id (app_queue a) \<and> primed_ok a"

lemma coherent_edit: "coherent a \<Longrightarrow> edit_keeps a b \<Longrightarrow> coherent b"
  by (simp add: coherent_def edit_keeps_def)

text \<open>mpv, at the end of a file with an entry appended: it plays that entry.\<close>

definition mpv_advance :: "app \<Rightarrow> app" where
  "mpv_advance a = a\<lparr>player_loaded := Some (hd (player_appended a)), player_appended := tl (player_appended a)\<rparr>"

lemma coherent_gapless:
  assumes "coherent a" "lookahead_loaded (app_queue a) \<noteq> None"
    and "on_track_ended False False c (mpv_advance a) = (Gapless, b)"
  shows "coherent b"
proof -
  let ?q = "app_queue a"
  obtain i where lk: "lookahead_loaded ?q = Some i" using assms(2) by auto
  with assms(1) have i: "next_index (length (items ?q)) (current ?q) (repeat ?q) = Some i"
    "i < length (items ?q)" "player_appended a = [video_id (items ?q ! i)]"
    by (simp_all add: coherent_def primed_ok_def)
  have b: "b = upd (\<lambda>q. q\<lparr>lookahead_gain := None, lookahead_loaded := None,
      current_client := lookahead_client q, lookahead_client := None,
      playback_ping := lookahead_playback_ping q, lookahead_playback_ping := None, cpn := c,
      history_pinged := False, queue_duration := Fin 0\<rparr>) (upd (seek_to i) (mpv_advance a))"
    using assms(3) i lk by (auto simp: on_track_ended_def Let_def mpv_advance_def split: if_splits)
  show ?thesis unfolding b using i(2,3)
    by (simp add: coherent_def active_def queue_ok_def playing_id_def id_at_def primed_ok_def
        seek_to_def mpv_advance_def)
qed

lemma remove_nth_Nil: "i < length xs \<Longrightarrow> remove_nth i xs = [] \<longleftrightarrow> length xs = 1"
  using length_remove_nth [of i xs] by (metis One_nat_def Suc_pred diff_self_eq_0 length_0_conv
      length_greater_0_conv less_nat_zero_code neq0_conv)

lemma start_turn_step:
  assumes "start_turn gen res a = (r, b)" "queue_ok (app_queue a)" "lookahead_loaded (app_queue a) = None"
  shows "queue_ok (app_queue b)" "lookahead_loaded (app_queue b) = None"
    "generation b = generation a" "player_loaded b = player_loaded a" "player_appended b = player_appended a"
    and "r = Found item d \<Longrightarrow> active b \<and> item = items (app_queue b) ! current (app_queue b) \<and> generation b = gen"
  using assms
  by (auto simp: start_turn_def Let_def queue_ok_def seek_to_def active_def remove_nth_Nil not_le
      split: if_splits sum.splits resolve_error.splits)

lemma start_loop_Found:
  assumes "start_loop gen resolve a = (Found item d, b)" "queue_ok (app_queue a)"
    and "lookahead_loaded (app_queue a) = None"
  shows "active b \<and> item = items (app_queue b) ! current (app_queue b) \<and> generation b = gen \<and>
    lookahead_loaded (app_queue b) = None"
  using assms
proof (induction gen resolve a rule: start_loop.induct)
  case (1 gen resolve a)
  let ?q = "app_queue a"
  let ?res = "if current ?q < length (items ?q)
     then resolve (video_id (items ?q ! current ?q)) (is_upload (items ?q ! current ?q)) else Inl Unplayable"
  obtain r c where t: "start_turn gen ?res a = (r, c)" by fastforce
  note step = start_turn_step [OF t 1(3,4)]
  show ?case
  proof (cases "r = Again")
    case True
    with t 1(2) have "start_loop gen resolve c = (Found item d, b)"
      by (simp add: start_loop.simps [of gen resolve a] Let_def)
    with 1(1) [OF refl refl t [symmetric]] True step show ?thesis by auto
  next
    case False
    with t 1(2) have "r = Found item d \<and> c = b"
      by (cases r) (simp_all add: start_loop.simps [of gen resolve a] Let_def)
    with step show ?thesis by auto
  qed
qed

lemma coherent_load:
  assumes "start_loop gen resolve a = (Found item d, b)" "queue_ok (app_queue a)"
    and "lookahead_loaded (app_queue a) = None"
  shows "coherent (start_loaded gen c item d b)"
proof -
  from start_loop_Found [OF assms] have b: "active b" "item = items (app_queue b) ! current (app_queue b)"
    "generation b = gen" "lookahead_loaded (app_queue b) = None" by auto
  then show ?thesis using activeD [OF b(1)]
    by (simp add: start_loaded_def Let_def player_load_def id_at_def coherent_def active_def queue_ok_def
        playing_id_def primed_ok_def)
qed

inductive session_step :: "app \<Rightarrow> app \<Rightarrow> bool" where
  s_insert: "permutes_shuf sh \<Longrightarrow> session_step a (insert_queued sh dedupe next src new a)"
| s_remove: "session_step a (remove_from_queue guest index a)"
| s_move: "session_step a (move_in_queue guest src dst a)"
| s_clear: "session_step a (clear_queued guest a)"
| s_shuffle: "permutes_shuf sh \<Longrightarrow> (\<forall>orig. shuffle_orig (app_queue a) = Some orig \<longrightarrow>
      video_id (items (app_queue a) ! current (app_queue a)) \<in> video_id ` set orig) \<Longrightarrow>
    session_step a (toggle_shuffle sh guest a)"
| s_page: "permutes_shuf sh \<Longrightarrow> session_step a (fill_page sh gen FillPlaying page a)"
| s_radio: "repeat (app_queue a) \<noteq> RepeatAll \<Longrightarrow> session_step a (snd (extend_merge gen ex fresh a))"
| s_repeat: "lookahead_loaded (app_queue a) = None \<or>
      next_index (length (items (app_queue a))) (current (app_queue a)) mode =
      next_index (length (items (app_queue a))) (current (app_queue a)) (repeat (app_queue a)) \<Longrightarrow>
    session_step a (set_repeat guest mode a)"
| s_stop: "session_step a (set_stop_after_current on a)"
| s_prime: "prime_pick a = Some (i, v) \<Longrightarrow> session_step a (enqueue_lookahead (generation a) i v d a)"
| s_gapless: "lookahead_loaded (app_queue a) \<noteq> None \<Longrightarrow>
    on_track_ended False False c (mpv_advance a) = (Gapless, b) \<Longrightarrow> session_step a b"
| s_jump: "k < length (items (app_queue a)) \<Longrightarrow>
    start_loop (generation a + 1) resolve (play_index False k a) = (Found item d, b) \<Longrightarrow>
    session_step a (start_loaded (generation a + 1) c item d b)"
| s_ended: "on_track_ended False idle c0 a = (LoadNext gen, a1) \<Longrightarrow>
    start_loop gen resolve a1 = (Found item d, b) \<Longrightarrow> session_step a (start_loaded gen c item d b)"

inductive_cases session_stepE: "session_step a b"

lemma play_index_ok:
  assumes "active a" "k < length (items (app_queue a))"
  shows "queue_ok (app_queue (play_index False k a))" "lookahead_loaded (app_queue (play_index False k a)) = None"
  using assms by (auto simp: play_index_def Let_def queue_ok_def seek_to_def active_def min_def)

lemma track_ended_ok:
  assumes "active a" "on_track_ended False idle c a = (LoadNext gen, b)"
  shows "queue_ok (app_queue b)" "lookahead_loaded (app_queue b) = None"
  using assms by (auto simp: on_track_ended_def Let_def queue_ok_def seek_to_def active_def
      dest: next_index_less split: if_splits option.splits)

lemma coherent_step:
  assumes co: "coherent a" and "session_step a b"
  shows "coherent b"
proof -
  have act: "active a" using co by (simp add: coherent_def)
  note edit = coherent_edit [OF co]
  from assms(2) show ?thesis
  proof (cases rule: session_step.cases)
    case (s_jump k resolve item d b' c)
    from coherent_load [OF s_jump(3) play_index_ok [OF act s_jump(2)]] s_jump(1) show ?thesis by simp
  next
    case (s_ended idle c0 gen a1 resolve item d b' c)
    from coherent_load [OF s_ended(3) track_ended_ok [OF act s_ended(2)]] s_ended(1) show ?thesis by simp
  next
    case (s_gapless c)
    from coherent_gapless [OF co s_gapless] show ?thesis .
  next
    case (s_shuffle sh guest)
    show ?thesis unfolding s_shuffle(1) using s_shuffle(2,3) by (intro edit toggle_keeps act) auto
  next
    case (s_insert sh dedupe nxt src new)
    show ?thesis unfolding s_insert(1) by (intro edit insert_keeps act s_insert(2))
  next
    case (s_remove guest index)
    show ?thesis unfolding s_remove by (intro edit remove_keeps act)
  next
    case (s_move guest src dst)
    show ?thesis unfolding s_move by (intro edit move_keeps act)
  next
    case (s_clear guest)
    show ?thesis unfolding s_clear by (intro edit clear_keeps act)
  next
    case (s_page sh gen page)
    show ?thesis unfolding s_page(1) by (intro edit fill_keeps act s_page(2))
  next
    case (s_radio gen ex fresh)
    show ?thesis unfolding s_radio(1) by (intro edit extend_keeps act s_radio(2))
  next
    case (s_repeat mode guest)
    show ?thesis unfolding s_repeat(1) by (intro edit set_repeat_keeps act s_repeat(2))
  next
    case (s_stop flag)
    show ?thesis unfolding s_stop by (intro edit set_stop_keeps act)
  next
    case (s_prime i v d)
    show ?thesis unfolding s_prime(1) by (intro edit prime_keeps act s_prime(2))
  qed
qed

text \<open>Where a session starts: a track of a well-formed queue has been loaded.\<close>

definition session_start :: "app \<Rightarrow> bool" where
  "session_start a \<longleftrightarrow> (\<exists>gen resolve a0 item d b c. queue_ok (app_queue a0) \<and>
     lookahead_loaded (app_queue a0) = None \<and> start_loop gen resolve a0 = (Found item d, b) \<and>
     a = start_loaded gen c item d b)"

interpretation session: invariant session_start session_step coherent
  by unfold_locales (auto simp: session_start_def intro: coherent_load coherent_step)

end
