(* ===== verification/Queue_Faults.thy ===== *)
theory Queue_Faults
  imports Queue_Player
begin

text \<open>
  The properties of a whole session, and the places where the code lets the queue and the player, or
  the queue and its un-shuffled snapshot, come apart.
\<close>

section \<open>What plays is what the queue says\<close>


definition sample_data :: playback_data where
  "sample_data = \<lparr>stream_client = [9], data_gain = None, data_ping = None, data_duration = None,
     data_artists = None, data_is_video = None\<rparr>"

definition sample_playing_app :: app where
  "sample_playing_app = start_loaded 0 [] (sample_song 5) sample_data sample_app"

lemma sample_app_queue: "app_queue sample_app = sample_queue"
  "items sample_queue = [sample_song 5, sample_song 6, sample_song 7]" "current sample_queue = 0"
  "lookahead_loaded sample_queue = None" "generation sample_app = 0" "repeat sample_queue = RepeatOff"
  "shuffle_orig sample_queue = None" "played_from sample_queue = 0" "stop_after sample_app = False"
  by (simp_all add: sample_app_def sample_queue_def queue_state_new_def app_new_def)

lemma backfill_nothing [simp]: "backfill_metadata None None None i = i"
  by (simp add: backfill_metadata_def split: option.split)

lemma sample_playing_start: "session_start sample_playing_app"
proof -
  have "start_loop 0 (\<lambda>_ _. Inr sample_data) sample_app = (Found (sample_song 5) sample_data, sample_app)"
    by (simp add: start_loop.simps start_turn_def sample_app_queue)
  moreover have "queue_ok (app_queue sample_app)" using sample_app_active by (simp add: active_def)
  ultimately show ?thesis
    unfolding session_start_def sample_playing_app_def using sample_app_queue(1,4) by metis
qed

lemma sample_playing_reachable: "reachable session_start session_step sample_playing_app"
  using sample_playing_start by (rule reachable_init)

lemma sample_playing_queue: "items (app_queue sample_playing_app) = [sample_song 5, sample_song 6, sample_song 7]"
  "current (app_queue sample_playing_app) = 0" "lookahead_loaded (app_queue sample_playing_app) = None"
  "player_loaded sample_playing_app = Some [5]" "player_appended sample_playing_app = []"
  "generation sample_playing_app = 0" "repeat (app_queue sample_playing_app) = RepeatOff"
  by (simp_all add: sample_playing_app_def start_loaded_def player_load_def sample_app_queue
      sample_data_def id_at_def)


section \<open>Where they come apart\<close>

text \<open>Turning repeat-all off on the last row leaves its successor in mpv: the wrapped lookahead
  stays appended although the queue now ends here, so at the end of the track mpv plays the first row
  while the queue still shows the last one and looks for autoplay.\<close>

theorem repeat_off_leaves_the_wrap_primed:
  assumes "coherent a" "repeat (app_queue a) = RepeatAll" "lookahead_loaded (app_queue a) = Some 0"
    and "current (app_queue a) \<noteq> 0" "\<not> stop_after a" "mode \<noteq> RepeatAll"
  shows "let b = set_repeat False mode a; (r, c) = on_track_ended False False cp (mpv_advance b)
    in next_index (length (items (app_queue b))) (current (app_queue b)) (repeat (app_queue b)) = None \<and>
       r = TryAutoplay \<and> player_loaded c = Some (video_id (items (app_queue a) ! 0)) \<and>
       current (app_queue c) = current (app_queue a)"
proof -
  let ?q = "app_queue a"
  have n: "next_index (length (items ?q)) (current ?q) (repeat ?q) = Some 0"
    "player_appended a = [video_id (items ?q ! 0)]" "current ?q < length (items ?q)"
    using assms(1,3) activeD(1) [of a] by (auto simp: coherent_def primed_ok_def)
  then have tail: "length (items ?q) = current ?q + 1"
    using assms(4) by (auto simp: next_index_def split: if_splits)
  with assms(6) have "next_index (length (items ?q)) (current ?q) mode = None"
    by (simp add: next_index_def)
  with n assms(5) show ?thesis
    by (simp add: set_repeat_def on_track_ended_def Let_def mpv_advance_def)
qed

definition sample_wrap :: app where
  "sample_wrap = (let q = sample_queue\<lparr>current := 2, repeat := RepeatAll\<rparr>
     in enqueue_lookahead 0 0 [5] sample_data
          (start_loaded 0 [] (sample_song 7) sample_data (sample_app\<lparr>app_queue := q\<rparr>)))"

theorem repeat_off_leaves_the_wrap_primed_witness:
  "fst (on_track_ended False False [] (mpv_advance (set_repeat False RepeatOff sample_wrap))) = TryAutoplay \<and>
   player_loaded (snd (on_track_ended False False [] (mpv_advance (set_repeat False RepeatOff sample_wrap)))) = Some [5]"
proof -
  have w: "items (app_queue sample_wrap) = [sample_song 5, sample_song 6, sample_song 7]"
    "current (app_queue sample_wrap) = 2" "repeat (app_queue sample_wrap) = RepeatAll"
    "lookahead_loaded (app_queue sample_wrap) = Some 0" "played_from (app_queue sample_wrap) = 0"
    "player_appended sample_wrap = [[5]]" "player_loaded sample_wrap = Some [7]"
    "stop_after sample_wrap = False"
    by (simp_all add: sample_wrap_def start_loaded_def player_load_def sample_app_queue Let_def
        sample_data_def id_at_def enqueue_lookahead_def player_enqueue_def upd_def)
  have "coherent sample_wrap"
    by (simp add: coherent_def active_def queue_ok_def playing_id_def id_at_def primed_ok_def next_index_def w)
  from repeat_off_leaves_the_wrap_primed [OF this w(3,4), of RepeatOff "[]"] show ?thesis
    by (auto simp: w Let_def split: prod.splits)
qed

text \<open>A page of an added playlist can take the place of the primed row without mpv hearing of it:
  when no row of the manual block is left in front, the page goes right behind the playing track, the
  recorded slot still is the next index, and mpv still holds the row that used to be there.\<close>

theorem queued_page_displaces_the_primed_row:
  assumes "coherent a" "lookahead_loaded (app_queue a) = Some (current (app_queue a) + 1)"
    and "\<not> is_manual (items (app_queue a) ! (current (app_queue a) + 1))" "p # page \<noteq> []"
  shows "let b = fill_page sh (generation a) (FillQueued src) (p # page) a
    in lookahead_loaded (app_queue b) = Some (current (app_queue b) + 1) \<and>
       video_id (items (app_queue b) ! (current (app_queue b) + 1)) = video_id p \<and>
       player_appended b = [video_id (items (app_queue a) ! (current (app_queue a) + 1))]"
proof -
  let ?q = "app_queue a"
  have n: "current ?q + 1 < length (items ?q)" "player_appended a = [video_id (items ?q ! (current ?q + 1))]"
    using assms(1,2) by (auto simp: coherent_def primed_ok_def)
  then have k: "enqueue_at ?q = current ?q + 1"
    using assms(3) by (cases "drop (current ?q + 1) (items ?q)")
      (auto simp: enqueue_at_def run_end_def min_def hd_drop_conv_nth [symmetric])
  let ?new = "map (\<lambda>i. i\<lparr>queued_end := True, queued_from := src\<rparr>) (p # page)"
  define q' where "q' = append_page sh ?new False ?q"
  have q': "items q' = splice_at (current ?q + 1) ?new (items ?q)" "current q' = current ?q"
    "repeat q' = repeat ?q" "lookahead_loaded q' = Some (current ?q + 1)"
    using k assms(2) by (simp_all add: q'_def append_page_def Let_def enqueue_at_def)
  have nx: "next_index (length (items q')) (current q') (repeat q') = Some (current q' + 1)"
    using n(1) by (simp add: q' next_index_def)
  have p: "items q' ! (current q' + 1) = p\<lparr>queued_end := True, queued_from := src\<rparr>"
    using n(1) by (simp add: q'(1,2) splice_at_def nth_append)
  have "fill_page sh (generation a) (FillQueued src) (p # page) a =
      (if lookahead_loaded q' \<noteq> None \<and>
          lookahead_loaded q' \<noteq> next_index (length (items q')) (current q') (repeat q')
       then clear_playlist (upd (\<lambda>q. q\<lparr>lookahead_loaded := None\<rparr>) (a\<lparr>app_queue := q'\<rparr>))
       else a\<lparr>app_queue := q'\<rparr>)"
    by (simp add: fill_page_def Let_def q'_def upd_def)
  also have "\<dots> = a\<lparr>app_queue := q'\<rparr>" using nx q'(2,4) by simp
  finally show ?thesis using n(2) p q'(2,4) by (simp add: Let_def)
qed

theorem queued_page_displaces_the_primed_row_witness:
  "let a = enqueue_lookahead 0 1 [6] sample_data sample_playing_app;
       b = fill_page sample_shuffle 0 (FillQueued None) [sample_song 8] a
   in video_id (items (app_queue b) ! 1) = [8] \<and> player_appended b = [[6]]"
proof -
  define a where "a = enqueue_lookahead 0 1 [6] sample_data sample_playing_app"
  have pick: "prime_pick sample_playing_app = Some (1, [6])"
    by (simp add: prime_pick_def Let_def sample_playing_queue next_index_def id_at_def is_spotify_id_def
        starts_with_def strip_prefix_def lit_Cons)
  have co: "coherent a"
    using coherent_step [OF session.inv_reachable [OF sample_playing_reachable]
        s_prime [OF pick, of sample_data]] by (simp add: sample_playing_queue a_def)
  have v: "items (app_queue a) = [sample_song 5, sample_song 6, sample_song 7]"
    "current (app_queue a) = 0" "lookahead_loaded (app_queue a) = Some 1" "generation a = 0"
    by (simp_all add: a_def enqueue_lookahead_def Let_def sample_playing_queue id_at_def sample_data_def
        player_enqueue_def)
  have "lookahead_loaded (app_queue a) = Some (current (app_queue a) + 1)"
    "\<not> is_manual (items (app_queue a) ! (current (app_queue a) + 1))" by (simp_all add: v)
  from queued_page_displaces_the_primed_row [OF co this, of "sample_song 8" "[]" sample_shuffle None]
  moreover have "current (app_queue (fill_page sample_shuffle 0 (FillQueued None) [sample_song 8] a)) = 0"
    by (simp add: fill_page_def append_page_def Let_def v)
  ultimately show ?thesis unfolding a_def [symmetric] by (simp add: Let_def v)
qed

text \<open>A lookahead primed while a track is being loaded is lost but stays recorded: jumping to a
  track, having another task prime its successor before the load reaches mpv, and then loading leaves
  nothing appended in mpv, the slot recorded as primed, and priming it again refused.\<close>

theorem load_loses_a_concurrent_lookahead:
  assumes "active a" "k < length (items (app_queue a))" "prime_pick (play_index False k a) = Some (i, v)"
  shows "let a1 = play_index False k a; a2 = enqueue_lookahead (generation a1) i v d a1;
      a3 = start_loaded (generation a1) c (items (app_queue a) ! k) e a2
    in lookahead_loaded (app_queue a3) = Some i \<and> player_appended a3 = [] \<and> prime_pick a3 = None"
proof -
  let ?a1 = "play_index False k a"
  have p: "next_index (length (items (app_queue ?a1))) (current (app_queue ?a1)) (repeat (app_queue ?a1)) = Some i"
    "lookahead_loaded (app_queue ?a1) \<noteq> Some i" "id_at (items (app_queue ?a1)) i = Some v"
    using assms(3) by (auto simp: prime_pick_def Let_def split: option.splits if_splits)
  define a2 where "a2 = enqueue_lookahead (generation ?a1) i v d ?a1"
  have a2: "lookahead_loaded (app_queue a2) = Some i" "generation a2 = generation ?a1"
    "length (items (app_queue a2)) = length (items (app_queue ?a1))"
    "current (app_queue a2) = current (app_queue ?a1)" "repeat (app_queue a2) = repeat (app_queue ?a1)"
    using p by (simp_all add: a2_def enqueue_lookahead_def player_enqueue_def Let_def upd_def)
  define a3 where "a3 = start_loaded (generation ?a1) c (items (app_queue a) ! k) e a2"
  have a3: "lookahead_loaded (app_queue a3) = Some i" "player_appended a3 = []"
    "length (items (app_queue a3)) = length (items (app_queue ?a1))"
    "current (app_queue a3) = current (app_queue ?a1)" "repeat (app_queue a3) = repeat (app_queue ?a1)"
    using a2 by (simp_all add: a3_def start_loaded_def player_load_def Let_def)
  moreover have "prime_pick a3 = None" using p(1) by (simp add: prime_pick_def a3)
  ultimately show ?thesis unfolding Let_def a2_def [symmetric] a3_def [symmetric] by simp
qed

theorem load_loses_a_concurrent_lookahead_witness:
  "let a1 = play_index False 1 sample_app; a2 = enqueue_lookahead (generation a1) 2 [7] sample_data a1;
      a3 = start_loaded (generation a1) [] (sample_song 6) sample_data a2
    in player_appended a3 = [] \<and> prime_pick a3 = None"
proof -
  have pick: "prime_pick (play_index False 1 sample_app) = Some (2, [7])"
    by (simp add: prime_pick_def play_index_def Let_def sample_app_queue seek_to_def next_index_def
        id_at_def is_spotify_id_def starts_with_def strip_prefix_def lit_Cons)
  have "1 < length (items (app_queue sample_app))" "items (app_queue sample_app) ! 1 = sample_song 6"
    by (simp_all add: sample_app_queue)
  with load_loses_a_concurrent_lookahead [OF sample_app_active _ pick, of sample_data "[]" sample_data]
  show ?thesis by (simp only: Let_def)
qed

text \<open>The autoplay continuation moves the pointer of a queue that is no longer its own: it does not
  look at the generation again, so when the user jumps to row \<open>k\<close> while the continuation is
  finishing, row \<open>k\<close> is what gets loaded and the queue says row \<open>k + 1\<close> is playing.\<close>

theorem autoplay_moves_a_newer_pointer:
  assumes "k + 1 < length (items (app_queue a))" "0 < added"
    and "video_id (items (app_queue a) ! k) \<noteq> video_id (items (app_queue a) ! (k + 1))"
  shows "let a1 = play_index False k a; a2 = autoplay_step added a1;
      a3 = start_loaded (generation a1) c (items (app_queue a) ! k) d a2
    in current (app_queue a1) = k \<and> current (app_queue a3) = k + 1 \<and>
       player_loaded a3 = Some (video_id (items (app_queue a) ! k)) \<and>
       player_loaded a3 \<noteq> playing_id (app_queue a3)"
  using assms
  by (simp add: play_index_def autoplay_step_def start_loaded_def player_load_def seek_to_def
      playing_id_def id_at_def Let_def)

theorem autoplay_moves_a_newer_pointer_witness:
  "let a1 = play_index False 0 sample_app; a2 = autoplay_step 5 a1;
      a3 = start_loaded (generation a1) [] (sample_song 5) sample_data a2
    in player_loaded a3 = Some [5] \<and> playing_id (app_queue a3) \<noteq> Some [5]"
  using autoplay_moves_a_newer_pointer [of 0 sample_app 5 "[]" sample_data]
  by (auto simp: sample_app_queue Let_def)

text \<open>"Clear queue" does not clear the un-shuffled snapshot: a row queued by hand that has not been
  played is gone from what is upcoming after the clear, and back in the queue as soon as shuffle is
  turned off.\<close>

theorem cleared_adds_come_back:
  assumes "active a" "shuffle_orig (app_queue a) = Some orig" "x \<in> set orig" "is_manual x"
    and "video_id x \<notin> video_id ` set (take (current (app_queue a) + 1) (items (app_queue a)))"
  shows "let b = clear_queued False a
    in x \<notin> set (items (app_queue b)) \<and> x \<in> set (items (app_queue (toggle_shuffle sh False b)))"
proof -
  let ?q = "app_queue a" and ?b = "clear_queued False a"
  let ?ys = "retain_after (current ?q) (\<lambda>i. \<not> is_manual i) (items ?q)"
  have ys: "items (app_queue ?b) = ?ys"
  proof (cases "length ?ys = length (items ?q)")
    case True
    have "filter (\<lambda>i. \<not> is_manual i) (drop (Suc (current ?q)) (items ?q)) = drop (Suc (current ?q)) (items ?q)"
    proof (rule ccontr)
      assume "filter (\<lambda>i. \<not> is_manual i) (drop (Suc (current ?q)) (items ?q)) \<noteq> drop (Suc (current ?q)) (items ?q)"
      then have "length (filter (\<lambda>i. \<not> is_manual i) (drop (Suc (current ?q)) (items ?q))) <
          length (drop (Suc (current ?q)) (items ?q))"
        by (metis filter_id_conv length_filter_less)
      with True show False by (simp add: retain_after_def)
    qed
    then have "?ys = items ?q" by (simp add: retain_after_def)
    then show ?thesis by (simp add: clear_queued_def)
  qed (simp add: clear_queued_def Let_def)
  have b: "shuffle_orig (app_queue ?b) = Some orig" "current (app_queue ?b) = current ?q"
    using assms(2) by (simp_all add: clear_queued_def Let_def)
  have cur: "current ?q < length ?ys" using activeD(1) [OF assms(1)] by (rule retain_after_less)
  have prefix: "take (current ?q + 1) ?ys = take (current ?q + 1) (items ?q)"
    using activeD(1) [OF assms(1)] by (simp add: retain_after_def)
  have "x \<notin> set (take (Suc (current ?q)) (items ?q))" using assms(5) by force
  with assms(4) have gone: "x \<notin> set ?ys" by (simp add: retain_after_def)
  let ?heard = "video_id ` set (take (current ?q + 1) ?ys)"
  obtain xs idx where u: "unshuffled orig ?heard (video_id (?ys ! current ?q)) (current ?q) = (xs, idx)"
    by fastforce
  have "x \<in> set (retain_after idx (\<lambda>it. video_id it \<notin> ?heard) orig)"
  proof -
    have "x \<in> set (take (Suc idx) orig) \<or> x \<in> set (drop (Suc idx) orig)"
      using assms(3) by (metis UnE append_take_drop_id set_append)
    then show ?thesis using assms(5) unfolding prefix by (auto simp: retain_after_def)
  qed
  moreover have "set xs = set (retain_after idx (\<lambda>it. video_id it \<notin> ?heard) orig)"
  proof -
    let ?its = "retain_after idx (\<lambda>it. video_id it \<notin> ?heard) orig"
    let ?k = "min (idx + 1) (length ?its)"
    have "xs = take ?k ?its @ filter is_manual (drop ?k ?its) @ filter (\<lambda>it. \<not> is_manual it) (drop ?k ?its)"
      using u by (auto simp: unshuffled_def Let_def)
    then have "set xs = set (take ?k ?its) \<union> set (drop ?k ?its)" by auto
    then show ?thesis by (metis append_take_drop_id set_append)
  qed
  ultimately have "x \<in> set xs" by simp
  moreover have "items (app_queue (toggle_shuffle sh False ?b)) = xs"
  proof -
    have "?ys \<noteq> []" using cur by auto
    then show ?thesis using u by (simp add: toggle_shuffle_def toggle_shuffle_queue_def Let_def ys b)
  qed
  ultimately show ?thesis using gone by (simp add: Let_def ys)
qed

text \<open>The run that gets there: shuffle on, "Add to queue", clear, shuffle off.\<close>

definition sample_added :: app where
  "sample_added = insert_queued sample_shuffle False False None [sample_song 8]
     (toggle_shuffle sample_shuffle False sample_app)"

theorem cleared_adds_come_back_witness:
  "let b = clear_queued False sample_added; x = (sample_song 8)\<lparr>queued_end := True\<rparr>
   in x \<notin> set (items (app_queue b)) \<and>
      x \<in> set (items (app_queue (toggle_shuffle sample_shuffle False b)))"
proof -
  let ?x = "(sample_song 8)\<lparr>queued_end := True\<rparr>"
  have sh: "shuffle_upcoming sample_shuffle [sample_song 5, sample_song 6, sample_song 7] 0 =
      [sample_song 5, sample_song 7, sample_song 6]"
    by (simp add: shuffle_upcoming_def run_end_def sample_shuffle_def Let_def)
  have x: "(sample_song 8)\<lparr>queued := False, queued_end := True, queued_from := None\<rparr> = ?x"
    by (simp add: sample_song_def track_to_song_def)
  have q: "items (app_queue sample_added) = [sample_song 5, ?x, sample_song 7, sample_song 6]"
    "current (app_queue sample_added) = 0" "lookahead_loaded (app_queue sample_added) = None"
    "shuffle_orig (app_queue sample_added) = Some [sample_song 5, sample_song 6, sample_song 7, ?x]"
    "played_from (app_queue sample_added) = 0"
    by (simp_all add: sample_added_def insert_queued_def insert_make_room_def mark_queued_def Let_def
        toggle_shuffle_def toggle_shuffle_queue_def sh sample_app_queue retain_after_def x
        enqueue_at_def run_end_def splice_at_def)
  have "active sample_added" by (simp add: active_def queue_ok_def q)
  moreover have "is_manual ?x" by (simp add: is_manual_def)
  ultimately show ?thesis
    using cleared_adds_come_back [OF _ q(4), of ?x sample_shuffle] by (simp add: q Let_def)
qed

end
