(* ===== verification/Download_Names.thy ===== *)
theory Download_Names
  imports Track_Ids
begin

text \<open>
  \<open>crates/ryotunesd/src/downloads.rs\<close>, the parts without a state: settings, the source of a
  track, how a download is named on disk, the index of what the folder already holds, the yt-dlp
  command line and what is read from its output.

  Paths are absolute and lists of components (a relative \<open>HOME\<close> is not modelled). The Unicode tables of \<open>char\<close> (\<open>is_alphanumeric\<close>,
  \<open>to_lowercase\<close>), the parser of \<open>f64\<close> and the environment are parameters.
\<close>

section \<open>Data\<close>

definition MAX_COMPONENT_BYTES :: nat where "MAX_COMPONENT_BYTES = 120"
definition MAX_ERROR_LEN :: nat where "MAX_ERROR_LEN = 600"
definition STAGING_DIR :: ustr where "STAGING_DIR = lit ''.ryotunes-incomplete''"
definition INDEX_MAX_FILES :: nat where "INDEX_MAX_FILES = 20000"
definition INDEX_MAX_DEPTH :: nat where "INDEX_MAX_DEPTH = 6"

datatype download_format = Original | Mp3 | Opus | Flac

datatype download_status = Queued | Downloading | Completed | Failed | Cancelled

fun is_active :: "download_status \<Rightarrow> bool" where
  "is_active Queued = True"
| "is_active Downloading = True"
| "is_active _ = False"

record download_settings =
  ds_path :: ustr
  ds_format :: download_format
  ds_workers :: nat
  organize_by_artist :: bool
  embed_metadata :: bool

record collection_entry =
  ce_video_id :: ustr
  ce_title :: ustr
  ce_artists :: ustr
  ce_thumbnail :: ustr
  ce_collection :: "ustr option"
  ce_collection_kind :: "ustr option"

section \<open>Where a track comes from\<close>

datatype source = YouTubeSource | SoundCloudSource | SpotifySource

fun source_label :: "source \<Rightarrow> ustr" where
  "source_label YouTubeSource = lit ''YouTube''"
| "source_label SoundCloudSource = lit ''SoundCloud''"
| "source_label SpotifySource = lit ''YouTube match for Spotify''"

definition is_youtube_id :: "ustr \<Rightarrow> bool" where
  "is_youtube_id s = (byte_len s = 11 \<and>
     list_all (\<lambda>c. is_ascii_alphanumeric c \<or> c = 45 \<or> c = 95) s)"

definition classify :: "ustr \<Rightarrow> ustr + source" where
  "classify v =
     (if is_local_song v then Inl (lit ''This track is already a local file on your computer.'')
      else if is_radio_id v then Inl (lit ''Radio stations are live streams and can't be downloaded.'')
      else if sc_track_id v \<noteq> None then Inr SoundCloudSource
      else if spotify_track_id v \<noteq> None then Inr SpotifySource
      else if is_youtube_id v then Inr YouTubeSource
      else Inl (lit ''This track can't be downloaded.''))"

text \<open>\<open>resolve_target\<close>; for SoundCloud, \<open>lookup\<close> is the answer of the service: the link as
  \<open>url::Url\<close> splits it (scheme, host, whole text), or why there is none.\<close>

record web_url =
  url_scheme :: ustr
  url_host :: "ustr option"
  url_text :: ustr

definition resolve_target :: "(nat \<Rightarrow> ustr + web_url) \<Rightarrow> ustr \<Rightarrow> ustr \<Rightarrow> ustr \<Rightarrow> ustr + ustr" where
  "resolve_target lookup v ar ti =
     (case classify v of
        Inl e \<Rightarrow> Inl e
      | Inr YouTubeSource \<Rightarrow> Inr (lit ''https://www.youtube.com/watch?v='' @ v)
      | Inr SpotifySource \<Rightarrow>
          Inr (lit ''ytsearch1:'' @ trim ar @ lit '' '' @ trim ti @ lit '' official audio'')
      | Inr SoundCloudSource \<Rightarrow>
          (case sc_track_id v of
             None \<Rightarrow> Inl (lit ''Invalid SoundCloud track id.'')
           | Some n \<Rightarrow> (case lookup n of
               Inl e \<Rightarrow> Inl e
             | Inr u \<Rightarrow>
                 if url_scheme u \<noteq> lit ''https'' \<or>
                    (url_host u \<noteq> Some (lit ''soundcloud.com'') \<and>
                     url_host u \<noteq> Some (lit ''www.soundcloud.com''))
                 then Inl (lit ''SoundCloud returned an unsupported track link.'')
                 else Inr (url_text u))))"

section \<open>Names on disk\<close>

fun truncate_loop :: "nat \<Rightarrow> ustr \<Rightarrow> ustr" where
  "truncate_loop room [] = []"
| "truncate_loop room (c # s) =
     (if room < utf8_width c then [] else c # truncate_loop (room - utf8_width c) s)"

definition truncate_chars :: "ustr \<Rightarrow> nat \<Rightarrow> ustr" where
  "truncate_chars s n = (if byte_len s \<le> n then s else truncate_loop n s)"

text \<open>The slash, backslash, colon, star, question mark, double quote, angle brackets, bar and NUL.\<close>

definition is_reserved :: "uchar \<Rightarrow> bool" where
  "is_reserved c = (c \<in> {47, 92, 58, 42, 63, 34, 60, 62, 124, 0})"

fun sanitize_chars :: "bool \<Rightarrow> ustr \<Rightarrow> ustr" where
  "sanitize_chars last_space [] = []"
| "sanitize_chars last_space (c # s) =
     (if is_control c then sanitize_chars last_space s
      else let mapped = (if is_reserved c then 95 else c)
           in if is_whitespace mapped
              then (if last_space then sanitize_chars True s else 32 # sanitize_chars True s)
              else mapped # sanitize_chars False s)"

definition trim_dots :: "ustr \<Rightarrow> ustr" where
  "trim_dots s = trim (trim_matches (\<lambda>c. c = 46) (trim s))"

definition sanitize_component :: "ustr \<Rightarrow> ustr" where
  "sanitize_component input =
     (let trimmed = trim_dots (sanitize_chars False input);
          bounded = trim_dots (truncate_chars trimmed MAX_COMPONENT_BYTES)
      in if bounded = [] then lit ''download'' else bounded)"

text \<open>\<open>str::find\<close> and \<open>str::rfind\<close>.\<close>

fun find_str :: "ustr \<Rightarrow> ustr \<Rightarrow> nat option" where
  "find_str p [] = (if p = [] then Some 0 else None)"
| "find_str p (c # s) =
     (if starts_with p (c # s) then Some 0 else map_option Suc (find_str p s))"

fun rfind_str :: "ustr \<Rightarrow> ustr \<Rightarrow> nat option" where
  "rfind_str p [] = (if p = [] then Some 0 else None)"
| "rfind_str p (c # s) =
     (case rfind_str p s of
        Some i \<Rightarrow> Some (Suc i)
      | None \<Rightarrow> if starts_with p (c # s) then Some 0 else None)"

fun find_char :: "(uchar \<Rightarrow> bool) \<Rightarrow> ustr \<Rightarrow> nat option" where
  "find_char p [] = None"
| "find_char p (c # s) = (if p c then Some 0 else map_option Suc (find_char p s))"

definition or_else :: "'a option \<Rightarrow> 'a option \<Rightarrow> 'a option" where
  "or_else a b = (case a of None \<Rightarrow> b | Some _ \<Rightarrow> a)"

definition primary_artist :: "ustr \<Rightarrow> ustr" where
  "primary_artist s =
     (let cut = (case or_else (find_char (\<lambda>c. c \<in> {44, 38, 8226, 59}) s)
                   (or_else (find_str (lit '' feat'') s) (find_str (lit '' ft.'') s)) of
                   Some i \<Rightarrow> i | None \<Rightarrow> length s);
          first = trim (take cut s)
      in if first = [] then lit ''Unknown Artist'' else first)"

type_synonym path = "ustr list"

definition path_of :: "ustr \<Rightarrow> path" where
  "path_of s = filter (\<lambda>c. c \<noteq> [] \<and> c \<noteq> [46]) (split_on 47 s)"

definition path_join :: "path \<Rightarrow> ustr \<Rightarrow> path" where
  "path_join p s = (if starts_with [47] s then path_of s else p @ path_of s)"

definition path_str :: "path \<Rightarrow> ustr" where
  "path_str p = concat (map (\<lambda>c. 47 # c) p)"

definition base_name :: "download_settings \<Rightarrow> ustr \<Rightarrow> ustr \<Rightarrow> ustr" where
  "base_name st ti ar =
     (if organize_by_artist st \<or> trim ar = [] then ti
      else trim ar @ lit '' - '' @ trim ti)"

definition file_name :: "download_settings \<Rightarrow> ustr \<Rightarrow> ustr \<Rightarrow> ustr \<Rightarrow> ustr" where
  "file_name st ti ar v =
     sanitize_component (base_name st ti ar) @ lit '' ['' @ sanitize_component v @ lit '']''"

definition compute_final_path :: "download_settings \<Rightarrow> ustr \<Rightarrow> ustr \<Rightarrow> ustr \<Rightarrow> ustr \<Rightarrow> ustr option \<Rightarrow> path" where
  "compute_final_path st ti ar v ext coll =
     (let dir = path_of (ds_path st);
          dir = (case Option.bind coll (\<lambda>c. if trim c = [] then None else Some (trim c)) of
                   Some label \<Rightarrow> path_join dir (sanitize_component label)
                 | None \<Rightarrow> if organize_by_artist st
                           then path_join dir (sanitize_component (primary_artist ar)) else dir)
      in path_join dir (file_name st ti ar v @ lit ''.'' @ ext))"

section \<open>What the folder already holds\<close>

record unicode =
  u_alphanumeric :: "uchar \<Rightarrow> bool"
  u_lowercase :: "uchar \<Rightarrow> ustr"

definition strip_id_tag :: "ustr \<Rightarrow> ustr" where
  "strip_id_tag stem =
     (case rfind_str (lit '' ['') stem of
        Some i \<Rightarrow> if stem \<noteq> [] \<and> last stem = 93 \<and> i + 2 < length stem then take i stem else stem
      | None \<Rightarrow> stem)"

definition normalize_key :: "unicode \<Rightarrow> ustr \<Rightarrow> ustr" where
  "normalize_key u s = concat (map (u_lowercase u) (filter (u_alphanumeric u) s))"

text \<open>\<open>Path::file_stem\<close> and \<open>Path::extension\<close> of a file name.\<close>

definition file_stem :: "ustr \<Rightarrow> ustr" where
  "file_stem n = (case rsplit_once 46 n of
     Some (before, _) \<Rightarrow> if before = [] then n else before | None \<Rightarrow> n)"

definition extension :: "ustr \<Rightarrow> ustr option" where
  "extension n = (case rsplit_once 46 n of
     Some (before, after) \<Rightarrow> if before = [] then None else Some after | None \<Rightarrow> None)"

text \<open>A directory as \<open>read_dir\<close> lists it: files, directories and everything else (links).\<close>

datatype node = RegularFile | Directory "(ustr \<times> node) list" | OtherNode

record folder_index =
  fi_stems :: "(ustr, path) hmap"
  fi_keys :: "(ustr, path) hmap"
  fi_root :: path

definition index_file :: "unicode \<Rightarrow> path \<Rightarrow> ustr \<Rightarrow> folder_index \<Rightarrow> folder_index" where
  "index_file u dir name ix =
     (let stem = file_stem name; p = dir @ [name]; key = normalize_key u (strip_id_tag stem)
      in ix\<lparr>fi_stems := hput stem p (fi_stems ix),
            fi_keys := (if hget (fi_keys ix) key = None then hput key p (fi_keys ix)
                        else fi_keys ix)\<rparr>)"

fun walk :: "unicode \<Rightarrow> path \<Rightarrow> nat \<Rightarrow> (ustr \<times> node) list \<Rightarrow> folder_index \<Rightarrow> folder_index" where
  "walk u dir depth [] ix = ix"
| "walk u dir depth ((name, n) # rest) ix =
     (if INDEX_MAX_DEPTH < depth \<or> INDEX_MAX_FILES \<le> length (fi_stems ix) then ix
      else walk u dir depth rest
        (if starts_with STAGING_DIR name then ix
         else case n of
           Directory es \<Rightarrow> walk u (dir @ [name]) (depth + 1) es ix
         | RegularFile \<Rightarrow> index_file u dir name ix
         | OtherNode \<Rightarrow> ix))"

definition index_build :: "unicode \<Rightarrow> path \<Rightarrow> (ustr \<times> node) list \<Rightarrow> folder_index" where
  "index_build u base es = walk u base 0 es \<lparr>fi_stems = [], fi_keys = [], fi_root = base\<rparr>"

definition relativize :: "folder_index \<Rightarrow> path \<Rightarrow> path" where
  "relativize ix p =
     (if take (length (fi_root ix)) p = fi_root ix then drop (length (fi_root ix)) p else p)"

definition with_suffix :: "ustr \<Rightarrow> nat \<Rightarrow> ustr" where
  "with_suffix stem n = stem @ lit '' ('' @ dec n @ lit '')''"

definition first_some :: "('a \<Rightarrow> 'b option) \<Rightarrow> 'a list \<Rightarrow> 'b option" where
  "first_some f xs = (case List.map_filter f xs of [] \<Rightarrow> None | y # _ \<Rightarrow> Some y)"

definition index_find :: "unicode \<Rightarrow> folder_index \<Rightarrow> download_settings \<Rightarrow> collection_entry \<Rightarrow> path option" where
  "index_find u ix st e =
     (let stem = file_name st (ce_title e) (ce_artists e) (ce_video_id e)
      in case hget (fi_stems ix) stem of
           Some p \<Rightarrow> Some (relativize ix p)
         | None \<Rightarrow>
             (case first_some (\<lambda>n. hget (fi_stems ix) (with_suffix stem n)) [1..<51] of
                Some p \<Rightarrow> Some (relativize ix p)
              | None \<Rightarrow>
                  let key = normalize_key u (strip_id_tag stem)
                  in if key = [] then None else map_option (relativize ix) (hget (fi_keys ix) key)))"

section \<open>The downloader\<close>

fun format_args :: "download_format \<Rightarrow> ustr list" where
  "format_args Original = [lit ''--audio-format'', lit ''best'']"
| "format_args Mp3 = [lit ''--audio-format'', lit ''mp3'', lit ''--audio-quality'', lit ''320K'']"
| "format_args Opus = [lit ''--audio-format'', lit ''opus'', lit ''--audio-quality'', lit ''160K'']"
| "format_args Flac = [lit ''--audio-format'', lit ''flac'', lit ''--postprocessor-args'',
     lit ''ExtractAudio:-sample_fmt s16'']"

definition double_percent :: "ustr \<Rightarrow> ustr" where
  "double_percent s = concat (map (\<lambda>c. if c = 37 then [37, 37] else [c]) s)"

definition build_command :: "ustr \<Rightarrow> path \<Rightarrow> download_settings \<Rightarrow> ustr list" where
  "build_command target staging st =
     map lit [''--ignore-config'', ''--no-plugin-dirs'', ''--no-playlist'', ''--no-exec'',
       ''--no-continue'', ''--newline'', ''--no-color'', ''--progress'', ''--progress-delta'', ''0.4'',
       ''--socket-timeout'', ''20'', ''--retries'', ''2'', ''--fragment-retries'', ''2'',
       ''--concurrent-fragments'', ''1'', ''--postprocessor-args'', ''ffmpeg:-threads 1'',
       ''-f'', ''bestaudio/best'', ''-x''] @
     [lit ''-o'', double_percent (path_str staging) @ lit ''/audio.%(ext)s''] @
     format_args (ds_format st) @
     (if embed_metadata st then [lit ''--embed-metadata''] else []) @
     [lit ''--'', target]"

text \<open>\<open>f64::clamp\<close> and \<open>round\<close> (half away from zero) of a finite value.\<close>

fun clamp_percent :: "f64 \<Rightarrow> nat option" where
  "clamp_percent (Fin q) = Some (nat \<lfloor>max 0 (min 100 q) + 1 / 2\<rfloor>)"
| "clamp_percent _ = None"

fun parse_tokens :: "(ustr \<Rightarrow> f64 option) \<Rightarrow> ustr list \<Rightarrow> nat option" where
  "parse_tokens parse_f64 [] = None"
| "parse_tokens parse_f64 (t # ts) =
     (case Option.bind (Option.bind (strip_suffix [37] t) parse_f64) clamp_percent of
        Some n \<Rightarrow> Some n
      | None \<Rightarrow> parse_tokens parse_f64 ts)"

definition parse_progress :: "(ustr \<Rightarrow> f64 option) \<Rightarrow> ustr \<Rightarrow> nat option" where
  "parse_progress parse_f64 line =
     (if contains (lit ''[download]'') line
      then parse_tokens parse_f64 (split_whitespace line) else None)"

definition error_message :: "ustr \<Rightarrow> int option \<Rightarrow> ustr" where
  "error_message output code =
     (let ls = filter (\<lambda>l. l \<noteq> []) (map trim (str_lines output));
          errs = filter (contains (lit ''ERROR'')) ls
      in if errs \<noteq> [] then truncate_chars (last errs) MAX_ERROR_LEN
         else if ls \<noteq> [] then truncate_chars (last ls) MAX_ERROR_LEN
         else case code of
           Some c \<Rightarrow> lit ''The download failed (exit code '' @
             (if c < 0 then 45 # dec (nat (- c)) else dec (nat c)) @ lit '').''
         | None \<Rightarrow> lit ''The download was terminated.'')"

section \<open>Folders\<close>

record environment =
  env_home :: "ustr option"
  env_xdg_music :: "ustr option"
  env_xdg_config :: "ustr option"

definition is_absolute :: "ustr \<Rightarrow> bool" where
  "is_absolute s = starts_with [47] s"

definition home_dir :: "environment \<Rightarrow> path" where
  "home_dir env = (case env_home env of Some h \<Rightarrow> path_of h | None \<Rightarrow> [])"

fun user_dirs_line :: "environment \<Rightarrow> ustr list \<Rightarrow> path option" where
  "user_dirs_line env [] = None"
| "user_dirs_line env (l # ls) =
     (let l = trim l
      in if starts_with [35] l then user_dirs_line env ls
         else case strip_prefix (lit ''XDG_MUSIC_DIR='') l of
           None \<Rightarrow> user_dirs_line env ls
         | Some r \<Rightarrow>
             let v = trim_matches (\<lambda>c. c = 34) (trim r)
             in case strip_prefix (lit ''$HOME/'') v of
                  Some t \<Rightarrow> Some (path_join (home_dir env) t)
                | None \<Rightarrow> if v = lit ''$HOME'' then Some (home_dir env)
                          else if is_absolute v then Some (path_of v)
                          else user_dirs_line env ls)"

definition xdg_user_music_dir :: "environment \<Rightarrow> (path \<Rightarrow> ustr option) \<Rightarrow> path option" where
  "xdg_user_music_dir env read_to_string =
     (let config_home = (case env_xdg_config env of
            Some p \<Rightarrow> if is_absolute p then path_of p else path_join (home_dir env) (lit ''.config'')
          | None \<Rightarrow> path_join (home_dir env) (lit ''.config''))
      in Option.bind (read_to_string (path_join config_home (lit ''user-dirs.dirs'')))
           (\<lambda>t. user_dirs_line env (str_lines t)))"

definition music_root :: "environment \<Rightarrow> (path \<Rightarrow> ustr option) \<Rightarrow> path" where
  "music_root env read_to_string =
     (let fallback = (case xdg_user_music_dir env read_to_string of
            Some p \<Rightarrow> p | None \<Rightarrow> path_join (home_dir env) (lit ''Music''))
      in case env_xdg_music env of
           Some d \<Rightarrow> if is_absolute d then path_of d else fallback
         | None \<Rightarrow> fallback)"

definition default_music_dir :: "environment \<Rightarrow> (path \<Rightarrow> ustr option) \<Rightarrow> path" where
  "default_music_dir env read_to_string = path_join (music_root env read_to_string) (lit ''Ryotunes'')"

definition settings_defaults :: "environment \<Rightarrow> (path \<Rightarrow> ustr option) \<Rightarrow> download_settings" where
  "settings_defaults env read_to_string =
     \<lparr>ds_path = path_str (default_music_dir env read_to_string), ds_format = Original,
      ds_workers = 1, organize_by_artist = True, embed_metadata = True\<rparr>"

definition expand_tilde :: "environment \<Rightarrow> ustr \<Rightarrow> ustr" where
  "expand_tilde env raw =
     (if raw = [126] then path_str (home_dir env)
      else case strip_prefix (lit ''~/'') raw of
        Some r \<Rightarrow> path_str (path_join (home_dir env) r)
      | None \<Rightarrow> raw)"

text \<open>\<open>sanitize_settings\<close>; \<open>create_dir_all\<close>, \<open>canonicalize\<close> and \<open>is_dir\<close> are what the
  file system answers.\<close>

record fs_answers =
  fs_create_dir :: "path \<Rightarrow> ustr option"
  fs_canonicalize :: "path \<Rightarrow> ustr + path"
  fs_is_dir :: "path \<Rightarrow> bool"

definition sanitize_settings ::
    "environment \<Rightarrow> (path \<Rightarrow> ustr option) \<Rightarrow> fs_answers \<Rightarrow> download_settings \<Rightarrow> ustr + download_settings" where
  "sanitize_settings env read_to_string fs st =
     (if ds_workers st < 1 \<or> 4 < ds_workers st
      then Inl (lit ''Choose between 1 and 4 download workers.'')
      else if 4096 < byte_len (ds_path st) \<or> 0 \<in> set (ds_path st)
      then Inl (lit ''The download folder path is invalid.'')
      else let raw = (if trim (ds_path st) = [] then path_str (default_music_dir env read_to_string)
                      else expand_tilde env (trim (ds_path st)));
               p = path_of raw
           in if \<not> is_absolute raw \<or> p = []
              then Inl (lit ''Choose an absolute download folder, not the filesystem root.'')
              else case fs_create_dir fs p of
                Some e \<Rightarrow> Inl (lit ''Could not create the download folder: '' @ e)
              | None \<Rightarrow> (case fs_canonicalize fs p of
                  Inl e \<Rightarrow> Inl e
                | Inr c \<Rightarrow> if fs_is_dir fs c then Inr (st\<lparr>ds_path := path_str c\<rparr>)
                           else Inl (lit ''The download destination is not a folder.'')))"

fun companion_label :: "ustr \<Rightarrow> ustr" where
  "companion_label ext =
     (if ext = lit ''jpg'' \<or> ext = lit ''png'' then lit ''cover art''
      else if ext = lit ''lrc'' then lit ''synced lyrics''
      else if ext = lit ''txt'' then lit ''lyrics''
      else lit ''companion'')"


section \<open>What the names guarantee\<close>

lemma byte_len_mono_dropWhile: "byte_len (dropWhile p s) \<le> byte_len s"
  by (induction s) auto

lemma byte_len_rev [simp]: "byte_len (rev s) = byte_len s"
  by (simp add: byte_len_def rev_map [symmetric])

lemma byte_len_trim_matches: "byte_len (trim_matches p s) \<le> byte_len s"
  using byte_len_mono_dropWhile [of p "rev (dropWhile p s)"] byte_len_mono_dropWhile [of p s]
  by (simp add: trim_matches_def trim_end_matches_def trim_start_matches_def)

lemma byte_len_trim_dots: "byte_len (trim_dots s) \<le> byte_len s"
  unfolding trim_dots_def trim_def by (meson byte_len_trim_matches le_trans)

lemma byte_len_truncate_loop: "byte_len (truncate_loop n s) \<le> n"
  by (induction n s rule: truncate_loop.induct) auto

lemma byte_len_truncate_chars: "byte_len (truncate_chars s n) \<le> n"
  by (simp add: truncate_chars_def byte_len_truncate_loop)

lemma set_truncate_loop: "set (truncate_loop n s) \<subseteq> set s"
  by (induction n s rule: truncate_loop.induct) auto

lemma set_truncate_chars: "set (truncate_chars s n) \<subseteq> set s"
  by (simp add: truncate_chars_def set_truncate_loop)

lemma set_trim_dots: "set (trim_dots s) \<subseteq> set s"
  unfolding trim_dots_def using set_trim set_trim_matches by (meson order_trans)

definition safe_char :: "uchar \<Rightarrow> bool" where
  "safe_char c \<longleftrightarrow> \<not> is_reserved c \<and> \<not> is_control c"

lemma sanitize_chars_safe: "list_all safe_char (sanitize_chars b s)"
proof (induction b s rule: sanitize_chars.induct)
  case (2 b c s)
  have u: "safe_char 95" "safe_char 32" by (simp_all add: safe_char_def is_reserved_def is_control_def)
  show ?case
  proof (cases "is_control c")
    case False
    then have "safe_char (if is_reserved c then 95 else c)" using u by (simp add: safe_char_def)
    with 2 False u show ?thesis by (simp add: Let_def)
  qed (use 2 in simp)
qed simp

lemma trim_trim: "trim (trim s) = trim s"
proof -
  have id: "trim t = t" if "t = [] \<or> \<not> is_whitespace (hd t) \<and> \<not> is_whitespace (last t)" for t
  proof (cases t)
    case (Cons c r)
    with that have "dropWhile is_whitespace t = t" "dropWhile is_whitespace (rev t) = rev t"
      by (simp, metis dropWhile_eq_self_iff hd_rev list.distinct(1) rev_is_Nil_conv)
    then show ?thesis
      by (simp add: trim_def trim_matches_def trim_end_matches_def trim_start_matches_def)
  qed (simp add: trim_def trim_matches_def trim_end_matches_def trim_start_matches_def)
  show ?thesis
    by (rule id) (metis hd_trim_matches last_trim_matches trim_def)
qed

lemma trim_trim_dots: "trim (trim_dots s) = trim_dots s"
  by (simp add: trim_dots_def trim_trim)

lemma safe_sanitize: "list_all safe_char (sanitize_component s)"
proof -
  have "set (trim_dots (truncate_chars (trim_dots (sanitize_chars False s)) MAX_COMPONENT_BYTES))
      \<subseteq> set (sanitize_chars False s)"
    using set_trim_dots set_truncate_chars by (meson order_trans)
  then have "list_all safe_char (trim_dots (truncate_chars (trim_dots (sanitize_chars False s))
      MAX_COMPONENT_BYTES))"
    using sanitize_chars_safe [of False s] by (auto simp: list_all_iff)
  moreover have "list_all safe_char (lit ''download'')"
    by (simp add: lit_Cons safe_char_def is_reserved_def is_control_def)
  ultimately show ?thesis by (simp add: sanitize_component_def Let_def)
qed

text \<open>A sanitised name is a usable path component whatever the title: it is not empty, has at most
  120 bytes, contains no separator, no reserved and no control character, and neither starts nor ends
  with white space.\<close>

theorem sanitize_component_safe:
  "sanitize_component s \<noteq> [] \<and> byte_len (sanitize_component s) \<le> MAX_COMPONENT_BYTES \<and>
   list_all (\<lambda>c. \<not> is_reserved c \<and> \<not> is_control c) (sanitize_component s) \<and>
   trim (sanitize_component s) = sanitize_component s"
proof -
  let ?b = "trim_dots (truncate_chars (trim_dots (sanitize_chars False s)) MAX_COMPONENT_BYTES)"
  have "byte_len ?b \<le> MAX_COMPONENT_BYTES"
    using byte_len_trim_dots byte_len_truncate_chars le_trans by blast
  moreover have "byte_len (lit ''download'') \<le> MAX_COMPONENT_BYTES" "trim (lit ''download'') = lit ''download''"
    by (simp_all add: lit_Cons utf8_width_def MAX_COMPONENT_BYTES_def trim_def trim_matches_def
        trim_end_matches_def trim_start_matches_def is_whitespace_def)
  ultimately show ?thesis
    using trim_trim_dots safe_sanitize [of s]
    by (auto simp: sanitize_component_def Let_def safe_char_def [abs_def] lit_Cons)
qed

section \<open>Where a download goes\<close>

lemma rsplit_once_last: "d \<notin> set t \<Longrightarrow> rsplit_once d (s @ d # t) = Some (s, t)"
proof -
  assume d: "d \<notin> set t"
  have "takeWhile (\<lambda>c. c \<noteq> d) (rev t @ d # rev s) = rev t"
    "dropWhile (\<lambda>c. c \<noteq> d) (rev t @ d # rev s) = d # rev s"
    using d by (auto simp: takeWhile_append dropWhile_append)
  then show ?thesis by (simp add: rsplit_once_def)
qed

lemma file_stem_dot: "46 \<notin> set ext \<Longrightarrow> s \<noteq> [] \<Longrightarrow> file_stem (s @ 46 # ext) = s"
  "46 \<notin> set ext \<Longrightarrow> s \<noteq> [] \<Longrightarrow> extension (s @ 46 # ext) = Some ext"
  by (simp_all add: file_stem_def extension_def rsplit_once_last)

lemma no_slash_sanitize: "47 \<notin> set (sanitize_component s)"
  using safe_sanitize [of s] by (auto simp: list_all_iff safe_char_def is_reserved_def)

lemma file_name_ne [simp]: "file_name st ti ar v \<noteq> []" "file_name st ti ar v @ t \<noteq> [c]"
  by (auto simp: file_name_def lit_Cons append_eq_Cons_conv)

lemma no_slash_file_name: "47 \<notin> set (file_name st ti ar v)"
  using no_slash_sanitize by (simp add: file_name_def lit_Cons)

lemma path_of_component: "47 \<notin> set s \<Longrightarrow> s \<noteq> [] \<Longrightarrow> s \<noteq> [46] \<Longrightarrow> path_of s = [s]"
  by (simp add: path_of_def split_on_no_sep)

lemma path_join_component:
  assumes "47 \<notin> set s" "s \<noteq> []" "s \<noteq> [46]"
  shows "path_join p s = p @ [s]"
proof -
  have "hd s \<noteq> 47" using assms(1,2) by (metis hd_in_set)
  then show ?thesis
    using assms by (cases s) (simp_all add: path_join_def path_of_component starts_with_def)
qed

text \<open>The folder a download goes to.\<close>

definition final_dir :: "download_settings \<Rightarrow> ustr \<Rightarrow> ustr option \<Rightarrow> path" where
  "final_dir st ar coll =
     (case Option.bind coll (\<lambda>c. if trim c = [] then None else Some (trim c)) of
        Some label \<Rightarrow> path_join (path_of (ds_path st)) (sanitize_component label)
      | None \<Rightarrow> if organize_by_artist st
                then path_join (path_of (ds_path st)) (sanitize_component (primary_artist ar))
                else path_of (ds_path st))"

lemma compute_final_path_eq:
  assumes "47 \<notin> set ext"
  shows "compute_final_path st ti ar v ext coll = final_dir st ar coll @ [file_name st ti ar v @ 46 # ext]"
proof -
  let ?n = "file_name st ti ar v @ 46 # ext"
  have "47 \<notin> set ?n" using assms no_slash_file_name by simp
  then have "path_join d ?n = d @ [?n]" for d
    by (rule path_join_component) (simp_all del: append_assoc)
  then show ?thesis
    by (simp add: compute_final_path_def final_dir_def lit_Cons Let_def)
qed


section \<open>Finding what is already there\<close>

lemma index_file_stems: "hget (fi_stems (index_file u dir name ix)) k =
    (if k = file_stem name then Some (dir @ [name]) else hget (fi_stems ix) k)"
  by (simp add: index_file_def Let_def)

lemma walk_keeps: "hget (fi_stems ix) k \<noteq> None \<Longrightarrow> hget (fi_stems (walk u dir depth es ix)) k \<noteq> None"
proof (induction u dir depth es ix rule: walk.induct)
  case (2 u dir depth name n rest ix)
  let ?ix = "if starts_with STAGING_DIR name then ix
     else case n of Directory es \<Rightarrow> walk u (dir @ [name]) (depth + 1) es ix
       | RegularFile \<Rightarrow> index_file u dir name ix | OtherNode \<Rightarrow> ix"
  show ?case
  proof (cases "INDEX_MAX_DEPTH < depth \<or> INDEX_MAX_FILES \<le> length (fi_stems ix)")
    case False
    have "hget (fi_stems ?ix) k \<noteq> None"
      using 2(1) [OF False] 2(3) by (cases n) (auto simp: index_file_stems)
    then show ?thesis using 2(2) [OF False] False by simp
  qed (use 2(3) in simp)
qed simp

text \<open>How many regular files a listing holds, and that it holds one by that name where the index
  looks: outside staging folders, not too deep.\<close>

fun file_count :: "(ustr \<times> node) list \<Rightarrow> nat" where
  "file_count [] = 0"
| "file_count ((_, Directory es) # rest) = file_count es + file_count rest"
| "file_count ((_, RegularFile) # rest) = Suc (file_count rest)"
| "file_count ((_, OtherNode) # rest) = file_count rest"

fun holds_file :: "nat \<Rightarrow> (ustr \<times> node) list \<Rightarrow> ustr \<Rightarrow> bool" where
  "holds_file depth [] name = False"
| "holds_file depth ((m, n) # rest) name =
     (depth \<le> INDEX_MAX_DEPTH \<and>
      (holds_file depth rest name \<or>
       \<not> starts_with STAGING_DIR m \<and>
         (case n of RegularFile \<Rightarrow> m = name | Directory es \<Rightarrow> holds_file (depth + 1) es name
          | OtherNode \<Rightarrow> False)))"

lemma length_hput_le: "length (hput k v m) \<le> Suc (length m)"
  by (simp add: length_hput)

lemma length_walk: "length (fi_stems (walk u dir depth es ix)) \<le> length (fi_stems ix) + file_count es"
proof (induction u dir depth es ix rule: walk.induct)
  case (2 u dir depth name n rest ix)
  let ?ix = "if starts_with STAGING_DIR name then ix
     else case n of Directory es \<Rightarrow> walk u (dir @ [name]) (depth + 1) es ix
       | RegularFile \<Rightarrow> index_file u dir name ix | OtherNode \<Rightarrow> ix"
  show ?case
  proof (cases "INDEX_MAX_DEPTH < depth \<or> INDEX_MAX_FILES \<le> length (fi_stems ix)")
    case True
    then show ?thesis by (cases n) auto
  next
    case False
    have "length (fi_stems ?ix) \<le> length (fi_stems ix) + file_count [(name, n)]"
      using 2(1) [OF False] length_hput_le by (cases n) (auto simp: index_file_def Let_def)
    moreover have "file_count ((name, n) # rest) = file_count [(name, n)] + file_count rest"
      by (cases n) auto
    ultimately show ?thesis using 2(2) [OF False] False by simp
  qed
qed simp

lemma walk_finds:
  "holds_file depth es name \<Longrightarrow> length (fi_stems ix) + file_count es \<le> INDEX_MAX_FILES \<Longrightarrow>
   hget (fi_stems (walk u dir depth es ix)) (file_stem name) \<noteq> None"
proof (induction u dir depth es ix rule: walk.induct)
  case (2 u dir depth m n rest ix)
  let ?ix = "if starts_with STAGING_DIR m then ix
     else case n of Directory es \<Rightarrow> walk u (dir @ [m]) (depth + 1) es ix
       | RegularFile \<Rightarrow> index_file u dir m ix | OtherNode \<Rightarrow> ix"
  have count: "file_count ((m, n) # rest) = file_count [(m, n)] + file_count rest"
    by (cases n) auto
  have ix: "length (fi_stems ?ix) \<le> length (fi_stems ix) + file_count [(m, n)]"
    using length_walk [of u "dir @ [m]" "depth + 1"] length_hput_le
    by (cases n) (auto simp: index_file_def Let_def)
  show ?case
  proof (cases "length (fi_stems ix) < INDEX_MAX_FILES")
    case True
    with 2(3) have ok: "\<not> (INDEX_MAX_DEPTH < depth \<or> INDEX_MAX_FILES \<le> length (fi_stems ix))" by simp
    consider "holds_file depth rest name" | "\<not> starts_with STAGING_DIR m" "n = RegularFile" "m = name"
      | es where "\<not> starts_with STAGING_DIR m" "n = Directory es" "holds_file (depth + 1) es name"
      using 2(3) by (cases n) auto
    then have "hget (fi_stems (walk u dir depth rest ?ix)) (file_stem name) \<noteq> None"
    proof cases
      case 1
      show ?thesis by (rule 2(2) [OF ok 1]) (use ix count 2(4) in linarith)
    next
      case 2
      then show ?thesis by (intro walk_keeps) (simp add: index_file_stems)
    next
      case 3
      then have "hget (fi_stems (walk u (dir @ [m]) (depth + 1) es ix)) (file_stem name) \<noteq> None"
        using 2(1) [OF ok 3(1,2,3)] 2(4) by simp
      with 3 show ?thesis by (intro walk_keeps) simp
    qed
    with ok show ?thesis by simp
  next
    case False
    then have "file_count ((m, n) # rest) = 0" using 2(4) by simp
    moreover have "file_count xs = 0 \<Longrightarrow> \<not> holds_file d xs name" for d xs
      by (induction d xs name rule: holds_file.induct) (auto split: node.splits)
    ultimately show ?thesis using 2(3) by blast
  qed
qed simp

end
