(* ===== verification/Download_Publish.thy ===== *)
theory Download_Publish
  imports Download_Names
begin

text \<open>
  How a finished download reaches the user's folder (\<open>find_output_file\<close>, \<open>collect_sidecars\<close>,
  \<open>publish\<close> of \<open>crates/ryotunesd/src/downloads.rs\<close>).

  The file system is a table from paths to what is there; directories are implicit. What a system
  call answers beyond that (that a directory cannot be listed or made, what a path canonicalises to,
  that a flush or a link is refused) is the argument \<open>publish_io\<close>.
\<close>

section \<open>Model\<close>

datatype file_node = RegularNode nat | OtherFile

type_synonym filesystem = "(path, file_node) hmap"

record publish_io =
  io_list_error :: "ustr option"
  io_mkdir_error :: "ustr option"
  io_root :: "ustr + path"
  io_parent :: "ustr + path"
  io_sync_error :: "ustr option"
  io_link_error :: "path \<Rightarrow> ustr option"

fun nonempty_file :: "file_node \<Rightarrow> bool" where
  "nonempty_file (RegularNode n) = (0 < n)"
| "nonempty_file OtherFile = False"

definition parent_of :: "path \<Rightarrow> path" where
  "parent_of p = butlast p"

definition audio_extensions :: "ustr list" where
  "audio_extensions = map lit [''mp3'', ''m4a'', ''opus'', ''ogg'', ''aac'', ''flac'', ''wav'', ''webm'', ''mp4'']"

definition is_audio_output :: "path \<times> file_node \<Rightarrow> bool" where
  "is_audio_output e =
     (let name = last (fst e)
      in nonempty_file (snd e) \<and> file_stem name = lit ''audio'' \<and>
         (case extension name of Some x \<Rightarrow> x \<in> set audio_extensions | None \<Rightarrow> False))"

definition in_directory :: "path \<Rightarrow> path \<times> file_node \<Rightarrow> bool" where
  "in_directory dir e = (fst e \<noteq> [] \<and> parent_of (fst e) = dir)"

fun find_output_loop :: "(path \<times> file_node) list \<Rightarrow> path option \<Rightarrow> ustr + path" where
  "find_output_loop [] out = (case out of
     Some p \<Rightarrow> Inr p | None \<Rightarrow> Inl (lit ''The download produced no finished audio file.''))"
| "find_output_loop (e # es) out =
     (if is_audio_output e
      then (if out \<noteq> None then Inl (lit ''The downloader produced ambiguous audio output.'')
            else find_output_loop es (Some (fst e)))
      else find_output_loop es out)"

definition find_output_file :: "publish_io \<Rightarrow> filesystem \<Rightarrow> path \<Rightarrow> ustr + path" where
  "find_output_file io fs dir =
     (case io_list_error io of
        Some e \<Rightarrow> Inl e
      | None \<Rightarrow> find_output_loop (filter (in_directory dir) fs) None)"

fun collect_sidecars :: "filesystem \<Rightarrow> path \<Rightarrow> path list \<Rightarrow> (ustr \<times> path) list \<Rightarrow> (ustr \<times> path) list" where
  "collect_sidecars fs staging [] out = out"
| "collect_sidecars fs staging (p # ps) out =
     collect_sidecars fs staging ps
       (if p = [] \<or> parent_of p \<noteq> staging then out
        else case map_option to_ascii_lowercase (extension (last p)) of
          None \<Rightarrow> out
        | Some x \<Rightarrow>
            if x \<notin> set (map lit [''jpg'', ''png'', ''lrc'', ''txt'']) \<or> x \<in> set (map fst out) then out
            else case hget fs p of
              Some nd \<Rightarrow> if nonempty_file nd then out @ [(x, p)] else out
            | None \<Rightarrow> out)"

text \<open>\<open>std::fs::hard_link\<close>: never replaces what is there.\<close>

datatype link_result = Linked | AlreadyExists | LinkFailed ustr

definition hard_link :: "publish_io \<Rightarrow> path \<Rightarrow> path \<Rightarrow> filesystem \<Rightarrow> link_result \<times> filesystem" where
  "hard_link io src dst fs =
     (if hget fs dst \<noteq> None then (AlreadyExists, fs)
      else case io_link_error io dst of
        Some e \<Rightarrow> (LinkFailed e, fs)
      | None \<Rightarrow> (case hget fs src of
          Some nd \<Rightarrow> (Linked, hput dst nd fs)
        | None \<Rightarrow> (LinkFailed (lit ''No such file or directory''), fs)))"

definition suffixed :: "ustr \<Rightarrow> nat \<Rightarrow> ustr \<Rightarrow> ustr" where
  "suffixed stem n ext = (if n = 0 then stem else with_suffix stem n) @ lit ''.'' @ ext"

fun link_companions :: "publish_io \<Rightarrow> path \<Rightarrow> ustr \<Rightarrow> nat \<Rightarrow> (ustr \<times> path) list
    \<Rightarrow> path list \<times> ustr list \<times> filesystem \<Rightarrow> bool \<times> path list \<times> ustr list \<times> filesystem" where
  "link_companions io dir stem n [] (created, warn, fs) = (False, created, warn, fs)"
| "link_companions io dir stem n ((ext, src) # cs) (created, warn, fs) =
     (let dst = dir @ [suffixed stem n ext]
      in case hard_link io src dst fs of
           (Linked, fs') \<Rightarrow> link_companions io dir stem n cs (created @ [dst], warn, fs')
         | (AlreadyExists, _) \<Rightarrow> (True, created, warn, fs)
         | (LinkFailed e, _) \<Rightarrow> link_companions io dir stem n cs (created,
             warn @ [lit ''Couldn't save the '' @ companion_label ext @ lit '' file: '' @ e], fs))"

definition remove_files :: "path list \<Rightarrow> filesystem \<Rightarrow> filesystem" where
  "remove_files ps fs = foldl (\<lambda>fs p. hdel p fs) fs ps"

fun publish_loop :: "publish_io \<Rightarrow> path \<Rightarrow> path \<Rightarrow> ustr \<Rightarrow> ustr \<Rightarrow> (ustr \<times> path) list \<Rightarrow> nat list
    \<Rightarrow> ustr list \<times> filesystem \<Rightarrow> (ustr + path) \<times> ustr list \<times> filesystem" where
  "publish_loop io src dir stem ext comps [] (warn, fs) =
     (Inl (lit ''Too many files share this track's filename. Choose another download folder.''), warn, fs)"
| "publish_loop io src dir stem ext comps (n # ns) (warn, fs) =
     (let dst = dir @ [suffixed stem n ext]
      in case hard_link io src dst fs of
           (AlreadyExists, _) \<Rightarrow> publish_loop io src dir stem ext comps ns (warn, fs)
         | (LinkFailed e, _) \<Rightarrow> (Inl (lit ''Could not save the audio file: '' @ e), warn, fs)
         | (Linked, fs1) \<Rightarrow>
             (case link_companions io dir stem n comps ([dst], [], fs1) of
                (True, created, _, fs2) \<Rightarrow>
                  publish_loop io src dir stem ext comps ns (warn, remove_files created fs2)
              | (False, _, w, fs2) \<Rightarrow> (Inr dst, warn @ w, fs2)))"

definition publish :: "publish_io \<Rightarrow> path \<Rightarrow> download_settings \<Rightarrow> ustr \<Rightarrow> ustr \<Rightarrow> ustr \<Rightarrow> ustr option \<Rightarrow> path list
    \<Rightarrow> ustr list \<times> filesystem \<Rightarrow> (ustr + path) \<times> ustr list \<times> filesystem" where
  "publish io staging st ti ar v coll sidecars w =
     (case find_output_file io (snd w) staging of
        Inl e \<Rightarrow> (Inl e, w)
      | Inr produced \<Rightarrow>
          (case extension (last produced) of
             None \<Rightarrow> (Inl (lit ''The download has no audio extension.''), w)
           | Some ext \<Rightarrow>
               let p = compute_final_path st ti ar v ext coll;
                   dir = parent_of p
               in case io_mkdir_error io of
                    Some e \<Rightarrow> (Inl e, w)
                  | None \<Rightarrow> (case (io_root io, io_parent io) of
                      (Inl e, _) \<Rightarrow> (Inl e, w)
                    | (Inr r, Inl e) \<Rightarrow> (Inl e, w)
                    | (Inr r, Inr d) \<Rightarrow>
                        if take (length r) d \<noteq> r
                        then (Inl (lit ''The artist folder points outside your download folder.''), w)
                        else case io_sync_error io of
                          Some e \<Rightarrow> (Inl e, w)
                        | None \<Rightarrow> publish_loop io produced dir (file_stem (last p)) ext
                            (collect_sidecars (snd w) staging sidecars []) [0..<1000] w)))"

section \<open>Linking\<close>

lemma hard_link_Linked:
  "hard_link io src dst fs = (Linked, fs') \<longleftrightarrow>
     hget fs dst = None \<and> io_link_error io dst = None \<and>
     (\<exists>nd. hget fs src = Some nd \<and> fs' = hput dst nd fs)"
  by (auto simp: hard_link_def split: option.splits)

lemma hard_link_AlreadyExists:
  "hard_link io src dst fs = (AlreadyExists, fs') \<longleftrightarrow> hget fs dst \<noteq> None \<and> fs' = fs"
  by (auto simp: hard_link_def split: option.splits)

lemma hard_link_LinkFailed: "hard_link io src dst fs = (LinkFailed e, fs') \<Longrightarrow> fs' = fs"
  by (auto simp: hard_link_def split: option.splits if_splits)

text \<open>Two tables that look the same to every lookup.\<close>

definition fs_eq :: "filesystem \<Rightarrow> filesystem \<Rightarrow> bool" where
  "fs_eq fs fs' \<longleftrightarrow> (\<forall>p. hget fs p = hget fs' p)"

lemma hget_remove_files: "hget (remove_files ps fs) p = (if p \<in> set ps then None else hget fs p)"
  unfolding remove_files_def by (induction ps arbitrary: fs) auto

text \<open>What links add: the paths in \<open>created\<close>, all of them free before.\<close>

definition extends :: "filesystem \<Rightarrow> path list \<Rightarrow> filesystem \<Rightarrow> bool" where
  "extends fs created fs' \<longleftrightarrow>
     (\<forall>p \<in> set created. hget fs p = None \<and> hget fs' p \<noteq> None) \<and>
     (\<forall>p. p \<notin> set created \<longrightarrow> hget fs' p = hget fs p)"

lemma extendsD:
  assumes "extends fs created fs'"
  shows "p \<in> set created \<Longrightarrow> hget fs p = None" "p \<notin> set created \<Longrightarrow> hget fs' p = hget fs p"
  using assms by (simp_all add: extends_def)

lemma extends_refl [simp]: "extends fs [] fs"
  by (simp add: extends_def)

lemma extends_link: "extends fs created fs' \<Longrightarrow> hget fs' dst = None \<Longrightarrow>
    extends fs (created @ [dst]) (hput dst nd fs')"
  unfolding extends_def by (metis (no_types, lifting) Un_iff empty_iff hget_hput insert_iff list.set option.distinct(1) set_append)

lemma extends_undo: "extends fs created fs' \<Longrightarrow> fs_eq (remove_files created fs') fs"
  unfolding fs_eq_def extends_def by (metis hget_remove_files)

lemma extends_cong: "fs_eq fs1 fs \<Longrightarrow> extends fs1 created fs' \<Longrightarrow> extends fs created fs'"
  unfolding extends_def fs_eq_def by metis

lemma link_companions_extends:
  "link_companions io dir stem n cs (created0, w0, fs0) = (col, created, w, fs') \<Longrightarrow>
   extends fs created0 fs0 \<Longrightarrow>
   extends fs created fs' \<and>
   (\<exists>exts. created = created0 @ map (\<lambda>x. dir @ [suffixed stem n x]) exts \<and> set exts \<subseteq> set (map fst cs))"
proof (induction cs arbitrary: created0 w0 fs0)
  case (Cons c cs)
  obtain ext src where c: "c = (ext, src)" by fastforce
  let ?dst = "dir @ [suffixed stem n ext]"
  obtain r fs1 where l: "hard_link io src ?dst fs0 = (r, fs1)" by fastforce
  show ?case
  proof (cases r)
    case Linked
    with l obtain nd where nd: "hget fs0 ?dst = None" "fs1 = hput ?dst nd fs0"
      by (auto simp: hard_link_Linked)
    have "link_companions io dir stem n cs (created0 @ [?dst], w0, fs1) = (col, created, w, fs')"
      using Cons.prems(1) l Linked c by simp
    moreover have "extends fs (created0 @ [?dst]) fs1"
      using extends_link [OF Cons.prems(2) nd(1)] nd(2) by simp
    ultimately have "extends fs created fs' \<and> (\<exists>exts. created = (created0 @ [?dst]) @
        map (\<lambda>x. dir @ [suffixed stem n x]) exts \<and> set exts \<subseteq> set (map fst cs))"
      by (rule Cons.IH)
    then obtain exts where "extends fs created fs'"
      "created = created0 @ map (\<lambda>x. dir @ [suffixed stem n x]) (ext # exts)"
      "set (ext # exts) \<subseteq> set (map fst (c # cs))" using c by auto
    then show ?thesis by blast
  next
    case AlreadyExists
    with Cons.prems l c show ?thesis by (auto intro: exI [of _ "[]"])
  next
    case (LinkFailed e)
    then have "link_companions io dir stem n cs (created0,
        w0 @ [lit ''Couldn't save the '' @ companion_label ext @ lit '' file: '' @ e], fs0) =
        (col, created, w, fs')"
      using Cons.prems(1) l c by simp
    from Cons.IH [OF this Cons.prems(2)] show ?thesis using c by auto
  qed
qed auto


lemma link_companions_keeps:
  "link_companions io dir stem n cs (created0, w0, fs0) = (col, created, w, fs') \<Longrightarrow>
   hget fs0 p = Some nd \<Longrightarrow> hget fs' p = Some nd"
proof (induction cs arbitrary: created0 w0 fs0)
  case (Cons c cs)
  obtain ext src where c: "c = (ext, src)" by fastforce
  obtain r fs1 where l: "hard_link io src (dir @ [suffixed stem n ext]) fs0 = (r, fs1)" by fastforce
  show ?case
  proof (cases r)
    case Linked
    with l Cons.prems(2) have "hget fs1 p = Some nd" by (auto simp: hard_link_Linked)
    with Cons.prems(1) Cons.IH l Linked c show ?thesis by simp
  qed (use Cons.prems Cons.IH l c in auto)
qed simp

lemma suffixed_inj: "suffixed stem n x = suffixed stem n y \<Longrightarrow> x = y"
  by (simp add: suffixed_def)

text \<open>A name of the set is already there under suffix \<open>n\<close>.\<close>

definition taken :: "filesystem \<Rightarrow> path \<Rightarrow> ustr \<Rightarrow> ustr list \<Rightarrow> nat \<Rightarrow> bool" where
  "taken fs dir stem exts n \<longleftrightarrow> (\<exists>x \<in> set exts. hget fs (dir @ [suffixed stem n x]) \<noteq> None)"

lemma link_companions_collision:
  "link_companions io dir stem n cs (created0, w0, fs0) = (True, created, w, fs') \<Longrightarrow>
   extends fs created0 fs0 \<Longrightarrow> distinct (map fst cs) \<Longrightarrow>
   (\<forall>x \<in> set (map fst cs). dir @ [suffixed stem n x] \<notin> set created0) \<Longrightarrow>
   taken fs dir stem (map fst cs) n"
proof (induction cs arbitrary: created0 w0 fs0)
  case (Cons c cs)
  obtain ext src where c: "c = (ext, src)" by fastforce
  let ?dst = "dir @ [suffixed stem n ext]"
  obtain r fs1 where l: "hard_link io src ?dst fs0 = (r, fs1)" by fastforce
  have more: "taken fs dir stem (map fst cs) n \<Longrightarrow> ?case" by (auto simp: taken_def)
  show ?case
  proof (cases r)
    case Linked
    with l obtain nd where nd: "hget fs0 ?dst = None" "fs1 = hput ?dst nd fs0"
      by (auto simp: hard_link_Linked)
    have "link_companions io dir stem n cs (created0 @ [?dst], w0, fs1) = (True, created, w, fs')"
      using Cons.prems(1) l Linked c by simp
    moreover have "extends fs (created0 @ [?dst]) fs1"
      using extends_link [OF Cons.prems(2) nd(1)] nd(2) by simp
    moreover have "distinct (map fst cs)" using Cons.prems(3) by simp
    moreover have "\<forall>x \<in> set (map fst cs). dir @ [suffixed stem n x] \<notin> set (created0 @ [?dst])"
      using Cons.prems(3,4) c by (auto dest!: suffixed_inj)
    ultimately have "taken fs dir stem (map fst cs) n" by (rule Cons.IH)
    then show ?thesis by (rule more)
  next
    case AlreadyExists
    with l have "hget fs0 ?dst \<noteq> None" by (simp add: hard_link_AlreadyExists)
    moreover have "?dst \<notin> set created0" using Cons.prems(4) c by simp
    ultimately have "hget fs ?dst \<noteq> None"
      using extendsD(2) [OF Cons.prems(2), of ?dst] by simp
    then show ?thesis using c by (auto simp: taken_def)
  next
    case (LinkFailed e)
    then have "link_companions io dir stem n cs (created0,
        w0 @ [lit ''Couldn't save the '' @ companion_label ext @ lit '' file: '' @ e], fs0) =
        (True, created, w, fs')"
      using Cons.prems(1) l c by simp
    from Cons.IH [OF this Cons.prems(2)] Cons.prems(3,4) show ?thesis by (intro more) simp
  qed
qed simp

lemma fs_eq_hget: "fs_eq a b \<Longrightarrow> hget a p = hget b p"
  by (simp add: fs_eq_def)

lemma fs_eq_trans: "fs_eq a b \<Longrightarrow> fs_eq b c \<Longrightarrow> fs_eq a c"
  by (simp add: fs_eq_def)

lemma publish_loop_spec:
  assumes "publish_loop io src dir stem ext comps ns (warn, fs0) = (r, w, fs')" "fs_eq fs0 fs"
    and "distinct (ext # map fst comps)"
  shows "(\<forall>e. r = Inl e \<longrightarrow> fs_eq fs' fs) \<and>
    (\<forall>dst. r = Inr dst \<longrightarrow> (\<exists>pre n post exts. ns = pre @ n # post \<and>
       (\<forall>m \<in> set pre. taken fs dir stem (ext # map fst comps) m) \<and>
       dst = dir @ [suffixed stem n ext] \<and> set exts \<subseteq> set (map fst comps) \<and>
       extends fs (dst # map (\<lambda>x. dir @ [suffixed stem n x]) exts) fs' \<and> hget fs' dst = hget fs src))"
  using assms
proof (induction ns arbitrary: fs0)
  case (Cons n ns)
  let ?dst = "dir @ [suffixed stem n ext]"
  obtain k fs1 where l: "hard_link io src ?dst fs0 = (k, fs1)" by fastforce
  have again: ?case if t: "taken fs dir stem (ext # map fst comps) n" and e: "fs_eq f fs"
    and p: "publish_loop io src dir stem ext comps ns (warn, f) = (r, w, fs')" for f
  proof -
    note ih = Cons.IH [OF p e Cons.prems(3)]
    show ?thesis
    proof (intro conjI allI impI)
      fix d assume "r = Inr d"
      with ih obtain pre m post exts where i: "ns = pre @ m # post"
        "\<forall>m \<in> set pre. taken fs dir stem (ext # map fst comps) m"
        "d = dir @ [suffixed stem m ext]" "set exts \<subseteq> set (map fst comps)"
        "extends fs (d # map (\<lambda>x. dir @ [suffixed stem m x]) exts) fs'" "hget fs' d = hget fs src"
        by blast
      with t show "\<exists>pre m post exts. n # ns = pre @ m # post \<and>
         (\<forall>m \<in> set pre. taken fs dir stem (ext # map fst comps) m) \<and>
         d = dir @ [suffixed stem m ext] \<and> set exts \<subseteq> set (map fst comps) \<and>
         extends fs (d # map (\<lambda>x. dir @ [suffixed stem m x]) exts) fs' \<and> hget fs' d = hget fs src"
        by (intro exI [of _ "n # pre"] exI [of _ m] exI [of _ post] exI [of _ exts]) simp
    qed (use ih in blast)
  qed
  show ?case
  proof (cases k)
    case AlreadyExists
    with l have "hget fs0 ?dst \<noteq> None" by (simp add: hard_link_AlreadyExists)
    then have "taken fs dir stem (ext # map fst comps) n"
      using fs_eq_hget [OF Cons.prems(2)] by (auto simp: taken_def)
    then show ?thesis
      by (rule again [OF _ Cons.prems(2)]) (use Cons.prems(1) l AlreadyExists in simp)
  next
    case (LinkFailed e)
    with Cons.prems(1,2) l show ?thesis by auto
  next
    case Linked
    with l obtain nd where nd: "hget fs0 ?dst = None" "hget fs0 src = Some nd" "fs1 = hput ?dst nd fs0"
      by (auto simp: hard_link_Linked)
    have start: "extends fs [?dst] fs1"
      using extends_link [OF extends_refl nd(1)] extends_cong [OF Cons.prems(2)] nd(3) by simp
    obtain col created w1 fs2 where lc:
      "link_companions io dir stem n comps ([?dst], [], fs1) = (col, created, w1, fs2)"
      by (metis prod_cases4)
    from link_companions_extends [OF lc start] obtain exts where ex: "extends fs created fs2"
      "created = ?dst # map (\<lambda>x. dir @ [suffixed stem n x]) exts" "set exts \<subseteq> set (map fst comps)"
      by auto
    note link = lc
    have dist: "distinct (map fst comps)" using Cons.prems(3) by simp
    show ?thesis
    proof (cases col)
      case True
      then have True: "col = True" by simp
      have "taken fs dir stem (map fst comps) n"
        using link [unfolded True] start dist
      proof (rule link_companions_collision)
        show "\<forall>x \<in> set (map fst comps). dir @ [suffixed stem n x] \<notin> set [?dst]"
          using Cons.prems(3) by (auto dest: suffixed_inj)
      qed
      then have "taken fs dir stem (ext # map fst comps) n" by (simp add: taken_def)
      then show ?thesis
        by (rule again [OF _ extends_undo [OF ex(1)]]) (use Cons.prems(1) l Linked lc True in simp)
    next
      case False
      have *: "r = Inr ?dst" "fs' = fs2" using Cons.prems(1) l Linked lc False by auto
      have "hget fs1 ?dst = Some nd" using nd(3) by simp
      then have "hget fs2 ?dst = Some nd" by (rule link_companions_keeps [OF lc])
      moreover have "hget fs src = Some nd" using nd(2) fs_eq_hget [OF Cons.prems(2)] by simp
      ultimately have "n # ns = [] @ n # ns \<and>
         (\<forall>m \<in> set []. taken fs dir stem (ext # map fst comps) m) \<and>
         ?dst = dir @ [suffixed stem n ext] \<and> set exts \<subseteq> set (map fst comps) \<and>
         extends fs (?dst # map (\<lambda>x. dir @ [suffixed stem n x]) exts) fs' \<and> hget fs' ?dst = hget fs src"
        using *(2) ex by simp
      then show ?thesis using *(1) by blast
    qed
  qed
qed auto


section \<open>What publication guarantees\<close>

lemma collect_sidecars_ok:
  assumes "distinct (map fst out)" "set (map fst out) \<subseteq> set (map lit [''jpg'', ''png'', ''lrc'', ''txt''])"
  shows "distinct (map fst (collect_sidecars fs staging ps out)) \<and>
    set (map fst (collect_sidecars fs staging ps out)) \<subseteq> set (map lit [''jpg'', ''png'', ''lrc'', ''txt''])"
  using assms
proof (induction fs staging ps out rule: collect_sidecars.induct)
  case (2 fs staging p ps out)
  let ?out = "if p = [] \<or> parent_of p \<noteq> staging then out
     else case map_option to_ascii_lowercase (extension (last p)) of None \<Rightarrow> out
      | Some x \<Rightarrow> if x \<notin> set (map lit [''jpg'', ''png'', ''lrc'', ''txt'']) \<or> x \<in> set (map fst out) then out
          else case hget fs p of Some nd \<Rightarrow> if nonempty_file nd then out @ [(x, p)] else out | None \<Rightarrow> out"
  have "distinct (map fst ?out) \<and> set (map fst ?out) \<subseteq> set (map lit [''jpg'', ''png'', ''lrc'', ''txt''])"
    using 2(2,3) by (simp split: option.split)
  then show ?case using 2(1) by simp
qed simp

lemma find_output_loop_Inr:
  "find_output_loop es out = Inr p \<Longrightarrow> out = Some p \<or> (\<exists>e \<in> set es. is_audio_output e \<and> fst e = p)"
  by (induction es out rule: find_output_loop.induct) (auto split: option.splits if_splits)

lemma find_output_file_Inr:
  assumes "find_output_file io fs dir = Inr p" "hwf fs"
  shows "\<exists>size x. hget fs p = Some (RegularNode size) \<and> 0 < size \<and>
    extension (last p) = Some x \<and> x \<in> set audio_extensions"
proof -
  from assms(1) have "find_output_loop (filter (in_directory dir) fs) None = Inr p"
    by (simp add: find_output_file_def split: option.splits)
  from find_output_loop_Inr [OF this] obtain nd where "(p, nd) \<in> set fs" "is_audio_output (p, nd)" by auto
  moreover from this(1) have "hget fs p = Some nd"
    using assms(2) by (simp add: hwf_def)
  ultimately show ?thesis
    by (cases nd) (auto simp: is_audio_output_def Let_def split: option.splits)
qed

lemma audio_extension_chars: "x \<in> set audio_extensions \<Longrightarrow> 46 \<notin> set x \<and> 47 \<notin> set x"
  "x \<in> set audio_extensions \<Longrightarrow> x \<notin> set (map lit [''jpg'', ''png'', ''lrc'', ''txt''])"
  by (auto simp: audio_extensions_def lit_Cons)

text \<open>C18: Publishing never replaces and never half-publishes: if it fails, every path looks as it did;
  if it succeeds, the audio is the finished output, under the title's own name with the first number
  that is free for the whole set, what was added are that file and companions of the same stem, all of
  them new paths, and everything else is untouched.\<close>

theorem publish_never_overwrites:
  assumes "hwf fs"
  shows "case publish io staging st ti ar v coll sidecars (w, fs) of
      (Inl e, _, fs') \<Rightarrow> fs_eq fs' fs
    | (Inr dst, _, fs') \<Rightarrow>
        (\<exists>n ext comps exts produced size. n < 1000 \<and> ext \<in> set audio_extensions \<and>
           set comps \<subseteq> set (map lit [''jpg'', ''png'', ''lrc'', ''txt'']) \<and> set exts \<subseteq> set comps \<and>
           list_all (taken fs (final_dir st ar coll) (file_name st ti ar v) (ext # comps)) [0..<n] \<and>
           dst = final_dir st ar coll @ [suffixed (file_name st ti ar v) n ext] \<and>
           extends fs (dst # map (\<lambda>x. final_dir st ar coll @ [suffixed (file_name st ti ar v) n x]) exts) fs' \<and>
           find_output_file io fs staging = Inr produced \<and>
           hget fs produced = Some (RegularNode size) \<and> 0 < size \<and> hget fs' dst = Some (RegularNode size))"
proof (cases "publish io staging st ti ar v coll sidecars (w, fs)")
  case (fields r w' fs')
  show ?thesis
  proof (cases "\<exists>produced ext. find_output_file io fs staging = Inr produced \<and> extension (last produced) = Some ext \<and>
      (r, w', fs') = publish_loop io produced (final_dir st ar coll) (file_name st ti ar v) ext
        (collect_sidecars fs staging sidecars []) [0..<1000] (w, fs)")
    case False
    have "\<exists>e. r = Inl e \<and> fs' = fs"
    proof (cases "find_output_file io fs staging")
      case (Inr produced)
      from find_output_file_Inr [OF this assms] obtain ext where
        x: "extension (last produced) = Some ext" "ext \<in> set audio_extensions" by blast
      from audio_extension_chars(1) [OF x(2)] have "compute_final_path st ti ar v ext coll =
          final_dir st ar coll @ [file_name st ti ar v @ 46 # ext]"
        "file_stem (file_name st ti ar v @ 46 # ext) = file_name st ti ar v"
        by (simp_all add: compute_final_path_eq file_stem_dot)
      with False Inr x(1) fields show ?thesis
        by (auto simp: publish_def Let_def parent_of_def split: option.splits sum.splits if_splits; metis)
    qed (use fields in \<open>auto simp: publish_def; metis\<close>)
    with fields show ?thesis by (auto simp: fs_eq_def)
  next
    case True
    then obtain produced ext where f: "find_output_file io fs staging = Inr produced"
      "extension (last produced) = Some ext"
      "publish_loop io produced (final_dir st ar coll) (file_name st ti ar v) ext
        (collect_sidecars fs staging sidecars []) [0..<1000] (w, fs) = (r, w', fs')" by metis
    let ?comps = "map fst (collect_sidecars fs staging sidecars [])"
    from find_output_file_Inr [OF f(1) assms] f(2) obtain size where
      x: "hget fs produced = Some (RegularNode size)" "0 < size" "ext \<in> set audio_extensions" by auto
    have c: "distinct ?comps" "set ?comps \<subseteq> set (map lit [''jpg'', ''png'', ''lrc'', ''txt''])"
      using collect_sidecars_ok [of "[]" fs staging sidecars] by simp_all
    then have d: "distinct (ext # ?comps)" using audio_extension_chars(2) [OF x(3)] by auto
    from publish_loop_spec [OF f(3) _ d, of fs] show ?thesis
    proof (cases r)
      case (Inr dst)
      with publish_loop_spec [OF f(3) _ d, of fs] obtain pre n post exts where
        p: "[0..<1000] = pre @ n # post" "\<forall>m \<in> set pre. taken fs (final_dir st ar coll)
            (file_name st ti ar v) (ext # ?comps) m"
          "dst = final_dir st ar coll @ [suffixed (file_name st ti ar v) n ext]" "set exts \<subseteq> set ?comps"
          "extends fs (dst # map (\<lambda>x. final_dir st ar coll @ [suffixed (file_name st ti ar v) n x]) exts) fs'"
          "hget fs' dst = hget fs produced"
        by (auto simp: fs_eq_def)
      have "n = length pre" using p(1)
        by (metis add_0 length_upt diff_zero nth_append_length nth_upt length_append
            less_add_same_cancel1 length_greater_0_conv list.distinct(1))
      moreover have "pre = [0..<length pre]" using p(1)
        by (metis append_eq_conv_conj length_append length_upt le_add1 take_upt add_0 diff_zero)
      moreover have "length pre < 1000" using p(1)
        by (metis diff_zero length_append length_upt length_greater_0_conv less_add_same_cancel1 list.distinct(1))
      ultimately have "n < 1000" "list_all (taken fs (final_dir st ar coll) (file_name st ti ar v) (ext # ?comps)) [0..<n]"
        using p(2) by (simp_all add: list_all_iff)
      then have "n < 1000 \<and> ext \<in> set audio_extensions \<and>
           set ?comps \<subseteq> set (map lit [''jpg'', ''png'', ''lrc'', ''txt'']) \<and> set exts \<subseteq> set ?comps \<and>
           list_all (taken fs (final_dir st ar coll) (file_name st ti ar v) (ext # ?comps)) [0..<n] \<and>
           dst = final_dir st ar coll @ [suffixed (file_name st ti ar v) n ext] \<and>
           extends fs (dst # map (\<lambda>x. final_dir st ar coll @ [suffixed (file_name st ti ar v) n x]) exts) fs' \<and>
           find_output_file io fs staging = Inr produced \<and>
           hget fs produced = Some (RegularNode size) \<and> 0 < size \<and> hget fs' dst = Some (RegularNode size)"
        using p(3-6) x c f(1) by simp
      then show ?thesis unfolding fields Inr prod.case sum.case by blast
    qed (use fields in \<open>auto simp: fs_eq_def\<close>)
  qed
qed


definition sample_settings :: download_settings where
  "sample_settings = \<lparr>ds_path = lit ''/m'', ds_format = Mp3, ds_workers = 2,
     organize_by_artist = False, embed_metadata = False\<rparr>"

definition sample_staging :: path where
  "sample_staging = [lit ''m'', STAGING_DIR, lit ''dl'']"

definition sample_files :: filesystem where
  "sample_files =
     [(sample_staging @ [lit ''audio.mp3''], RegularNode 9),
      ([lit ''m'', lit ''T [v].mp3''], RegularNode 5)]"

definition sample_io :: publish_io where
  "sample_io = \<lparr>io_list_error = None, io_mkdir_error = None, io_root = Inr [lit ''m''],
     io_parent = Inr [lit ''m''], io_sync_error = None, io_link_error = (\<lambda>_. None)\<rparr>"

lemma sample_files_ok: "hwf sample_files"
  by (simp add: hwf_def sample_files_def sample_staging_def STAGING_DIR_def)

text \<open>The sample: the title's own name is taken, so the file is numbered.\<close>

theorem publish_never_overwrites_witness:
  "\<exists>r w fs'. publish sample_io sample_staging sample_settings (lit ''T'') [] (lit ''v'') None [] ([], sample_files)
      = (r, w, fs') \<and> (case r of Inl e \<Rightarrow> fs_eq fs' sample_files
        | Inr dst \<Rightarrow> hget sample_files dst = None \<and> hget fs' dst = Some (RegularNode 9))"
proof -
  obtain r w fs' where p: "publish sample_io sample_staging sample_settings (lit ''T'') [] (lit ''v'') None []
      ([], sample_files) = (r, w, fs')" by (metis prod_cases3)
  have f: "find_output_file sample_io sample_files sample_staging = Inr p \<Longrightarrow>
      hget sample_files p = Some (RegularNode 9)" for p
    by (auto simp: find_output_file_def sample_io_def sample_files_def sample_staging_def in_directory_def
        parent_of_def STAGING_DIR_def lit_Cons split: if_splits)
  show ?thesis
    using p publish_never_overwrites [OF sample_files_ok, where io = sample_io and staging = sample_staging
        and st = sample_settings and ti = "lit ''T''" and ar = "[]" and v = "lit ''v''" and coll = None
        and sidecars = "[]" and w = "[]"] f
    by (cases r) (auto simp: extends_def)
qed

section \<open>Publication and the index\<close>

lemma first_some_ne: "x \<in> set xs \<Longrightarrow> f x \<noteq> None \<Longrightarrow> first_some f xs \<noteq> None"
  by (auto simp: first_some_def List.map_filter_def filter_empty_conv split: list.split)

lemma rfind_str_step: "rfind_str p s \<noteq> None \<Longrightarrow> rfind_str p (a @ s) = map_option ((+) (length a)) (rfind_str p s)"
  by (induction a) (auto split: option.splits)

lemma rfind_str_absent: "hd p \<notin> set s \<Longrightarrow> p \<noteq> [] \<Longrightarrow> rfind_str p s = None"
  by (induction s) (cases p; auto simp: starts_with_def)+

lemma strip_id_tag_name:
  assumes "32 \<notin> set v"
  shows "strip_id_tag (n @ lit '' ['' @ v @ lit '']'') = n"
proof -
  have "rfind_str [32, 91] (v @ [93]) = None" using assms by (intro rfind_str_absent) auto
  then have "rfind_str [32, 91] ([32, 91] @ v @ [93]) = Some 0"
    by (simp add: starts_with_def)
  then have "rfind_str [32, 91] (n @ [32, 91] @ v @ [93]) = Some (length n)"
    by (subst rfind_str_step) simp_all
  then show ?thesis by (simp add: strip_id_tag_def lit_Cons)
qed

lemma trim_matches_id: "(\<forall>c \<in> set s. \<not> p c) \<Longrightarrow> trim_matches p s = s"
  unfolding trim_matches_def trim_end_matches_def trim_start_matches_def
  by (metis dropWhile_eq_self_iff hd_in_set rev_is_Nil_conv rev_rev_ident set_rev)

lemma sanitize_plain:
  assumes "\<forall>c \<in> set s. safe_char c \<and> \<not> is_whitespace c \<and> c \<noteq> 46" "byte_len s \<le> MAX_COMPONENT_BYTES" "s \<noteq> []"
  shows "sanitize_component s = s"
proof -
  have "\<forall>c \<in> set s. safe_char c \<and> \<not> is_whitespace c \<Longrightarrow> sanitize_chars b s = s" for b
    by (induction s arbitrary: b) (auto simp: safe_char_def Let_def)
  then have "sanitize_chars False s = s" using assms(1) by blast
  moreover have "trim_dots s = s" using assms(1) by (simp add: trim_dots_def trim_def trim_matches_id)
  ultimately show ?thesis using assms(2,3) by (simp add: sanitize_component_def truncate_chars_def)
qed

lemma sanitize_youtube_id:
  assumes "is_youtube_id v"
  shows "sanitize_component v = v" "32 \<notin> set v"
proof -
  have c: "\<forall>c \<in> set v. is_ascii_alphanumeric c \<or> c = 45 \<or> c = 95" "byte_len v = 11"
    using assms by (auto simp: is_youtube_id_def list_all_iff)
  have p: "safe_char c \<and> \<not> is_whitespace c \<and> c \<noteq> 46 \<and> c \<noteq> 32"
    if "is_ascii_alphanumeric c \<or> c = 45 \<or> c = 95" for c
    using that by (auto simp: safe_char_def is_reserved_def is_control_def is_whitespace_def
        is_ascii_alphanumeric_def is_ascii_digit_def)
  show "sanitize_component v = v"
    using c p by (intro sanitize_plain) (auto simp: MAX_COMPONENT_BYTES_def)
  show "32 \<notin> set v" using c(1) p by blast
qed

text \<open>What was published is recognised: as long as the folder is within the index's limits, a track
  whose file is in it, under its own name or with one of the numbers up to 50, is found again from its
  title, artists and id, whatever else the folder holds.\<close>

theorem published_file_is_found:
  assumes "holds_file 0 es (suffixed (file_name st ti ar v) n ext)" "46 \<notin> set ext" "n \<le> 50"
    and "file_count es \<le> INDEX_MAX_FILES"
  shows "index_find u (index_build u base es) st
    \<lparr>ce_video_id = v, ce_title = ti, ce_artists = ar, ce_thumbnail = th, ce_collection = c,
     ce_collection_kind = k\<rparr> \<noteq> None"
proof -
  let ?stem = "file_name st ti ar v"
  let ?ix = "index_build u base es"
  have "file_stem (suffixed ?stem n ext) = (if n = 0 then ?stem else with_suffix ?stem n)"
    using file_stem_dot(1) [OF assms(2), of "with_suffix ?stem n"] file_stem_dot(1) [OF assms(2), of ?stem]
    by (simp add: suffixed_def lit_Cons with_suffix_def)
  then have f: "hget (fi_stems ?ix) (if n = 0 then ?stem else with_suffix ?stem n) \<noteq> None"
    using walk_finds [OF assms(1)] assms(4) by (simp add: index_build_def)
  show ?thesis
  proof (cases "n = 0")
    case True
    with f show ?thesis by (auto simp: index_find_def Let_def)
  next
    case False
    with f assms(3) have "first_some (\<lambda>n. hget (fi_stems ?ix) (with_suffix ?stem n)) [1..<51] \<noteq> None"
      by (intro first_some_ne [of n]) auto
    then show ?thesis by (auto simp: index_find_def Let_def split: option.split)
  qed
qed

lemma sample_name: "file_name sample_settings (lit ''T'') [] (lit ''v'') = lit ''T [v]''"
proof -
  have "sanitize_component (lit ''T'') = lit ''T''" "sanitize_component (lit ''v'') = lit ''v''"
    by (rule sanitize_plain; simp add: lit_Cons safe_char_def is_reserved_def is_control_def is_whitespace_def
        utf8_width_def MAX_COMPONENT_BYTES_def)+
  then show ?thesis by (simp add: file_name_def base_name_def trim_def trim_matches_def
        trim_start_matches_def trim_end_matches_def lit_Cons)
qed

definition sample_unicode :: unicode where
  "sample_unicode = \<lparr>u_alphanumeric = is_ascii_alphanumeric, u_lowercase = (\<lambda>c. to_ascii_lowercase [c])\<rparr>"

theorem published_file_is_found_witness:
  "index_find sample_unicode (index_build sample_unicode [lit ''m''] [(lit ''T [v] (2).mp3'', RegularFile)]) sample_settings
     \<lparr>ce_video_id = lit ''v'', ce_title = lit ''T'', ce_artists = [], ce_thumbnail = [], ce_collection = None,
      ce_collection_kind = None\<rparr> \<noteq> None"
proof -
  have n: "suffixed (file_name sample_settings (lit ''T'') [] (lit ''v'')) 2 (lit ''mp3'') = lit ''T [v] (2).mp3''"
    unfolding suffixed_def with_suffix_def sample_name by (simp add: lit_Cons dec.simps)
  show ?thesis
    by (rule published_file_is_found [where n = 2 and ext = "lit ''mp3''"])
      (simp_all only: n, simp_all add: lit_Cons INDEX_MAX_FILES_def STAGING_DIR_def starts_with_def)
qed

end
