(* ===== verification/Download_Queue.thy ===== *)
theory Download_Queue
  imports Download_Publish
begin

text \<open>
  The download manager (\<open>Downloads\<close> and \<open>Inner\<close> of \<open>crates/ryotunesd/src/downloads.rs\<close>):
  the job list, the worker slots, what the worker task of a job does under the lock, and the history
  file. One definition per critical section; the network, yt-dlp and enrichment between two of them
  are arguments. What a handler reads from outside (clock, folder listing, whether the history file
  could be written) is the argument \<open>env\<close>. Events to the UI are not modelled.
\<close>

section \<open>State\<close>

definition MAX_ACTIVE_QUEUED :: nat where "MAX_ACTIVE_QUEUED = 200"
definition MAX_HISTORY :: nat where "MAX_HISTORY = 200"

definition INTERRUPTED_MSG :: ustr where
  "INTERRUPTED_MSG = lit ''Download interrupted when Ryotunes stopped. Retry to download it again.''"

record download_job =
  job_id :: ustr
  job_video :: ustr
  job_title :: ustr
  job_artists :: ustr
  job_thumbnail :: ustr
  job_status :: download_status
  job_progress :: nat
  job_file :: "path option"
  job_error :: "ustr option"
  job_source :: ustr
  job_collection :: "ustr option"
  job_collection_kind :: "ustr option"
  job_created :: int
  job_finished :: "int option"
  job_settings :: download_settings
  job_warnings :: "ustr list"

text \<open>A worker task: the job it was started with, whether its cancellation was signalled, and how far
  \<open>run_job\<close> has come.\<close>

datatype phase = Resolving | Fetching ustr | Publishing "ustr + unit" | Returned

record worker =
  w_job :: download_job
  w_cancelled :: bool
  w_phase :: phase

record downloads =
  dl_settings :: download_settings
  dl_jobs :: "download_job list"
  dl_running :: "(ustr, worker) hmap"
  dl_stopping :: bool
  dl_seq :: nat
  dl_disk :: "download_settings \<times> download_job list"
  dl_busy :: bool

datatype persist_outcome = Written | NotWritten ustr | WrittenUnsynced ustr

record env =
  env_now :: int
  env_nanos :: nat
  env_persist :: persist_outcome
  env_present :: "path \<Rightarrow> bool"
  env_unicode :: unicode
  env_listing :: "path \<Rightarrow> (ustr \<times> node) list"

abbreviation active :: "download_job \<Rightarrow> bool" where
  "active j \<equiv> is_active (job_status j)"

section \<open>Helpers\<close>

text \<open>\<open>iter_mut().find(..)\<close> and a write through it.\<close>

fun update_first :: "('a \<Rightarrow> bool) \<Rightarrow> ('a \<Rightarrow> 'a) \<Rightarrow> 'a list \<Rightarrow> 'a list" where
  "update_first p f [] = []"
| "update_first p f (x # xs) = (if p x then f x # xs else x # update_first p f xs)"

fun position :: "('a \<Rightarrow> bool) \<Rightarrow> 'a list \<Rightarrow> nat option" where
  "position p [] = None"
| "position p (x # xs) = (if p x then Some 0 else map_option Suc (position p xs))"

text \<open>\<open>trim_history\<close>: the oldest finished jobs beyond the limit go.\<close>

fun drop_finished :: "nat \<Rightarrow> download_job list \<Rightarrow> download_job list" where
  "drop_finished excess [] = []"
| "drop_finished excess (j # js) =
     (if 0 < excess \<and> \<not> active j then drop_finished (excess - 1) js
      else j # drop_finished excess js)"

definition finished_count :: "download_job list \<Rightarrow> nat" where
  "finished_count js = length (filter (\<lambda>j. \<not> active j) js)"

definition trim_history :: "download_job list \<Rightarrow> download_job list" where
  "trim_history js = drop_finished (finished_count js - MAX_HISTORY) js"

definition apply_result :: "int \<Rightarrow> ustr + path \<Rightarrow> download_job \<Rightarrow> download_job" where
  "apply_result now r j =
     (let j = j\<lparr>job_finished := Some now\<rparr>
      in case r of
           Inr p \<Rightarrow> j\<lparr>job_status := Completed, job_file := Some p, job_progress := 100\<rparr>
         | Inl e \<Rightarrow> j\<lparr>job_status := Failed, job_error := Some (truncate_chars e MAX_ERROR_LEN)\<rparr>)"

definition interrupt :: "int \<Rightarrow> download_job \<Rightarrow> download_job" where
  "interrupt now j = (if active j then apply_result now (Inl INTERRUPTED_MSG) j else j)"

definition recover_interrupted :: "int \<Rightarrow> download_job list \<Rightarrow> download_job list" where
  "recover_interrupted now js = map (interrupt now) js"

definition file_present :: "env \<Rightarrow> download_job \<Rightarrow> bool" where
  "file_present env j = (case job_file j of Some p \<Rightarrow> env_present env p | None \<Rightarrow> False)"

text \<open>A job that makes another download of the same track unnecessary.\<close>

definition covers :: "env \<Rightarrow> ustr \<Rightarrow> download_job \<Rightarrow> bool" where
  "covers env v j = (job_video j = v \<and>
     (active j \<or> job_status j = Completed \<and> file_present env j))"

definition mint :: "nat \<Rightarrow> nat \<Rightarrow> ustr" where
  "mint nanos n = lit ''dl-'' @ dec nanos @ lit ''-'' @ dec n"

definition next_id :: "env \<Rightarrow> downloads \<Rightarrow> ustr \<times> downloads" where
  "next_id env d = (mint (env_nanos env) (dl_seq d), d\<lparr>dl_seq := dl_seq d + 1\<rparr>)"

definition new_job :: "env \<Rightarrow> download_settings \<Rightarrow> source \<Rightarrow> collection_entry \<Rightarrow> downloads
    \<Rightarrow> download_job \<times> downloads" where
  "new_job env st src e d =
     (let (i, d) = next_id env d
      in (\<lparr>job_id = i, job_video = ce_video_id e, job_title = ce_title e, job_artists = ce_artists e,
           job_thumbnail = ce_thumbnail e, job_status = Queued, job_progress = 0, job_file = None,
           job_error = None, job_source = source_label src,
           job_collection = Option.bind
             (map_option (\<lambda>l. truncate_chars (trim l) MAX_COMPONENT_BYTES) (ce_collection e))
             (\<lambda>l. if l = [] then None else Some l),
           job_collection_kind = Option.bind (ce_collection_kind e)
             (\<lambda>k. if k = lit ''album'' \<or> k = lit ''playlist'' then Some k else None),
           job_created = env_now env, job_finished = None, job_settings = st, job_warnings = []\<rparr>, d))"

definition ensure_running :: "downloads \<Rightarrow> ustr option" where
  "ensure_running d = (if dl_stopping d then Some (lit ''Ryotunes is shutting down.'') else None)"

definition queued_count :: "download_job list \<Rightarrow> nat" where
  "queued_count js = length (filter (\<lambda>j. job_status j = Queued) js)"

definition ensure_capacity :: "downloads \<Rightarrow> ustr option" where
  "ensure_capacity d =
     (if MAX_ACTIVE_QUEUED \<le> queued_count (dl_jobs d) + length (dl_running d)
      then Some (lit ''The download queue is full (200 tracks). Let some finish first.'') else None)"

text \<open>\<open>persist_locked\<close>: the snapshot replaces the file by a rename; an error can come before it
  (the file is the old one) or, from the directory sync, after it (the file is the new one).\<close>

definition persist_locked :: "env \<Rightarrow> downloads \<Rightarrow> ustr option \<times> downloads" where
  "persist_locked env d =
     (case env_persist env of
        Written \<Rightarrow> (None, d\<lparr>dl_disk := (dl_settings d, dl_jobs d)\<rparr>)
      | NotWritten e \<Rightarrow> (Some e, d)
      | WrittenUnsynced e \<Rightarrow> (Some e, d\<lparr>dl_disk := (dl_settings d, dl_jobs d)\<rparr>))"

section \<open>Workers\<close>

definition start_worker :: "downloads \<Rightarrow> downloads" where
  "start_worker d =
     (case position (\<lambda>j. job_status j = Queued) (dl_jobs d) of
        None \<Rightarrow> d
      | Some i \<Rightarrow>
          let j = (dl_jobs d ! i)\<lparr>job_status := Downloading\<rparr>
          in d\<lparr>dl_jobs := (dl_jobs d)[i := j],
               dl_running := hput (job_id j) \<lparr>w_job = j, w_cancelled = False, w_phase = Resolving\<rparr>
                 (dl_running d)\<rparr>)"

lemma position_Some: "position p xs = Some i \<Longrightarrow> i < length xs \<and> p (xs ! i) \<and> (\<forall>k < i. \<not> p (xs ! k))"
proof (induction xs arbitrary: i)
  case (Cons x xs)
  then show ?case by (cases i) (auto split: if_splits simp: less_Suc_eq_0_disj)
qed simp

lemma position_None: "position p xs = None \<longleftrightarrow> (\<forall>x \<in> set xs. \<not> p x)"
  by (induction xs) auto

lemma queued_count_update:
  "i < length js \<Longrightarrow> queued_count (js[i := j]) + (if job_status (js ! i) = Queued then 1 else 0) =
     queued_count js + (if job_status j = Queued then 1 else 0)"
  unfolding queued_count_def
proof (induction js arbitrary: i)
  case (Cons a js)
  then show ?case by (cases i) auto
qed simp

function pump_loop :: "downloads \<Rightarrow> downloads" where
  "pump_loop d =
     (if \<not> dl_stopping d \<and> length (dl_running d) < max 1 (min 4 (ds_workers (dl_settings d))) \<and>
         0 < queued_count (dl_jobs d)
      then pump_loop (start_worker d) else d)"
  by pat_completeness auto
termination
proof (relation "measure (\<lambda>d. queued_count (dl_jobs d))", goal_cases)
  case (2 d)
  then have "position (\<lambda>j. job_status j = Queued) (dl_jobs d) \<noteq> None"
    by (auto simp: position_None queued_count_def filter_empty_conv)
  then obtain i where "position (\<lambda>j. job_status j = Queued) (dl_jobs d) = Some i" by blast
  with position_Some [OF this]
    queued_count_update [of i "dl_jobs d" "(dl_jobs d ! i)\<lparr>job_status := Downloading\<rparr>"]
  show ?case by (simp add: start_worker_def Let_def)
qed simp

declare pump_loop.simps [simp del]

definition pump :: "downloads \<Rightarrow> downloads" where
  "pump d = (let d = pump_loop d
     in d\<lparr>dl_busy := dl_running d \<noteq> [] \<or> list_ex active (dl_jobs d)\<rparr>)"

definition save_transition :: "env \<Rightarrow> ustr \<Rightarrow> downloads \<Rightarrow> downloads" where
  "save_transition env i d =
     (case persist_locked env d of
        (None, d) \<Rightarrow> d
      | (Some e, d) \<Rightarrow> d\<lparr>dl_jobs := update_first (\<lambda>j. job_id j = i)
          (\<lambda>j. j\<lparr>job_status := Failed, job_error := Some (
             (if job_file j \<noteq> None then lit ''Audio saved to your folder. '' else []) @
             lit ''History could not be saved: '' @ e)\<rparr>) (dl_jobs d)\<rparr>)"

definition is_downloading :: "ustr \<Rightarrow> download_job \<Rightarrow> bool" where
  "is_downloading i j = (job_id j = i \<and> job_status j = Downloading)"

definition is_current :: "ustr \<Rightarrow> downloads \<Rightarrow> bool" where
  "is_current i d = (\<not> dl_stopping d \<and> list_ex (is_downloading i) (dl_jobs d))"

definition finish :: "env \<Rightarrow> ustr \<Rightarrow> ustr + path \<Rightarrow> downloads \<Rightarrow> downloads" where
  "finish env i r d =
     (if list_ex (is_downloading i) (dl_jobs d)
      then save_transition env i
        (d\<lparr>dl_jobs := trim_history (update_first (is_downloading i) (apply_result (env_now env) r) (dl_jobs d))\<rparr>)
      else d)"

text \<open>The publication step of \<open>run_job\<close>: \<open>res\<close> is what the downloader returned.\<close>

definition publish_job :: "env \<Rightarrow> publish_io \<Rightarrow> download_job \<Rightarrow> path \<Rightarrow> path list \<Rightarrow> ustr list \<Rightarrow> ustr + unit
    \<Rightarrow> downloads \<times> filesystem \<Rightarrow> downloads \<times> filesystem" where
  "publish_job env io j staging sidecars warnings res df =
     (let (d, fs) = df; i = job_id j
      in if list_ex (is_downloading i) (dl_jobs d)
         then let (r, w, fs) = (case res of
                Inl e \<Rightarrow> (Inl e, warnings, fs)
              | Inr _ \<Rightarrow> publish io staging (job_settings j) (job_title j) (job_artists j) (job_video j)
                    (job_collection j) sidecars (warnings, fs));
              done_job = (\<lambda>j. let j = apply_result (env_now env) r j
                in if job_status j = Completed then j\<lparr>job_warnings := w\<rparr> else j)
              in (save_transition env i
                    (d\<lparr>dl_jobs := trim_history (update_first (is_downloading i) done_job (dl_jobs d))\<rparr>), fs)
         else (d, fs))"

definition progress :: "ustr \<Rightarrow> nat \<Rightarrow> downloads \<Rightarrow> downloads" where
  "progress i n d = d\<lparr>dl_jobs := update_first (is_downloading i)
     (\<lambda>j. j\<lparr>job_progress := min n 99\<rparr>) (dl_jobs d)\<rparr>"

text \<open>The end of the task (also when it panicked): \<open>WorkerSlot::drop\<close>.\<close>

definition worker_drop :: "env \<Rightarrow> ustr \<Rightarrow> downloads \<Rightarrow> downloads" where
  "worker_drop env i d =
     (let d = d\<lparr>dl_running := hdel i (dl_running d)\<rparr>
      in pump (if list_ex (is_downloading i) (dl_jobs d)
        then save_transition env i (d\<lparr>dl_jobs := update_first (is_downloading i)
          (apply_result (env_now env)
            (Inl (lit ''The download worker stopped unexpectedly. Retry this download.''))) (dl_jobs d)\<rparr>)
        else d))"

section \<open>Requests\<close>

definition set_settings :: "env \<Rightarrow> ustr + download_settings \<Rightarrow> downloads \<Rightarrow> (ustr + download_settings) \<times> downloads" where
  "set_settings env sanitized d =
     (case sanitized of
        Inl e \<Rightarrow> (Inl e, d)
      | Inr st \<Rightarrow>
          (case ensure_running d of
             Some e \<Rightarrow> (Inl e, d)
           | None \<Rightarrow>
               (case persist_locked env (d\<lparr>dl_settings := st\<rparr>) of
                  (Some e, d') \<Rightarrow> (Inl (lit ''Could not save download preferences: '' @ e),
                     d'\<lparr>dl_settings := dl_settings d\<rparr>)
                | (None, d') \<Rightarrow> (Inr st, pump d'))))"

definition too_large :: "collection_entry \<Rightarrow> bool" where
  "too_large e = (80 < byte_len (ce_video_id e) \<or> 512 < byte_len (ce_title e) \<or>
     512 < byte_len (ce_artists e) \<or> 4096 < byte_len (ce_thumbnail e))"

definition folder_index_of :: "env \<Rightarrow> download_settings \<Rightarrow> folder_index" where
  "folder_index_of env st = (let p = path_of (ds_path st) in index_build (env_unicode env) p (env_listing env p))"

text \<open>The locked part of \<open>enqueue\<close>, and \<open>enqueue\<close>.\<close>

definition enqueue_locked :: "env \<Rightarrow> source \<Rightarrow> collection_entry \<Rightarrow> downloads
    \<Rightarrow> (ustr + bool \<times> download_job) \<times> downloads" where
  "enqueue_locked env src e d =
     (case ensure_running d of
        Some err \<Rightarrow> (Inl err, d)
      | None \<Rightarrow>
          (case find (covers env (ce_video_id e)) (rev (dl_jobs d)) of
             Some j \<Rightarrow> (Inr (False, j), d)
           | None \<Rightarrow>
               (case ensure_capacity d of
                  Some err \<Rightarrow> (Inl err, d)
                | None \<Rightarrow>
                    (case index_find (env_unicode env) (folder_index_of env (dl_settings d)) (dl_settings d) e of
                       Some p \<Rightarrow>
                         let (j, d) = new_job env (dl_settings d) src e d
                         in (Inr (False, j\<lparr>job_status := Completed, job_progress := 100, job_file := Some p,
                               job_finished := Some (env_now env)\<rparr>), d)
                     | None \<Rightarrow>
                         let (j, d') = new_job env (dl_settings d) src e d
                         in (case persist_locked env (d'\<lparr>dl_jobs := dl_jobs d' @ [j]\<rparr>) of
                               (Some err, d'') \<Rightarrow> (Inl (lit ''Could not save the download queue: '' @ err),
                                  d''\<lparr>dl_jobs := butlast (dl_jobs d'')\<rparr>)
                             | (None, d'') \<Rightarrow> (Inr (True, j), d''))))))"

definition enqueue :: "env \<Rightarrow> ustr \<Rightarrow> ustr \<Rightarrow> ustr \<Rightarrow> ustr \<Rightarrow> downloads \<Rightarrow> (ustr + download_job) \<times> downloads" where
  "enqueue env v ti ar th d =
     (let e = \<lparr>ce_video_id = v, ce_title = ti, ce_artists = ar, ce_thumbnail = th,
            ce_collection = None, ce_collection_kind = None\<rparr>
      in case classify v of
           Inl err \<Rightarrow> (Inl err, d)
         | Inr src \<Rightarrow>
             if too_large e then (Inl (lit ''The track metadata is too large to download safely.''), d)
             else if trim ti = [] then (Inl (lit ''This track has no title to use for its download.''), d)
             else case enqueue_locked env src e d of
               (Inl err, d) \<Rightarrow> (Inl err, d)
             | (Inr (queued, j), d) \<Rightarrow> (Inr j, if queued then pump d else d))"

text \<open>The counters and rows one batch builds up.\<close>

record batch =
  b_added :: nat
  b_already :: nat
  b_skipped :: nat
  b_paths :: "path list"
  b_seen :: "ustr set"
  b_created :: "ustr list"

definition batch_entry :: "env \<Rightarrow> download_settings \<Rightarrow> folder_index \<Rightarrow> nat \<Rightarrow> collection_entry
    \<Rightarrow> batch \<times> downloads \<Rightarrow> batch \<times> downloads" where
  "batch_entry env st ix room e bd =
     (let (b, d) = bd
      in case classify (ce_video_id e) of
           Inl _ \<Rightarrow> (b\<lparr>b_skipped := b_skipped b + 1\<rparr>, d)
         | Inr src \<Rightarrow>
             if too_large e \<or> trim (ce_title e) = [] then (b\<lparr>b_skipped := b_skipped b + 1\<rparr>, d)
             else if list_ex (covers env (ce_video_id e)) (dl_jobs d) \<or> ce_video_id e \<in> b_seen b
             then (b\<lparr>b_already := b_already b + 1\<rparr>, d)
             else let b = b\<lparr>b_seen := insert (ce_video_id e) (b_seen b)\<rparr>
                  in case index_find (env_unicode env) ix st e of
                    Some p \<Rightarrow> (b\<lparr>b_already := b_already b + 1,
                      b_paths := (if length (b_paths b) < 6 then b_paths b @ [p] else b_paths b)\<rparr>, d)
                  | None \<Rightarrow>
                      if room \<le> b_added b then (b\<lparr>b_skipped := b_skipped b + 1\<rparr>, d)
                      else let (j, d) = new_job env st src e d
                           in (b\<lparr>b_created := b_created b @ [job_id j], b_added := b_added b + 1\<rparr>,
                               d\<lparr>dl_jobs := dl_jobs d @ [j]\<rparr>))"

definition batch_new :: batch where
  "batch_new = \<lparr>b_added = 0, b_already = 0, b_skipped = 0, b_paths = [], b_seen = {}, b_created = []\<rparr>"

definition enqueue_collection :: "env \<Rightarrow> collection_entry list \<Rightarrow> downloads
    \<Rightarrow> (ustr + nat \<times> nat \<times> nat \<times> path list) \<times> downloads" where
  "enqueue_collection env es d =
     (if es = [] then (Inl (lit ''This collection has no tracks to download.''), d)
      else if MAX_ACTIVE_QUEUED < length es
      then (Inl (lit ''A collection can add at most 200 tracks at once.''), d)
      else let st = dl_settings d; ix = folder_index_of env st
           in case ensure_running d of
                Some e \<Rightarrow> (Inl e, d)
              | None \<Rightarrow>
                  let room = MAX_ACTIVE_QUEUED - (length (dl_running d) + queued_count (dl_jobs d));
                      (b, d1) = foldl (\<lambda>bd e. batch_entry env st ix room e bd) (batch_new, d) es;
                      ok = (Inr (b_added b, b_already b, b_skipped b, b_paths b)
                        :: ustr + nat \<times> nat \<times> nat \<times> path list)
                  in if b_added b = 0 then (ok, d1)
                     else case persist_locked env d1 of
                       (Some err, d2) \<Rightarrow> (Inl (lit ''Could not save the download queue: '' @ err),
                          d2\<lparr>dl_jobs := filter (\<lambda>j. job_id j \<notin> set (b_created b)) (dl_jobs d2)\<rparr>)
                     | (None, d2) \<Rightarrow> (ok, pump d2))"

definition notify :: "ustr \<Rightarrow> (ustr, worker) hmap \<Rightarrow> (ustr, worker) hmap" where
  "notify i m = (case hget m i of Some w \<Rightarrow> hput i (w\<lparr>w_cancelled := True\<rparr>) m | None \<Rightarrow> m)"

definition cancel :: "env \<Rightarrow> ustr \<Rightarrow> downloads \<Rightarrow> (ustr + unit) \<times> downloads" where
  "cancel env i d =
     (case find (\<lambda>j. job_id j = i) (dl_jobs d) of
        None \<Rightarrow> (Inl (lit ''That download is no longer in the list.''), d)
      | Some j \<Rightarrow>
          if \<not> active j then (Inr (), d)
          else let d = d\<lparr>dl_jobs := trim_history (update_first (\<lambda>j. job_id j = i)
                   (\<lambda>j. j\<lparr>job_status := Cancelled, job_finished := Some (env_now env)\<rparr>) (dl_jobs d)),
                 dl_running := notify i (dl_running d)\<rparr>
               in case persist_locked env d of
                    (Some e, d) \<Rightarrow>
                      (Inl (lit ''Download cancelled, but history could not be saved: '' @ e), pump d)
                  | (None, d) \<Rightarrow> (Inr (), pump d))"

definition remove_at :: "nat \<Rightarrow> 'a list \<Rightarrow> 'a list" where
  "remove_at i xs = take i xs @ drop (Suc i) xs"

definition insert_at :: "nat \<Rightarrow> 'a \<Rightarrow> 'a list \<Rightarrow> 'a list" where
  "insert_at i x xs = take i xs @ x # drop i xs"

definition retry :: "env \<Rightarrow> ustr \<Rightarrow> downloads \<Rightarrow> (ustr + download_job) \<times> downloads" where
  "retry env i d =
     (case ensure_running d of Some e \<Rightarrow> (Inl e, d) | None \<Rightarrow>
      (case ensure_capacity d of Some e \<Rightarrow> (Inl e, d) | None \<Rightarrow>
       (case position (\<lambda>j. job_id j = i) (dl_jobs d) of
          None \<Rightarrow> (Inl (lit ''That download is no longer in the list.''), d)
        | Some k \<Rightarrow>
            let old = dl_jobs d ! k
            in if job_status old \<noteq> Failed \<and> job_status old \<noteq> Cancelled
               then (Inl (lit ''Only failed or cancelled downloads can be retried.''), d)
               else case find (\<lambda>j. job_id j \<noteq> i \<and> covers env (job_video old) j) (dl_jobs d) of
                 Some other \<Rightarrow> (Inr other, d)
               | None \<Rightarrow>
                   let (i', d') = next_id env d;
                       j = old\<lparr>job_id := i', job_status := Queued, job_progress := 0, job_error := None,
                         job_file := None, job_created := env_now env, job_finished := None,
                         job_settings := dl_settings d, job_warnings := []\<rparr>
                   in (case persist_locked env (d'\<lparr>dl_jobs := remove_at k (dl_jobs d') @ [j]\<rparr>) of
                         (Some e, d'') \<Rightarrow> (Inl (lit ''Could not save the download queue: '' @ e),
                            d''\<lparr>dl_jobs := insert_at k old (butlast (dl_jobs d''))\<rparr>)
                       | (None, d'') \<Rightarrow> (Inr j, pump d'')))))"

definition clear_history :: "env \<Rightarrow> downloads \<Rightarrow> (ustr + unit) \<times> downloads" where
  "clear_history env d =
     (case persist_locked env (d\<lparr>dl_jobs := filter active (dl_jobs d)\<rparr>) of
        (Some e, d') \<Rightarrow> (Inl (lit ''Could not clear download history: '' @ e), d'\<lparr>dl_jobs := dl_jobs d\<rparr>)
      | (None, d') \<Rightarrow> (Inr (), d'))"

definition shutdown :: "env \<Rightarrow> downloads \<Rightarrow> downloads" where
  "shutdown env d = snd (persist_locked env (d\<lparr>dl_stopping := True,
     dl_jobs := trim_history (recover_interrupted (env_now env) (dl_jobs d)),
     dl_running := map (\<lambda>(i, w). (i, w\<lparr>w_cancelled := True\<rparr>)) (dl_running d)\<rparr>))"

text \<open>The wait of \<open>shutdown\<close> ends when no slot is taken.\<close>

definition shut_down :: "downloads \<Rightarrow> bool" where
  "shut_down d = (dl_stopping d \<and> dl_running d = [])"

text \<open>\<open>load\<close>, after the JSON was read, and \<open>Downloads::new\<close>.\<close>

definition clamp_workers :: "download_settings \<Rightarrow> download_settings" where
  "clamp_workers st = st\<lparr>ds_workers := max 1 (min 4 (ds_workers st))\<rparr>"

definition load :: "download_settings \<times> download_job list \<Rightarrow> ustr + download_settings \<times> download_job list" where
  "load stored =
     (let (st, js) = stored; st = clamp_workers st
      in if \<not> is_absolute (ds_path st) then Inl (lit ''saved download folder is not absolute'')
         else if MAX_ACTIVE_QUEUED + MAX_HISTORY < length js then Inl (lit ''too many saved download records'')
         else Inr (st, map (\<lambda>j. j\<lparr>job_settings := clamp_workers (job_settings j)\<rparr>) js))"

definition downloads_new :: "env \<Rightarrow> download_settings \<times> download_job list \<Rightarrow> ustr + downloads" where
  "downloads_new env stored =
     (case load stored of
        Inl e \<Rightarrow> Inl e
      | Inr (st, js) \<Rightarrow>
          (case persist_locked env \<lparr>dl_settings = st, dl_jobs = trim_history (recover_interrupted (env_now env) js),
               dl_running = [], dl_stopping = False, dl_seq = 0, dl_disk = stored, dl_busy = False\<rparr> of
             (Some e, _) \<Rightarrow> Inl e
           | (None, d) \<Rightarrow> Inr d))"

end
