(* ===== verification/Download_Workers.thy ===== *)
theory Download_Workers
  imports Download_Queue "HOL-Library.Sublist"
begin

text \<open>
  The download manager as a state machine: every request, every lock-protected step of a worker task
  and external changes of the file system, in any order. What holds in every reachable state.
\<close>

section \<open>The worker task, phase by phase\<close>

definition set_phase :: "ustr \<Rightarrow> phase \<Rightarrow> downloads \<Rightarrow> downloads" where
  "set_phase i ph d = d\<lparr>dl_running := map (\<lambda>(k, w). (k, if k = i then w\<lparr>w_phase := ph\<rparr> else w)) (dl_running d)\<rparr>"

text \<open>\<open>run_job\<close> up to the start of the downloader: the target was resolved (or not), the staging
  folder was made (or not).\<close>

definition resolved :: "env \<Rightarrow> ustr \<Rightarrow> ustr + ustr \<Rightarrow> ustr option \<Rightarrow> downloads \<Rightarrow> downloads" where
  "resolved env i target staging_error d =
     (case target of
        Inl e \<Rightarrow> set_phase i Returned (finish env i (Inl e) d)
      | Inr t \<Rightarrow>
          if \<not> is_current i d then set_phase i Returned d
          else case staging_error of
            Some e \<Rightarrow> set_phase i Returned (finish env i (Inl e) d)
          | None \<Rightarrow> set_phase i (Fetching t) d)"

text \<open>\<open>run_downloader\<close>: nothing is started for a job that is not downloading any more.\<close>

definition fetched :: "ustr \<Rightarrow> ustr + unit \<Rightarrow> downloads \<Rightarrow> downloads" where
  "fetched i res d = set_phase i (Publishing
     (if is_current i d then res else Inl (lit ''Download cancelled.''))) d"

definition published :: "env \<Rightarrow> publish_io \<Rightarrow> worker \<Rightarrow> path \<Rightarrow> path list \<Rightarrow> ustr list \<Rightarrow> ustr + unit
    \<Rightarrow> downloads \<times> filesystem \<Rightarrow> downloads \<times> filesystem" where
  "published env io w staging sidecars warnings res df =
     (let (d, fs) = publish_job env io (w_job w) staging sidecars warnings res df
      in (set_phase (job_id (w_job w)) Returned d, fs))"

section \<open>The machine\<close>

type_synonym dl_state = "downloads \<times> filesystem"

text \<open>\<open>start\<close> is the clock when the process started; it is not set back later. \<open>sanitized\<close> is
  the answer of \<open>sanitize_settings\<close>, whose path is absolute.\<close>

inductive dl_step :: "nat \<Rightarrow> dl_state \<Rightarrow> dl_state \<Rightarrow> bool" for start :: nat where
  step_enqueue: "start \<le> env_nanos env \<Longrightarrow>
    dl_step start (d, fs) (snd (enqueue env v ti ar th d), fs)"
| step_collection: "start \<le> env_nanos env \<Longrightarrow>
    dl_step start (d, fs) (snd (enqueue_collection env es d), fs)"
| step_cancel: "dl_step start (d, fs) (snd (cancel env i d), fs)"
| step_retry: "start \<le> env_nanos env \<Longrightarrow> dl_step start (d, fs) (snd (retry env i d), fs)"
| step_clear: "dl_step start (d, fs) (snd (clear_history env d), fs)"
| step_settings: "(\<And>st. sanitized = Inr st \<Longrightarrow> is_absolute (ds_path st)) \<Longrightarrow>
    dl_step start (d, fs) (snd (set_settings env sanitized d), fs)"
| step_shutdown: "dl_step start (d, fs) (shutdown env d, fs)"
| step_progress: "dl_step start (d, fs) (progress i n d, fs)"
| step_stop: "hget (dl_running d) i = Some w \<Longrightarrow> w_phase w = Resolving \<Longrightarrow> w_cancelled w \<Longrightarrow>
    dl_step start (d, fs) (set_phase i Returned d, fs)"
| step_resolved: "hget (dl_running d) i = Some w \<Longrightarrow> w_phase w = Resolving \<Longrightarrow>
    dl_step start (d, fs) (resolved env i target staging_error d, fs)"
| step_fetched: "hget (dl_running d) i = Some w \<Longrightarrow> w_phase w = Fetching t \<Longrightarrow>
    dl_step start (d, fs) (fetched i res d, fs)"
| step_published: "hget (dl_running d) i = Some w \<Longrightarrow> w_phase w = Publishing res \<Longrightarrow>
    dl_step start (d, fs) (published env io w staging sidecars warnings res (d, fs))"
| step_drop: "hget (dl_running d) i = Some w \<Longrightarrow> w_phase w = Returned \<Longrightarrow>
    dl_step start (d, fs) (worker_drop env i d, fs)"
| step_files: "hwf fs' \<Longrightarrow> dl_step start (d, fs) (d, fs')"

inductive_cases dl_stepE: "dl_step start s t"

text \<open>An id that was minted before the process started, or by it.\<close>

definition minted :: "nat \<Rightarrow> nat \<Rightarrow> ustr \<Rightarrow> bool" where
  "minted start sq i \<longleftrightarrow> (\<exists>nanos n. i = mint nanos n \<and> (nanos < start \<or> n < sq))"

text \<open>The fields of a job agree with its status.\<close>

fun job_wf :: "download_job \<Rightarrow> bool" where
  "job_wf j = (case job_status j of
     Queued \<Rightarrow> job_progress j = 0 \<and> job_file j = None \<and> job_finished j = None
   | Downloading \<Rightarrow> job_progress j \<le> 99 \<and> job_file j = None \<and> job_finished j = None
   | Completed \<Rightarrow> job_progress j = 100 \<and> job_file j \<noteq> None \<and> job_finished j \<noteq> None
   | Failed \<Rightarrow> job_finished j \<noteq> None \<and> job_error j \<noteq> None
   | Cancelled \<Rightarrow> job_finished j \<noteq> None \<and> job_file j = None)"

declare job_wf.simps [simp del]

text \<open>A queued job has no slot, a downloading one has the slot of a task that has neither returned nor
  been told to stop.\<close>

definition slot_ok :: "(ustr, worker) hmap \<Rightarrow> download_job \<Rightarrow> bool" where
  "slot_ok run j \<longleftrightarrow>
     (job_status j = Queued \<longrightarrow> hget run (job_id j) = None) \<and>
     (job_status j = Downloading \<longrightarrow> (\<exists>w. hget run (job_id j) = Some w \<and> w_phase w \<noteq> Returned \<and> \<not> w_cancelled w))"

definition run_ok :: "nat \<Rightarrow> nat \<Rightarrow> (ustr, worker) hmap \<Rightarrow> bool" where
  "run_ok start sq run \<longleftrightarrow> hwf run \<and> length run \<le> 4 \<and>
     (\<forall>(i, w) \<in> set run. minted start sq i \<and> job_id (w_job w) = i)"

definition jobs_ok :: "nat \<Rightarrow> nat \<Rightarrow> (ustr, worker) hmap \<Rightarrow> download_job list \<Rightarrow> bool" where
  "jobs_ok start sq run js \<longleftrightarrow>
     distinct (map job_id js) \<and> queued_count js + length run \<le> MAX_ACTIVE_QUEUED \<and>
     (\<forall>j \<in> set js. job_wf j \<and> minted start sq (job_id j) \<and> slot_ok run j)"

definition disk_ok :: "download_settings \<times> download_job list \<Rightarrow> bool" where
  "disk_ok p \<longleftrightarrow> is_absolute (ds_path (fst p)) \<and> length (snd p) \<le> MAX_ACTIVE_QUEUED + MAX_HISTORY"

definition d_ok :: "nat \<Rightarrow> downloads \<Rightarrow> bool" where
  "d_ok start d \<longleftrightarrow>
     run_ok start (dl_seq d) (dl_running d) \<and> jobs_ok start (dl_seq d) (dl_running d) (dl_jobs d) \<and>
     finished_count (dl_jobs d) \<le> MAX_HISTORY \<and> is_absolute (ds_path (dl_settings d)) \<and>
     disk_ok (dl_disk d) \<and> (dl_stopping d \<longrightarrow> list_all (\<lambda>j. \<not> active j) (dl_jobs d))"

definition dl_ok :: "nat \<Rightarrow> dl_state \<Rightarrow> bool" where
  "dl_ok start s \<longleftrightarrow> d_ok start (fst s) \<and> hwf (snd s)"

section \<open>Ids\<close>

lemma dec_inj: "dec m = dec n \<Longrightarrow> m = n"
  by (metis digits_value_dec)

lemma mint_inj: "mint a m = mint b n \<longleftrightarrow> a = b \<and> m = n"
proof
  have no_dash: "45 \<notin> set (dec k)" for k
    using dec_digits [of k] by (auto simp: list_all_iff is_ascii_digit_def)
  assume "mint a m = mint b n"
  then have e: "dec a @ 45 # dec m = dec b @ 45 # dec n" by (simp add: mint_def lit_Cons)
  have "takeWhile (\<lambda>c. c \<noteq> 45) (dec k @ 45 # t) = dec k" for k t
    using no_dash [of k] by (auto simp: takeWhile_append)
  with e have "dec a = dec b" by metis
  with e show "a = b \<and> m = n" by (auto dest: dec_inj)
qed simp

lemma mint_fresh: "start \<le> nanos \<Longrightarrow> \<not> minted start sq (mint nanos sq)"
  by (auto simp: minted_def mint_inj)

lemma minted_next: "minted start (Suc sq) (mint nanos sq)"
  by (auto simp: minted_def)

lemma minted_mono: "minted start sq i \<Longrightarrow> sq \<le> sq' \<Longrightarrow> minted start sq' i"
  unfolding minted_def using order_less_le_trans by blast

section \<open>Lists of jobs\<close>

lemma update_first_map:
  assumes "distinct (map job_id js)" "\<And>j. p j \<Longrightarrow> job_id j = i"
  shows "update_first p f js = map (\<lambda>j. if p j then f j else j) js"
  using assms(1)
proof (induction js)
  case (Cons j js)
  show ?case
  proof (cases "p j")
    case True
    then have "\<not> p k" if "k \<in> set js" for k
      using Cons.prems assms(2) that by (metis distinct.simps(2) image_eqI list.simps(9) set_map)
    then have "map (\<lambda>j. if p j then f j else j) js = js" by (simp add: map_idI)
    with True show ?thesis by simp
  qed (use Cons in simp)
qed simp

lemma update_first_none: "list_all (\<lambda>x. \<not> p x) xs \<Longrightarrow> update_first p f xs = xs"
  by (induction xs) auto

lemma subseq_drop_finished: "subseq (drop_finished n js) js"
  by (induction n js rule: drop_finished.induct) auto

lemma subseq_trim: "subseq (trim_history js) js"
  by (simp add: trim_history_def subseq_drop_finished)

lemma finished_count_Nil [simp]: "finished_count [] = 0"
  by (simp add: finished_count_def)

lemma finished_count_Cons [simp]:
  "finished_count (j # js) = (if active j then 0 else 1) + finished_count js"
  by (simp add: finished_count_def)

lemma finished_count_append [simp]: "finished_count (xs @ ys) = finished_count xs + finished_count ys"
  by (simp add: finished_count_def)

lemma queued_count_Nil [simp]: "queued_count [] = 0"
  by (simp add: queued_count_def)

lemma queued_count_Cons [simp]:
  "queued_count (j # js) = (if job_status j = Queued then 1 else 0) + queued_count js"
  by (simp add: queued_count_def)

lemma queued_count_append [simp]: "queued_count (xs @ ys) = queued_count xs + queued_count ys"
  by (simp add: queued_count_def)

lemma finished_count_drop: "finished_count (drop_finished n js) = finished_count js - n"
  by (induction n js rule: drop_finished.induct) auto

lemma finished_count_trim: "finished_count (trim_history js) \<le> MAX_HISTORY"
  by (simp add: trim_history_def finished_count_drop)

lemma drop_finished_active: "filter active (drop_finished n js) = filter active js"
  by (induction n js rule: drop_finished.induct) auto

lemma queued_count_subseq: "subseq xs ys \<Longrightarrow> queued_count xs \<le> queued_count ys"
  unfolding queued_count_def by (metis list_emb_length subseq_filter)

lemma subseq_setD: "subseq xs ys \<Longrightarrow> set xs \<subseteq> set ys"
  by (auto simp: subseq_conv_nths dest: in_set_nthsD)

lemma jobs_ok_subseq:
  assumes "jobs_ok start sq run js" "subseq js' js"
  shows "jobs_ok start sq run js'"
proof -
  have "distinct (map job_id js')"
    using assms subseq_map [OF assms(2), of job_id]
    by (metis distinct_nthsI jobs_ok_def subseq_conv_nths)
  then show ?thesis
    using assms queued_count_subseq [OF assms(2)] subseq_setD [OF assms(2)]
    by (auto simp: jobs_ok_def)
qed

lemma jobs_ok_trim: "jobs_ok start sq run js \<Longrightarrow> jobs_ok start sq run (trim_history js)"
  by (erule jobs_ok_subseq) (rule subseq_trim)

lemma finished_count_map:
  "(\<And>j. j \<in> set js \<Longrightarrow> active (f j) = active j) \<Longrightarrow> finished_count (map f js) = finished_count js"
  by (induction js) auto

lemma finished_count_map_le:
  assumes "distinct (map job_id js)"
    and "\<And>j. j \<in> set js \<Longrightarrow> \<not> active (f j) \<Longrightarrow> \<not> active j \<or> job_id j = i"
  shows "finished_count (map f js) \<le> Suc (finished_count js)"
  using assms
proof (induction js)
  case (Cons j js)
  show ?case
  proof (cases "job_id j = i")
    case True
    then have "\<not> active (f k) \<Longrightarrow> \<not> active k" if "k \<in> set js" for k
      using Cons.prems that by (metis distinct.simps(2) image_eqI list.set_intros(2) list.simps(9) set_map)
    then have "finished_count (map f js) \<le> finished_count js"
      by (induction js) auto
    then show ?thesis by simp
  qed (use Cons in auto)
qed simp

text \<open>Rewriting jobs in place, keeping their ids and never turning one into a queued one.\<close>

lemma queued_count_map_le:
  "(\<And>j. j \<in> set js \<Longrightarrow> job_status (f j) = Queued \<Longrightarrow> job_status j = Queued) \<Longrightarrow>
   queued_count (map f js) \<le> queued_count js"
  by (induction js) auto

lemma jobs_ok_map:
  assumes "jobs_ok start sq run js" "\<And>j. job_id (f j) = job_id j"
    and "\<And>j. j \<in> set js \<Longrightarrow> job_wf (f j) \<and> slot_ok run (f j)"
    and "\<And>j. j \<in> set js \<Longrightarrow> job_status (f j) = Queued \<Longrightarrow> job_status j = Queued"
  shows "jobs_ok start sq run (map f js)"
proof -
  have "map job_id (map f js) = map job_id js" using assms(2) by simp
  moreover have "queued_count (map f js) \<le> queued_count js" by (rule queued_count_map_le) (rule assms(4))
  ultimately show ?thesis using assms(1-3) by (auto simp: jobs_ok_def comp_def)
qed

lemma jobs_ok_run:
  assumes "jobs_ok start sq run js" "length run' \<le> length run"
    and "\<And>j. j \<in> set js \<Longrightarrow> slot_ok run' j"
  shows "jobs_ok start sq run' js"
  using assms by (auto simp: jobs_ok_def)

lemma jobs_ok_seq: "jobs_ok start sq run js \<Longrightarrow> sq \<le> sq' \<Longrightarrow> jobs_ok start sq' run js"
  by (auto simp: jobs_ok_def intro: minted_mono)

lemma run_ok_seq: "run_ok start sq run \<Longrightarrow> sq \<le> sq' \<Longrightarrow> run_ok start sq' run"
  by (auto simp: run_ok_def intro: minted_mono)

lemma jobs_ok_append:
  assumes "jobs_ok start sq run js" "run_ok start sq run" "start \<le> nanos"
    and "job_id j = mint nanos sq" "job_status j = Queued" "job_wf j"
    and "queued_count js + length run < MAX_ACTIVE_QUEUED"
  shows "jobs_ok start (Suc sq) run (js @ [j])"
proof -
  have fresh: "\<not> minted start sq (job_id j)" using mint_fresh [OF assms(3)] assms(4) by simp
  then have "job_id j \<notin> set (map job_id js)" using assms(1) by (auto simp: jobs_ok_def)
  moreover have "hget run (job_id j) = None"
    using fresh assms(2) by (auto simp: run_ok_def hget_eq_None)
  ultimately show ?thesis
    using assms minted_next jobs_ok_seq [OF assms(1), of "Suc sq"]
    by (auto simp: jobs_ok_def slot_ok_def)
qed

text \<open>The active jobs fit: every downloading job has a slot of its own.\<close>

lemma downloading_le_running:
  assumes "jobs_ok start sq run js"
  shows "length (filter (\<lambda>j. job_status j = Downloading) js) \<le> length run"
proof -
  let ?D = "filter (\<lambda>j. job_status j = Downloading) js"
  have "distinct (map job_id ?D)" using assms by (simp add: jobs_ok_def distinct_map_filter)
  then have "length ?D = card (set (map job_id ?D))" by (metis distinct_card length_map)
  also have "set (map job_id ?D) \<subseteq> set (hkeys run)"
  proof
    fix i assume "i \<in> set (map job_id ?D)"
    then obtain j where "j \<in> set js" "job_status j = Downloading" "i = job_id j" by auto
    with assms obtain w where "hget run i = Some w" by (auto simp: jobs_ok_def slot_ok_def)
    then show "i \<in> set (hkeys run)" by (rule hget_mem_keys)
  qed
  then have "card (set (map job_id ?D)) \<le> card (set (hkeys run))" by (intro card_mono) auto
  also have "\<dots> \<le> length run" by (metis card_length length_map)
  finally show ?thesis .
qed

lemma length_jobs: "length js = queued_count js + length (filter (\<lambda>j. job_status j = Downloading) js) + finished_count js"
proof (induction js)
  case (Cons j js)
  then show ?case by (cases "job_status j") auto
qed (simp add: finished_count_def queued_count_def)

lemma length_jobs_ok:
  "jobs_ok start sq run js \<Longrightarrow> finished_count js \<le> MAX_HISTORY \<Longrightarrow>
   length js \<le> MAX_ACTIVE_QUEUED + MAX_HISTORY"
  using downloading_le_running [of start sq run js] length_jobs [of js] by (simp add: jobs_ok_def)


section \<open>The critical sections keep the invariant\<close>

lemma d_okD:
  assumes "d_ok start d"
  shows "run_ok start (dl_seq d) (dl_running d)" "jobs_ok start (dl_seq d) (dl_running d) (dl_jobs d)"
    "finished_count (dl_jobs d) \<le> MAX_HISTORY" "is_absolute (ds_path (dl_settings d))" "disk_ok (dl_disk d)"
    "dl_stopping d \<Longrightarrow> list_all (\<lambda>j. \<not> active j) (dl_jobs d)"
  using assms by (simp_all add: d_ok_def)

lemma jobs_okD:
  assumes "jobs_ok start sq run js" "j \<in> set js"
  shows "job_wf j" "minted start sq (job_id j)" "slot_ok run j"
  using assms by (auto simp: jobs_ok_def)

lemma jobs_ok_unique:
  "jobs_ok start sq run js \<Longrightarrow> j \<in> set js \<Longrightarrow> k \<in> set js \<Longrightarrow> job_id j = job_id k \<Longrightarrow> j = k"
  by (auto simp: jobs_ok_def distinct_map dest: inj_onD)

lemma d_ok_jobs:
  assumes "d_ok start d" "jobs_ok start (dl_seq d) (dl_running d) js" "finished_count js \<le> MAX_HISTORY"
    and "dl_stopping d \<Longrightarrow> list_all (\<lambda>j. \<not> active j) js"
  shows "d_ok start (d\<lparr>dl_jobs := js\<rparr>)"
  using assms by (simp add: d_ok_def)

lemma d_ok_busy [simp]: "d_ok start (d\<lparr>dl_busy := b\<rparr>) = d_ok start d"
  by (simp add: d_ok_def)

lemma disk_ok_current: "d_ok start d \<Longrightarrow> disk_ok (dl_settings d, dl_jobs d)"
  using length_jobs_ok by (auto simp: d_ok_def disk_ok_def)

lemma persist_ok:
  assumes "persist_locked env d = (r, d')" "d_ok start d"
  shows "d_ok start d' \<and> dl_jobs d' = dl_jobs d \<and> dl_running d' = dl_running d \<and> dl_seq d' = dl_seq d \<and>
    dl_settings d' = dl_settings d \<and> dl_stopping d' = dl_stopping d"
  using assms disk_ok_current [OF assms(2)]
  by (auto simp: persist_locked_def d_ok_def split: persist_outcome.splits)

lemma set_drop_finished: "set (drop_finished n js) \<subseteq> set js"
  using subseq_setD [OF subseq_drop_finished] .

lemma set_trim_history: "set (trim_history js) \<subseteq> set js"
  using subseq_setD [OF subseq_trim] .

lemma list_all_trim: "list_all P js \<Longrightarrow> list_all P (trim_history js)"
  using set_trim_history by (auto simp: list_all_iff)

subsection \<open>Starting workers\<close>

lemma update_at_map:
  assumes "distinct (map job_id js)" "i < length js"
  shows "js[i := f (js ! i)] = map (\<lambda>j. if job_id j = job_id (js ! i) then f j else j) js"
proof (rule nth_equalityI)
  fix k assume k: "k < length (js[i := f (js ! i)])"
  have "job_id (js ! k) = job_id (js ! i) \<longleftrightarrow> k = i"
    using assms k nth_eq_iff_index_eq [of "map job_id js" k i] by simp
  with k show "js[i := f (js ! i)] ! k = map (\<lambda>j. if job_id j = job_id (js ! i) then f j else j) js ! k"
    by (auto simp: nth_list_update)
qed simp

lemma start_worker_ok:
  assumes "d_ok start d" "\<not> dl_stopping d" "length (dl_running d) < 4"
  shows "d_ok start (start_worker d)"
proof (cases "position (\<lambda>j. job_status j = Queued) (dl_jobs d)")
  case (Some i)
  let ?js = "dl_jobs d" and ?f = "\<lambda>j. j\<lparr>job_status := Downloading\<rparr>"
  let ?j = "?js ! i"
  let ?w = "\<lparr>w_job = ?f ?j, w_cancelled = False, w_phase = Resolving\<rparr>"
  let ?run = "hput (job_id ?j) ?w (dl_running d)"
  note ok = d_okD [OF assms(1)]
  have i: "i < length ?js" "job_status ?j = Queued" using position_Some [OF Some] by simp_all
  have j: "?j \<in> set ?js" using i by simp
  note jok = jobs_okD [OF ok(2) j]
  have free: "hget (dl_running d) (job_id ?j) = None" using jok(3) i(2) by (simp add: slot_ok_def)
  then have len: "length ?run = Suc (length (dl_running d))" by (simp add: length_hput hget_eq_None)
  have dist: "distinct (map job_id ?js)" using ok(2) by (simp add: jobs_ok_def)
  have run: "run_ok start (dl_seq d) ?run"
    using ok(1) jok(2) len assms(3) set_hput [of "job_id ?j" ?w "dl_running d"]
    by (fastforce simp: run_ok_def)
  have "jobs_ok start (dl_seq d) ?run (?js[i := ?f ?j])"
    unfolding jobs_ok_def
  proof (intro conjI ballI)
    show "distinct (map job_id (?js[i := ?f ?j]))"
      using dist by (simp add: update_at_map [OF dist i(1)] comp_def if_distrib cong: if_cong)
    show "queued_count (?js[i := ?f ?j]) + length ?run \<le> MAX_ACTIVE_QUEUED"
      using queued_count_update [OF i(1), of "?f ?j"] i(2) len ok(2) by (simp add: jobs_ok_def)
    fix k assume "k \<in> set (?js[i := ?f ?j])"
    then obtain m where m: "m \<in> set ?js" "k = (if job_id m = job_id ?j then ?f m else m)"
      unfolding update_at_map [OF dist i(1)] by auto
    have "job_wf k \<and> minted start (dl_seq d) (job_id k) \<and> slot_ok ?run k"
    proof (cases "job_id m = job_id ?j")
      case True
      then have "m = ?j" by (rule jobs_ok_unique [OF ok(2) m(1) j])
      with m(2) jok i(2) show ?thesis by (simp add: job_wf.simps slot_ok_def)
    next
      case False
      with m(2) jobs_okD [OF ok(2) m(1)] show ?thesis by (simp add: slot_ok_def)
    qed
    then show "job_wf k" "minted start (dl_seq d) (job_id k)" "slot_ok ?run k" by simp_all
  qed
  moreover have "finished_count (?js[i := ?f ?j]) \<le> MAX_HISTORY"
  proof -
    have "active k" if "k \<in> set ?js" "job_id k = job_id ?j" for k
      using jobs_ok_unique [OF ok(2) that(1) j that(2)] i(2) by simp
    then have "finished_count (?js[i := ?f ?j]) = finished_count ?js"
      unfolding update_at_map [OF dist i(1)] by (intro finished_count_map) simp
    with ok(3) show ?thesis by simp
  qed
  ultimately show ?thesis
    using ok run Some assms(2) by (simp add: start_worker_def Let_def d_ok_def)
qed (use assms in \<open>simp add: start_worker_def\<close>)

lemma start_worker_stopping [simp]: "dl_stopping (start_worker d) = dl_stopping d"
  by (simp add: start_worker_def Let_def split: option.split)

lemma pump_loop_ok: "d_ok start d \<Longrightarrow> d_ok start (pump_loop d)"
proof (induction d rule: pump_loop.induct)
  case (1 d)
  show ?case
  proof (cases "\<not> dl_stopping d \<and> length (dl_running d) < max 1 (min 4 (ds_workers (dl_settings d))) \<and>
      0 < queued_count (dl_jobs d)")
    case True
    then have "d_ok start (start_worker d)" by (intro start_worker_ok 1(2)) auto
    with 1(1) [OF True] True show ?thesis by (subst pump_loop.simps) simp
  next
    case False
    with 1(2) show ?thesis by (subst pump_loop.simps) auto
  qed
qed

lemma pump_ok: "d_ok start d \<Longrightarrow> d_ok start (pump d)"
  by (simp add: pump_def Let_def pump_loop_ok)

end
