(* ===== verification/Download_Invariant.thy ===== *)
theory Download_Invariant
  imports Download_Workers
begin

text \<open>
  Every step of the download manager keeps its invariant: the workers' critical sections first, then
  the requests. The interpretation of the locale \<open>invariant\<close> at the end gives it for every reachable
  state.
\<close>

section \<open>Finishing a job\<close>

text \<open>A job finished in place: one id, from an active status to a terminal one.\<close>

definition finishing :: "ustr \<Rightarrow> (download_job \<Rightarrow> bool) \<Rightarrow> (download_job \<Rightarrow> download_job) \<Rightarrow> bool" where
  "finishing i p f \<longleftrightarrow> (\<forall>j. (p j \<longrightarrow> job_id j = i \<and> active j) \<and> job_id (f j) = job_id j \<and>
     (p j \<longrightarrow> job_wf j \<longrightarrow> \<not> active (f j) \<and> job_wf (f j)))"

lemma finish_jobs:
  assumes "jobs_ok start sq run js" "finished_count js \<le> MAX_HISTORY" "finishing i p f"
  shows "jobs_ok start sq run (update_first p f js) \<and>
    finished_count (update_first p f js) \<le> Suc MAX_HISTORY \<and>
    (list_ex p js \<longrightarrow> (\<forall>j \<in> set (update_first p f js). job_id j = i \<longrightarrow> \<not> active j))"
proof -
  let ?g = "\<lambda>j. if p j then f j else j"
  have dist: "distinct (map job_id js)" using assms(1) by (simp add: jobs_ok_def)
  have eq: "update_first p f js = map ?g js"
    by (rule update_first_map [OF dist]) (use assms(3) in \<open>simp add: finishing_def\<close>)
  have pid: "p j \<Longrightarrow> job_id j = i" for j using assms(3) by (simp add: finishing_def)
  have ids: "job_id (?g j) = job_id j" for j using assms(3) by (auto simp: finishing_def)
  have new: "job_wf (f j) \<and> \<not> active (f j)" if "j \<in> set js" "p j" for j
    using jobs_okD(1) [OF assms(1) that(1)] that(2) assms(3) by (auto simp: finishing_def)
  have q: "\<not> active j \<Longrightarrow> slot_ok run j \<and> job_status j \<noteq> Queued" for j
    by (cases "job_status j") (auto simp: slot_ok_def)
  have "jobs_ok start sq run (map ?g js)"
  proof (rule jobs_ok_map [OF assms(1) ids])
    fix j assume j: "j \<in> set js"
    show "job_wf (?g j) \<and> slot_ok run (?g j)"
      using new [OF j] q [of "f j"] jobs_okD(1,3) [OF assms(1) j] by (cases "p j") simp_all
    show "job_status (?g j) = Queued \<Longrightarrow> job_status j = Queued"
      using new [OF j] q [of "f j"] by (cases "p j") simp_all
  qed
  moreover have "finished_count (map ?g js) \<le> Suc (finished_count js)"
  proof (rule finished_count_map_le [OF dist, where i = i])
    fix j assume "\<not> active (?g j)"
    then show "\<not> active j \<or> job_id j = i" using pid [of j] by (cases "p j") simp_all
  qed
  moreover have "\<not> active j" if ex: "list_ex p js" and j: "j \<in> set (map ?g js)" "job_id j = i" for j
  proof -
    from ex obtain k where k: "k \<in> set js" "p k" by (auto simp: list_ex_iff)
    from j(1) obtain m where m: "m \<in> set js" "j = ?g m" by auto
    have "job_id m = job_id k" using ids [of m] pid [OF k(2)] j(2) m(2) by simp
    then have "m = k" by (rule jobs_ok_unique [OF assms(1) m(1) k(1)])
    with new [OF k] k(2) m(2) show ?thesis by simp
  qed
  ultimately show ?thesis unfolding eq using assms(2) by (intro conjI impI ballI) simp_all
qed

lemma finishing_apply: "finishing i (is_downloading i) (apply_result now r)"
  by (auto simp: finishing_def is_downloading_def apply_result_def Let_def job_wf.simps split: sum.split)

text \<open>\<open>save_transition\<close> on a job that is finished.\<close>

lemma save_transition_ok:
  assumes "d_ok start d" "\<And>j. j \<in> set (dl_jobs d) \<Longrightarrow> job_id j = i \<Longrightarrow> \<not> active j"
  shows "d_ok start (save_transition env i d)"
proof (cases "persist_locked env d")
  case (Pair r d')
  note p = persist_ok [OF Pair assms(1)]
  let ?f = "\<lambda>j. j\<lparr>job_status := Failed, job_error := Some (
      (if job_file j \<noteq> None then lit ''Audio saved to your folder. '' else []) @
      lit ''History could not be saved: '' @ the r)\<rparr>"
  let ?g = "\<lambda>j. if job_id j = i then ?f j else j"
  note ok = d_okD [OF assms(1)]
  have dist: "distinct (map job_id (dl_jobs d))" using ok(2) by (simp add: jobs_ok_def)
  have wf: "job_wf (?f j)" if "j \<in> set (dl_jobs d)" "job_id j = i" for j
    using jobs_okD(1) [OF ok(2) that(1)] assms(2) [OF that]
    by (cases "job_status j") (auto simp: job_wf.simps)
  have "jobs_ok start (dl_seq d) (dl_running d) (map ?g (dl_jobs d))"
    using ok(2) by (rule jobs_ok_map) (use wf jobs_okD [OF ok(2)] in \<open>auto simp: slot_ok_def split: if_splits\<close>)
  moreover have "finished_count (map ?g (dl_jobs d)) = finished_count (dl_jobs d)"
    by (rule finished_count_map) (use assms(2) in auto)
  moreover have "list_all (\<lambda>j. \<not> active j) (dl_jobs d) \<Longrightarrow> list_all (\<lambda>j. \<not> active j) (map ?g (dl_jobs d))"
    by (auto simp: list_all_iff)
  moreover have "update_first (\<lambda>j. job_id j = i) ?f (dl_jobs d) = map ?g (dl_jobs d)"
    by (rule update_first_map [OF dist])
  ultimately show ?thesis
    using p Pair ok d_ok_jobs [of start d' "map ?g (dl_jobs d)"]
    by (cases r) (simp_all add: save_transition_def)
qed

lemma finish_transition_ok:
  assumes "d_ok start d" "finishing i (is_downloading i) f"
  shows "d_ok start (d\<lparr>dl_jobs := trim_history (update_first (is_downloading i) f (dl_jobs d))\<rparr>)"
proof -
  note ok = d_okD [OF assms(1)]
  from finish_jobs [OF ok(2,3) assms(2)] have
    j: "jobs_ok start (dl_seq d) (dl_running d) (update_first (is_downloading i) f (dl_jobs d))" by blast
  have "list_all (\<lambda>j. \<not> active j) (update_first (is_downloading i) f (dl_jobs d))"
    if a: "list_all (\<lambda>j. \<not> active j) (dl_jobs d)"
  proof -
    have "update_first (is_downloading i) f (dl_jobs d) = dl_jobs d"
      using a by (intro update_first_none) (auto simp: is_downloading_def list_all_iff)
    with a show ?thesis by simp
  qed
  then show ?thesis
    using ok jobs_ok_trim [OF j] finished_count_trim list_all_trim by (intro d_ok_jobs [OF assms(1)]) auto
qed


text \<open>A finished job written back, trimmed and saved: \<open>finish\<close> and the publication step.\<close>

definition settle :: "env \<Rightarrow> ustr \<Rightarrow> (download_job \<Rightarrow> download_job) \<Rightarrow> downloads \<Rightarrow> downloads" where
  "settle env i f d = save_transition env i
     (d\<lparr>dl_jobs := trim_history (update_first (is_downloading i) f (dl_jobs d))\<rparr>)"

lemma settle_ok:
  assumes "d_ok start d" "finishing i (is_downloading i) f" "list_ex (is_downloading i) (dl_jobs d)"
  shows "d_ok start (settle env i f d)"
  unfolding settle_def
proof (rule save_transition_ok [OF finish_transition_ok [OF assms(1,2)]])
  note ok = d_okD [OF assms(1)]
  fix j assume "j \<in> set (dl_jobs (d\<lparr>dl_jobs := trim_history (update_first (is_downloading i) f (dl_jobs d))\<rparr>))"
    "job_id j = i"
  then have "j \<in> set (update_first (is_downloading i) f (dl_jobs d))" "job_id j = i"
    using set_trim_history by auto
  with finish_jobs [OF ok(2,3) assms(2)] assms(3) show "\<not> active j" by blast
qed

lemma finish_settle: "finish env i r d =
    (if list_ex (is_downloading i) (dl_jobs d) then settle env i (apply_result (env_now env) r) d else d)"
  by (simp add: finish_def settle_def)

lemma finish_ok: "d_ok start d \<Longrightarrow> d_ok start (finish env i r d)"
  by (simp add: finish_settle settle_ok finishing_apply)

definition outcome :: "env \<Rightarrow> ustr + path \<Rightarrow> ustr list \<Rightarrow> download_job \<Rightarrow> download_job" where
  "outcome env r w j = (let j = apply_result (env_now env) r j
     in if job_status j = Completed then j\<lparr>job_warnings := w\<rparr> else j)"

lemma finishing_outcome: "finishing i (is_downloading i) (outcome env r w)"
  using finishing_apply [of i "env_now env" r]
  by (auto simp: finishing_def outcome_def Let_def job_wf.simps)

lemma publish_job_settle:
  "publish_job env io j staging sidecars warnings res (d, fs) =
     (if list_ex (is_downloading (job_id j)) (dl_jobs d)
      then let (r, w, fs) = (case res of Inl e \<Rightarrow> (Inl e, warnings, fs)
             | Inr _ \<Rightarrow> publish io staging (job_settings j) (job_title j) (job_artists j) (job_video j)
                 (job_collection j) sidecars (warnings, fs))
           in (settle env (job_id j) (outcome env r w) d, fs)
      else (d, fs))"
  by (simp add: publish_job_def settle_def outcome_def [abs_def] Let_def split: prod.split)

lemma publish_job_ok:
  assumes "d_ok start d" "publish_job env io j staging sidecars warnings res (d, fs) = (d', fs')"
  shows "d_ok start d'"
  using assms settle_ok [OF assms(1) finishing_outcome]
  by (auto simp: publish_job_settle Let_def split: if_splits prod.splits)

text \<open>Which job ids are still downloading, and what the settled state leaves of the rest.\<close>

definition downloading :: "ustr \<Rightarrow> downloads \<Rightarrow> bool" where
  "downloading i d = list_ex (is_downloading i) (dl_jobs d)"

lemma save_transition_fields [simp]:
  "dl_running (save_transition env i d) = dl_running d" "dl_seq (save_transition env i d) = dl_seq d"
  "dl_stopping (save_transition env i d) = dl_stopping d"
  by (simp_all add: save_transition_def persist_locked_def split: persist_outcome.split prod.split)

lemma not_downloading_save:
  "\<forall>j \<in> set (dl_jobs d). job_id j = i \<longrightarrow> \<not> active j \<Longrightarrow> \<not> downloading i (save_transition env i d)"
proof -
  assume a: "\<forall>j \<in> set (dl_jobs d). job_id j = i \<longrightarrow> \<not> active j"
  have "\<forall>j \<in> set (update_first (\<lambda>j. job_id j = i) (f :: download_job \<Rightarrow> download_job) js). job_id j = i \<longrightarrow> \<not> active j"
    if "\<And>j. \<not> active (f j)" "\<forall>j \<in> set js. job_id j = i \<longrightarrow> \<not> active j" for f js
    using that(2) by (induction js) (use that(1) in auto)
  note * = this
  obtain r d' where p: "persist_locked env d = (r, d')" by fastforce
  then have "dl_jobs d' = dl_jobs d"
    by (auto simp: persist_locked_def split: persist_outcome.splits)
  with a have "\<forall>j \<in> set (dl_jobs (save_transition env i d)). job_id j = i \<longrightarrow> \<not> active j"
    unfolding save_transition_def p
  proof (cases r)
    case (Some e)
    then show "\<forall>j \<in> set (dl_jobs (case (r, d') of (None, d) \<Rightarrow> d | (Some e, d) \<Rightarrow>
        d\<lparr>dl_jobs := update_first (\<lambda>j. job_id j = i) (\<lambda>j. j\<lparr>job_status := Failed, job_error := Some (
          (if job_file j \<noteq> None then lit ''Audio saved to your folder. '' else []) @
          lit ''History could not be saved: '' @ e)\<rparr>) (dl_jobs d)\<rparr>)). job_id j = i \<longrightarrow> \<not> active j"
      using * [of "\<lambda>j. j\<lparr>job_status := Failed, job_error := Some (
          (if job_file j \<noteq> None then lit ''Audio saved to your folder. '' else []) @
          lit ''History could not be saved: '' @ e)\<rparr>" "dl_jobs d'"] a \<open>dl_jobs d' = dl_jobs d\<close> by simp
  qed simp
  then show ?thesis by (auto simp: downloading_def list_ex_iff is_downloading_def)
qed

lemma not_downloading_settle:
  assumes "d_ok start d" "finishing i (is_downloading i) f" "list_ex (is_downloading i) (dl_jobs d)"
  shows "\<not> downloading i (settle env i f d)"
  unfolding settle_def
proof (rule not_downloading_save, intro ballI impI)
  note ok = d_okD [OF assms(1)]
  fix j assume "j \<in> set (dl_jobs (d\<lparr>dl_jobs := trim_history (update_first (is_downloading i) f (dl_jobs d))\<rparr>))"
    "job_id j = i"
  then have "j \<in> set (update_first (is_downloading i) f (dl_jobs d))" "job_id j = i"
    using set_trim_history by auto
  with finish_jobs [OF ok(2,3) assms(2)] assms(3) show "\<not> active j" by blast
qed

lemma not_downloading_finish: "d_ok start d \<Longrightarrow> \<not> downloading i (finish env i r d)"
  by (cases "list_ex (is_downloading i) (dl_jobs d)")
    (simp_all add: finish_settle not_downloading_settle finishing_apply, simp add: downloading_def)

section \<open>Phases and slots\<close>

lemma hget_set_phase: "hget (map (\<lambda>(k, w). (k, if k = i then w\<lparr>w_phase := ph\<rparr> else w)) run) k =
    map_option (\<lambda>w. if k = i then w\<lparr>w_phase := ph\<rparr> else w) (hget run k)"
  by (induction run) auto

lemma run_ok_map:
  assumes "run_ok start sq run" "\<And>k w. w_job (g k w) = w_job w"
  shows "run_ok start sq (map (\<lambda>(k, w). (k, g k w)) run)"
proof -
  have "hkeys (map (\<lambda>(k, w). (k, g k w)) run) = hkeys run" by (induction run) auto
  then have "hwf (map (\<lambda>(k, w). (k, g k w)) run) = hwf run" unfolding hwf_def by (simp only:)
  then show ?thesis using assms by (auto simp: run_ok_def)
qed

lemma set_phase_ok:
  assumes "d_ok start d" "ph = Returned \<Longrightarrow> \<not> downloading i d"
  shows "d_ok start (set_phase i ph d)"
proof -
  note ok = d_okD [OF assms(1)]
  let ?run = "map (\<lambda>(k, w). (k, if k = i then w\<lparr>w_phase := ph\<rparr> else w)) (dl_running d)"
  have "jobs_ok start (dl_seq d) ?run (dl_jobs d)"
  proof (rule jobs_ok_run [OF ok(2)])
    fix j assume j: "j \<in> set (dl_jobs d)"
    have "ph = Returned \<Longrightarrow> \<not> (job_id j = i \<and> job_status j = Downloading)"
      using assms(2) j by (auto simp: downloading_def list_ex_iff is_downloading_def)
    then show "slot_ok ?run j"
      using jobs_okD(3) [OF ok(2) j] by (cases "job_id j = i") (auto simp: slot_ok_def hget_set_phase)
  qed simp
  moreover have "run_ok start (dl_seq d) ?run"
    by (rule run_ok_map [OF ok(1)]) simp
  ultimately show ?thesis using ok by (simp add: set_phase_def d_ok_def)
qed

lemma resolved_ok: "d_ok start d \<Longrightarrow> d_ok start (resolved env i target staging_error d)"
  unfolding resolved_def
proof (split sum.split, intro conjI allI impI)
  fix t assume d: "d_ok start d"
  have "\<not> downloading i d" if "\<not> is_current i d"
  proof (cases "dl_stopping d")
    case True
    then have "\<forall>j \<in> set (dl_jobs d). \<not> active j" using d_okD(6) [OF d] by (simp add: list_all_iff)
    then show ?thesis by (auto simp: downloading_def list_ex_iff is_downloading_def)
  qed (use that in \<open>simp add: is_current_def downloading_def\<close>)
  then show "d_ok start (if \<not> is_current i d then set_phase i Returned d
      else case staging_error of Some e \<Rightarrow> set_phase i Returned (finish env i (Inl e) d)
      | None \<Rightarrow> set_phase i (Fetching t) d)"
    using d by (auto split: option.split intro!: set_phase_ok finish_ok not_downloading_finish)
qed (auto intro!: set_phase_ok finish_ok not_downloading_finish)

lemma fetched_ok: "d_ok start d \<Longrightarrow> d_ok start (fetched i res d)"
  unfolding fetched_def by (rule set_phase_ok) simp_all

lemma published_ok:
  assumes "d_ok start d" "hget (dl_running d) i = Some w" "published env io w staging sidecars warnings res (d, fs) = (d', fs')"
  shows "d_ok start d'"
proof -
  obtain d1 where p: "publish_job env io (w_job w) staging sidecars warnings res (d, fs) = (d1, fs')"
    "d' = set_phase (job_id (w_job w)) Returned d1"
    using assms(3) by (auto simp: published_def split: prod.splits)
  have "\<not> downloading (job_id (w_job w)) d1"
    using p(1) not_downloading_settle [OF assms(1) finishing_outcome]
    by (auto simp: publish_job_settle Let_def downloading_def split: if_splits prod.splits)
  then show ?thesis
    unfolding p(2) using publish_job_ok [OF assms(1) p(1)] by (intro set_phase_ok) simp_all
qed

lemma worker_drop_ok:
  assumes "d_ok start d" "hget (dl_running d) i = Some w" "w_phase w = Returned"
  shows "d_ok start (worker_drop env i d)"
proof -
  note ok = d_okD [OF assms(1)]
  have other: "\<not> is_downloading i j" if "j \<in> set (dl_jobs d)" for j
    using jobs_okD(3) [OF ok(2) that] assms(2,3) by (auto simp: slot_ok_def is_downloading_def)
  have len: "length (hdel i (dl_running d)) \<le> length (dl_running d)" by (rule length_hdel_le)
  have "jobs_ok start (dl_seq d) (hdel i (dl_running d)) (dl_jobs d)"
  proof (rule jobs_ok_run [OF ok(2) len])
    fix j assume j: "j \<in> set (dl_jobs d)"
    with jobs_okD(3) [OF ok(2) j] other [OF j] show "slot_ok (hdel i (dl_running d)) j"
      by (auto simp: slot_ok_def is_downloading_def)
  qed
  moreover have "run_ok start (dl_seq d) (hdel i (dl_running d))"
    using ok(1) len set_hdel [of i "dl_running d"] by (auto simp: run_ok_def)
  ultimately have "d_ok start (d\<lparr>dl_running := hdel i (dl_running d)\<rparr>)" using ok by (simp add: d_ok_def)
  moreover have "\<not> list_ex (is_downloading i) (dl_jobs d)" using other by (auto simp: list_ex_iff)
  ultimately show ?thesis by (simp add: worker_drop_def pump_ok)
qed

lemma progress_ok: "d_ok start d \<Longrightarrow> d_ok start (progress i n d)"
proof -
  assume d: "d_ok start d"
  note ok = d_okD [OF d]
  let ?f = "\<lambda>j. j\<lparr>job_progress := min n 99\<rparr>"
  let ?g = "\<lambda>j. if is_downloading i j then ?f j else j"
  have "distinct (map job_id (dl_jobs d))" using ok(2) by (simp add: jobs_ok_def)
  then have eq: "update_first (is_downloading i) ?f (dl_jobs d) = map ?g (dl_jobs d)"
    by (rule update_first_map) (simp add: is_downloading_def)
  have "jobs_ok start (dl_seq d) (dl_running d) (map ?g (dl_jobs d))"
  proof (rule jobs_ok_map [OF ok(2)])
    fix j assume j: "j \<in> set (dl_jobs d)"
    show "job_wf (?g j) \<and> slot_ok (dl_running d) (?g j)"
      using jobs_okD [OF ok(2) j] by (auto simp: is_downloading_def job_wf.simps slot_ok_def)
  qed (simp_all split: if_splits)
  moreover have "finished_count (map ?g (dl_jobs d)) = finished_count (dl_jobs d)"
    by (rule finished_count_map) simp
  moreover have "list_all (\<lambda>j. \<not> active j) (dl_jobs d) \<Longrightarrow> list_all (\<lambda>j. \<not> active j) (map ?g (dl_jobs d))"
    by (auto simp: list_all_iff)
  ultimately show ?thesis using ok eq by (simp add: progress_def d_ok_def)
qed

end
