(* ===== verification/Download_Requests.thy ===== *)
theory Download_Requests
  imports Download_Invariant
begin

text \<open>
  The requests keep the invariant of the download manager; with the workers' steps of
  \<open>Download_Invariant\<close> this is the interpretation of \<open>invariant\<close>, and the properties of the download
  manager follow from it.
\<close>

section \<open>Requests keep the invariant\<close>

lemma ensure_running_None: "ensure_running d = None \<longleftrightarrow> \<not> dl_stopping d"
  by (simp add: ensure_running_def)

lemma ensure_capacity_None:
  "ensure_capacity d = None \<longleftrightarrow> queued_count (dl_jobs d) + length (dl_running d) < MAX_ACTIVE_QUEUED"
  by (auto simp: ensure_capacity_def)

lemma set_settings_ok:
  assumes "d_ok start d" "\<And>st. sanitized = Inr st \<Longrightarrow> is_absolute (ds_path st)"
  shows "d_ok start (snd (set_settings env sanitized d))"
proof (cases sanitized)
  case (Inr st)
  obtain r d' where p: "persist_locked env (d\<lparr>dl_settings := st\<rparr>) = (r, d')" by fastforce
  have "d_ok start (d\<lparr>dl_settings := st\<rparr>)"
    using assms(1) assms(2) [OF Inr] by (simp add: d_ok_def)
  note q = persist_ok [OF p this]
  have "d_ok start (d'\<lparr>dl_settings := dl_settings d\<rparr>)"
    using q assms(1) by (simp add: d_ok_def)
  then show ?thesis
    using Inr p q assms(1) by (auto simp: set_settings_def pump_ok split: option.splits)
qed (use assms in \<open>simp add: set_settings_def\<close>)

lemma d_ok_seq: "d_ok start d \<Longrightarrow> d_ok start (d\<lparr>dl_seq := dl_seq d + 1\<rparr>)"
  by (auto simp: d_ok_def intro: run_ok_seq jobs_ok_seq)

lemma new_job_eq:
  "new_job env st src e d = (j, d') \<Longrightarrow> d' = d\<lparr>dl_seq := dl_seq d + 1\<rparr> \<and>
     job_id j = mint (env_nanos env) (dl_seq d) \<and> job_status j = Queued \<and> job_video j = ce_video_id e \<and> job_wf j"
  by (auto simp: new_job_def next_id_def Let_def job_wf.simps)

lemma add_job_ok:
  assumes "d_ok start d" "start \<le> env_nanos env" "\<not> dl_stopping d" "new_job env st src e d = (j, d')"
    and "queued_count (dl_jobs d) + length (dl_running d) < MAX_ACTIVE_QUEUED"
  shows "d_ok start (d'\<lparr>dl_jobs := dl_jobs d' @ [j]\<rparr>)"
proof -
  note n = new_job_eq [OF assms(4)] and ok = d_okD [OF assms(1)]
  have "jobs_ok start (Suc (dl_seq d)) (dl_running d) (dl_jobs d @ [j])"
    by (rule jobs_ok_append [OF ok(2,1) assms(2)]) (use n assms(5) in simp_all)
  then show ?thesis
    using n ok run_ok_seq [OF ok(1), of "Suc (dl_seq d)"] assms(3) by (simp add: d_ok_def)
qed

lemma d_ok_subseq:
  assumes "d_ok start d" "subseq js (dl_jobs d)" "finished_count js \<le> MAX_HISTORY"
  shows "d_ok start (d\<lparr>dl_jobs := js\<rparr>)"
  using d_okD [OF assms(1)] jobs_ok_subseq [OF _ assms(2)] subseq_setD [OF assms(2)] assms(3)
  by (intro d_ok_jobs [OF assms(1)]) (auto simp: list_all_iff)

lemma enqueue_locked_ok:
  assumes "d_ok start d" "start \<le> env_nanos env" "enqueue_locked env src e d = (r, d')"
  shows "d_ok start d'"
proof -
  obtain j d1 where n: "new_job env (dl_settings d) src e d = (j, d1)" by fastforce
  have d1: "d_ok start d1" using new_job_eq [OF n] d_ok_seq [OF assms(1)] by simp
  obtain pr d2 where p: "persist_locked env (d1\<lparr>dl_jobs := dl_jobs d1 @ [j]\<rparr>) = (pr, d2)" by fastforce
  have "d_ok start d2 \<and> d_ok start (d2\<lparr>dl_jobs := butlast (dl_jobs d2)\<rparr>)"
    if "\<not> dl_stopping d" "queued_count (dl_jobs d) + length (dl_running d) < MAX_ACTIVE_QUEUED"
  proof -
    note q = persist_ok [OF p add_job_ok [OF assms(1,2) that(1) n that(2)]]
    have "dl_jobs d2 = dl_jobs d1 @ [j]" using q by simp
    moreover have "finished_count (dl_jobs d1) \<le> MAX_HISTORY" using d_okD(3) [OF d1] .
    ultimately show ?thesis using q d_ok_subseq [of start d2 "dl_jobs d1"]
        prefix_imp_subseq [OF prefixI [OF refl], of "dl_jobs d1" "[j]"] by simp
  qed
  then show ?thesis
    using assms(1,3) n d1 p
    by (auto simp: enqueue_locked_def ensure_running_None ensure_capacity_None split: option.splits prod.splits)
qed

lemma enqueue_ok:
  assumes "d_ok start d" "start \<le> env_nanos env"
  shows "d_ok start (snd (enqueue env v ti ar th d))"
proof -
  have "d_ok start d'" if "enqueue_locked env src e d = (r, d')" for src e r d'
    using assms that by (rule enqueue_locked_ok)
  then show ?thesis
    using assms(1) by (auto simp: enqueue_def Let_def pump_ok split: sum.splits prod.splits)
qed

text \<open>The batch: its loop adds at most \<open>room\<close> rows at the end.\<close>

definition batch_ok :: "nat \<Rightarrow> downloads \<Rightarrow> nat \<Rightarrow> batch \<times> downloads \<Rightarrow> bool" where
  "batch_ok start d0 room bd \<longleftrightarrow> (let (b, d) = bd in
     d_ok start d \<and> \<not> dl_stopping d \<and> dl_running d = dl_running d0 \<and> dl_settings d = dl_settings d0 \<and>
     dl_disk d = dl_disk d0 \<and> b_added b \<le> room \<and>
     queued_count (dl_jobs d) = queued_count (dl_jobs d0) + b_added b \<and>
     finished_count (dl_jobs d) = finished_count (dl_jobs d0) \<and>
     length (dl_jobs d) = length (dl_jobs d0) + b_added b \<and>
     (\<exists>new. dl_jobs d = dl_jobs d0 @ new \<and> map job_id new = b_created b))"

lemma batch_entry_ok:
  assumes "batch_ok start d0 room bd" "start \<le> env_nanos env"
    and "queued_count (dl_jobs d0) + length (dl_running d0) + room \<le> MAX_ACTIVE_QUEUED"
  shows "batch_ok start d0 room (batch_entry env st ix room e bd)"
proof (cases bd)
  case (Pair b d)
  let ?b = "b\<lparr>b_seen := insert (ce_video_id e) (b_seen b)\<rparr>"
  have add: "batch_ok start d0 room (?b\<lparr>b_created := b_created ?b @ [job_id j], b_added := b_added ?b + 1\<rparr>,
      d'\<lparr>dl_jobs := dl_jobs d' @ [j]\<rparr>)"
    if "new_job env st src e d = (j, d')" "b_added b < room" for src j d'
  proof -
    have "d_ok start (d'\<lparr>dl_jobs := dl_jobs d' @ [j]\<rparr>)"
      using that assms Pair by (intro add_job_ok) (auto simp: batch_ok_def)
    with that assms(1) Pair new_job_eq [OF that(1)] show ?thesis by (auto simp: batch_ok_def)
  qed
  show ?thesis
    using assms(1) Pair add
    by (auto simp: batch_entry_def Let_def batch_ok_def split: sum.split option.split prod.split)
qed

lemma batch_fold_ok:
  assumes "batch_ok start d0 room bd" "start \<le> env_nanos env"
    and "queued_count (dl_jobs d0) + length (dl_running d0) + room \<le> MAX_ACTIVE_QUEUED"
  shows "batch_ok start d0 room (foldl (\<lambda>bd e. batch_entry env st ix room e bd) bd es)"
  using assms(1)
proof (induction es arbitrary: bd)
  case (Cons e es)
  from Cons.IH [OF batch_entry_ok [OF Cons.prems assms(2,3)]] show ?case by simp
qed simp

lemma enqueue_collection_ok:
  assumes "d_ok start d" "start \<le> env_nanos env"
  shows "d_ok start (snd (enqueue_collection env es d))"
proof -
  let ?st = "dl_settings d"
  let ?room = "MAX_ACTIVE_QUEUED - (length (dl_running d) + queued_count (dl_jobs d))"
  obtain b d1 where f: "foldl (\<lambda>bd e. batch_entry env ?st (folder_index_of env ?st) ?room e bd)
      (batch_new, d) es = (b, d1)" by fastforce
  show ?thesis
  proof (cases "dl_stopping d")
    case False
    have cap: "queued_count (dl_jobs d) + length (dl_running d) + ?room \<le> MAX_ACTIVE_QUEUED"
      using d_okD(2) [OF assms(1)] by (simp add: jobs_ok_def)
    have "batch_ok start d ?room (batch_new, d)"
      using assms(1) False by (simp add: batch_ok_def batch_new_def)
    from batch_fold_ok [OF this assms(2) cap, of ?st "folder_index_of env ?st" es]
    have b: "batch_ok start d ?room (b, d1)" unfolding f .
    obtain r d2 where p: "persist_locked env d1 = (r, d2)" by fastforce
    have "d_ok start d1" using b by (simp add: batch_ok_def)
    note q = persist_ok [OF p this]
    have "d_ok start (d2\<lparr>dl_jobs := filter (\<lambda>j. job_id j \<notin> set (b_created b)) (dl_jobs d2)\<rparr>)"
    proof (rule d_ok_subseq)
      have "finished_count (filter P js) \<le> finished_count js" for P js
        by (induction js) auto
      then show "finished_count (filter (\<lambda>j. job_id j \<notin> set (b_created b)) (dl_jobs d2)) \<le> MAX_HISTORY"
        using d_okD(3) q le_trans by blast
    qed (use q in simp_all)
    then show ?thesis
      using assms(1) f p q b False
      by (auto simp: enqueue_collection_def Let_def ensure_running_None pump_ok batch_ok_def split: option.splits)
  qed (use assms(1) in \<open>auto simp: enqueue_collection_def Let_def ensure_running_def\<close>)
qed

lemma update_first_cong:
  "(\<And>x. x \<in> set xs \<Longrightarrow> p x = p' x) \<Longrightarrow> update_first p f xs = update_first p' f xs"
  by (induction xs) auto

lemma find_Some: "find p xs = Some x \<Longrightarrow> x \<in> set xs \<and> p x"
  by (metis find_Some_iff nth_mem)

lemma cancel_ok:
  assumes "d_ok start d"
  shows "d_ok start (snd (cancel env i d))"
proof (cases "find (\<lambda>j. job_id j = i) (dl_jobs d)")
  case (Some j)
  note ok = d_okD [OF assms]
  have j: "j \<in> set (dl_jobs d)" "job_id j = i" using find_Some [OF Some] by simp_all
  let ?f = "\<lambda>j. j\<lparr>job_status := Cancelled, job_finished := Some (env_now env)\<rparr>"
  let ?js = "update_first (\<lambda>j. job_id j = i) ?f (dl_jobs d)"
  let ?d = "d\<lparr>dl_jobs := trim_history ?js, dl_running := notify i (dl_running d)\<rparr>"
  have "d_ok start ?d" if a: "active j"
  proof -
    have dist: "distinct (map job_id (dl_jobs d))" using ok(2) by (simp add: jobs_ok_def)
    have same: "update_first (\<lambda>j. job_id j = i) ?f (dl_jobs d) =
        update_first (\<lambda>j. job_id j = i \<and> active j) ?f (dl_jobs d)"
      by (rule update_first_cong) (use jobs_ok_unique [OF ok(2) _ j(1)] j(2) a in auto)
    have fin: "finishing i (\<lambda>j. job_id j = i \<and> active j) ?f"
      by (auto simp: finishing_def job_wf.simps split: download_status.splits)
    have ex: "list_ex (\<lambda>j. job_id j = i \<and> active j) (dl_jobs d)" using j a by (auto simp: list_ex_iff)
    from finish_jobs [OF ok(2,3) fin] ex have f: "jobs_ok start (dl_seq d) (dl_running d) ?js"
      "\<And>k. k \<in> set ?js \<Longrightarrow> job_id k = i \<Longrightarrow> \<not> active k" unfolding same by blast+
    have len: "length (notify i (dl_running d)) \<le> length (dl_running d)"
      by (auto simp: notify_def length_hput image_iff map_of_eq_None_iff split: option.split dest!: map_of_SomeD) (* len *)
    have "jobs_ok start (dl_seq d) (notify i (dl_running d)) ?js"
    proof (rule jobs_ok_run [OF f(1) len])
      fix k assume k: "k \<in> set ?js"
      show "slot_ok (notify i (dl_running d)) k"
        using jobs_okD(3) [OF f(1) k] f(2) [OF k]
        by (cases "job_id k = i"; cases "job_status k") (auto simp: slot_ok_def notify_def split: option.split)
    qed
    moreover have "run_ok start (dl_seq d) (notify i (dl_running d))"
      using ok(1) len set_hput [of i _ "dl_running d"] hget_in_set [of "dl_running d" i]
      by (fastforce simp: run_ok_def notify_def split: option.splits)
    moreover have "list_all (\<lambda>j. \<not> active j) (dl_jobs d) \<Longrightarrow> False" using j a by (auto simp: list_all_iff)
    ultimately show ?thesis
      using ok jobs_ok_trim finished_count_trim by (auto simp: d_ok_def)
  qed
  moreover obtain r d2 where p: "persist_locked env ?d = (r, d2)" by fastforce
  ultimately show ?thesis
    using assms Some persist_ok [OF p] by (auto simp: cancel_def Let_def pump_ok split: option.splits)
qed (use assms in \<open>simp add: cancel_def\<close>)


lemma insert_remove_at: "k < length xs \<Longrightarrow> insert_at k (xs ! k) (remove_at k xs) = xs"
  by (simp add: insert_at_def remove_at_def min_def id_take_nth_drop [symmetric])

lemma subseq_remove_at: "subseq (remove_at k xs) xs"
proof -
  have "subseq (drop 1 (drop k xs)) (drop k xs)" by (rule suffix_imp_subseq [OF suffix_drop])
  then have "subseq (take k xs @ drop (Suc k) xs) (take k xs @ drop k xs)"
    by (intro list_emb_append_mono) simp_all
  then show ?thesis by (simp only: remove_at_def append_take_drop_id)
qed

lemma retry_ok:
  assumes "d_ok start d" "start \<le> env_nanos env"
  shows "d_ok start (snd (retry env i d))"
proof (cases "position (\<lambda>j. job_id j = i) (dl_jobs d)")
  case (Some k)
  note ok = d_okD [OF assms(1)]
  have k: "k < length (dl_jobs d)" using position_Some [OF Some] by simp
  let ?old = "dl_jobs d ! k"
  let ?d' = "d\<lparr>dl_seq := dl_seq d + 1\<rparr>"
  let ?j = "?old\<lparr>job_id := mint (env_nanos env) (dl_seq d), job_status := Queued, job_progress := 0,
    job_error := None, job_file := None, job_created := env_now env, job_finished := None,
    job_settings := dl_settings d, job_warnings := []\<rparr>"
  let ?js = "remove_at k (dl_jobs d)"
  obtain r d2 where p: "persist_locked env (?d'\<lparr>dl_jobs := ?js @ [?j]\<rparr>) = (r, d2)" by fastforce
  have sub: "subseq ?js (dl_jobs d)" by (rule subseq_remove_at)
  have fin: "finished_count ?js \<le> MAX_HISTORY"
    using ok(3) k by (simp add: remove_at_def) (metis add_leD1 add_leD2 append_take_drop_id
        Cons_nth_drop_Suc finished_count_Cons finished_count_append add.left_commute)
  have q: "d_ok start d2 \<and> dl_jobs d2 = ?js @ [?j] \<and> d_ok start (d2\<lparr>dl_jobs := dl_jobs d\<rparr>)"
    if "\<not> dl_stopping d" "queued_count (dl_jobs d) + length (dl_running d) < MAX_ACTIVE_QUEUED"
  proof -
    have "queued_count ?js + length (dl_running d) < MAX_ACTIVE_QUEUED"
      using that(2) queued_count_subseq [OF sub] by simp
    then have "jobs_ok start (Suc (dl_seq d)) (dl_running d) (?js @ [?j])"
      by (intro jobs_ok_append [OF jobs_ok_subseq [OF ok(2) sub] ok(1) assms(2)]) (simp_all add: job_wf.simps)
    then have new: "d_ok start (?d'\<lparr>dl_jobs := ?js @ [?j]\<rparr>)"
      using ok fin run_ok_seq [OF ok(1), of "Suc (dl_seq d)"] that(1) by (simp add: d_ok_def)
    note q = persist_ok [OF p new]
    moreover have "d_ok start ?d'" by (rule d_ok_seq [OF assms(1)])
    ultimately show ?thesis using that(1) by (auto simp: d_ok_def)
  qed
  then show ?thesis
    using assms(1) Some p insert_remove_at [OF k]
    by (auto simp: retry_def ensure_running_None ensure_capacity_None next_id_def Let_def pump_ok
        split: option.splits)
qed (use assms(1) in \<open>auto simp: retry_def split: option.split\<close>)

lemma clear_history_ok:
  assumes "d_ok start d"
  shows "d_ok start (snd (clear_history env d))"
proof -
  obtain r d' where p: "persist_locked env (d\<lparr>dl_jobs := filter active (dl_jobs d)\<rparr>) = (r, d')" by fastforce
  have "finished_count (filter active js) = 0" for js by (induction js) auto
  then have c: "d_ok start (d\<lparr>dl_jobs := filter active (dl_jobs d)\<rparr>)"
    by (intro d_ok_subseq [OF assms]) simp_all
  note q = persist_ok [OF p c]
  have "d_ok start (d'\<lparr>dl_jobs := dl_jobs d\<rparr>)"
    using q d_okD [OF assms] by (auto simp: d_ok_def)
  then show ?thesis using p q by (auto simp: clear_history_def split: option.splits)
qed

lemma interrupt_ok: "\<not> active (interrupt now j) \<and> job_id (interrupt now j) = job_id j \<and>
    (job_wf j \<longrightarrow> job_wf (interrupt now j))"
  by (auto simp: interrupt_def apply_result_def job_wf.simps)

lemma shutdown_ok:
  assumes "d_ok start d"
  shows "d_ok start (shutdown env d)"
proof -
  note ok = d_okD [OF assms]
  let ?f = "interrupt (env_now env)"
  let ?run = "map (\<lambda>(i, w). (i, w\<lparr>w_cancelled := True\<rparr>)) (dl_running d)"
  let ?js = "recover_interrupted (env_now env) (dl_jobs d)"
  note f = interrupt_ok [of "env_now env"]
  have slot: "\<not> active j \<Longrightarrow> slot_ok run j" for run j by (cases "job_status j") (auto simp: slot_ok_def)
  have "jobs_ok start (dl_seq d) (dl_running d) ?js"
    unfolding recover_interrupted_def
  proof (rule jobs_ok_map [OF ok(2)])
    fix j assume j: "j \<in> set (dl_jobs d)"
    show "job_wf (?f j) \<and> slot_ok (dl_running d) (?f j)" using f slot jobs_okD(1) [OF ok(2) j] by blast
    show "job_status (?f j) = Queued \<Longrightarrow> job_status j = Queued"
      using f [of j] by (cases "job_status (?f j)") auto
  qed (use f in blast)
  moreover have "\<not> active j" if "j \<in> set ?js" for j
    using that f by (auto simp: recover_interrupted_def)
  ultimately have js: "jobs_ok start (dl_seq d) ?run ?js" "list_all (\<lambda>j. \<not> active j) ?js"
    using slot by (auto intro: jobs_ok_run simp: list_all_iff)
  note js = jobs_ok_trim [OF js(1)] list_all_trim [OF js(2)]
  have "run_ok start (dl_seq d) ?run" using ok(1) by (rule run_ok_map) simp
  with js ok finished_count_trim have "d_ok start (d\<lparr>dl_stopping := True, dl_jobs := trim_history ?js, dl_running := ?run\<rparr>)"
    by (simp add: d_ok_def)
  then show ?thesis
    using persist_ok [OF prod.collapse [symmetric]] by (simp add: shutdown_def)
qed

section \<open>The machine\<close>

text \<open>What a start is: a manager that \<open>Downloads::new\<close> made from a history an earlier process left,
  whose ids that process (started, and its clock read, before) had minted.\<close>

definition saved_ok :: "nat \<Rightarrow> download_job list \<Rightarrow> bool" where
  "saved_ok start js \<longleftrightarrow> distinct (map job_id js) \<and>
     (\<forall>j \<in> set js. job_wf j \<and> (\<exists>nanos n. job_id j = mint nanos n \<and> nanos < start))"

definition dl_start :: "nat \<Rightarrow> dl_state \<Rightarrow> bool" where
  "dl_start start s \<longleftrightarrow> hwf (snd s) \<and>
     (\<exists>env stored. saved_ok start (snd stored) \<and> downloads_new env stored = Inr (fst s))"

lemma new_ok:
  assumes "saved_ok start (snd stored)" "downloads_new env stored = Inr d"
  shows "d_ok start d"
proof -
  obtain st js where s: "stored = (st, js)" by fastforce
  let ?js = "map (\<lambda>j. j\<lparr>job_settings := clamp_workers (job_settings j)\<rparr>) js"
  let ?f = "interrupt (env_now env)"
  let ?d = "\<lparr>dl_settings = clamp_workers st, dl_jobs = trim_history (recover_interrupted (env_now env) ?js),
    dl_running = [], dl_stopping = False, dl_seq = 0, dl_disk = (st, js), dl_busy = False\<rparr>"
  from assms(2) s have l: "is_absolute (ds_path st)" "length js \<le> MAX_ACTIVE_QUEUED + MAX_HISTORY"
    "persist_locked env ?d = (None, d)"
    by (auto simp: downloads_new_def load_def Let_def clamp_workers_def split: if_splits prod.splits option.splits)
  have "jobs_ok start 0 [] (recover_interrupted (env_now env) ?js)"
  proof -
    note f = interrupt_ok [of "env_now env"]
    have q: "queued_count (map ?f xs) = 0" for xs
    proof (induction xs)
      case (Cons a xs)
      have "job_status (?f a) \<noteq> Queued" using f [of a] by (cases "job_status (?f a)") auto
      with Cons show ?case by simp
    qed simp
    have "map job_id (map ?f ?js) = map job_id js" using f by simp
    moreover have "job_wf (j\<lparr>job_settings := x\<rparr>) = job_wf j" for j x
      by (cases "job_status j") (simp_all add: job_wf.simps)
    moreover have "slot_ok [] (?f j)" for j using f [of j] by (cases "job_status (?f j)") (auto simp: slot_ok_def)
    ultimately show ?thesis
      using assms(1) s f q [of ?js]
      by (auto simp: jobs_ok_def recover_interrupted_def saved_ok_def minted_def simp del: map_map)
  qed
  then have "d_ok start ?d"
    using l finished_count_trim jobs_ok_trim by (simp add: d_ok_def run_ok_def disk_ok_def clamp_workers_def)
  then show ?thesis using persist_ok [OF l(3)] by blast
qed

lemma hard_link_hwf: "hwf fs \<Longrightarrow> hwf (snd (hard_link io src dst fs))"
  by (auto simp: hard_link_def split: option.split)

lemma remove_files_hwf: "hwf fs \<Longrightarrow> hwf (remove_files ps fs)"
  unfolding remove_files_def by (induction ps arbitrary: fs) auto

lemma link_companions_hwf:
  "link_companions io dir stem n cs (created0, w0, fs0) = (col, created, w, fs') \<Longrightarrow> hwf fs0 \<Longrightarrow> hwf fs'"
proof (induction cs arbitrary: created0 w0 fs0)
  case (Cons c cs)
  obtain ext src where c: "c = (ext, src)" by fastforce
  obtain r fs1 where l: "hard_link io src (dir @ [suffixed stem n ext]) fs0 = (r, fs1)" by fastforce
  with Cons.prems(2) hard_link_hwf [of fs0 io src "dir @ [suffixed stem n ext]"] have "hwf fs1" by simp
  then show ?case using Cons.prems Cons.IH l c by (cases r) auto
qed simp

lemma publish_loop_hwf:
  "publish_loop io src dir stem ext comps ns (w, fs) = (r, w', fs') \<Longrightarrow> hwf fs \<Longrightarrow> hwf fs'"
proof (induction ns arbitrary: fs)
  case (Cons n ns)
  let ?dst = "dir @ [suffixed stem n ext]"
  obtain k fs1 where l: "hard_link io src ?dst fs = (k, fs1)" by fastforce
  have h1: "hwf fs1" using hard_link_hwf [OF Cons.prems(2), of io src ?dst] l by simp
  obtain col created w1 fs2 where lc:
    "link_companions io dir stem n comps ([?dst], [], fs1) = (col, created, w1, fs2)" by (metis prod_cases4)
  have h2: "hwf fs2" by (rule link_companions_hwf [OF lc h1])
  show ?case
  proof (cases k)
    case Linked
    show ?thesis
    proof (cases col)
      case True
      with Cons.prems(1) l lc Linked Cons.IH [OF _ remove_files_hwf [OF h2]] show ?thesis by simp
    qed (use Cons.prems(1) l lc Linked h2 in simp)
  qed (use Cons.prems Cons.IH l in auto)
qed simp

lemma publish_hwf:
  "publish io staging st ti ar v coll sidecars (w, fs) = (r, w', fs') \<Longrightarrow> hwf fs \<Longrightarrow> hwf fs'"
  by (auto simp: publish_def Let_def publish_loop_hwf split: sum.splits option.splits if_splits)

lemma published_hwf:
  "published env io w staging sidecars warnings res (d, fs) = (d', fs') \<Longrightarrow> hwf fs \<Longrightarrow> hwf fs'"
  by (auto simp: published_def publish_job_settle Let_def publish_hwf split: prod.splits if_splits sum.splits)

lemma cancelled_not_downloading:
  assumes "d_ok start d" "hget (dl_running d) i = Some w" "w_cancelled w"
  shows "\<not> downloading i d"
proof
  assume "downloading i d"
  then obtain j where j: "j \<in> set (dl_jobs d)" "job_id j = i" "job_status j = Downloading"
    by (auto simp: downloading_def list_ex_iff is_downloading_def)
  with jobs_okD(3) [OF d_okD(2) [OF assms(1)] j(1)] assms(2,3) show False by (auto simp: slot_ok_def)
qed

lemma dl_step_ok: "dl_step start s t \<Longrightarrow> dl_ok start s \<Longrightarrow> dl_ok start t"
proof (induction rule: dl_step.induct)
  case (step_published d i w res fs env io staging sidecars warnings)
  obtain d' fs' where p: "published env io w staging sidecars warnings res (d, fs) = (d', fs')" by fastforce
  then have "hwf fs'" using step_published(3) published_hwf by (simp add: dl_ok_def)
  with p published_ok [OF _ step_published(1) p] step_published(3) show ?case by (simp add: dl_ok_def)
next
  case (step_stop d i w fs)
  then show ?case by (auto simp: dl_ok_def intro!: set_phase_ok dest: cancelled_not_downloading)
qed (auto simp: dl_ok_def intro: enqueue_ok enqueue_collection_ok cancel_ok retry_ok clear_history_ok
    set_settings_ok shutdown_ok progress_ok resolved_ok fetched_ok worker_drop_ok)

interpretation downloads: invariant "dl_start start" "dl_step start" "dl_ok start" for start
proof unfold_locales
  fix s assume "dl_start start s"
  then show "dl_ok start s" by (auto simp: dl_start_def dl_ok_def intro: new_ok [of _ "(_, _)"])
qed (rule dl_step_ok)

end
