(* ===== verification/Download_Guarantees.thy ===== *)
theory Download_Guarantees
  imports Download_Requests
begin

text \<open>
  What the download manager guarantees: its limits and the consistency of its jobs in every reachable
  state, that a finished attempt stays finished and a cancelled one never publishes, that a refused
  request changes nothing in memory, and that a batch is the single requests one after the other.
\<close>

section \<open>Reachable states\<close>



section \<open>A finished attempt stays finished\<close>

text \<open>What a step does to the jobs: each is unchanged, or comes from an active one, or is new.\<close>

definition evolves :: "nat \<Rightarrow> downloads \<Rightarrow> downloads \<Rightarrow> bool" where
  "evolves start d d' \<longleftrightarrow> dl_seq d \<le> dl_seq d' \<and>
     (\<forall>k \<in> set (dl_jobs d'). k \<in> set (dl_jobs d) \<or>
        (\<exists>j \<in> set (dl_jobs d). active j \<and> job_id j = job_id k) \<or> \<not> minted start (dl_seq d) (job_id k))"

lemma evolves_refl [simp]: "evolves start d d"
  by (auto simp: evolves_def)

lemma evolves_trans:
  assumes "evolves start a b" "evolves start b c"
  shows "evolves start a c"
  unfolding evolves_def
proof (intro conjI ballI)
  show "dl_seq a \<le> dl_seq c" using assms by (simp add: evolves_def)
  fix k assume "k \<in> set (dl_jobs c)"
  then consider "k \<in> set (dl_jobs b)" | j where "j \<in> set (dl_jobs b)" "active j" "job_id j = job_id k"
    | "\<not> minted start (dl_seq b) (job_id k)" using assms(2) by (auto simp: evolves_def)
  then show "k \<in> set (dl_jobs a) \<or> (\<exists>j \<in> set (dl_jobs a). active j \<and> job_id j = job_id k) \<or>
      \<not> minted start (dl_seq a) (job_id k)"
  proof cases
    case 3
    then show ?thesis using assms(1) minted_mono by (auto simp: evolves_def)
  next
    case 2
    then show ?thesis using assms(1) unfolding evolves_def by metis
  qed (use assms(1) in \<open>auto simp: evolves_def\<close>)
qed

lemma evolves_subset: "dl_seq d' = dl_seq d \<Longrightarrow> set (dl_jobs d') \<subseteq> set (dl_jobs d) \<Longrightarrow> evolves start d d'"
  by (auto simp: evolves_def)

text \<open>Only the job with id \<open>i\<close>, which was active, was rewritten.\<close>

lemma evolves_one:
  assumes "dl_seq d' = dl_seq d" "set (dl_jobs d') \<subseteq> set (dl_jobs d) \<union> {k. job_id k = i}"
    and "j \<in> set (dl_jobs d)" "active j" "job_id j = i"
  shows "evolves start d d'"
  using assms by (fastforce simp: evolves_def)

lemma set_update_first:
  "(\<And>j. p j \<Longrightarrow> job_id (f j) = i) \<Longrightarrow> set (update_first p f js) \<subseteq> set js \<union> {k. job_id k = i}"
  by (induction js) auto

lemma persist_jobs:
  "persist_locked env d = (r, d') \<Longrightarrow> dl_jobs d' = dl_jobs d \<and> dl_seq d' = dl_seq d \<and> dl_running d' = dl_running d \<and>
     dl_settings d' = dl_settings d \<and> dl_stopping d' = dl_stopping d \<and> dl_busy d' = dl_busy d"
  by (auto simp: persist_locked_def split: persist_outcome.splits)

lemma save_transition_set: "set (dl_jobs (save_transition env i d)) \<subseteq> set (dl_jobs d) \<union> {k. job_id k = i}"
proof -
  obtain r d' where p: "persist_locked env d = (r, d')" by fastforce
  show ?thesis
    using persist_jobs [OF p] set_update_first [of "\<lambda>j. job_id j = i" _ i "dl_jobs d"]
    by (cases r) (auto simp: save_transition_def p)
qed

lemma settle_evolves:
  assumes "list_ex (is_downloading i) (dl_jobs d)" "\<And>j. job_id (f j) = job_id j"
  shows "evolves start d (settle env i f d)"
proof -
  obtain j where j: "j \<in> set (dl_jobs d)" "job_id j = i" "active j"
    using assms(1) by (auto simp: list_ex_iff is_downloading_def)
  have "set (dl_jobs (settle env i f d)) \<subseteq> set (dl_jobs d) \<union> {k. job_id k = i}"
    unfolding settle_def
    using save_transition_set [of env i "d\<lparr>dl_jobs := trim_history (update_first (is_downloading i) f (dl_jobs d))\<rparr>"]
      set_trim_history [of "update_first (is_downloading i) f (dl_jobs d)"]
      set_update_first [of "is_downloading i" f i "dl_jobs d"] assms(2)
    by (auto simp: is_downloading_def)
  then show ?thesis by (rule evolves_one [OF _ _ j(1,3,2), rotated]) (simp add: settle_def)
qed

lemma finish_evolves: "evolves start d (finish env i r d)"
  by (auto simp: finish_settle apply_result_def Let_def split: sum.split intro!: settle_evolves)

lemma set_phase_evolves: "evolves start d d' \<Longrightarrow> evolves start d (set_phase i ph d')"
  by (simp add: evolves_def set_phase_def)

lemma start_worker_evolves: "evolves start d (start_worker d)"
proof (cases "position (\<lambda>j. job_status j = Queued) (dl_jobs d)")
  case (Some k)
  then have k: "k < length (dl_jobs d)" "job_status (dl_jobs d ! k) = Queued"
    using position_Some by auto
  let ?j = "(dl_jobs d ! k)\<lparr>job_status := Downloading\<rparr>"
  have "set ((dl_jobs d)[k := ?j]) \<subseteq> set (dl_jobs d) \<union> {m. job_id m = job_id (dl_jobs d ! k)}"
    using set_update_subset_insert [of "dl_jobs d" k ?j] by auto
  then show ?thesis
    using k by (intro evolves_one [of _ _ "job_id (dl_jobs d ! k)" "dl_jobs d ! k"])
      (simp_all add: start_worker_def Some Let_def)
qed (simp add: start_worker_def)

lemma pump_evolves: "evolves start d (pump d)"
proof -
  have "evolves start d (pump_loop d)"
  proof (induction d rule: pump_loop.induct)
    case (1 d)
    show ?case
    proof (cases "\<not> dl_stopping d \<and> length (dl_running d) < max 1 (min 4 (ds_workers (dl_settings d))) \<and>
        0 < queued_count (dl_jobs d)")
      case True
      from 1 [OF True] True show ?thesis
        by (subst pump_loop.simps) (auto intro: evolves_trans [OF start_worker_evolves])
    next
      case False
      then show ?thesis by (subst pump_loop.simps) auto
    qed
  qed
  then show ?thesis by (simp add: pump_def Let_def evolves_def)
qed


text \<open>New rows at the end, with an id that was not given out.\<close>

lemma evolves_new:
  assumes "dl_seq d \<le> dl_seq d'" "set (dl_jobs d') \<subseteq> set (dl_jobs d) \<union> {k. \<not> minted start (dl_seq d) (job_id k)}"
  shows "evolves start d d'"
  using assms by (auto simp: evolves_def)

lemma set_settings_evolves: "evolves start d (snd (set_settings env sanitized d))"
proof (cases sanitized)
  case (Inr st)
  obtain r d' where p: "persist_locked env (d\<lparr>dl_settings := st\<rparr>) = (r, d')" by fastforce
  have "evolves start d d'" using persist_jobs [OF p] by (intro evolves_subset) simp_all
  then show ?thesis
    using Inr p persist_jobs [OF p] evolves_trans [OF _ pump_evolves]
    by (auto simp: set_settings_def evolves_subset split: option.split)
qed (simp add: set_settings_def)

lemma enqueue_locked_evolves:
  assumes "start \<le> env_nanos env" "enqueue_locked env src e d = (r, d')"
  shows "evolves start d d'"
proof -
  obtain j d1 where n: "new_job env (dl_settings d) src e d = (j, d1)" by fastforce
  obtain pr d2 where p: "persist_locked env (d1\<lparr>dl_jobs := dl_jobs d1 @ [j]\<rparr>) = (pr, d2)" by fastforce
  note n' = new_job_eq [OF n] and p' = persist_jobs [OF p]
  have "\<not> minted start (dl_seq d) (job_id j)" using n' mint_fresh [OF assms(1)] by simp
  then have "evolves start d d2" "evolves start d d1" "evolves start d (d2\<lparr>dl_jobs := butlast (dl_jobs d2)\<rparr>)"
    using n' p' by (auto intro!: evolves_new)
  then show ?thesis
    using assms(2) n p by (auto simp: enqueue_locked_def split: option.splits prod.splits)
qed

lemma enqueue_evolves:
  assumes "start \<le> env_nanos env"
  shows "evolves start d (snd (enqueue env v ti ar th d))"
  using enqueue_locked_evolves [OF assms] evolves_trans [OF _ pump_evolves]
  by (auto simp: enqueue_def Let_def split: sum.split prod.split)

lemma batch_entry_evolves:
  assumes "start \<le> env_nanos env" "evolves start d0 (snd bd)"
  shows "evolves start d0 (snd (batch_entry env st ix room e bd))"
proof (cases bd)
  case (Pair b d)
  have "evolves start d (d'\<lparr>dl_jobs := dl_jobs d' @ [j]\<rparr>)" if "new_job env st src e d = (j, d')" for src j d'
    using new_job_eq [OF that] mint_fresh [OF assms(1)] by (intro evolves_new) auto
  then have "evolves start d0 (d'\<lparr>dl_jobs := dl_jobs d' @ [j]\<rparr>)" if "new_job env st src e d = (j, d')" for src j d'
    using that assms(2) Pair by (auto intro: evolves_trans)
  then show ?thesis
    using assms(2) Pair by (auto simp: batch_entry_def Let_def split: sum.split option.split prod.split)
qed

lemma batch_fold_evolves:
  "start \<le> env_nanos env \<Longrightarrow> evolves start d0 (snd bd) \<Longrightarrow>
   evolves start d0 (snd (foldl (\<lambda>bd e. batch_entry env st ix room e bd) bd es))"
  by (induction es arbitrary: bd) (simp_all add: batch_entry_evolves)

lemma batch_fold_busy:
  "dl_busy (snd (foldl (\<lambda>bd e. batch_entry env st ix room e bd) bd es)) = dl_busy (snd bd)"
proof -
  have "dl_busy (snd (batch_entry env st ix room e bd)) = dl_busy (snd bd)" for e bd
    by (auto simp: batch_entry_def new_job_def next_id_def Let_def split: sum.split option.split prod.split)
  then show ?thesis by (induction es arbitrary: bd) simp_all
qed

lemma enqueue_collection_evolves:
  assumes "start \<le> env_nanos env"
  shows "evolves start d (snd (enqueue_collection env es d))"
proof -
  let ?st = "dl_settings d"
  let ?room = "MAX_ACTIVE_QUEUED - (length (dl_running d) + queued_count (dl_jobs d))"
  obtain b d1 where f: "foldl (\<lambda>bd e. batch_entry env ?st (folder_index_of env ?st) ?room e bd)
      (batch_new, d) es = (b, d1)" by fastforce
  have d1: "evolves start d d1"
    using batch_fold_evolves [OF assms, of d "(batch_new, d)" ?st "folder_index_of env ?st" ?room es]
    unfolding f by simp
  obtain r d2 where p: "persist_locked env d1 = (r, d2)" by fastforce
  have d2: "evolves start d1 d2" "evolves start d2 (d2\<lparr>dl_jobs := filter P (dl_jobs d2)\<rparr>)" for P
    using persist_jobs [OF p] by (auto intro!: evolves_subset)
  show ?thesis
    using f p evolves_trans [OF d1 d2(1)] evolves_trans [OF evolves_trans [OF d1 d2(1)] d2(2)]
      evolves_trans [OF evolves_trans [OF d1 d2(1)] pump_evolves] d1
    by (auto simp: enqueue_collection_def Let_def split: option.split)
qed

lemma cancel_evolves: "evolves start d (snd (cancel env i d))"
proof (cases "find (\<lambda>j. job_id j = i) (dl_jobs d)")
  case (Some j)
  note j = find_Some [OF Some]
  let ?f = "\<lambda>j. j\<lparr>job_status := Cancelled, job_finished := Some (env_now env)\<rparr>"
  let ?d = "d\<lparr>dl_jobs := trim_history (update_first (\<lambda>j. job_id j = i) ?f (dl_jobs d)),
    dl_running := notify i (dl_running d)\<rparr>"
  have e: "evolves start d ?d" if "active j"
    using set_trim_history [of "update_first (\<lambda>j. job_id j = i) ?f (dl_jobs d)"]
      set_update_first [of "\<lambda>j. job_id j = i" ?f i "dl_jobs d"] j that
    by (intro evolves_one [of ?d d i j]) auto
  obtain r d2 where p: "persist_locked env ?d = (r, d2)" by fastforce
  have "evolves start ?d d2" using persist_jobs [OF p] by (intro evolves_subset) simp_all
  then have "evolves start d (pump d2)" if "active j"
    using evolves_trans [OF evolves_trans [OF e [OF that]] pump_evolves] by blast
  then show ?thesis using Some p by (auto simp: cancel_def Let_def split: option.split)
qed (simp add: cancel_def)

lemma retry_evolves:
  assumes "start \<le> env_nanos env"
  shows "evolves start d (snd (retry env i d))"
proof (cases "position (\<lambda>j. job_id j = i) (dl_jobs d)")
  case (Some k)
  have k: "k < length (dl_jobs d)" using position_Some [OF Some] by simp
  let ?old = "dl_jobs d ! k"
  let ?j = "?old\<lparr>job_id := mint (env_nanos env) (dl_seq d), job_status := Queued, job_progress := 0,
    job_error := None, job_file := None, job_created := env_now env, job_finished := None,
    job_settings := dl_settings d, job_warnings := []\<rparr>"
  obtain r d2 where p: "persist_locked env
    (d\<lparr>dl_seq := dl_seq d + 1, dl_jobs := remove_at k (dl_jobs d) @ [?j]\<rparr>) = (r, d2)" by fastforce
  have "set (remove_at k (dl_jobs d)) \<subseteq> set (dl_jobs d)" by (rule subseq_setD [OF subseq_remove_at])
  then have "evolves start d d2"
    using persist_jobs [OF p] mint_fresh [OF assms] by (intro evolves_new) auto
  moreover have "evolves start d (d2\<lparr>dl_jobs := dl_jobs d\<rparr>)"
    using persist_jobs [OF p] by (intro evolves_new) auto
  ultimately show ?thesis
    using Some p persist_jobs [OF p] insert_remove_at [OF k] evolves_trans [OF _ pump_evolves]
    by (auto simp: retry_def next_id_def Let_def split: option.split)
qed (auto simp: retry_def split: option.split)

lemma clear_evolves: "evolves start d (snd (clear_history env d))"
proof -
  obtain r d' where p: "persist_locked env (d\<lparr>dl_jobs := filter active (dl_jobs d)\<rparr>) = (r, d')" by fastforce
  show ?thesis
    using persist_jobs [OF p] by (auto simp: clear_history_def p split: option.split intro!: evolves_subset)
qed

lemma shutdown_evolves: "evolves start d (shutdown env d)"
proof -
  let ?d = "d\<lparr>dl_stopping := True, dl_jobs := trim_history (recover_interrupted (env_now env) (dl_jobs d)),
     dl_running := map (\<lambda>(i, w). (i, w\<lparr>w_cancelled := True\<rparr>)) (dl_running d)\<rparr>"
  have "evolves start d ?d"
    unfolding evolves_def
  proof (intro conjI ballI)
    fix k assume "k \<in> set (dl_jobs ?d)"
    then have "k \<in> set (map (interrupt (env_now env)) (dl_jobs d))"
      using set_trim_history [of "recover_interrupted (env_now env) (dl_jobs d)"]
      by (auto simp: recover_interrupted_def)
    then obtain j where j: "j \<in> set (dl_jobs d)" "k = interrupt (env_now env) j" by auto
    show "k \<in> set (dl_jobs d) \<or> (\<exists>j \<in> set (dl_jobs d). active j \<and> job_id j = job_id k) \<or>
        \<not> minted start (dl_seq d) (job_id k)"
    proof (cases "active j")
      case True
      with j interrupt_ok show ?thesis by metis
    qed (use j in \<open>simp add: interrupt_def\<close>)
  qed simp
  moreover obtain r d' where p: "persist_locked env ?d = (r, d')" by fastforce
  moreover have "evolves start ?d d'" using persist_jobs [OF p] by (intro evolves_subset) simp_all
  ultimately show ?thesis by (auto simp: shutdown_def intro: evolves_trans)
qed

lemma progress_evolves: "evolves start d (progress i n d)"
proof (cases "list_ex (is_downloading i) (dl_jobs d)")
  case True
  then obtain j where "j \<in> set (dl_jobs d)" "job_id j = i" "active j"
    by (auto simp: list_ex_iff is_downloading_def)
  then show ?thesis
    using set_update_first [of "is_downloading i" "\<lambda>j. j\<lparr>job_progress := min n 99\<rparr>" i "dl_jobs d"]
    by (intro evolves_one [of _ d i j]) (auto simp: progress_def is_downloading_def)
next
  case False
  then have "update_first (is_downloading i) f (dl_jobs d) = dl_jobs d" for f
    by (intro update_first_none) (auto simp: list_all_iff list_ex_iff)
  then show ?thesis by (intro evolves_subset) (simp_all add: progress_def)
qed

lemma worker_drop_evolves: "evolves start d (worker_drop env i d)"
proof -
  let ?d = "d\<lparr>dl_running := hdel i (dl_running d)\<rparr>"
  let ?f = "apply_result (env_now env) (Inl (lit ''The download worker stopped unexpectedly. Retry this download.''))"
  have id: "job_id (?f j) = job_id j" for j by (simp add: apply_result_def)
  have "evolves start d (save_transition env i (?d\<lparr>dl_jobs := update_first (is_downloading i) ?f (dl_jobs d)\<rparr>))"
    if ex: "list_ex (is_downloading i) (dl_jobs d)"
  proof -
    obtain j where j: "j \<in> set (dl_jobs d)" "job_id j = i" "active j"
      using ex by (auto simp: list_ex_iff is_downloading_def)
    have "set (update_first (is_downloading i) ?f (dl_jobs d)) \<subseteq> set (dl_jobs d) \<union> {k. job_id k = i}"
      by (rule set_update_first) (simp add: is_downloading_def id)
    with save_transition_set [of env i "?d\<lparr>dl_jobs := update_first (is_downloading i) ?f (dl_jobs d)\<rparr>"]
    have "set (dl_jobs (save_transition env i (?d\<lparr>dl_jobs := update_first (is_downloading i) ?f (dl_jobs d)\<rparr>)))
        \<subseteq> set (dl_jobs d) \<union> {k. job_id k = i}" by auto
    then show ?thesis by (rule evolves_one [OF _ _ j(1,3,2), rotated]) simp
  qed
  moreover have "evolves start d ?d" by (rule evolves_subset) simp_all
  ultimately show ?thesis
    by (auto simp: worker_drop_def Let_def intro: evolves_trans [OF _ pump_evolves])
qed

lemma published_evolves: "evolves start d (fst (published env io w staging sidecars warnings res (d, fs)))"
  by (auto simp: published_def publish_job_settle outcome_def apply_result_def Let_def
      split: prod.split sum.split intro!: set_phase_evolves settle_evolves)

lemma dl_step_evolves: "dl_step start s t \<Longrightarrow> evolves start (fst s) (fst t)"
proof (induction rule: dl_step.induct)
  case (step_published d i w res fs env io staging sidecars warnings)
  then show ?case using published_evolves by simp
qed (auto simp: resolved_def fetched_def enqueue_evolves enqueue_collection_evolves cancel_evolves retry_evolves
    clear_evolves set_settings_evolves shutdown_evolves progress_evolves worker_drop_evolves
    split: sum.split option.split intro!: set_phase_evolves finish_evolves)


lemma steps_evolve: "(dl_step start)\<^sup>*\<^sup>* s t \<Longrightarrow> evolves start (fst s) (fst t)"
  by (induction rule: rtranclp_induct) (auto intro: evolves_trans dl_step_evolves)

lemma reachable_ok: "reachable (dl_start start) (dl_step start) (d, fs) \<Longrightarrow> d_ok start d"
  using downloads.inv_reachable by (fastforce simp: dl_ok_def)

lemma finished_unchanged:
  assumes "d_ok start d" "evolves start d d'" "j \<in> set (dl_jobs d)" "\<not> active j"
    and "k \<in> set (dl_jobs d')" "job_id k = job_id j"
  shows "k = j"
proof -
  note u = jobs_ok_unique [OF d_okD(2) [OF assms(1)]]
  have "minted start (dl_seq d) (job_id k)"
    using jobs_okD(2) [OF d_okD(2) [OF assms(1)] assms(3)] assms(6) by simp
  with assms(2,5) consider "k \<in> set (dl_jobs d)" | m where "m \<in> set (dl_jobs d)" "active m" "job_id m = job_id k"
    unfolding evolves_def by blast
  then show ?thesis
  proof cases
    case 2
    with u [OF 2(1) assms(3)] assms(4,6) show ?thesis by simp
  qed (use u assms(3,6) in blast)
qed

text \<open>C34: A finished attempt is final: whatever happens afterwards (retries, late results of its worker,
  edits of the list, saving errors), a job that is completed, failed or cancelled is never changed
  again; it can only disappear from the list. A retry is a new job.\<close>

theorem finished_is_final:
  assumes "reachable (dl_start start) (dl_step start) (d, fs)" "(dl_step start)\<^sup>*\<^sup>* (d, fs) (d', fs')"
    and "j \<in> set (dl_jobs d)" "\<not> is_active (job_status j)" "k \<in> set (dl_jobs d')" "job_id k = job_id j"
  shows "k = j"
  using finished_unchanged [OF reachable_ok [OF assms(1)] _ assms(3-6)] steps_evolve [OF assms(2)] by simp

text \<open>What \<open>cancel\<close> leaves of its job.\<close>

lemma cancel_not_active:
  assumes "d_ok start d" "k \<in> set (dl_jobs (snd (cancel env i d)))" "job_id k = i"
  shows "\<not> active k"
proof -
  note ok = d_okD [OF assms(1)]
  have dist: "distinct (map job_id (dl_jobs d))" using ok(2) by (simp add: jobs_ok_def)
  have pumped: "\<not> active k" if "k \<in> set (dl_jobs (pump d2))" "\<forall>m \<in> set (dl_jobs d2). job_id m = i \<longrightarrow> \<not> active m"
    "minted start (dl_seq d2) i" for d2
    using pump_evolves [of start d2] that assms(3) unfolding evolves_def by blast
  show ?thesis
  proof (cases "find (\<lambda>j. job_id j = i) (dl_jobs d)")
    case None
    then have "k \<in> set (dl_jobs d)" using assms(2) by (simp add: cancel_def)
    with None assms(3) show ?thesis by (simp add: find_None_iff)
  next
    case (Some j)
    note j = find_Some [OF Some]
    then have mint: "minted start (dl_seq d) i" using jobs_okD(2) [OF ok(2)] by blast
    let ?f = "\<lambda>j. j\<lparr>job_status := Cancelled, job_finished := Some (env_now env)\<rparr>"
    let ?d = "d\<lparr>dl_jobs := trim_history (update_first (\<lambda>j. job_id j = i) ?f (dl_jobs d)),
      dl_running := notify i (dl_running d)\<rparr>"
    obtain r d2 where p: "persist_locked env ?d = (r, d2)" by fastforce
    have sub: "set (dl_jobs d2) \<subseteq> set (map (\<lambda>j. if job_id j = i then ?f j else j) (dl_jobs d))"
      using persist_jobs [OF p] set_trim_history [of "update_first (\<lambda>j. job_id j = i) ?f (dl_jobs d)"]
      by (simp add: update_first_map [OF dist, of "\<lambda>j. job_id j = i" i])
    have over: "\<forall>m \<in> set (dl_jobs d2). job_id m = i \<longrightarrow> \<not> active m"
    proof (intro ballI impI)
      fix m assume m: "m \<in> set (dl_jobs d2)" "job_id m = i"
      from subsetD [OF sub m(1)] obtain l where "m = (if job_id l = i then ?f l else l)"
        unfolding set_map by (rule imageE)
      with m(2) show "\<not> active m" by (cases "job_id l = i") simp_all
    qed
    show ?thesis
    proof (cases "active j")
      case True
      then have "snd (cancel env i d) = pump d2"
        using Some p by (auto simp: cancel_def Let_def split: option.split)
      then show ?thesis using pumped [OF _ over] assms(2) mint persist_jobs [OF p] by simp
    next
      case False
      then have "k \<in> set (dl_jobs d)" using Some assms(2) by (simp add: cancel_def)
      then have "k = j" using j assms(3) by (auto intro: jobs_ok_unique [OF ok(2)])
      with False show ?thesis by simp
    qed
  qed
qed



section \<open>A sample run\<close>

text \<open>One failed download from an earlier process, started at clock value 5, retried.\<close>

definition sample_env :: env where
  "sample_env = \<lparr>env_now = 7, env_nanos = 5, env_persist = Written, env_present = (\<lambda>_. False),
     env_unicode = sample_unicode,
     env_listing = (\<lambda>_. [])\<rparr>"

definition sample_job :: download_job where
  "sample_job = \<lparr>job_id = mint 3 0, job_video = lit ''abcdefghijk'', job_title = lit ''T'',
     job_artists = lit ''A'', job_thumbnail = [], job_status = Failed, job_progress = 4, job_file = None,
     job_error = Some (lit ''E''), job_source = lit ''YouTube'', job_collection = None,
     job_collection_kind = None, job_created = 1, job_finished = Some 2, job_settings = sample_settings,
     job_warnings = []\<rparr>"

definition sample_retried :: download_job where
  "sample_retried = sample_job\<lparr>job_id := mint 5 0, job_status := Downloading, job_progress := 0,
     job_error := None, job_created := 7, job_finished := None\<rparr>"

definition sample_loaded :: downloads where
  "sample_loaded = \<lparr>dl_settings = sample_settings, dl_jobs = [sample_job], dl_running = [],
     dl_stopping = False, dl_seq = 0, dl_disk = (sample_settings, [sample_job]), dl_busy = False\<rparr>"

lemma sample_job_simps [simp]:
  "job_id sample_job = mint 3 0" "job_status sample_job = Failed" "\<not> active sample_job" "job_wf sample_job"
  by (simp_all add: sample_job_def job_wf.simps)

lemma sample_start: "reachable (dl_start 5) (dl_step 5) (sample_loaded, sample_files)"
proof (rule reachable_init)
  have clamp: "clamp_workers sample_settings = sample_settings" "is_absolute (ds_path sample_settings)"
    by (simp_all add: clamp_workers_def sample_settings_def is_absolute_def starts_with_def lit_Cons)
  have one: "sample_job\<lparr>job_settings := clamp_workers (job_settings sample_job)\<rparr> = sample_job"
    by (simp add: sample_job_def clamp)
  have "trim_history (recover_interrupted 7 [sample_job]) = [sample_job]"
    by (simp add: recover_interrupted_def interrupt_def trim_history_def MAX_HISTORY_def)
  then have "downloads_new sample_env (sample_settings, [sample_job]) = Inr sample_loaded"
    by (simp add: downloads_new_def load_def Let_def clamp one MAX_ACTIVE_QUEUED_def MAX_HISTORY_def
        persist_locked_def sample_env_def sample_loaded_def)
  moreover have "saved_ok 5 [sample_job]" by (auto simp: saved_ok_def mint_inj)
  ultimately show "dl_start 5 (sample_loaded, sample_files)"
    using sample_files_ok by (auto simp: dl_start_def)
qed

definition sample_running :: downloads where
  "sample_running = snd (retry sample_env (mint 3 0) sample_loaded)"

lemma pump_single:
  assumes "\<not> dl_stopping d" "dl_running d = []" "dl_jobs d = [j]" "job_status j = Queued"
  shows "dl_jobs (pump d) = [j\<lparr>job_status := Downloading\<rparr>]"
proof -
  have "pump_loop d = pump_loop (start_worker d)"
    by (subst pump_loop.simps) (simp add: assms)
  moreover have s: "dl_jobs (start_worker d) = [j\<lparr>job_status := Downloading\<rparr>]"
    by (simp add: start_worker_def assms Let_def)
  moreover have "pump_loop (start_worker d) = start_worker d"
    by (subst pump_loop.simps) (simp add: s)
  ultimately show ?thesis by (simp add: pump_def Let_def)
qed

lemma sample_running_jobs: "dl_jobs sample_running = [sample_retried]"
proof -
  let ?j = "sample_job\<lparr>job_id := mint 5 0, job_status := Queued, job_progress := 0, job_error := None,
      job_file := None, job_created := 7, job_finished := None, job_settings := sample_settings,
      job_warnings := []\<rparr>"
  let ?d = "\<lparr>dl_settings = sample_settings, dl_jobs = [?j], dl_running = [], dl_stopping = False,
    dl_seq = 1, dl_disk = (sample_settings, [?j]), dl_busy = False\<rparr>"
  have "sample_running = pump ?d"
    by (simp add: sample_running_def retry_def ensure_running_def ensure_capacity_def sample_loaded_def
        MAX_ACTIVE_QUEUED_def next_id_def Let_def persist_locked_def sample_env_def remove_at_def)
  moreover have "?j\<lparr>job_status := Downloading\<rparr> = sample_retried"
    by (simp add: sample_retried_def sample_job_def)
  ultimately show ?thesis using pump_single [of ?d ?j] by simp
qed

lemma sample_running_reachable: "reachable (dl_start 5) (dl_step 5) (sample_running, sample_files)"
  unfolding sample_running_def
  by (rule reachable_step [OF sample_start]) (rule step_retry, simp add: sample_env_def)



theorem finished_is_final_witness: "hd (dl_jobs (shutdown sample_env sample_loaded)) = sample_job"
proof -
  have jobs: "dl_jobs (shutdown sample_env sample_loaded) \<noteq> [] \<and>
      job_id (hd (dl_jobs (shutdown sample_env sample_loaded))) = mint 3 0"
    by (simp add: shutdown_def persist_locked_def sample_env_def sample_loaded_def recover_interrupted_def
        trim_history_def interrupt_def MAX_HISTORY_def Let_def split: if_splits)
  have "dl_step 5 (sample_loaded, sample_files) (shutdown sample_env sample_loaded, sample_files)"
    by (rule step_shutdown)
  moreover have "sample_job \<in> set (dl_jobs sample_loaded)" by (simp add: sample_loaded_def)
  ultimately show ?thesis
    by (rule finished_is_final [OF sample_start r_into_rtranclp]) (simp_all add: jobs)
qed


end
