(* ===== verification/Download_Faults.thy ===== *)
theory Download_Faults
  imports Download_Guarantees
begin

text \<open>
  Requests of the download manager that fail, a batch against single requests, and three faults: a
  refused download that is in the history after a restart, a name that sanitising leaves as \<open>..\<close>, and
  titles that are taken for one another.
\<close>

section \<open>Refused requests\<close>

definition same_memory :: "downloads \<Rightarrow> downloads \<Rightarrow> bool" where
  "same_memory d d' \<longleftrightarrow> dl_jobs d' = dl_jobs d \<and> dl_settings d' = dl_settings d \<and>
     dl_running d' = dl_running d \<and> dl_stopping d' = dl_stopping d \<and> dl_busy d' = dl_busy d"

lemma same_memory_refl [simp]: "same_memory d d"
  by (simp add: same_memory_def)

lemma enqueue_locked_refused:
  assumes "enqueue_locked env src e d = (Inl err, d')"
  shows "same_memory d d'"
proof -
  obtain j d1 where n: "new_job env (dl_settings d) src e d = (j, d1)" by fastforce
  obtain pr d2 where p: "persist_locked env (d1\<lparr>dl_jobs := dl_jobs d1 @ [j]\<rparr>) = (pr, d2)" by fastforce
  show ?thesis
    using assms n p new_job_eq [OF n] persist_jobs [OF p]
    by (auto simp: enqueue_locked_def same_memory_def split: option.splits)
qed

lemma enqueue_refused:
  "fst (enqueue env v ti ar th d) = Inl err \<Longrightarrow> same_memory d (snd (enqueue env v ti ar th d))"
  using enqueue_locked_refused
  by (auto simp: enqueue_def Let_def split: sum.splits prod.splits if_splits)

lemma enqueue_collection_refused:
  assumes "d_ok start d" "start \<le> env_nanos env" "fst (enqueue_collection env es d) = Inl err"
  shows "same_memory d (snd (enqueue_collection env es d))"
proof -
  let ?st = "dl_settings d"
  let ?room = "MAX_ACTIVE_QUEUED - (length (dl_running d) + queued_count (dl_jobs d))"
  obtain b d1 where f: "foldl (\<lambda>bd e. batch_entry env ?st (folder_index_of env ?st) ?room e bd)
      (batch_new, d) es = (b, d1)" by fastforce
  show ?thesis
  proof (cases "dl_stopping d")
    case False
    have cap: "queued_count (dl_jobs d) + length (dl_running d) + ?room \<le> MAX_ACTIVE_QUEUED"
      using d_okD(2) [OF assms(1)] by (simp add: jobs_ok_def)
    have "batch_ok start d ?room (batch_new, d)"
      using assms(1) False by (simp add: batch_ok_def batch_new_def)
    from batch_fold_ok [OF this assms(2) cap, of ?st "folder_index_of env ?st" es]
    have b: "batch_ok start d ?room (b, d1)" unfolding f .
    then obtain new where new: "dl_jobs d1 = dl_jobs d @ new" "map job_id new = b_created b"
      by (auto simp: batch_ok_def)
    have "distinct (map job_id (dl_jobs d1))" using b by (simp add: batch_ok_def d_ok_def jobs_ok_def)
    then have "filter (\<lambda>j. job_id j \<notin> set (b_created b)) (dl_jobs d1) = dl_jobs d"
      unfolding new(1) new(2) [symmetric] by (auto simp: filter_empty_conv intro!: filter_True)
    moreover obtain r d2 where p: "persist_locked env d1 = (r, d2)" by fastforce
    moreover have "dl_busy d1 = dl_busy d"
      using batch_fold_busy [of env ?st "folder_index_of env ?st" ?room "(batch_new, d)" es] f by simp
    ultimately have m: "same_memory d (d2\<lparr>dl_jobs := filter (\<lambda>j. job_id j \<notin> set (b_created b)) (dl_jobs d2)\<rparr>)"
      using b persist_jobs [OF p] False by (simp add: same_memory_def batch_ok_def)
    show ?thesis
    proof (cases "es = [] \<or> MAX_ACTIVE_QUEUED < length es")
      case False
      with \<open>\<not> dl_stopping d\<close> assms(3) m show ?thesis
        by (cases "b_added b = 0"; cases r)
          (simp_all add: enqueue_collection_def Let_def ensure_running_def f p)
    qed (auto simp: enqueue_collection_def)
  qed (use assms(3) in \<open>auto simp: enqueue_collection_def Let_def ensure_running_def split: if_splits\<close>)
qed

lemma retry_refused:
  assumes "fst (retry env i d) = Inl err"
  shows "same_memory d (snd (retry env i d))"
proof (cases "position (\<lambda>j. job_id j = i) (dl_jobs d)")
  case (Some k)
  have k: "k < length (dl_jobs d)" using position_Some [OF Some] by simp
  let ?j = "(dl_jobs d ! k)\<lparr>job_id := mint (env_nanos env) (dl_seq d), job_status := Queued, job_progress := 0,
    job_error := None, job_file := None, job_created := env_now env, job_finished := None,
    job_settings := dl_settings d, job_warnings := []\<rparr>"
  obtain r d2 where p: "persist_locked env
    (d\<lparr>dl_seq := dl_seq d + 1, dl_jobs := remove_at k (dl_jobs d) @ [?j]\<rparr>) = (r, d2)" by fastforce
  show ?thesis
    using assms Some p persist_jobs [OF p] insert_remove_at [OF k]
    by (auto simp: retry_def next_id_def Let_def same_memory_def split: option.splits if_splits)
qed (use assms in \<open>auto simp: retry_def split: option.splits\<close>)

lemma clear_refused: "fst (clear_history env d) = Inl err \<Longrightarrow> same_memory d (snd (clear_history env d))"
proof -
  obtain r d' where p: "persist_locked env (d\<lparr>dl_jobs := filter active (dl_jobs d)\<rparr>) = (r, d')" by fastforce
  assume "fst (clear_history env d) = Inl err"
  with p persist_jobs [OF p] show ?thesis
    by (auto simp: clear_history_def same_memory_def split: option.splits)
qed

lemma set_settings_refused:
  "fst (set_settings env sanitized d) = Inl err \<Longrightarrow> same_memory d (snd (set_settings env sanitized d))"
proof (cases sanitized)
  case (Inr st)
  obtain r d' where p: "persist_locked env (d\<lparr>dl_settings := st\<rparr>) = (r, d')" by fastforce
  assume "fst (set_settings env sanitized d) = Inl err"
  with Inr p persist_jobs [OF p] show ?thesis
    by (auto simp: set_settings_def same_memory_def split: option.splits)
qed (simp add: set_settings_def)

text \<open>A refused request leaves the manager as it was: when adding one track, adding a collection,
  retrying, clearing the history or changing the settings answers with an error (a bad id, a full
  queue, a shutdown, a history file that could not be written), the job list, the settings and the
  worker slots are exactly the ones before.\<close>

theorem refused_requests_change_nothing:
  assumes "reachable (dl_start start) (dl_step start) (d, fs)" "start \<le> env_nanos env"
  shows "(isl (fst (enqueue env v ti ar th d)) \<longrightarrow> same_memory d (snd (enqueue env v ti ar th d))) \<and>
    (isl (fst (enqueue_collection env es d)) \<longrightarrow> same_memory d (snd (enqueue_collection env es d))) \<and>
    (isl (fst (retry env i d)) \<longrightarrow> same_memory d (snd (retry env i d))) \<and>
    (isl (fst (clear_history env d)) \<longrightarrow> same_memory d (snd (clear_history env d))) \<and>
    (isl (fst (set_settings env sanitized d)) \<longrightarrow> same_memory d (snd (set_settings env sanitized d)))"
  using enqueue_refused enqueue_collection_refused [OF reachable_ok [OF assms(1)] assms(2)] retry_refused
    clear_refused set_settings_refused
  by (metis isl_def)

theorem refused_requests_change_nothing_witness:
  "same_memory sample_running (snd (retry (sample_env\<lparr>env_persist := NotWritten []\<rparr>) (mint 5 0) sample_running))"
proof -
  let ?e = "sample_env\<lparr>env_persist := NotWritten []\<rparr>"
  have "isl (fst (retry ?e (mint 5 0) sample_running))"
  proof -
    have "job_status sample_retried = Downloading" "job_id sample_retried = mint 5 0"
      by (simp_all add: sample_retried_def)
    then show ?thesis
      by (simp add: retry_def sample_running_jobs Let_def split: option.split)
  qed
  moreover have "5 \<le> env_nanos ?e" by (simp add: sample_env_def)
  ultimately show ?thesis using refused_requests_change_nothing [OF sample_running_reachable, of ?e] by blast
qed

section \<open>A batch is the single requests\<close>

text \<open>The locked part of adding one entry on its own.\<close>

definition enqueue_one :: "env \<Rightarrow> collection_entry \<Rightarrow> downloads \<Rightarrow> downloads" where
  "enqueue_one env e d =
     (case classify (ce_video_id e) of
        Inl _ \<Rightarrow> d
      | Inr src \<Rightarrow> if too_large e \<or> trim (ce_title e) = [] then d else snd (enqueue_locked env src e d))"

text \<open>A job without its id, which depends on how many ids were drawn before.\<close>

definition anonymous :: "download_job \<Rightarrow> download_job" where
  "anonymous j = j\<lparr>job_id := []\<rparr>"

definition alike :: "downloads \<Rightarrow> downloads \<Rightarrow> bool" where
  "alike d d' \<longleftrightarrow> map anonymous (dl_jobs d) = map anonymous (dl_jobs d') \<and> dl_running d = dl_running d' \<and>
     dl_settings d = dl_settings d' \<and> \<not> dl_stopping d \<and> \<not> dl_stopping d'"

lemma covers_anonymous [simp]: "covers env v (anonymous j) = covers env v j"
  by (simp add: covers_def anonymous_def file_present_def)

lemma alike_covers:
  assumes "alike d d'"
  shows "list_ex (covers env v) (dl_jobs d) = list_ex (covers env v) (dl_jobs d')"
proof -
  have c: "list_ex (covers env v) (map anonymous js) = list_ex (covers env v) js" for js
    by (induction js) auto
  have "map anonymous (dl_jobs d) = map anonymous (dl_jobs d')" using assms by (simp add: alike_def)
  then show ?thesis using c [of "dl_jobs d"] c [of "dl_jobs d'"] by simp
qed

lemma alike_queued:
  assumes "alike d d'"
  shows "queued_count (dl_jobs d) = queued_count (dl_jobs d')"
proof -
  have c: "queued_count (map anonymous js) = queued_count js" for js
    by (induction js) (auto simp: anonymous_def)
  have "map anonymous (dl_jobs d) = map anonymous (dl_jobs d')" using assms by (simp add: alike_def)
  then show ?thesis using c [of "dl_jobs d"] c [of "dl_jobs d'"] by simp
qed

lemma find_None_list_ex: "find p (rev xs) = None \<longleftrightarrow> \<not> list_ex p xs"
  by (auto simp: find_None_iff list_ex_iff)

text \<open>Why adding an entry on its own adds nothing.\<close>

definition futile :: "env \<Rightarrow> collection_entry \<Rightarrow> downloads \<Rightarrow> bool" where
  "futile env e d \<longleftrightarrow> list_ex (covers env (ce_video_id e)) (dl_jobs d) \<or>
     MAX_ACTIVE_QUEUED \<le> queued_count (dl_jobs d) + length (dl_running d) \<or>
     index_find (env_unicode env) (folder_index_of env (dl_settings d)) (dl_settings d) e \<noteq> None"

lemma enqueue_locked_futile:
  assumes "env_persist env = Written" "\<not> dl_stopping d"
  shows "futile env e d \<Longrightarrow> dl_jobs (snd (enqueue_locked env src e d)) = dl_jobs d"
    and "\<not> futile env e d \<Longrightarrow> dl_jobs (snd (enqueue_locked env src e d)) =
      dl_jobs d @ [fst (new_job env (dl_settings d) src e d)]"
    and "dl_running (snd (enqueue_locked env src e d)) = dl_running d"
    and "dl_settings (snd (enqueue_locked env src e d)) = dl_settings d"
    and "dl_stopping (snd (enqueue_locked env src e d)) = dl_stopping d"
  using assms
  by (auto simp: futile_def enqueue_locked_def ensure_running_def ensure_capacity_def find_None_list_ex
      persist_locked_def new_job_def next_id_def Let_def split: option.split)


lemma alike_futile: "alike d d' \<Longrightarrow> futile env e d = futile env e d'"
  using alike_covers [of d d' env "ce_video_id e"] alike_queued [of d d'] unfolding futile_def
  by (simp add: alike_def)

text \<open>The batch's bookkeeping agrees with what adding its entries one by one would meet.\<close>

definition agree :: "env \<Rightarrow> collection_entry list \<Rightarrow> nat \<Rightarrow> batch \<times> downloads \<Rightarrow> downloads \<Rightarrow> bool" where
  "agree env es room bd d' \<longleftrightarrow> (let (b, d) = bd in
     alike d d' \<and> (room \<le> b_added b \<longleftrightarrow> MAX_ACTIVE_QUEUED \<le> queued_count (dl_jobs d) + length (dl_running d)) \<and>
     b_added b \<le> room \<and>
     (\<forall>e \<in> set es. ce_video_id e \<in> b_seen b \<longrightarrow> futile env e d'))"

lemma agree_step:
  assumes "agree env es room (b, d) d'" "env_persist env = Written" "e \<in> set es"
    and "\<And>x y. x \<in> set es \<Longrightarrow> y \<in> set es \<Longrightarrow> ce_video_id x = ce_video_id y \<Longrightarrow> x = y"
    and "st = dl_settings d" "ix = folder_index_of env st"
    and "queued_count (dl_jobs d) + length (dl_running d) + (room - b_added b) = MAX_ACTIVE_QUEUED"
  shows "agree env es room (batch_entry env st ix room e (b, d)) (enqueue_one env e d') \<and>
    (let (b1, d1) = batch_entry env st ix room e (b, d) in
     dl_settings d1 = dl_settings d \<and>
     queued_count (dl_jobs d1) + length (dl_running d1) + (room - b_added b1) = MAX_ACTIVE_QUEUED)"
proof -
  have a: "alike d d'" "room \<le> b_added b \<longleftrightarrow> MAX_ACTIVE_QUEUED \<le> queued_count (dl_jobs d) + length (dl_running d)"
    "b_added b \<le> room" "\<And>x. x \<in> set es \<Longrightarrow> ce_video_id x \<in> b_seen b \<Longrightarrow> futile env x d'"
    using assms(1) by (auto simp: agree_def)
  have run: "\<not> dl_stopping d'" "dl_settings d' = st" using a(1) assms(5) by (auto simp: alike_def)
  show ?thesis
  proof (cases "classify (ce_video_id e)")
    case (Inr src)
    note fut = enqueue_locked_futile [OF assms(2) run(1), where e = e and src = src]
    show ?thesis
    proof (cases "too_large e \<or> trim (ce_title e) = []")
      case False
      let ?b = "b\<lparr>b_seen := insert (ce_video_id e) (b_seen b)\<rparr>"
      show ?thesis
      proof (cases "futile env e d'")
        case True
        have same: "alike d (enqueue_one env e d')" "futile env x (enqueue_one env e d') = futile env x d'" for x
          using True fut a(1) Inr False by (auto simp: enqueue_one_def alike_def futile_def)
        have seen: "futile env x d'" if "x \<in> set es" "ce_video_id x \<in> insert (ce_video_id e) (b_seen b)" for x
          using that a(4) True assms(3,4) by auto
        have "\<not> (\<not> list_ex (covers env (ce_video_id e)) (dl_jobs d) \<and>
            index_find (env_unicode env) ix st e = None \<and> b_added b < room)"
          using True a(1,2) alike_futile [OF a(1), of env e] assms(5,6) by (auto simp: futile_def)
        then have "\<exists>b1. batch_entry env st ix room e (b, d) = (b1, d) \<and> b_added b1 = b_added b \<and>
            (b_seen b1 = b_seen b \<or> b_seen b1 = insert (ce_video_id e) (b_seen b))"
          using Inr False by (auto simp: batch_entry_def Let_def split: option.split)
        then obtain b1 where b1: "batch_entry env st ix room e (b, d) = (b1, d)" "b_added b1 = b_added b"
          "b_seen b1 \<subseteq> insert (ce_video_id e) (b_seen b)" by auto
        then have "agree env es room (b1, d) (enqueue_one env e d')"
          using a(2,3) same seen by (auto simp: agree_def)
        with b1 assms(7) show ?thesis by simp
      next
        case False2: False
        obtain j d1 where n: "new_job env st src e d = (j, d1)" by fastforce
        obtain j' d1' where n': "new_job env st src e d' = (j', d1')" by fastforce
        have anon: "anonymous j = anonymous j'"
          using n n' by (auto simp: new_job_def next_id_def Let_def anonymous_def)
        have one: "dl_jobs (enqueue_one env e d') = dl_jobs d' @ [j']"
          using fut(2) [OF False2] Inr False n' run(2) by (simp add: enqueue_one_def)
        have nf: "\<not> list_ex (covers env (ce_video_id e)) (dl_jobs d)"
          "index_find (env_unicode env) ix st e = None" "b_added b < room"
          using False2 a(2) alike_futile [OF a(1), of env e] assms(5,6) by (auto simp: futile_def)
        moreover have "ce_video_id e \<notin> b_seen b" using a(4) [OF assms(3)] False2 by blast
        ultimately have be: "batch_entry env st ix room e (b, d) =
            (?b\<lparr>b_created := b_created b @ [job_id j], b_added := b_added b + 1\<rparr>, d1\<lparr>dl_jobs := dl_jobs d1 @ [j]\<rparr>)"
          using Inr False n by (simp add: batch_entry_def Let_def)
        note nj = new_job_eq [OF n] and nj' = new_job_eq [OF n']
        have al: "alike (d1\<lparr>dl_jobs := dl_jobs d1 @ [j]\<rparr>) (enqueue_one env e d')"
          using a(1) one anon fut(3-5) nj Inr False by (auto simp: alike_def enqueue_one_def)
        have grow: "futile env x (enqueue_one env e d')" if "futile env x d'" for x
          using that one fut(3,4) Inr False by (auto simp: futile_def enqueue_one_def)
        have self: "futile env e (enqueue_one env e d')"
          using one nj' by (simp add: futile_def covers_def)
        have "futile env x (enqueue_one env e d')"
          if "x \<in> set es" "ce_video_id x \<in> insert (ce_video_id e) (b_seen b)" for x
          using that a(4) grow self assms(3,4) by auto
        with al be nj a(2,3) nf(3) assms(7) show ?thesis by (auto simp: agree_def)
      qed
    qed (use assms a Inr in \<open>auto simp: batch_entry_def enqueue_one_def agree_def\<close>)
  qed (use assms a in \<open>auto simp: batch_entry_def enqueue_one_def agree_def\<close>)
qed


lemma agree_fold:
  assumes "agree env es room (b, d) d'" "env_persist env = Written" "set xs \<subseteq> set es"
    and "\<And>x y. x \<in> set es \<Longrightarrow> y \<in> set es \<Longrightarrow> ce_video_id x = ce_video_id y \<Longrightarrow> x = y"
    and "st = dl_settings d" "ix = folder_index_of env st"
    and "queued_count (dl_jobs d) + length (dl_running d) + (room - b_added b) = MAX_ACTIVE_QUEUED"
  shows "agree env es room (foldl (\<lambda>bd e. batch_entry env st ix room e bd) (b, d) xs)
    (foldl (\<lambda>d e. enqueue_one env e d) d' xs)"
  using assms(1,3,5,7)
proof (induction xs arbitrary: b d d')
  case (Cons e xs)
  obtain b1 d1 where e: "batch_entry env st ix room e (b, d) = (b1, d1)" by fastforce
  have "e \<in> set es" using Cons.prems(2) by simp
  note step = agree_step [OF Cons.prems(1) assms(2) this assms(4) Cons.prems(3) assms(6) Cons.prems(4),
      unfolded e Let_def case_prod_conv]
  have st: "st = dl_settings d1" using step Cons.prems(3) by metis
  have "agree env es room (b1, d1) (enqueue_one env e d')" using step by blast
  moreover have "queued_count (dl_jobs d1) + length (dl_running d1) + (room - b_added b1) = MAX_ACTIVE_QUEUED"
    using step by blast
  moreover have "set xs \<subseteq> set es" using Cons.prems(2) by simp
  ultimately show ?case using Cons.IH [OF _ _ st] by (simp only: foldl_Cons e)
qed simp

lemma pump_disk [simp]: "dl_disk (pump d) = dl_disk d"
proof -
  have "dl_disk (pump_loop d) = dl_disk d"
  proof (induction d rule: pump_loop.induct)
    case (1 d)
    have "dl_disk (start_worker d) = dl_disk d" by (simp add: start_worker_def Let_def split: option.split)
    with 1 show ?case by (subst pump_loop.simps) simp
  qed
  then show ?thesis by (simp add: pump_def Let_def)
qed

lemma sample_download:
  "classify (lit ''ABCDEFGHIJK'') = Inr YouTubeSource" "trim (lit ''T'') = lit ''T''" "lit ''T'' \<noteq> []"
  "byte_len (lit ''T'') = 1" "byte_len (lit ''ABCDEFGHIJK'') = 11"
  by (simp_all add: classify_def is_local_song_def is_radio_id_def sc_track_id_def spotify_track_id_def rest_of_def
      number_of_def strip_prefix_def starts_with_def lit_Cons SONG_PREFIX_def RADIO_ID_PREFIX_def
      SC_TRACK_PREFIX_def SPOTIFY_TRACK_PREFIX_def is_youtube_id_def utf8_width_def is_ascii_alphanumeric_def
      trim_def trim_matches_def trim_end_matches_def trim_start_matches_def is_whitespace_def)

lemma first_some_None: "(\<And>x. f x = None) \<Longrightarrow> first_some f xs = None"
  by (simp add: first_some_def List.map_filter_def)

lemma index_find_empty: "index_find u (index_build u base []) st e = None"
  by (simp add: index_find_def index_build_def first_some_None Let_def)



section \<open>Faults\<close>

text \<open>A refused download can be on disk: the error of the directory sync comes after the rename, so
  \<open>enqueue\<close> takes the job back in memory and answers with an error while the history file already has
  it, queued; the next start loads it.\<close>

theorem refused_job_is_on_disk:
  assumes "env_persist env = WrittenUnsynced err" "classify v = Inr src" "trim ti \<noteq> []"
    and "byte_len ti \<le> 512" "byte_len ar \<le> 512" "byte_len th \<le> 4096" "byte_len v \<le> 80"
    and "ensure_running d = None" "ensure_capacity d = None" "\<not> list_ex (covers env v) (dl_jobs d)"
    and "env_listing env = (\<lambda>_. [])"
  shows "isl (fst (enqueue env v ti ar th d)) \<and> dl_jobs (snd (enqueue env v ti ar th d)) = dl_jobs d \<and>
    list_ex (\<lambda>j. job_video j = v \<and> job_status j = Queued) (snd (dl_disk (snd (enqueue env v ti ar th d))))"
proof -
  have "find (covers env v) (rev (dl_jobs d)) = None" using assms(10) by (simp add: find_None_list_ex)
  then show ?thesis
    using assms(1-9,11)
    by (auto simp: enqueue_def enqueue_locked_def too_large_def folder_index_of_def index_find_empty
        new_job_def next_id_def persist_locked_def Let_def)
qed

theorem refused_job_is_on_disk_witness:
  "dl_jobs (snd (enqueue (sample_env\<lparr>env_persist := WrittenUnsynced []\<rparr>) (lit ''ABCDEFGHIJK'') (lit ''T'') [] []
     sample_loaded)) = [sample_job]"
proof -
  have "\<not> list_ex (covers (sample_env\<lparr>env_persist := WrittenUnsynced []\<rparr>) (lit ''ABCDEFGHIJK'')) (dl_jobs sample_loaded)"
    by (simp add: covers_def sample_loaded_def)
  with sample_download show ?thesis
    using refused_job_is_on_disk [of "sample_env\<lparr>env_persist := WrittenUnsynced []\<rparr>" "[]" "lit ''ABCDEFGHIJK''"
        YouTubeSource "lit ''T''" "[]" "[]" sample_loaded]
    by (simp add: ensure_running_def ensure_capacity_def sample_loaded_def MAX_ACTIVE_QUEUED_def sample_env_def)
qed

text \<open>Sanitising can leave \<open>..\<close>: dots and spaces are stripped in turn, a fixed number of times, so a
  label like \<open>. . .. . .\<close> becomes the parent folder, and publishing a download of that collection
  always fails, whatever the downloader produced.\<close>

theorem dotted_label_cannot_be_published:
  assumes "find_output_file io fs staging = Inr produced" "extension (last produced) = Some ext" "47 \<notin> set ext"
    and "io_mkdir_error io = None" "io_root io = Inr (p @ [x])" "io_parent io = Inr p"
  shows "compute_final_path st ti ar v ext (Some (lit ''. . .. . .'')) =
      path_of (ds_path st) @ [lit ''..'', file_name st ti ar v @ 46 # ext] \<and>
    fst (publish io staging st ti ar v (Some (lit ''. . .. . .'')) sidecars (w, fs)) =
      Inl (lit ''The artist folder points outside your download folder.'')"
proof -
  let ?l = "lit ''. . .. . .''"
  have s: "sanitize_component ?l = lit ''..''" "trim ?l = ?l"
    by (simp_all add: sanitize_component_def Let_def lit_Cons is_control_def is_reserved_def is_whitespace_def
        trim_dots_def trim_def trim_matches_def trim_end_matches_def trim_start_matches_def truncate_chars_def
        MAX_COMPONENT_BYTES_def utf8_width_def)
  have "path_join q (lit ''..'') = q @ [lit ''..'']" for q
    by (rule path_join_component) (simp_all add: lit_Cons)
  then have "final_dir st ar (Some ?l) = path_of (ds_path st) @ [lit ''..'']"
    using s by (simp add: final_dir_def) (simp add: lit_Cons)
  then have "compute_final_path st ti ar v ext (Some ?l) =
      path_of (ds_path st) @ [lit ''..'', file_name st ti ar v @ 46 # ext]"
    using compute_final_path_eq [OF assms(3), of st ti ar v "Some ?l"] by simp
  moreover have "take (length (p @ [x])) p \<noteq> p @ [x]" by simp
  ultimately show ?thesis
    using assms(1,2,4-6) by (simp add: publish_def Let_def)
qed

theorem dotted_label_cannot_be_published_witness:
  "fst (publish (sample_io\<lparr>io_parent := Inr []\<rparr>) sample_staging sample_settings (lit ''T'') [] (lit ''v'')
     (Some (lit ''. . .. . .'')) [] ([], sample_files)) =
   Inl (lit ''The artist folder points outside your download folder.'')"
proof -
  have "find_output_file (sample_io\<lparr>io_parent := Inr []\<rparr>) sample_files sample_staging =
      Inr (sample_staging @ [lit ''audio.mp3''])"
    by (simp add: find_output_file_def sample_io_def sample_files_def sample_staging_def in_directory_def
        parent_of_def STAGING_DIR_def lit_Cons is_audio_output_def file_stem_def extension_def rsplit_once_def
        audio_extensions_def)
  moreover have "extension (last (sample_staging @ [lit ''audio.mp3''])) = Some (lit ''mp3'')"
    by (simp add: extension_def rsplit_once_def lit_Cons)
  ultimately show ?thesis
    using dotted_label_cannot_be_published [of "sample_io\<lparr>io_parent := Inr []\<rparr>" sample_files sample_staging
        "sample_staging @ [lit ''audio.mp3'']" "lit ''mp3''" "[]" "lit ''m''"]
    by (simp add: sample_io_def lit_Cons)
qed

text \<open>With folders by artist (the default) a file is recognised by its title alone: once a song is in
  the folder, any other artist's song of the same title counts as already downloaded, because the name
  that is normalised then has no artist in it.\<close>

theorem same_title_counts_as_downloaded:
  assumes "organize_by_artist st" "is_youtube_id v'" "is_youtube_id v" "46 \<notin> set ext"
    and "normalize_key u (sanitize_component ti) \<noteq> []" "\<not> starts_with STAGING_DIR folder"
    and "\<not> starts_with STAGING_DIR (suffixed (file_name st ti ar' v') 0 ext)"
  shows "index_find u (index_build u base [(folder, Directory [(suffixed (file_name st ti ar' v') 0 ext, RegularFile)])]) st
    \<lparr>ce_video_id = v, ce_title = ti, ce_artists = ar, ce_thumbnail = th, ce_collection = c, ce_collection_kind = k\<rparr> \<noteq> None"
proof -
  let ?n = "suffixed (file_name st ti ar' v') 0 ext"
  let ?ix = "index_build u base [(folder, Directory [(?n, RegularFile)])]"
  let ?key = "normalize_key u (sanitize_component ti)"
  have tag: "strip_id_tag (file_name st ti a w) = sanitize_component ti" if "is_youtube_id w" for a w
    using sanitize_youtube_id [OF that] assms(1) by (simp add: file_name_def base_name_def strip_id_tag_name)
  have "file_stem ?n = file_name st ti ar' v'"
    using assms(4) by (simp add: suffixed_def lit_Cons file_stem_dot)
  then have "hget (fi_keys ?ix) ?key \<noteq> None"
    using assms(6,7) tag [OF assms(2), of ar']
    by (simp add: index_build_def index_file_def Let_def INDEX_MAX_DEPTH_def INDEX_MAX_FILES_def)
  then show ?thesis
    using tag [OF assms(3), of ar] assms(5) by (auto simp: index_find_def Let_def split: option.split)
qed

theorem same_title_counts_as_downloaded_witness:
  "index_find (env_unicode sample_env) (index_build (env_unicode sample_env) [lit ''m'']
     [(lit ''Other'', Directory [(lit ''Intro [aaaaaaaaaaa].mp3'', RegularFile)])])
     (sample_settings\<lparr>organize_by_artist := True\<rparr>)
   \<lparr>ce_video_id = lit ''bbbbbbbbbbb'', ce_title = lit ''Intro'', ce_artists = lit ''Mine'', ce_thumbnail = [],
    ce_collection = None, ce_collection_kind = None\<rparr> \<noteq> None"
proof -
  let ?st = "sample_settings\<lparr>organize_by_artist := True\<rparr>"
  have yt: "is_youtube_id (lit ''aaaaaaaaaaa'')" "is_youtube_id (lit ''bbbbbbbbbbb'')"
    by (simp_all add: is_youtube_id_def lit_Cons utf8_width_def is_ascii_alphanumeric_def)
  have t: "sanitize_component (lit ''Intro'') = lit ''Intro''"
    by (rule sanitize_plain) (simp_all add: lit_Cons safe_char_def is_reserved_def is_control_def is_whitespace_def
        utf8_width_def MAX_COMPONENT_BYTES_def)
  have n: "suffixed (file_name ?st (lit ''Intro'') (lit ''Other'') (lit ''aaaaaaaaaaa'')) 0 (lit ''mp3'') =
      lit ''Intro [aaaaaaaaaaa].mp3''"
    using t sanitize_youtube_id [OF yt(1)]
    by (simp add: file_name_def base_name_def suffixed_def) (simp add: lit_Cons)
  have "normalize_key (env_unicode sample_env) (sanitize_component (lit ''Intro'')) \<noteq> []"
    by (simp add: t) (simp add: normalize_key_def sample_env_def sample_unicode_def lit_Cons is_ascii_alphanumeric_def
        to_ascii_lowercase_def)
  then show ?thesis
    using same_title_counts_as_downloaded [of ?st "lit ''aaaaaaaaaaa''" "lit ''bbbbbbbbbbb''" "lit ''mp3''"
        "env_unicode sample_env" "lit ''Intro''" "lit ''Other''" "lit ''Other''"] yt
    unfolding n by (simp add: lit_Cons starts_with_def STAGING_DIR_def)
qed

end
