(* ===== verification/Wire_Format.thy ===== *)
theory Wire_Format
  imports Prelude
begin

unbundle bit_operations_syntax

text \<open>
  The protobuf wire format (crates/spotify/src/pb.rs): the \<open>Writer\<close> that appends fields to a byte
  vector, the \<open>Reader\<close> that walks a byte slice, and UTF-8 as \<open>as_bytes\<close> and \<open>from_utf8\<close> do it.
  A byte slice fits the address space, so its length is below \<open>2^64\<close>.
\<close>

section \<open>UTF-8\<close>

definition byte :: "nat \<Rightarrow> u8" where
  "byte n = word_of_nat n"

definition utf8_char :: "uchar \<Rightarrow> u8 list" where
  "utf8_char c =
     (if c < 128 then [byte c]
      else if c < 2048 then [byte (192 + c div 64), byte (128 + c mod 64)]
      else if c < 65536 then
        [byte (224 + c div 4096), byte (128 + c div 64 mod 64), byte (128 + c mod 64)]
      else [byte (240 + c div 262144), byte (128 + c div 4096 mod 64), byte (128 + c div 64 mod 64),
            byte (128 + c mod 64)])"

definition utf8_encode :: "ustr \<Rightarrow> u8 list" where
  "utf8_encode s = concat (map utf8_char s)"

definition is_scalar :: "uchar \<Rightarrow> bool" where
  "is_scalar c = (c < 55296 \<or> (57344 \<le> c \<and> c < 1114112))"

definition continues :: "u8 \<Rightarrow> bool" where
  "continues b = (128 \<le> unat b \<and> unat b < 192)"

definition low6 :: "u8 \<Rightarrow> nat" where
  "low6 b = unat b - 128"

fun utf8_decode :: "u8 list \<Rightarrow> ustr option" where
  "utf8_decode [] = Some []"
| "utf8_decode (a # s) =
     (let n = unat a
      in if n < 128 then map_option (Cons n) (utf8_decode s)
         else if 194 \<le> n \<and> n < 224 then
           (case s of
              b # t \<Rightarrow>
                if continues b then map_option (Cons ((n - 192) * 64 + low6 b)) (utf8_decode t) else None
            | _ \<Rightarrow> None)
         else if 224 \<le> n \<and> n < 240 then
           (case s of
              b # c # t \<Rightarrow>
                let v = (n - 224) * 4096 + low6 b * 64 + low6 c
                in if continues b \<and> continues c \<and> 2048 \<le> v \<and> is_scalar v
                   then map_option (Cons v) (utf8_decode t) else None
            | _ \<Rightarrow> None)
         else if 240 \<le> n \<and> n < 245 then
           (case s of
              b # c # d # t \<Rightarrow>
                let v = (n - 240) * 262144 + low6 b * 4096 + low6 c * 64 + low6 d
                in if continues b \<and> continues c \<and> continues d \<and> 65536 \<le> v \<and> is_scalar v
                   then map_option (Cons v) (utf8_decode t) else None
            | _ \<Rightarrow> None)
         else None)"

declare utf8_decode.simps(2) [simp del]

section \<open>The writer\<close>

definition VARINT :: u64 where "VARINT = 0"
definition FIXED64 :: u64 where "FIXED64 = 1"
definition LENGTH_KIND :: u64 where "LENGTH_KIND = 2"
definition FIXED32 :: u64 where "FIXED32 = 5"

type_synonym u32 = "32 word"
type_synonym i32 = "32 word"

text \<open>\<open>Writer\<close> is the vector written so far; each method appends to it.\<close>

function put_varint :: "u64 \<Rightarrow> u8 list" where
  "put_varint v =
     (if 128 \<le> v then (ucast v OR 128) # put_varint (drop_bit 7 v) else [ucast v])"
  by auto
termination
proof (relation "measure unat")
  fix v :: u64
  assume "128 \<le> v"
  then have "0 < unat v" by (simp add: word_le_nat_alt)
  moreover have "unat (drop_bit 7 v) = unat v div 128"
    by (simp only: unat_drop_bit_eq) (simp add: drop_bit_eq_div)
  ultimately show "(drop_bit 7 v, v) \<in> measure unat" by simp
qed simp

declare put_varint.simps [simp del]

definition put_tag :: "u32 \<Rightarrow> u64 \<Rightarrow> u8 list" where
  "put_tag field kind = put_varint (push_bit 3 (ucast field) OR kind)"

definition put_message :: "u32 \<Rightarrow> u8 list \<Rightarrow> u8 list" where
  "put_message field v = put_tag field LENGTH_KIND @ put_varint (word_of_nat (length v)) @ v"

definition put_string :: "u32 \<Rightarrow> ustr \<Rightarrow> u8 list" where
  "put_string field v =
     (if v = [] then []
      else put_tag field LENGTH_KIND @ put_varint (word_of_nat (byte_len v)) @ utf8_encode v)"

definition put_int32 :: "u32 \<Rightarrow> i32 \<Rightarrow> u8 list" where
  "put_int32 field v =
     (if v = 0 then [] else put_tag field VARINT @ put_varint (scast v))"

definition put_bool :: "u32 \<Rightarrow> bool \<Rightarrow> u8 list" where
  "put_bool field v = (if v then put_tag field VARINT @ put_varint 1 else [])"

section \<open>The reader\<close>

datatype wire = Varint u64 | Bytes "u8 list" | Fixed u64

record reader =
  rd_bytes :: "u8 list"
  rd_at :: nat

definition reader_new :: "u8 list \<Rightarrow> reader" where
  "reader_new bs = \<lparr>rd_bytes = bs, rd_at = 0\<rparr>"

text \<open>The loop of \<open>varint\<close>: \<open>shift\<close> runs through 0, 7, ..., 63.\<close>

function get_varint_loop :: "nat \<Rightarrow> u64 \<Rightarrow> reader \<Rightarrow> ustr + u64 \<times> reader" where
  "get_varint_loop shift v r =
     (if 64 \<le> shift then Inl (lit ''varint is too long'')
      else if length (rd_bytes r) \<le> rd_at r then Inl (lit ''truncated varint'')
      else let b = rd_bytes r ! rd_at r;
               r' = r\<lparr>rd_at := rd_at r + 1\<rparr>;
               v' = v OR push_bit shift (ucast (b AND 127))
           in if b AND 128 = 0 then Inr (v', r') else get_varint_loop (shift + 7) v' r')"
  by auto
termination by (relation "measure (\<lambda>(shift, _). 64 - shift)") auto

declare get_varint_loop.simps [simp del]

definition get_varint :: "reader \<Rightarrow> ustr + u64 \<times> reader" where
  "get_varint r = get_varint_loop 0 0 r"

text \<open>\<open>checked_add\<close>, \<open>get\<close> of a range, and the new position: the part that \<open>slice\<close> and \<open>fixed\<close> share.\<close>

definition take_bytes :: "nat \<Rightarrow> reader \<Rightarrow> ustr + u8 list \<times> reader" where
  "take_bytes n r =
     (if 2 ^ 64 \<le> rd_at r + n then Inl (lit ''length overflows'')
      else if length (rd_bytes r) < rd_at r + n then Inl (lit ''truncated field'')
      else Inr (take n (drop (rd_at r) (rd_bytes r)), r\<lparr>rd_at := rd_at r + n\<rparr>))"

definition get_slice :: "reader \<Rightarrow> ustr + u8 list \<times> reader" where
  "get_slice r =
     (case get_varint r of Inl e \<Rightarrow> Inl e | Inr (len, r') \<Rightarrow> take_bytes (unat len) r')"

fun little_endian :: "nat \<Rightarrow> u8 list \<Rightarrow> u64 \<Rightarrow> u64" where
  "little_endian i [] v = v"
| "little_endian i (b # bs) v = little_endian (i + 1) bs (v OR push_bit (i * 8) (ucast b))"

definition get_fixed :: "nat \<Rightarrow> reader \<Rightarrow> ustr + u64 \<times> reader" where
  "get_fixed width r =
     (case take_bytes width r of Inl e \<Rightarrow> Inl e | Inr (bs, r') \<Rightarrow> Inr (little_endian 0 bs 0, r'))"

definition get_field :: "reader \<Rightarrow> ustr + ((u32 \<times> wire) \<times> reader) option" where
  "get_field r =
     (if length (rd_bytes r) \<le> rd_at r then Inr None
      else case get_varint r of
        Inl e \<Rightarrow> Inl e
      | Inr (key, r) \<Rightarrow>
          let field = ucast (drop_bit 3 key); kind = key AND 7
          in if kind = VARINT then
               (case get_varint r of Inl e \<Rightarrow> Inl e | Inr (v, r) \<Rightarrow> Inr (Some ((field, Varint v), r)))
             else if kind = LENGTH_KIND then
               (case get_slice r of Inl e \<Rightarrow> Inl e | Inr (bs, r) \<Rightarrow> Inr (Some ((field, Bytes bs), r)))
             else if kind = FIXED64 then
               (case get_fixed 8 r of Inl e \<Rightarrow> Inl e | Inr (v, r) \<Rightarrow> Inr (Some ((field, Fixed v), r)))
             else if kind = FIXED32 then
               (case get_fixed 4 r of Inl e \<Rightarrow> Inl e | Inr (v, r) \<Rightarrow> Inr (Some ((field, Fixed v), r)))
             else Inl (lit ''unsupported wire type '' @ dec (unat kind)))"

definition pb_text :: "u8 list \<Rightarrow> ustr + ustr" where
  "pb_text bs = (case utf8_decode bs of Some s \<Rightarrow> Inr s | None \<Rightarrow> Inl (lit ''field is not utf-8''))"

text \<open>A reader only moves forward and never behind the end of its slice.\<close>

definition advances :: "reader \<Rightarrow> reader \<Rightarrow> bool" where
  "advances r r' \<longleftrightarrow> rd_bytes r' = rd_bytes r \<and> rd_at r < rd_at r' \<and> rd_at r' \<le> length (rd_bytes r)"

lemma get_varint_loop_advances: "get_varint_loop shift v r = Inr (v', r') \<Longrightarrow> advances r r'"
proof (induction shift v r rule: get_varint_loop.induct)
  case (1 shift v r)
  from 1(2) show ?case
    using 1(1) by (subst (asm) get_varint_loop.simps)
      (fastforce simp: Let_def advances_def split: if_splits)
qed

lemma get_varint_advances: "get_varint r = Inr (v, r') \<Longrightarrow> advances r r'"
  unfolding get_varint_def by (rule get_varint_loop_advances)

lemma take_bytes_at:
  "take_bytes n r = Inr (bs, r') \<Longrightarrow>
    rd_bytes r' = rd_bytes r \<and> rd_at r' = rd_at r + n \<and> rd_at r' \<le> length (rd_bytes r)"
  by (auto simp: take_bytes_def split: if_splits)

lemma get_field_advances: "get_field r = Inr (Some (f, r')) \<Longrightarrow> advances r r'"
  by (auto simp: get_field_def get_slice_def get_fixed_def Let_def advances_def
      split: if_splits sum.splits prod.splits
      dest!: get_varint_advances take_bytes_at)

section \<open>What is written is read back\<close>

lemma unat_drop7: "unat (drop_bit 7 (w :: u64)) = unat w div 128"
  by (simp only: unat_drop_bit_eq) (simp add: drop_bit_eq_div)

lemma mask7: "(127 :: 'a :: len word) = mask 7"
  by (simp add: mask_eq_exp_minus_1)

lemma bit_128: "bit (128 :: 'a :: len word) n \<longleftrightarrow> n = 7 \<and> 7 < LENGTH('a)"
  using bit_exp_iff [of 7 n, where 'a = "'a word"] by (auto simp: possible_bit_word)

lemma bit_128_int: "bit (128 :: int) n \<longleftrightarrow> n = 7"
  using bit_exp_iff [of 7 n, where 'a = int] by auto

lemma low_bits:
  fixes w :: u64
  shows "ucast ((ucast w OR 128 :: u8) AND 127) = take_bit 7 w" "(ucast w OR 128 :: u8) AND 128 \<noteq> 0"
proof -
  show "ucast ((ucast w OR 128 :: u8) AND 127) = take_bit 7 w"
    unfolding mask7 by (rule bit_word_eqI) (auto simp: bit_simps bit_128 bit_128_int)
  have "bit ((ucast w OR 128 :: u8) AND 128) 7" by (simp add: bit_simps bit_128 bit_128_int)
  then show "(ucast w OR 128 :: u8) AND 128 \<noteq> 0" by (metis bit_0_eq bot_apply bot_bool_def)
qed

lemma small_byte:
  fixes w :: u64
  assumes "w < 128"
  shows "ucast ((ucast w :: u8) AND 127) = w" "(ucast w :: u8) AND 128 = 0"
proof -
  have "unat w < 128" using assms by (simp add: word_less_nat_alt)
  then have t: "take_bit 7 w = w"
    by (simp add: word_unat_eq_iff unsigned_take_bit_eq take_bit_nat_eq_self)
  then have b: "\<not> bit w n" if "7 \<le> n" for n using that by (metis bit_take_bit_iff not_le)
  show "ucast ((ucast w :: u8) AND 127) = w"
    unfolding mask7 by (rule bit_word_eqI) (use b in \<open>auto simp: bit_simps not_le [symmetric]\<close>)
  have "\<not> bit (ucast w :: u8) 7" using b [of 7] by (simp add: bit_unsigned_iff)
  then have "\<not> bit ((ucast w :: u8) AND 128) n" for n by (auto simp only: bit_and_iff bit_128)
  then show "(ucast w :: u8) AND 128 = 0" by (metis bit_0_eq bit_eqI bot_apply bot_bool_def)
qed

lemma split7: "push_bit s (take_bit 7 w) OR push_bit (s + 7) (drop_bit 7 w) = push_bit s (w :: u64)"
proof (rule bit_word_eqI)
  fix n :: nat
  assume "n < LENGTH(64)"
  then show "bit (push_bit s (take_bit 7 w) OR push_bit (s + 7) (drop_bit 7 w)) n = bit (push_bit s w) n"
    by (cases "s + 7 \<le> n") (auto simp: bit_simps)
qed

text \<open>The contract of an encoder and its decoder: whatever bytes follow, a value that was written is
  read back, and the reader stands behind it.\<close>

locale codec =
  fixes put :: "'a \<Rightarrow> u8 list"
    and get :: "reader \<Rightarrow> ustr + 'a \<times> reader"
    and fits :: "'a \<Rightarrow> bool"
  assumes get_put: "drop (rd_at r) (rd_bytes r) = put a @ post \<Longrightarrow> length (rd_bytes r) < 2 ^ 64 \<Longrightarrow> fits a \<Longrightarrow>
      get r = Inr (a, r\<lparr>rd_at := rd_at r + length (put a)\<rparr>)"
begin

lemma rest_after:
  "drop (rd_at r) (rd_bytes r) = put a @ post \<Longrightarrow>
    drop (rd_at r + length (put a)) (rd_bytes r) = post"
  by (metis add.commute append_eq_conv_conj drop_drop)

lemma get_whole:
  "length (put a) < 2 ^ 64 \<Longrightarrow> fits a \<Longrightarrow>
    get (reader_new (put a)) = Inr (a, \<lparr>rd_bytes = put a, rd_at = length (put a)\<rparr>)"
  using get_put [of "reader_new (put a)" a "[]"] by (simp add: reader_new_def)

end

lemma put_varint_ne [simp]: "put_varint w \<noteq> []"
  by (subst put_varint.simps) simp

lemma read_at:
  assumes "drop (rd_at r) (rd_bytes r) = b # bs"
  shows "rd_at r < length (rd_bytes r)" "rd_bytes r ! rd_at r = b" "drop (rd_at r + 1) (rd_bytes r) = bs"
  using assms by (metis drop_all list.distinct(1) not_le,
    metis assms drop_all hd_drop_conv_nth list.distinct(1) list.sel(1) not_le,
    metis assms add.commute drop_drop drop0 drop_Suc_Cons One_nat_def)

lemma get_varint_loop_put:
  assumes "drop (rd_at r) (rd_bytes r) = put_varint w @ post" "s < 64" "unat w < 2 ^ (64 - s)"
  shows "get_varint_loop s v r =
    Inr (v OR push_bit s w, r\<lparr>rd_at := rd_at r + length (put_varint w)\<rparr>)"
  using assms
proof (induction w arbitrary: s v r rule: put_varint.induct)
  case (1 w)
  show ?case
  proof (cases "128 \<le> w")
    case True
    have p: "put_varint w = (ucast w OR 128) # put_varint (drop_bit 7 w)"
      using True by (subst put_varint.simps) simp
    note r = read_at [OF 1(2) [unfolded p append_Cons]]
    have "128 < (2 :: nat) ^ (64 - s)" using True 1(4) by (simp add: word_le_nat_alt)
    then have "(2 :: nat) ^ 7 < 2 ^ (64 - s)" by simp
    then have s: "s + 7 < 64" using power_less_imp_less_exp [of "2 :: nat" 7 "64 - s"] by simp
    have "unat (drop_bit 7 w) < 2 ^ (64 - (s + 7))"
    proof -
      have "64 - s = (64 - (s + 7)) + 7" using s by simp
      then have "(2 :: nat) ^ (64 - s) = 2 ^ (64 - (s + 7)) * 2 ^ 7" by (metis power_add)
      with 1(4) show ?thesis by (simp add: unat_drop7 less_mult_imp_div_less)
    qed
    from 1(1) [OF True _ s this, of "r\<lparr>rd_at := rd_at r + 1\<rparr>" "v OR push_bit s (take_bit 7 w)"] r(3)
    have "get_varint_loop (s + 7) (v OR push_bit s (take_bit 7 w)) (r\<lparr>rd_at := rd_at r + 1\<rparr>) =
        Inr ((v OR push_bit s (take_bit 7 w)) OR push_bit (s + 7) (drop_bit 7 w),
          r\<lparr>rd_at := rd_at r + 1 + length (put_varint (drop_bit 7 w))\<rparr>)" by simp
    then show ?thesis
      using r(1,2) 1(3) low_bits [of w] p by (subst get_varint_loop.simps) (simp add: or.assoc split7)
  next
    case False
    have p: "put_varint w = [ucast w]" using False by (subst put_varint.simps) simp
    note r = read_at [OF 1(2) [unfolded p append_Cons]]
    show ?thesis
      using r(1,2) 1(3) small_byte [of w] p False by (subst get_varint_loop.simps) (simp add: not_le)
  qed
qed

interpretation varints: codec put_varint get_varint "\<lambda>_. True"
proof unfold_locales
  fix r :: reader and a post
  assume "drop (rd_at r) (rd_bytes r) = put_varint a @ post"
  from get_varint_loop_put [OF this, of 0 0] show "get_varint r = Inr (a, r\<lparr>rd_at := rd_at r + length (put_varint a)\<rparr>)"
    using unsigned_less [of a, where 'a = nat] by (simp add: get_varint_def)
qed

text \<open>A length-delimited value.\<close>

definition put_bytes :: "u8 list \<Rightarrow> u8 list" where
  "put_bytes bs = put_varint (word_of_nat (length bs)) @ bs"

interpretation slices: codec put_bytes get_slice "\<lambda>bs. length bs < 2 ^ 64"
proof unfold_locales
  fix r :: reader and a post
  assume r: "drop (rd_at r) (rd_bytes r) = put_bytes a @ post" "length (rd_bytes r) < 2 ^ 64" "length a < 2 ^ 64"
  let ?n = "put_varint (word_of_nat (length a))"
  have d: "drop (rd_at r) (rd_bytes r) = ?n @ a @ post" using r(1) by (simp add: put_bytes_def)
  have g: "get_varint r = Inr (word_of_nat (length a), r\<lparr>rd_at := rd_at r + length ?n\<rparr>)"
    by (rule varints.get_put [OF d r(2) TrueI])
  have rest: "drop (rd_at r + length ?n) (rd_bytes r) = a @ post" by (rule varints.rest_after [OF d])
  have l: "unat (word_of_nat (length a) :: u64) = length a" using r(3) by (simp add: unat_of_nat)
  have ne: "?n \<noteq> []" by simp
  have "length (drop (rd_at r) (rd_bytes r)) = length ?n + length a + length post" by (simp only: d) simp
  moreover have "0 < length ?n" using ne by blast
  ultimately have "rd_at r + length ?n + length a \<le> length (rd_bytes r)"
    by (simp only: length_drop)
  with g rest l r(2) show "get_slice r = Inr (a, r\<lparr>rd_at := rd_at r + length (put_bytes a)\<rparr>)"
    by (simp add: get_slice_def take_bytes_def put_bytes_def add.assoc)
qed

text \<open>A whole field, of the two kinds that the writer makes.\<close>

fun put_field :: "u32 \<times> wire \<Rightarrow> u8 list" where
  "put_field (f, Varint v) = put_tag f VARINT @ put_varint v"
| "put_field (f, Bytes bs) = put_message f bs"
| "put_field (f, Fixed v) = []"

fun field_fits :: "u32 \<times> wire \<Rightarrow> bool" where
  "field_fits (_, Varint _) = True"
| "field_fits (_, Bytes bs) = (length bs < 2 ^ 64)"
| "field_fits (_, Fixed _) = False"

definition next_field :: "reader \<Rightarrow> ustr + (u32 \<times> wire) \<times> reader" where
  "next_field r = (case get_field r of Inl e \<Rightarrow> Inl e | Inr None \<Rightarrow> Inl [] | Inr (Some x) \<Rightarrow> Inr x)"

lemma mask3: "(7 :: 'a :: len word) = mask 3"
  by (simp add: mask_eq_exp_minus_1)

lemma tag_parts:
  fixes f :: u32 and k :: u64
  assumes "k AND 7 = k"
  shows "(push_bit 3 (ucast f) OR k) AND 7 = k" "ucast (drop_bit 3 (push_bit 3 (ucast f) OR k)) = f"
proof -
  have k: "bit k n \<Longrightarrow> n < 3" for n using assms unfolding mask3 by (metis bit_and_iff bit_mask_iff)
  show "(push_bit 3 (ucast f) OR k) AND 7 = k"
    unfolding mask3 by (rule bit_word_eqI) (use k in \<open>auto simp: bit_simps\<close>)
  show "ucast (drop_bit 3 (push_bit 3 (ucast f) OR k)) = f"
    by (rule bit_word_eqI) (use k in \<open>fastforce simp: bit_simps\<close>)
qed

lemma kinds: "VARINT AND 7 = VARINT" "LENGTH_KIND AND 7 = LENGTH_KIND" "LENGTH_KIND \<noteq> VARINT"
  by (simp_all add: VARINT_def LENGTH_KIND_def)

interpretation fields: codec put_field next_field field_fits
proof unfold_locales
  fix r :: reader and a post
  assume r: "drop (rd_at r) (rd_bytes r) = put_field a @ post" "length (rd_bytes r) < 2 ^ 64" "field_fits a"
  obtain f w where a: "a = (f, w)" by fastforce
  have more: "\<not> length (rd_bytes r) \<le> rd_at r" if "put_field a @ post = put_varint v @ rest" for v rest
    using r(1) that by (metis append_is_Nil_conv drop_all put_varint_ne)
  show "next_field r = Inr (a, r\<lparr>rd_at := rd_at r + length (put_field a)\<rparr>)"
  proof (cases w)
    case (Varint v)
    have d: "drop (rd_at r) (rd_bytes r) =
        put_varint (push_bit 3 (ucast f) OR VARINT) @ put_varint v @ post"
      using r(1) a Varint by (simp add: put_tag_def)
    note g = varints.get_put [OF d r(2) TrueI]
    note g2 = varints.get_put [of "r\<lparr>rd_at := rd_at r + length (put_varint (push_bit 3 (ucast f) OR VARINT))\<rparr>" v post]
    show ?thesis
      using g g2 varints.rest_after [OF d] r(2) more [of _ "put_varint v @ post"] a Varint tag_parts [OF kinds(1), of f]
      by (simp add: next_field_def get_field_def put_tag_def add.assoc)
  next
    case (Bytes bs)
    have d: "drop (rd_at r) (rd_bytes r) =
        put_varint (push_bit 3 (ucast f) OR LENGTH_KIND) @ put_bytes bs @ post"
      using r(1) a Bytes by (simp add: put_tag_def put_message_def put_bytes_def)
    note g = varints.get_put [OF d r(2) TrueI]
    note g2 = slices.get_put [of "r\<lparr>rd_at := rd_at r + length (put_varint (push_bit 3 (ucast f) OR LENGTH_KIND))\<rparr>" bs post]
    have "put_field a @ post = put_varint (push_bit 3 (ucast f) OR LENGTH_KIND) @ put_bytes bs @ post"
      using a Bytes by (simp add: put_tag_def put_message_def put_bytes_def)
    from more [OF this] show ?thesis
      using g g2 varints.rest_after [OF d] r(2,3) a Bytes tag_parts [OF kinds(2), of f] kinds(3)
      by (simp add: next_field_def get_field_def put_tag_def put_message_def put_bytes_def add.assoc)
  qed (use r(3) a in simp)
qed

section \<open>Walking a message\<close>

text \<open>\<open>while let Some((field, value)) = reader.field()? { ... }\<close>, with the loop body as an argument.\<close>

function each_field :: "(u32 \<times> wire \<Rightarrow> 's \<Rightarrow> ustr + 's) \<Rightarrow> reader \<Rightarrow> 's \<Rightarrow> ustr + 's" where
  "each_field body r s =
     (case get_field r of
        Inl e \<Rightarrow> Inl e
      | Inr None \<Rightarrow> Inr s
      | Inr (Some (f, r')) \<Rightarrow> (case body f s of Inl e \<Rightarrow> Inl e | Inr s' \<Rightarrow> each_field body r' s'))"
  by auto
termination
  by (relation "measure (\<lambda>(_, r, _). length (rd_bytes r) - rd_at r)")
    (auto simp: advances_def dest!: get_field_advances)

declare each_field.simps [simp del]

fun run_fields :: "(u32 \<times> wire \<Rightarrow> 's \<Rightarrow> ustr + 's) \<Rightarrow> (u32 \<times> wire) list \<Rightarrow> 's \<Rightarrow> ustr + 's" where
  "run_fields body [] s = Inr s"
| "run_fields body (f # fs) s = (case body f s of Inl e \<Rightarrow> Inl e | Inr s' \<Rightarrow> run_fields body fs s')"

lemma next_field_get:
  "next_field r = Inr x \<Longrightarrow> get_field r = Inr (Some x)"
  by (auto simp: next_field_def split: sum.splits option.splits)

lemma each_field_put:
  assumes "drop (rd_at r) (rd_bytes r) = concat (map put_field fs)" "length (rd_bytes r) < 2 ^ 64"
    and "list_all field_fits fs"
  shows "each_field body r s = run_fields body fs s"
  using assms
proof (induction fs arbitrary: r s)
  case Nil
  then show ?case by (subst each_field.simps) (simp add: get_field_def)
next
  case (Cons f fs)
  have d: "drop (rd_at r) (rd_bytes r) = put_field f @ concat (map put_field fs)" using Cons.prems(1) by simp
  let ?r = "r\<lparr>rd_at := rd_at r + length (put_field f)\<rparr>"
  have "get_field r = Inr (Some (f, ?r))"
    by (rule next_field_get, rule fields.get_put [OF d]) (use Cons.prems in auto)
  moreover have "each_field body ?r s' = run_fields body fs s'" for s'
    using Cons.IH [of ?r s'] fields.rest_after [OF d] Cons.prems(2,3) by simp
  ultimately show ?case by (subst each_field.simps) (simp split: sum.split)
qed

lemma each_field_whole:
  "bs = concat (map put_field fs) \<Longrightarrow> length bs < 2 ^ 64 \<Longrightarrow> list_all field_fits fs \<Longrightarrow>
    each_field body (reader_new bs) s = run_fields body fs s"
  by (rule each_field_put) (simp_all add: reader_new_def)

section \<open>UTF-8, there and back\<close>

lemma unat_byte [simp]: "n < 256 \<Longrightarrow> unat (byte n) = n"
  by (simp add: byte_def unat_of_nat)

lemma utf8_decode_char:
  assumes "is_scalar c"
  shows "utf8_decode (utf8_char c @ s) = map_option (Cons c) (utf8_decode s)"
proof -
  consider "c < 128" | "128 \<le> c" "c < 2048" | "2048 \<le> c" "c < 65536" | "65536 \<le> c" by linarith
  then show ?thesis
  proof cases
    case 2
    then have "2 \<le> c div 64" "c div 64 < 32" by auto
    then show ?thesis using 2
      by (simp add: utf8_char_def utf8_decode.simps(2) continues_def low6_def Let_def)
  next
    case 3
    then have b: "c div 4096 < 16" by auto
    have "c div 64 = c div 4096 * 64 + c div 64 mod 64"
      using div_mult_mod_eq [of "c div 64" 64] by (simp add: div_mult2_eq [symmetric])
    then have "c div 4096 * 4096 + c div 64 mod 64 * 64 + c mod 64 = c"
      using div_mult_mod_eq [of c 64] by linarith
    then show ?thesis using 3 b assms
      by (simp add: utf8_char_def utf8_decode.simps(2) continues_def low6_def Let_def)
  next
    case 4
    have b: "c div 262144 < 5" using assms by (auto simp: is_scalar_def)
    have "c div 64 = c div 4096 * 64 + c div 64 mod 64" "c div 4096 = c div 262144 * 64 + c div 4096 mod 64"
      using div_mult_mod_eq [of "c div 64" 64] div_mult_mod_eq [of "c div 4096" 64]
      by (simp_all add: div_mult2_eq [symmetric])
    then have "c div 262144 * 262144 + c div 4096 mod 64 * 4096 + c div 64 mod 64 * 64 + c mod 64 = c"
      using div_mult_mod_eq [of c 64] by linarith
    then show ?thesis using 4 b assms
      by (simp add: utf8_char_def utf8_decode.simps(2) continues_def low6_def Let_def)
  qed (simp add: utf8_char_def utf8_decode.simps(2) Let_def)
qed

lemma utf8_decode_encode: "list_all is_scalar s \<Longrightarrow> utf8_decode (utf8_encode s) = Some s"
  by (induction s) (simp_all add: utf8_encode_def utf8_decode_char)

lemma length_utf8_encode: "list_all is_scalar s \<Longrightarrow> length (utf8_encode s) = byte_len s"
  by (induction s) (auto simp: utf8_encode_def utf8_char_def utf8_width_def is_scalar_def)

lemma utf8_encode_eq_Nil [simp]: "utf8_encode s = [] \<longleftrightarrow> s = []"
  by (cases s) (auto simp: utf8_encode_def utf8_char_def)

end
