(* ===== verification/Saved_Collection.thy ===== *)
theory Saved_Collection
  imports Wire_Format
begin

text \<open>
  The saved collection of a Spotify account (crates/spotify/src/collection2.rs): the requests, the
  reading of a page and of its items, the loop over the pages, the ordering and the update of one item.
  The server is a parameter: its answer to the n-th request, given the bytes of the request. An error of
  \<open>anyhow\<close> is its outermost message.
\<close>

definition COLLECTION :: ustr where "COLLECTION = lit ''collection''"
definition ARTISTS :: ustr where "ARTISTS = lit ''artist''"
definition PAGE :: i32 where "PAGE = 300"
definition REQUEST_USERNAME :: u32 where "REQUEST_USERNAME = 1"
definition REQUEST_SET :: u32 where "REQUEST_SET = 2"
definition REQUEST_TOKEN :: u32 where "REQUEST_TOKEN = 3"
definition REQUEST_LIMIT :: u32 where "REQUEST_LIMIT = 4"
definition RESPONSE_ITEMS :: u32 where "RESPONSE_ITEMS = 1"
definition RESPONSE_TOKEN :: u32 where "RESPONSE_TOKEN = 2"
definition ITEM_URI :: u32 where "ITEM_URI = 1"
definition ITEM_ADDED_AT :: u32 where "ITEM_ADDED_AT = 2"
definition ITEM_REMOVED :: u32 where "ITEM_REMOVED = 3"
definition WRITE_USERNAME :: u32 where "WRITE_USERNAME = 1"
definition WRITE_SET :: u32 where "WRITE_SET = 2"
definition WRITE_ITEMS :: u32 where "WRITE_ITEMS = 3"
definition WRITE_UPDATE_ID :: u32 where "WRITE_UPDATE_ID = 4"

lemmas field_numbers = RESPONSE_ITEMS_def RESPONSE_TOKEN_def ITEM_URI_def ITEM_ADDED_AT_def ITEM_REMOVED_def

record saved_item =
  si_uri :: ustr
  si_added_at :: "i64 option"

record saved_page =
  pg_items :: "saved_item list"
  pg_next :: ustr

section \<open>Reading a page\<close>

fun kept_field :: "u32 \<times> wire \<Rightarrow> ustr option \<times> i64 option \<times> bool
    \<Rightarrow> ustr + ustr option \<times> i64 option \<times> bool" where
  "kept_field (f, w) (uri, added_at, removed) =
     (if f = ITEM_URI then
        (case w of
           Bytes raw \<Rightarrow> (case pb_text raw of Inl e \<Rightarrow> Inl e | Inr t \<Rightarrow> Inr (Some t, added_at, removed))
         | _ \<Rightarrow> Inr (uri, added_at, removed))
      else if f = ITEM_ADDED_AT then
        (case w of
           Varint raw \<Rightarrow> Inr (uri, Some raw, removed)
         | Fixed raw \<Rightarrow> Inr (uri, Some raw, removed)
         | Bytes _ \<Rightarrow> Inr (uri, added_at, removed))
      else if f = ITEM_REMOVED then
        (case w of
           Varint flag \<Rightarrow> Inr (uri, added_at, flag \<noteq> 0)
         | _ \<Rightarrow> Inr (uri, added_at, removed))
      else Inr (uri, added_at, removed))"

definition kept :: "u8 list \<Rightarrow> ustr + saved_item option" where
  "kept bs =
     (case each_field kept_field (reader_new bs) (None, None, False) of
        Inl e \<Rightarrow> Inl e
      | Inr (uri, added_at, removed) \<Rightarrow>
          Inr (case uri of
                 Some u \<Rightarrow> if removed then None else Some \<lparr>si_uri = u, si_added_at = added_at\<rparr>
               | None \<Rightarrow> None))"

fun response_field :: "u32 \<times> wire \<Rightarrow> saved_page \<Rightarrow> ustr + saved_page" where
  "response_field (f, w) page =
     (if f = RESPONSE_ITEMS then
        (case w of
           Bytes item \<Rightarrow>
             (case kept item of
                Inl e \<Rightarrow> Inl e
              | Inr None \<Rightarrow> Inr page
              | Inr (Some i) \<Rightarrow> Inr (page\<lparr>pg_items := pg_items page @ [i]\<rparr>))
         | _ \<Rightarrow> Inr page)
      else if f = RESPONSE_TOKEN then
        (case w of
           Bytes token \<Rightarrow> (case pb_text token of Inl e \<Rightarrow> Inl e | Inr t \<Rightarrow> Inr (page\<lparr>pg_next := t\<rparr>))
         | _ \<Rightarrow> Inr page)
      else Inr page)"

definition response :: "u8 list \<Rightarrow> ustr + saved_page" where
  "response bs = each_field response_field (reader_new bs) \<lparr>pg_items = [], pg_next = []\<rparr>"

section \<open>Requests\<close>

definition request :: "ustr \<Rightarrow> ustr \<Rightarrow> ustr \<Rightarrow> u8 list" where
  "request username coll token =
     put_string REQUEST_USERNAME username @ put_string REQUEST_SET coll @
     put_string REQUEST_TOKEN token @ put_int32 REQUEST_LIMIT PAGE"

text \<open>One item of an update, and the whole update; \<open>secs\<close>, \<open>nanos\<close> are the clock, \<open>pid\<close> the process
  and \<open>sequence\<close> the counter \<open>UPDATE\<close>.\<close>

definition write_item :: "ustr \<Rightarrow> i32 \<Rightarrow> bool \<Rightarrow> u8 list" where
  "write_item uri added_at removed =
     put_string ITEM_URI uri @ put_int32 ITEM_ADDED_AT added_at @ put_bool ITEM_REMOVED removed"

definition item_time :: "nat \<Rightarrow> bool \<Rightarrow> ustr + i32" where
  "item_time secs saved =
     (if \<not> saved then Inr 0
      else if secs < 2 ^ 31 then Inr (word_of_nat secs)
      else Inl (lit ''current time exceeds the collection timestamp range''))"

definition update_id :: "nat \<Rightarrow> nat \<Rightarrow> nat \<Rightarrow> nat \<Rightarrow> ustr" where
  "update_id secs nanos pid sequence =
     lit ''sonora-'' @ dec secs @ lit ''-'' @ dec nanos @ lit ''-'' @ dec pid @ lit ''-'' @ dec sequence"

definition write_body :: "ustr \<Rightarrow> ustr \<Rightarrow> ustr \<Rightarrow> bool \<Rightarrow> nat \<Rightarrow> nat \<Rightarrow> nat \<Rightarrow> nat \<Rightarrow> ustr + u8 list" where
  "write_body username coll uri saved secs nanos pid sequence =
     (case item_time secs saved of
        Inl e \<Rightarrow> Inl e
      | Inr added_at \<Rightarrow>
          Inr (put_string WRITE_USERNAME username @ put_string WRITE_SET coll @
            put_message WRITE_ITEMS (write_item uri added_at (\<not> saved)) @
            put_string WRITE_UPDATE_ID (update_id secs nanos pid sequence)))"

text \<open>\<open>set_track_saved\<close>, \<open>set_album_saved\<close> and \<open>set_artist_saved\<close>: the set and the uri they name.\<close>

definition track_target :: "ustr \<Rightarrow> ustr \<times> ustr" where
  "track_target i = (COLLECTION, lit ''spotify:track:'' @ i)"

definition album_target :: "ustr \<Rightarrow> ustr \<times> ustr" where
  "album_target i = (COLLECTION, lit ''spotify:album:'' @ i)"

definition artist_target :: "ustr \<Rightarrow> ustr \<times> ustr" where
  "artist_target i = (ARTISTS, lit ''spotify:artist:'' @ i)"

section \<open>All pages\<close>

text \<open>\<open>Option<i64>\<close> is ordered with \<open>None\<close> first; the sort is stable and puts the greatest first.\<close>

definition newest_key :: "saved_item \<Rightarrow> int" where
  "newest_key i = (case si_added_at i of None \<Rightarrow> 2 ^ 63 + 1 | Some t \<Rightarrow> - sint t)"

definition newest_first :: "nat \<Rightarrow> saved_item list \<Rightarrow> saved_item list" where
  "newest_first limit found = take limit (sort_key newest_key found)"

partial_function (option) read_pages ::
  "(nat \<Rightarrow> u8 list \<Rightarrow> ustr + u8 list) \<Rightarrow> ustr \<Rightarrow> ustr \<Rightarrow> ustr \<Rightarrow> nat \<Rightarrow> ustr \<Rightarrow> saved_item list
    \<Rightarrow> (ustr + saved_item list) option" where
  "read_pages server username coll prefix n token found =
     (case server n (request username coll token) of
        Inl e \<Rightarrow> Some (Inl (lit ''cannot read the saved collection''))
      | Inr raw \<Rightarrow>
          (case response raw of
             Inl e \<Rightarrow> Some (Inl (lit ''cannot decode the collection page''))
           | Inr page \<Rightarrow>
               let found' = found @ filter (\<lambda>i. starts_with prefix (si_uri i)) (pg_items page)
               in if pg_next page = [] then Some (Inr found')
                  else read_pages server username coll prefix (n + 1) (pg_next page) found'))"

definition saved_items :: "(nat \<Rightarrow> u8 list \<Rightarrow> ustr + u8 list) \<Rightarrow> ustr \<Rightarrow> ustr \<Rightarrow> ustr \<Rightarrow> nat
    \<Rightarrow> (ustr + saved_item list) option" where
  "saved_items server username coll prefix limit =
     (case read_pages server username coll prefix 0 [] [] of
        None \<Rightarrow> None
      | Some (Inl e) \<Rightarrow> Some (Inl e)
      | Some (Inr found) \<Rightarrow> Some (Inr (newest_first limit found)))"

section \<open>What is written is read\<close>

text \<open>The fields that the writer's methods append.\<close>

definition text_fields :: "u32 \<Rightarrow> ustr \<Rightarrow> (u32 \<times> wire) list" where
  "text_fields f s = (if s = [] then [] else [(f, Bytes (utf8_encode s))])"

definition int32_fields :: "u32 \<Rightarrow> i32 \<Rightarrow> (u32 \<times> wire) list" where
  "int32_fields f n = (if n = 0 then [] else [(f, Varint (scast n))])"

definition bool_fields :: "u32 \<Rightarrow> bool \<Rightarrow> (u32 \<times> wire) list" where
  "bool_fields f b = (if b then [(f, Varint 1)] else [])"

lemma put_string_fields:
  "list_all is_scalar s \<Longrightarrow> put_string f s = concat (map put_field (text_fields f s))"
  by (simp add: put_string_def text_fields_def put_message_def length_utf8_encode)

lemma put_int32_fields: "put_int32 f n = concat (map put_field (int32_fields f n))"
  by (simp add: put_int32_def int32_fields_def)

lemma put_bool_fields: "put_bool f b = concat (map put_field (bool_fields f b))"
  by (simp add: put_bool_def bool_fields_def)

lemma run_fields_append:
  "run_fields body (fs @ gs) s =
    (case run_fields body fs s of Inl e \<Rightarrow> Inl e | Inr s' \<Rightarrow> run_fields body gs s')"
  by (induction fs arbitrary: s) (auto split: sum.split)

lemma length_field_le: "f \<in> set fs \<Longrightarrow> length (put_field f) \<le> length (concat (map put_field fs))"
  by (induction fs) auto

lemma written_fits:
  "length (concat (map put_field fs)) < 2 ^ 64 \<Longrightarrow> \<forall>f \<in> set fs. \<forall>v. snd f \<noteq> Fixed v \<Longrightarrow> list_all field_fits fs"
proof (unfold list_all_iff, rule ballI)
  fix x assume a: "length (concat (map put_field fs)) < 2 ^ 64" "\<forall>f \<in> set fs. \<forall>v. snd f \<noteq> Fixed v" "x \<in> set fs"
  obtain f w where x: "x = (f, w)" by fastforce
  have "length (put_field x) < 2 ^ 64" using length_field_le [OF a(3)] a(1) by linarith
  with a(2,3) x show "field_fits x" by (cases w) (auto simp: put_message_def)
qed

text \<open>Reading what consists of written fields.\<close>

lemma read_written:
  assumes "length (concat (map put_field fs)) < 2 ^ 64" "\<forall>f \<in> set fs. \<forall>v. snd f \<noteq> Fixed v"
  shows "each_field body (reader_new (concat (map put_field fs))) s = run_fields body fs s"
  by (rule each_field_whole [OF refl assms(1) written_fits [OF assms]])

definition item_read :: "ustr \<times> i32 \<times> bool \<Rightarrow> saved_item option" where
  "item_read it =
     (let (uri, t, removed) = it
      in if removed \<or> uri = [] then None
         else Some \<lparr>si_uri = uri, si_added_at = (if t = 0 then None else Some (scast t))\<rparr>)"

lemma kept_written:
  assumes "list_all is_scalar uri" "length (write_item uri t removed) < 2 ^ 64"
  shows "kept (write_item uri t removed) = Inr (item_read (uri, t, removed))"
proof -
  let ?fs = "text_fields ITEM_URI uri @ int32_fields ITEM_ADDED_AT t @ bool_fields ITEM_REMOVED removed"
  have w: "write_item uri t removed = concat (map put_field ?fs)"
    using assms(1) by (simp add: write_item_def put_string_fields put_int32_fields put_bool_fields)
  have "each_field kept_field (reader_new (write_item uri t removed)) (None, None, False) =
      run_fields kept_field ?fs (None, None, False)"
    unfolding w by (rule read_written)
      (use assms(2) w in \<open>auto simp: text_fields_def int32_fields_def bool_fields_def\<close>)
  moreover have "pb_text (utf8_encode uri) = Inr uri"
    using assms(1) by (simp add: pb_text_def utf8_decode_encode)
  ultimately show ?thesis
    by (auto simp: kept_def item_read_def text_fields_def int32_fields_def bool_fields_def field_numbers)
qed

text \<open>The message of a page, with the writer's methods.\<close>

definition page_bytes :: "(ustr \<times> i32 \<times> bool) list \<Rightarrow> ustr \<Rightarrow> u8 list" where
  "page_bytes its token =
     concat (map (\<lambda>(uri, t, removed). put_message RESPONSE_ITEMS (write_item uri t removed)) its) @
     put_string RESPONSE_TOKEN token"

lemma run_items:
  assumes "list_all (\<lambda>(uri, _, _). list_all is_scalar uri) its"
    and "list_all (\<lambda>(uri, t, removed). length (write_item uri t removed) < 2 ^ 64) its"
  shows "run_fields response_field (map (\<lambda>(uri, t, removed). (RESPONSE_ITEMS, Bytes (write_item uri t removed))) its) page =
    Inr (page\<lparr>pg_items := pg_items page @ List.map_filter item_read its\<rparr>)"
  using assms
  by (induction its arbitrary: page)
    (auto simp: kept_written map_filter_simps split: option.split)

lemma response_written:
  assumes "list_all (\<lambda>(uri, _, _). list_all is_scalar uri) its" "list_all is_scalar token"
    and "length (page_bytes its token) < 2 ^ 64"
  shows "response (page_bytes its token) = Inr \<lparr>pg_items = List.map_filter item_read its, pg_next = token\<rparr>"
proof -
  let ?item = "\<lambda>(uri, t, removed). (RESPONSE_ITEMS, Bytes (write_item uri t removed))"
  let ?fs = "map ?item its @ text_fields RESPONSE_TOKEN token"
  have b: "page_bytes its token = concat (map put_field ?fs)"
    using assms(2) by (simp add: page_bytes_def put_string_fields comp_def case_prod_unfold)
  have "length (write_item uri t removed) < 2 ^ 64" if "(uri, t, removed) \<in> set its" for uri t removed
  proof -
    have "(RESPONSE_ITEMS, Bytes (write_item uri t removed)) \<in> set ?fs" using that by force
    from length_field_le [OF this] assms(3) show ?thesis by (simp only: b) (simp add: put_message_def)
  qed
  then have "list_all (\<lambda>(uri, t, removed). length (write_item uri t removed) < 2 ^ 64) its"
    by (auto simp: list_all_iff)
  note items = run_items [OF assms(1) this]
  have "response (page_bytes its token) = run_fields response_field ?fs \<lparr>pg_items = [], pg_next = []\<rparr>"
    unfolding response_def b
    by (rule read_written) (use assms(3) b in \<open>auto simp: text_fields_def split: if_splits\<close>)
  moreover have "pb_text (utf8_encode token) = Inr token"
    using assms(2) by (simp add: pb_text_def utf8_decode_encode)
  ultimately show ?thesis
    unfolding run_fields_append items by (simp add: text_fields_def field_numbers)
qed

lemma short_varint: "w < 128 \<Longrightarrow> put_varint w = [ucast w]"
  by (subst put_varint.simps) (simp add: not_le)

lemmas written_length = page_bytes_def put_message_def put_string_def put_int32_def put_bool_def write_item_def
  put_tag_def field_numbers LENGTH_KIND_def VARINT_def lit_Cons utf8_encode_def utf8_char_def utf8_width_def short_varint

text \<open>A page that a server writes is read back: the items that are not removed, in their order, each with
  its date when it has one, and the token of the next page.\<close>

theorem response_reads_page:
  assumes "list_all (\<lambda>(uri, _, _). list_all is_scalar uri) its" "list_all is_scalar token"
    and "length (page_bytes its token) < 2 ^ 64"
  shows "response (page_bytes its token) = Inr \<lparr>pg_items = List.map_filter item_read its, pg_next = token\<rparr>"
  by (rule response_written [OF assms])

theorem response_reads_page_witness:
  "response (page_bytes [(lit ''spotify:track:a'', 9, False), (lit ''spotify:track:b'', 0, True)] (lit ''t'')) =
    Inr \<lparr>pg_items = [\<lparr>si_uri = lit ''spotify:track:a'', si_added_at = Some 9\<rparr>], pg_next = lit ''t''\<rparr>"
proof -
  let ?its = "[(lit ''spotify:track:a'', 9 :: i32, False), (lit ''spotify:track:b'', 0, True)]"
  have "length (page_bytes ?its (lit ''t'')) < 2 ^ 64"
    by (simp add: written_length)
  then have "response (page_bytes ?its (lit ''t'')) =
      Inr \<lparr>pg_items = List.map_filter item_read ?its, pg_next = lit ''t''\<rparr>"
    by (intro response_reads_page) (simp_all add: lit_Cons is_scalar_def)
  then show ?thesis by (simp add: map_filter_simps item_read_def lit_Cons)
qed

text \<open>An update of one item carries that item: what the client writes, its own reader would keep.\<close>

lemma update_keeps_item:
  assumes "write_body username coll uri saved secs nanos pid sequence = Inr body"
  shows "\<exists>t. item_time secs saved = Inr t \<and> (saved \<longrightarrow> sint t = int secs \<and> secs < 2 ^ 31)"
proof -
  obtain t where t: "item_time secs saved = Inr t" using assms by (auto simp: write_body_def split: sum.splits)
  moreover have "sint (word_of_nat secs :: i32) = int secs" if "secs < 2 ^ 31"
    using that by (simp add: signed_of_nat signed_take_bit_int_eq_self)
  ultimately show ?thesis by (auto simp: item_time_def split: if_splits)
qed

section \<open>The order of the result\<close>

text \<open>The comparison of the source: \<open>None\<close> is less than every date.\<close>

fun dated_before :: "i64 option \<Rightarrow> i64 option \<Rightarrow> bool" where
  "dated_before None (Some _) = True"
| "dated_before (Some a) (Some b) = (sint a < sint b)"
| "dated_before _ None = False"

lemma newest_key_less: "newest_key a < newest_key b \<longleftrightarrow> dated_before (si_added_at b) (si_added_at a)"
proof -
  have "- sint t < 2 ^ 63 + 1" for t :: i64 using sint_greater_eq [of t] by simp
  moreover have "\<not> 2 ^ 63 + 1 < - sint t" for t :: i64 using sint_greater_eq [of t] by simp
  ultimately show ?thesis
    by (cases "si_added_at a"; cases "si_added_at b") (auto simp: newest_key_def)
qed

lemma newest_key_eq: "newest_key a = newest_key b \<longleftrightarrow> si_added_at a = si_added_at b"
proof -
  have "- sint t \<noteq> 2 ^ 63 + 1" "2 ^ 63 + 1 \<noteq> - sint t" for t :: i64 using sint_greater_eq [of t] by simp_all
  then show ?thesis
    by (cases "si_added_at a"; cases "si_added_at b") (auto simp: newest_key_def word_eq_iff_signed [symmetric])
qed

text \<open>How the server answers when it serves the pages \<open>ps\<close>: the n-th request, made with the n-th token, is
  answered by something that decodes to the n-th page and the next token; the last token is empty.\<close>

definition serves :: "(nat \<Rightarrow> u8 list \<Rightarrow> ustr + u8 list) \<Rightarrow> ustr \<Rightarrow> ustr \<Rightarrow> (nat \<Rightarrow> ustr)
    \<Rightarrow> saved_item list list \<Rightarrow> bool" where
  "serves server username coll token ps \<longleftrightarrow> ps \<noteq> [] \<and> token 0 = [] \<and> token (length ps) = [] \<and>
     list_all (\<lambda>n. (n = 0 \<or> token n \<noteq> []) \<and>
       (\<exists>raw. server n (request username coll (token n)) = Inr raw \<and>
         response raw = Inr \<lparr>pg_items = ps ! n, pg_next = token (n + 1)\<rparr>)) [0..<length ps]"

lemma pageE:
  assumes "serves server username coll token ps" "n < length ps"
  obtains raw where "server n (request username coll (token n)) = Inr raw"
    "response raw = Inr \<lparr>pg_items = ps ! n, pg_next = token (n + 1)\<rparr>"
proof -
  have "n \<in> set [0..<length ps]" using assms(2) by simp
  with assms(1) that show ?thesis unfolding serves_def list_all_iff by blast
qed

lemma token_ne: "serves server username coll token ps \<Longrightarrow> n < length ps \<Longrightarrow> n \<noteq> 0 \<Longrightarrow> token n \<noteq> []"
  by (auto simp: serves_def list_all_iff dest!: bspec [of _ _ n])

lemma read_pages_from:
  assumes "serves server username coll token ps" "n < length ps"
  shows "read_pages server username coll prefix n (token n) found =
    Some (Inr (found @ filter (\<lambda>i. starts_with prefix (si_uri i)) (concat (drop n ps))))"
  using assms(2)
proof (induction "length ps - n" arbitrary: n found)
  case (Suc k)
  obtain raw where raw: "server n (request username coll (token n)) = Inr raw"
    "response raw = Inr \<lparr>pg_items = ps ! n, pg_next = token (n + 1)\<rparr>"
    using pageE [OF assms(1) Suc.prems] by blast
  have d: "concat (drop n ps) = ps ! n @ concat (drop (n + 1) ps)"
    using Suc.prems by (simp add: Cons_nth_drop_Suc [symmetric])
  show ?case
  proof (cases "n + 1 = length ps")
    case True
    then have "token (n + 1) = []" using assms(1) by (simp add: serves_def)
    with raw d True show ?thesis by (subst read_pages.simps) simp
  next
    case False
    then have more: "n + 1 < length ps" using Suc.prems by simp
    then have "token (n + 1) \<noteq> []" using token_ne [OF assms(1)] by simp
    moreover have "k = length ps - (n + 1)" using Suc.hyps(2) by simp
    note Suc.hyps(1) [OF this more]
    ultimately show ?thesis using raw by (subst read_pages.simps) (simp add: d)
  qed
qed simp

text \<open>C24: Reading the collection returns, and returns everything: however the server cuts the collection into
  pages, the result is the first \<open>limit\<close> of all kept items with the wanted prefix, the newest first, undated ones
  last, items of one date in the server's order.\<close>

theorem saved_items_reads_all_pages:
  assumes "serves server username coll token ps"
  shows "\<exists>found. saved_items server username coll prefix limit = Some (Inr (take limit found)) \<and>
    mset found = mset (filter (\<lambda>i. starts_with prefix (si_uri i)) (concat ps)) \<and>
    sorted_wrt (\<lambda>a b. \<not> dated_before (si_added_at a) (si_added_at b)) found \<and>
    (\<forall>d. filter (\<lambda>i. si_added_at i = d) found =
       filter (\<lambda>i. si_added_at i = d) (filter (\<lambda>i. starts_with prefix (si_uri i)) (concat ps)))"
proof -
  let ?all = "filter (\<lambda>i. starts_with prefix (si_uri i)) (concat ps)"
  let ?found = "sort_key newest_key ?all"
  have "token 0 = []" "0 < length ps" using assms by (auto simp: serves_def)
  with read_pages_from [OF assms, of 0 prefix "[]"]
  have "saved_items server username coll prefix limit = Some (Inr (take limit ?found))"
    by (simp add: saved_items_def newest_first_def)
  moreover have "sorted_wrt (\<lambda>a b. \<not> dated_before (si_added_at a) (si_added_at b)) ?found"
    using sorted_sort_key [of newest_key ?all]
    by (simp add: sorted_map flip: newest_key_less not_le)
  moreover have "filter (\<lambda>i. si_added_at i = d) ?found = filter (\<lambda>i. si_added_at i = d) ?all" for d
  proof -
    have "newest_key i = newest_key \<lparr>si_uri = [], si_added_at = d\<rparr> \<longleftrightarrow> si_added_at i = d" for i
      by (simp add: newest_key_eq)
    then show ?thesis
      using sort_key_stable [of newest_key "newest_key \<lparr>si_uri = [], si_added_at = d\<rparr>" ?all] by simp
  qed
  ultimately show ?thesis by (intro exI [of _ ?found]) simp
qed

definition sample_server :: "nat \<Rightarrow> u8 list \<Rightarrow> ustr + u8 list" where
  "sample_server n body = Inr (if n = 0
     then page_bytes [(lit ''spotify:track:a'', 5, False), (lit ''spotify:track:x'', 6, True)] (lit ''t'')
     else page_bytes [(lit ''spotify:track:b'', 9, False)] [])"

definition sample_found :: "saved_item list list" where
  "sample_found = [[\<lparr>si_uri = lit ''spotify:track:a'', si_added_at = Some 5\<rparr>],
     [\<lparr>si_uri = lit ''spotify:track:b'', si_added_at = Some 9\<rparr>]]"

lemma sample_serves:
  "serves sample_server (lit ''me'') COLLECTION (\<lambda>n. if n = 1 then lit ''t'' else []) sample_found"
proof -
  have "response (page_bytes [(lit ''spotify:track:a'', 5, False), (lit ''spotify:track:x'', 6, True)] (lit ''t'')) =
      Inr \<lparr>pg_items = sample_found ! 0, pg_next = lit ''t''\<rparr>"
    by (subst response_written)
      (simp_all add: written_length is_scalar_def, simp_all add: sample_found_def map_filter_simps item_read_def lit_Cons)
  moreover have "response (page_bytes [(lit ''spotify:track:b'', 9, False)] []) =
      Inr \<lparr>pg_items = sample_found ! 1, pg_next = []\<rparr>"
    by (subst response_written)
      (simp_all add: written_length is_scalar_def, simp_all add: sample_found_def map_filter_simps item_read_def lit_Cons)
  moreover have "length sample_found = 2" "sample_found \<noteq> []" by (simp_all add: sample_found_def)
  ultimately show ?thesis
    by (simp add: serves_def sample_server_def numeral_2_eq_2) (simp add: lit_Cons)
qed

theorem saved_items_reads_all_pages_witness:
  "\<exists>found. saved_items sample_server (lit ''me'') COLLECTION (lit ''spotify:track:'') 3 = Some (Inr (take 3 found)) \<and>
    length found = 2"
proof -
  obtain found where f: "saved_items sample_server (lit ''me'') COLLECTION (lit ''spotify:track:'') 3 = Some (Inr (take 3 found))"
    "mset found = mset (filter (\<lambda>i. starts_with (lit ''spotify:track:'') (si_uri i)) (concat sample_found))"
    using saved_items_reads_all_pages [OF sample_serves, of "lit ''spotify:track:''" 3] by blast
  have "length found = 2"
    using mset_eq_length [OF f(2)] by (simp add: sample_found_def starts_with_def lit_Cons)
  with f(1) show ?thesis by blast
qed

end
