(* ===== verification/Listen_Client.thy ===== *)
theory Listen_Client
  imports Listen_Protocol
begin

text \<open>
  The Listen Together client (crates/core/src/listentogether/mod.rs): the session's state, its public
  operations, the handling of every server message, and the connection loops with their interleavings.
  A generation test and the critical section that follows it are one step; everything else may come
  between two steps. Sockets are parameters: whether a connection attempt succeeds and what arrives.
  Notices are kept as text; the other UI events only mirror the state and are left out.
\<close>

section \<open>The state\<close>

datatype sync_command =
    ApplyState room_state
  | ChangeTrackTo track i64 bool "track list"
  | PlayFrom i64 i64
  | PauseAt i64
  | SeekTo i64
  | SyncQueueTo "track list"
  | GuestAdd track
  | HostSeed
  | Release

datatype role = NoRole | HostRole | GuestRole

datatype conn_status = Disconnected | Connecting | Connected

fun status_str :: "conn_status \<Rightarrow> ustr" where
  "status_str Disconnected = lit ''disconnected''"
| "status_str Connecting = lit ''connecting''"
| "status_str Connected = lit ''connected''"

record lt_inner =
  lt_connected :: bool
  lt_connecting :: bool
  lt_requesting :: bool
  lt_role :: role
  lt_url :: ustr
  lt_code :: "ustr option"
  lt_my_id :: "ustr option"
  lt_token :: "ustr option"
  lt_users :: "user list"
  lt_track :: "track option"
  lt_queue :: "track list"
  lt_pending :: "(ustr \<times> ustr) list"
  lt_suggestions :: "suggestion list"
  lt_outbound :: "nat option"

definition inner_default :: lt_inner where
  "inner_default = \<lparr>lt_connected = False, lt_connecting = False, lt_requesting = False, lt_role = NoRole,
     lt_url = [], lt_code = None, lt_my_id = None, lt_token = None, lt_users = [], lt_track = None,
     lt_queue = [], lt_pending = [], lt_suggestions = [], lt_outbound = None\<rparr>"

definition status :: "lt_inner \<Rightarrow> conn_status" where
  "status i = (if lt_connected i then Connected else if lt_connecting i then Connecting else Disconnected)"

definition reset_room :: "lt_inner \<Rightarrow> lt_inner" where
  "reset_room i = i\<lparr>lt_role := NoRole, lt_code := None, lt_my_id := None, lt_token := None, lt_users := [],
     lt_track := None, lt_queue := [], lt_pending := [], lt_suggestions := [], lt_outbound := None,
     lt_connected := False, lt_connecting := False, lt_requesting := False\<rparr>"

definition absorb :: "room_state \<Rightarrow> lt_inner \<Rightarrow> lt_inner" where
  "absorb st i = i\<lparr>lt_code := Some (room_code st), lt_users := users st, lt_track := current_track st,
     lt_queue := queue st\<rparr>"

text \<open>A session: the state behind its lock, the generation counter, what was sent into each connection's
  channel, the commands for the bridge and the notices.\<close>

record lt_session =
  lt_state :: lt_inner
  lt_gen :: nat
  lt_sent :: "nat \<Rightarrow> client_message list"
  lt_commands :: "sync_command list"
  lt_notices :: "ustr list"

definition session_new :: "ustr \<Rightarrow> lt_session" where
  "session_new url = \<lparr>lt_state = inner_default\<lparr>lt_url := url\<rparr>, lt_gen = 0, lt_sent = (\<lambda>_. []),
     lt_commands = [], lt_notices = []\<rparr>"

abbreviation inner_upd :: "(lt_inner \<Rightarrow> lt_inner) \<Rightarrow> lt_session \<Rightarrow> lt_session" where
  "inner_upd f s \<equiv> s\<lparr>lt_state := f (lt_state s)\<rparr>"

definition command :: "sync_command \<Rightarrow> lt_session \<Rightarrow> lt_session" where
  "command c s = s\<lparr>lt_commands := lt_commands s @ [c]\<rparr>"

definition notice :: "ustr \<Rightarrow> lt_session \<Rightarrow> lt_session" where
  "notice n s = s\<lparr>lt_notices := lt_notices s @ [n]\<rparr>"

definition push_to :: "nat \<Rightarrow> client_message \<Rightarrow> lt_session \<Rightarrow> lt_session" where
  "push_to c m s = s\<lparr>lt_sent := (lt_sent s)(c := lt_sent s c @ [m])\<rparr>"

section \<open>The public operations\<close>

definition set_server_url :: "ustr \<Rightarrow> lt_session \<Rightarrow> lt_session" where
  "set_server_url url s = inner_upd (\<lambda>i. i\<lparr>lt_url := url\<rparr>) s"

definition is_guest :: "lt_session \<Rightarrow> bool" where
  "is_guest s = (lt_role (lt_state s) = GuestRole)"

definition is_host_here :: "lt_session \<Rightarrow> bool" where
  "is_host_here s = (lt_role (lt_state s) = HostRole)"

definition my_username :: "lt_session \<Rightarrow> ustr option" where
  "my_username s =
     (case lt_my_id (lt_state s) of
        None \<Rightarrow> None
      | Some me \<Rightarrow> map_option username (find (\<lambda>u. user_id u = me) (lt_users (lt_state s))))"

definition broadcast_playback :: "playback \<Rightarrow> lt_session \<Rightarrow> lt_session" where
  "broadcast_playback p s =
     (if lt_role (lt_state s) \<noteq> HostRole then s
      else case lt_outbound (lt_state s) of Some c \<Rightarrow> push_to c (PlaybackMsg p) s | None \<Rightarrow> s)"

definition lt_send :: "client_message \<Rightarrow> lt_session \<Rightarrow> lt_session" where
  "lt_send m s = (case lt_outbound (lt_state s) of Some c \<Rightarrow> push_to c m s | None \<Rightarrow> s)"

definition lt_approve_join :: "ustr \<Rightarrow> lt_session \<Rightarrow> lt_session" where
  "lt_approve_join uid = lt_send (ApproveJoin uid)"

definition lt_reject_join :: "ustr \<Rightarrow> lt_session \<Rightarrow> lt_session" where
  "lt_reject_join uid s =
     lt_send (RejectJoin uid) (inner_upd (\<lambda>i. i\<lparr>lt_pending := filter (\<lambda>(k, _). k \<noteq> uid) (lt_pending i)\<rparr>) s)"

definition lt_kick :: "ustr \<Rightarrow> lt_session \<Rightarrow> lt_session" where
  "lt_kick uid = lt_send (KickUser uid)"

definition lt_transfer_host :: "ustr \<Rightarrow> lt_session \<Rightarrow> lt_session" where
  "lt_transfer_host uid = lt_send (TransferHost uid)"

definition lt_suggest :: "track \<Rightarrow> lt_session \<Rightarrow> lt_session" where
  "lt_suggest t = lt_send (Suggest t)"

fun take_suggestion :: "ustr \<Rightarrow> suggestion list \<Rightarrow> track option \<times> suggestion list" where
  "take_suggestion sid [] = (None, [])"
| "take_suggestion sid (x # xs) =
     (if suggestion_id x = sid then (Some (suggested x), xs)
      else let (t, ys) = take_suggestion sid xs in (t, x # ys))"

definition lt_approve_suggestion :: "ustr \<Rightarrow> lt_session \<Rightarrow> track option \<times> lt_session" where
  "lt_approve_suggestion sid s =
     (let (t, xs) = take_suggestion sid (lt_suggestions (lt_state s))
      in (t, lt_send (ApproveSuggestion sid) (inner_upd (\<lambda>i. i\<lparr>lt_suggestions := xs\<rparr>) s)))"

definition lt_reject_suggestion :: "ustr \<Rightarrow> lt_session \<Rightarrow> lt_session" where
  "lt_reject_suggestion sid s =
     lt_send (RejectSuggestion sid)
       (inner_upd (\<lambda>i. i\<lparr>lt_suggestions := filter (\<lambda>x. suggestion_id x \<noteq> sid) (lt_suggestions i)\<rparr>) s)"

definition lt_request_sync :: "lt_session \<Rightarrow> lt_session" where
  "lt_request_sync = lt_send RequestSync"

definition leave :: "lt_session \<Rightarrow> lt_session" where
  "leave s = (let s = lt_send LeaveRoom s
     in command Release (inner_upd reset_room (s\<lparr>lt_gen := lt_gen s + 1\<rparr>)))"

definition close_locally :: "ustr \<Rightarrow> lt_session \<Rightarrow> lt_session" where
  "close_locally msg s =
     (let s = (if msg = [] then s else notice msg s)
      in command Release (inner_upd reset_room (s\<lparr>lt_gen := lt_gen s + 1\<rparr>)))"

section \<open>Server messages\<close>

text \<open>What a broadcast playback action does to the mirror, and the command it becomes.\<close>

definition mirror_playback :: "playback \<Rightarrow> lt_inner \<Rightarrow> lt_inner" where
  "mirror_playback p i =
     (case kind p of
        ChangeTrack \<Rightarrow>
          (let i = i\<lparr>lt_track := pb_track p\<rparr>
           in case pb_queue p of Some q \<Rightarrow> i\<lparr>lt_queue := q\<rparr> | None \<Rightarrow> i)
      | SyncQueue \<Rightarrow> (case pb_queue p of Some q \<Rightarrow> i\<lparr>lt_queue := q\<rparr> | None \<Rightarrow> i)
      | _ \<Rightarrow> i)"

definition playback_command :: "playback \<Rightarrow> sync_command option" where
  "playback_command p =
     (case kind p of
        Play \<Rightarrow> Some (PlayFrom (pb_position_ms p) (server_time_ms p))
      | Pause \<Rightarrow> Some (PauseAt (pb_position_ms p))
      | Seek \<Rightarrow> Some (SeekTo (pb_position_ms p))
      | ChangeTrack \<Rightarrow> map_option (\<lambda>t. ChangeTrackTo t (pb_position_ms p) (pb_playing p)
          (case pb_queue p of Some q \<Rightarrow> q | None \<Rightarrow> [])) (pb_track p)
      | SyncQueue \<Rightarrow> map_option SyncQueueTo (pb_queue p)
      | SetVolume \<Rightarrow> None)"

definition client_playback :: "playback \<Rightarrow> lt_session \<Rightarrow> lt_session" where
  "client_playback p s =
     (let s = inner_upd (mirror_playback p) s
      in case playback_command p of Some c \<Rightarrow> command c s | None \<Rightarrow> s)"

text \<open>\<open>iter_mut().find(..)\<close> with an update of what it finds.\<close>

fun set_online :: "ustr \<Rightarrow> bool \<Rightarrow> user list \<Rightarrow> user list" where
  "set_online uid b [] = []"
| "set_online uid b (u # us) =
     (if user_id u = uid then u\<lparr>is_connected := b\<rparr> # us else u # set_online uid b us)"

text \<open>\<open>handle\<close>: the new session, and whether the connection is to be closed.\<close>

fun handle :: "server_message \<Rightarrow> lt_session \<Rightarrow> bool \<times> lt_session" where
  "handle Pong s = (False, s)"
| "handle (RoomCreated code uid token st) s =
     (False, command HostSeed (inner_upd (\<lambda>i. absorb st (i\<lparr>lt_role := HostRole, lt_requesting := False,
        lt_my_id := Some uid, lt_token := Some token\<rparr>)) s))"
| "handle (JoinRequest uid name) s =
     (False,
      if list_ex (\<lambda>(k, _). k = uid) (lt_pending (lt_state s)) then s
      else notice (name @ lit '' wants to join'')
        (inner_upd (\<lambda>i. i\<lparr>lt_pending := lt_pending i @ [(uid, name)]\<rparr>) s))"
| "handle (JoinApproved uid token st) s =
     (False, command (ApplyState st) (inner_upd (\<lambda>i. absorb st (i\<lparr>lt_role := GuestRole, lt_requesting := False,
        lt_my_id := Some uid, lt_token := Some token\<rparr>)) s))"
| "handle (JoinRejected reason) s = (True, close_locally [] (notice reason s))"
| "handle (Reconnected uid host st) s =
     (False,
      let s = inner_upd (\<lambda>i. absorb st (i\<lparr>lt_role := (if host then HostRole else GuestRole),
            lt_requesting := False, lt_my_id := Some uid\<rparr>)) s
      in if host then s else command (ApplyState st) s)"
| "handle (UserJoined u) s =
     (False, inner_upd (\<lambda>i. i\<lparr>lt_pending := filter (\<lambda>(k, _). k \<noteq> user_id u) (lt_pending i),
        lt_users := (if list_ex (\<lambda>x. user_id x = user_id u) (lt_users i) then lt_users i
                     else lt_users i @ [u])\<rparr>) s)"
| "handle (UserLeft uid) s =
     (False, inner_upd (\<lambda>i. i\<lparr>lt_users := filter (\<lambda>u. user_id u \<noteq> uid) (lt_users i)\<rparr>) s)"
| "handle (UserDisconnected uid) s =
     (False, inner_upd (\<lambda>i. i\<lparr>lt_users := set_online uid False (lt_users i)\<rparr>) s)"
| "handle (UserReconnected uid) s =
     (False, inner_upd (\<lambda>i. i\<lparr>lt_users := set_online uid True (lt_users i)\<rparr>) s)"
| "handle (HostChanged host) s =
     (False,
      let became = (lt_my_id (lt_state s) = Some host);
          s = inner_upd (\<lambda>i. i\<lparr>lt_users := map (\<lambda>u. u\<lparr>is_host := (user_id u = host)\<rparr>) (lt_users i),
                lt_role := (if became then HostRole else GuestRole)\<rparr>) s
      in if became then notice (lit ''You're the host now.'') (command Release s) else s)"
| "handle (SyncPlayback p) s =
     (False, if lt_role (lt_state s) = GuestRole then client_playback p s else s)"
| "handle (SyncState st) s =
     (False,
      let s = inner_upd (absorb st) s
      in if lt_role (lt_state s) = GuestRole then command (ApplyState st) s else s)"
| "handle (SuggestionReceived x) s =
     (False,
      let t = (suggested x)\<lparr>queued_by := Some (from_username x)\<rparr>
      in notice (from_username x @ lit '' added '' @ title t)
           (command (GuestAdd t) (lt_send (ApproveSuggestion (suggestion_id x)) s)))"
| "handle (SuggestionApproved _) s = (False, notice (lit ''Added to the session queue.'') s)"
| "handle (SuggestionRejected _ reason) s = (False, notice reason s)"
| "handle (Kicked reason) s = (True, close_locally [] (notice reason s))"
| "handle (ErrorMsg code message) s =
     (let s = notice message s
      in if lt_role (lt_state s) = NoRole \<or> code = lit ''session_expired''
         then (True, close_locally [] s) else (False, s))"

end
