(* ===== verification/Listen_Loops.thy ===== *)
theory Listen_Loops
  imports Listen_Client
begin

text \<open>
  The connection loops of the Listen Together client, \<open>LtSession::start\<close> and \<open>run\<close>: a loop per started
  session, each with the generation it was started under, interleaved with the public operations and
  with each other.
\<close>

section \<open>The loops\<close>

datatype loop_phase = AtTop | Dialing | Reading nat | Lost | Ended

record lt_loop =
  lp_gen :: nat
  lp_attempt :: nat
  lp_message :: client_message
  lp_phase :: loop_phase

definition MAX_ATTEMPTS :: nat where "MAX_ATTEMPTS = 15"

text \<open>Seconds; the argument is a \<open>u32\<close>.\<close>

definition backoff_delay :: "nat \<Rightarrow> nat" where
  "backoff_delay attempt = 2 ^ (max 1 (min 6 attempt) - 1)"

definition start_reset :: "lt_session \<Rightarrow> lt_session" where
  "start_reset s = inner_upd (\<lambda>i. (reset_room i)\<lparr>lt_connecting := True, lt_requesting := True\<rparr>)
     (s\<lparr>lt_gen := lt_gen s + 1\<rparr>)"

definition new_loop :: "client_message \<Rightarrow> lt_session \<Rightarrow> lt_loop" where
  "new_loop m s = \<lparr>lp_gen = lt_gen s, lp_attempt = 0, lp_message = m, lp_phase = AtTop\<rparr>"

definition end_loop :: "lt_loop \<Rightarrow> lt_loop" where
  "end_loop l = l\<lparr>lp_phase := Ended\<rparr>"

definition loop_top :: "lt_loop \<times> lt_session \<Rightarrow> lt_loop \<times> lt_session" where
  "loop_top ls =
     (let (l, s) = ls
      in if lt_gen s \<noteq> lp_gen l then (end_loop l, s)
         else if lt_url (lt_state s) = []
         then (end_loop l, close_locally (lit ''Set a server URL first (Listen Together settings).'') s)
         else (l\<lparr>lp_phase := Dialing\<rparr>,
               inner_upd (\<lambda>i. i\<lparr>lt_connecting := True, lt_connected := False\<rparr>) s))"

text \<open>\<open>connect_async\<close> came back: with a connection, named by its channel, or with an error.\<close>

definition loop_dialed :: "nat option \<Rightarrow> lt_loop \<times> lt_session \<Rightarrow> lt_loop \<times> lt_session" where
  "loop_dialed conn ls =
     (let (l, s) = ls
      in case conn of
           Some c \<Rightarrow> (l\<lparr>lp_attempt := 0, lp_phase := Reading c\<rparr>,
             push_to c (lp_message l)
               (inner_upd (\<lambda>i. i\<lparr>lt_outbound := Some c, lt_connecting := False, lt_connected := True\<rparr>) s))
         | None \<Rightarrow> (l\<lparr>lp_phase := Lost\<rparr>, s))"

definition detach :: "lt_loop \<times> lt_session \<Rightarrow> lt_loop \<times> lt_session" where
  "detach ls = (let (l, s) = ls in (l\<lparr>lp_phase := Lost\<rparr>, inner_upd (\<lambda>i. i\<lparr>lt_outbound := None\<rparr>) s))"

text \<open>One turn of the inner loop: the 500 ms tick, a message, or the end of the stream.\<close>

datatype socket_event = Tick | Message server_message | Hangup

definition loop_read :: "socket_event \<Rightarrow> lt_loop \<times> lt_session \<Rightarrow> lt_loop \<times> lt_session" where
  "loop_read ev ls =
     (let (l, s) = ls
      in if lt_gen s \<noteq> lp_gen l then detach (l, s)
         else case ev of
           Tick \<Rightarrow> (l, s)
         | Hangup \<Rightarrow> detach (l, s)
         | Message m \<Rightarrow> (let (fatal, s) = handle m s in if fatal then detach (l, s) else (l, s)))"

definition loop_lost :: "lt_loop \<times> lt_session \<Rightarrow> lt_loop \<times> lt_session" where
  "loop_lost ls =
     (let (l, s) = ls
      in if lt_gen s \<noteq> lp_gen l then (end_loop l, s)
         else case lt_token (lt_state s) of
           None \<Rightarrow> (end_loop l, close_locally (lit ''Couldn't reach the Listen Together server.'') s)
         | Some t \<Rightarrow>
             let l = l\<lparr>lp_attempt := lp_attempt l + 1\<rparr>
             in if MAX_ATTEMPTS < lp_attempt l
                then (end_loop l, close_locally (lit ''Lost connection to the room.'') s)
                else (l\<lparr>lp_message := Reconnect t, lp_phase := AtTop\<rparr>,
                      inner_upd (\<lambda>i. i\<lparr>lt_connected := False, lt_connecting := True\<rparr>) s))"

section \<open>The machine\<close>

text \<open>\<open>ls_starting\<close>: calls of \<open>start\<close> that have reset the room and not yet read the generation.\<close>

record lt_system =
  ls_session :: lt_session
  ls_loops :: "lt_loop list"
  ls_starting :: "client_message list"
  ls_next :: nat

definition on_loop :: "nat \<Rightarrow> (lt_loop \<times> lt_session \<Rightarrow> lt_loop \<times> lt_session) \<Rightarrow> lt_system \<Rightarrow> lt_system" where
  "on_loop k f y =
     (let (l, s) = f (ls_loops y ! k, ls_session y)
      in y\<lparr>ls_loops := (ls_loops y)[k := l], ls_session := s\<rparr>)"

abbreviation phase_of :: "nat \<Rightarrow> lt_system \<Rightarrow> loop_phase" where
  "phase_of k y \<equiv> lp_phase (ls_loops y ! k)"

text \<open>The operations of the interface that only touch the session.\<close>

inductive lt_call :: "lt_session \<Rightarrow> lt_session \<Rightarrow> bool" where
  call_url: "lt_call s (set_server_url url s)"
| call_broadcast: "lt_call s (broadcast_playback p s)"
| call_approve_join: "lt_call s (lt_approve_join uid s)"
| call_reject_join: "lt_call s (lt_reject_join uid s)"
| call_kick: "lt_call s (lt_kick uid s)"
| call_transfer: "lt_call s (lt_transfer_host uid s)"
| call_suggest: "lt_call s (lt_suggest t s)"
| call_approve_suggestion: "lt_call s (snd (lt_approve_suggestion sid s))"
| call_reject_suggestion: "lt_call s (lt_reject_suggestion sid s)"
| call_request_sync: "lt_call s (lt_request_sync s)"

inductive lt_step :: "lt_system \<Rightarrow> lt_system \<Rightarrow> bool" where
  lt_api: "lt_call (ls_session y) s \<Longrightarrow> lt_step y (y\<lparr>ls_session := s\<rparr>)"
| lt_leave: "lt_step y (y\<lparr>ls_session := leave (ls_session y)\<rparr>)"
| lt_start: "lt_step y (y\<lparr>ls_session := start_reset (ls_session y), ls_starting := ls_starting y @ [m]\<rparr>)"
| lt_spawn: "k < length (ls_starting y) \<Longrightarrow>
    lt_step y (y\<lparr>ls_loops := ls_loops y @ [new_loop (ls_starting y ! k) (ls_session y)],
      ls_starting := take k (ls_starting y) @ drop (k + 1) (ls_starting y)\<rparr>)"
| lt_top: "k < length (ls_loops y) \<Longrightarrow> phase_of k y = AtTop \<Longrightarrow> lt_step y (on_loop k loop_top y)"
| lt_dial_fails: "k < length (ls_loops y) \<Longrightarrow> phase_of k y = Dialing \<Longrightarrow>
    lt_step y (on_loop k (loop_dialed None) y)"
| lt_dial: "k < length (ls_loops y) \<Longrightarrow> phase_of k y = Dialing \<Longrightarrow>
    lt_step y ((on_loop k (loop_dialed (Some (ls_next y))) y)\<lparr>ls_next := ls_next y + 1\<rparr>)"
| lt_read: "k < length (ls_loops y) \<Longrightarrow> phase_of k y = Reading c \<Longrightarrow>
    lt_step y (on_loop k (loop_read ev) y)"
| lt_lost: "k < length (ls_loops y) \<Longrightarrow> phase_of k y = Lost \<Longrightarrow> lt_step y (on_loop k loop_lost y)"

definition lt_init :: "lt_system \<Rightarrow> bool" where
  "lt_init y \<longleftrightarrow> (\<exists>url. y = \<lparr>ls_session = session_new url, ls_loops = [], ls_starting = [], ls_next = 0\<rparr>)"

text \<open>What the room means to the user: everything but the connection itself.\<close>

definition membership :: "lt_session \<Rightarrow> _" where
  "membership s = (let i = lt_state s in
     (lt_role i, lt_code i, lt_my_id i, lt_token i, lt_users i, lt_track i, lt_queue i, lt_pending i,
      lt_suggestions i, lt_commands s, lt_notices s, lt_gen s))"

lemma membership_simps [simp]:
  "membership (inner_upd (\<lambda>i. i\<lparr>lt_outbound := b\<rparr>) s) = membership s"
  "membership (inner_upd (\<lambda>i. i\<lparr>lt_outbound := b, lt_connecting := x, lt_connected := z\<rparr>) s) = membership s"
  "membership (inner_upd (\<lambda>i. i\<lparr>lt_connecting := x, lt_connected := z\<rparr>) s) = membership s"
  "membership (push_to c m s) = membership s"
  by (simp_all add: membership_def push_to_def Let_def)

lemma gen_simps [simp]:
  "lt_gen (push_to c m s) = lt_gen s" "lt_gen (command x s) = lt_gen s" "lt_gen (notice n s) = lt_gen s"
  "lt_gen (close_locally n s) = lt_gen s + 1" "lt_gen (leave s) = lt_gen s + 1" "lt_gen (lt_send m s) = lt_gen s"
  "lt_gen (start_reset s) = lt_gen s + 1"
  by (simp_all add: push_to_def command_def notice_def close_locally_def leave_def lt_send_def start_reset_def Let_def
      split: option.split)

lemma call_gen: "lt_call s s' \<Longrightarrow> lt_gen s' = lt_gen s"
  by (induction rule: lt_call.induct)
    (simp_all add: set_server_url_def broadcast_playback_def lt_approve_join_def lt_reject_join_def lt_kick_def
      lt_transfer_host_def lt_suggest_def lt_approve_suggestion_def lt_reject_suggestion_def lt_request_sync_def
      Let_def split: option.split prod.split)

lemma handle_gen: "handle m s = (fatal, s') \<Longrightarrow> lt_gen s' = lt_gen s + (if fatal then 1 else 0)"
  by (cases m) (auto simp: client_playback_def Let_def split: if_splits option.splits)

section \<open>A superseded loop\<close>

abbreviation live :: "lt_loop \<Rightarrow> bool" where
  "live l \<equiv> lp_phase l \<noteq> Ended"

text \<open>The steps of the loops alone.\<close>

inductive loops_step :: "lt_system \<Rightarrow> lt_system \<Rightarrow> bool" where
  ls_top: "k < length (ls_loops y) \<Longrightarrow> phase_of k y = AtTop \<Longrightarrow> loops_step y (on_loop k loop_top y)"
| ls_dial: "k < length (ls_loops y) \<Longrightarrow> phase_of k y = Dialing \<Longrightarrow>
    loops_step y ((on_loop k (loop_dialed conn) y)\<lparr>ls_next := n\<rparr>)"
| ls_read: "k < length (ls_loops y) \<Longrightarrow> phase_of k y = Reading c \<Longrightarrow>
    loops_step y (on_loop k (loop_read ev) y)"
| ls_lost: "k < length (ls_loops y) \<Longrightarrow> phase_of k y = Lost \<Longrightarrow> loops_step y (on_loop k loop_lost y)"

fun steps_left :: "loop_phase \<Rightarrow> nat" where
  "steps_left AtTop = 1"
| "steps_left Dialing = 3"
| "steps_left (Reading _) = 2"
| "steps_left Lost = 1"
| "steps_left Ended = 0"

definition work_left :: "lt_system \<Rightarrow> nat" where
  "work_left y = sum_list (map (\<lambda>l. steps_left (lp_phase l)) (ls_loops y))"

definition superseded :: "lt_system \<Rightarrow> bool" where
  "superseded y \<longleftrightarrow> list_all (\<lambda>l. lp_gen l < lt_gen (ls_session y)) (ls_loops y)"

lemma stale_loop:
  assumes "lp_gen l \<noteq> lt_gen s"
  shows "membership (snd (loop_top (l, s))) = membership s" "membership (snd (loop_dialed conn (l, s))) = membership s"
    "membership (snd (loop_read ev (l, s))) = membership s" "membership (snd (loop_lost (l, s))) = membership s"
    "lp_phase (fst (loop_top (l, s))) = Ended" "lp_phase (fst (loop_read ev (l, s))) = Lost"
    "lp_phase (fst (loop_lost (l, s))) = Ended"
  using assms
  by (simp_all add: loop_top_def loop_dialed_def loop_read_def loop_lost_def detach_def end_loop_def split: option.split)

lemma loop_keeps_gen:
  "lp_gen (fst (loop_top (l, s))) = lp_gen l" "lp_gen (fst (loop_dialed conn (l, s))) = lp_gen l"
  "lp_gen (fst (loop_read ev (l, s))) = lp_gen l" "lp_gen (fst (loop_lost (l, s))) = lp_gen l"
  by (auto simp: loop_top_def loop_dialed_def loop_read_def loop_lost_def detach_def end_loop_def Let_def
      split: option.split socket_event.split prod.split)

lemma membership_gen: "membership s = membership s' \<Longrightarrow> lt_gen s = lt_gen s'"
  by (simp add: membership_def Let_def)

lemma work_update:
  "k < length xs \<Longrightarrow> sum_list (map f (xs[k := x])) + f (xs ! k) = sum_list (map f xs) + (f x :: nat)"
proof (induction xs arbitrary: k)
  case (Cons a xs)
  then show ?case by (cases k) fastforce+
qed simp

lemma on_loop_stale:
  assumes "superseded y" "k < length (ls_loops y)"
    and "\<And>l s. lp_gen l \<noteq> lt_gen s \<Longrightarrow> membership (snd (f (l, s))) = membership s"
    and "\<And>l s. lp_gen (fst (f (l, s))) = lp_gen l"
    and "steps_left (lp_phase (fst (f (ls_loops y ! k, ls_session y)))) < steps_left (phase_of k y)"
  shows "superseded (on_loop k f y) \<and> membership (ls_session (on_loop k f y)) = membership (ls_session y) \<and>
    work_left (on_loop k f y) < work_left y"
proof -
  obtain l s where f: "f (ls_loops y ! k, ls_session y) = (l, s)" by fastforce
  have "lp_gen (ls_loops y ! k) < lt_gen (ls_session y)" using assms(1,2) by (simp add: superseded_def list_all_length)
  then have m: "membership s = membership (ls_session y)" "lp_gen l < lt_gen (ls_session y)"
    using assms(3,4) [of "ls_loops y ! k" "ls_session y"] f by auto
  have "superseded (on_loop k f y)"
    using assms(1,2) f m membership_gen [OF m(1)] by (auto simp: superseded_def on_loop_def list_all_length nth_list_update)
  then show ?thesis
    using f m assms(2,5) work_update [of k "ls_loops y" "\<lambda>l. steps_left (lp_phase l)" l]
    by (simp add: on_loop_def work_left_def)
qed

lemma loops_step_stale:
  assumes "loops_step y z" "superseded y"
  shows "superseded z \<and> membership (ls_session z) = membership (ls_session y) \<and> work_left z < work_left y"
  using assms
proof (cases rule: loops_step.cases)
  case (ls_top k)
  have "lp_gen (ls_loops y ! k) \<noteq> lt_gen (ls_session y)"
    using assms(2) ls_top by (auto simp: superseded_def list_all_length)
  with ls_top show ?thesis
    using on_loop_stale [OF assms(2) ls_top(2) stale_loop(1) loop_keeps_gen(1)] stale_loop(5) by simp
next
  case (ls_dial k n conn)
  have "steps_left (lp_phase (fst (loop_dialed conn (ls_loops y ! k, ls_session y)))) < steps_left (phase_of k y)"
    using ls_dial(3) by (simp add: loop_dialed_def split: option.split)
  from on_loop_stale [OF assms(2) ls_dial(2) stale_loop(2) loop_keeps_gen(2) this] ls_dial(1) show ?thesis
    by (simp add: superseded_def work_left_def)
next
  case (ls_read k c ev)
  have "lp_gen (ls_loops y ! k) \<noteq> lt_gen (ls_session y)"
    using assms(2) ls_read by (auto simp: superseded_def list_all_length)
  with ls_read show ?thesis
    using on_loop_stale [OF assms(2) ls_read(2) stale_loop(3) loop_keeps_gen(3)] stale_loop(6) by simp
next
  case (ls_lost k)
  have "lp_gen (ls_loops y ! k) \<noteq> lt_gen (ls_session y)"
    using assms(2) ls_lost by (auto simp: superseded_def list_all_length)
  with ls_lost show ?thesis
    using on_loop_stale [OF assms(2) ls_lost(2) stale_loop(4) loop_keeps_gen(4)] stale_loop(7) by simp
qed

section \<open>Generations and attempts\<close>

definition loop_ok :: "nat \<Rightarrow> lt_loop \<Rightarrow> bool" where
  "loop_ok g l \<longleftrightarrow> lp_gen l \<le> g \<and> (live l \<longrightarrow> lp_attempt l \<le> MAX_ATTEMPTS)"

definition lt_ok :: "lt_system \<Rightarrow> bool" where
  "lt_ok y \<longleftrightarrow> list_all (loop_ok (lt_gen (ls_session y))) (ls_loops y)"

lemma loop_gen_mono:
  "lt_gen s \<le> lt_gen (snd (loop_top (l, s)))" "lt_gen (snd (loop_dialed conn (l, s))) = lt_gen s"
  "lt_gen s \<le> lt_gen (snd (loop_read ev (l, s)))" "lt_gen s \<le> lt_gen (snd (loop_lost (l, s)))"
proof -
  show "lt_gen s \<le> lt_gen (snd (loop_read ev (l, s)))"
    by (auto simp: loop_read_def detach_def Let_def split: socket_event.split prod.split dest!: handle_gen)
qed (auto simp: loop_top_def loop_dialed_def loop_lost_def Let_def split: option.split)

lemma loop_attempts:
  assumes "live l" "loop_ok g l"
  shows "loop_ok g (fst (loop_top (l, s)))" "loop_ok g (fst (loop_dialed conn (l, s)))"
    "loop_ok g (fst (loop_read ev (l, s)))" "loop_ok g (fst (loop_lost (l, s)))"
  using assms
  by (auto simp: loop_ok_def loop_top_def loop_dialed_def loop_read_def loop_lost_def detach_def end_loop_def Let_def
      split: option.split socket_event.split prod.split)

lemma loop_ok_mono: "loop_ok g l \<Longrightarrow> g \<le> g' \<Longrightarrow> loop_ok g' l"
  by (simp add: loop_ok_def)

lemma lt_ok_later: "lt_ok y \<Longrightarrow> lt_gen (ls_session y) \<le> lt_gen s \<Longrightarrow> lt_ok (y\<lparr>ls_session := s\<rparr>)"
  by (auto simp: lt_ok_def list_all_iff intro: loop_ok_mono)

lemma on_loop_ok:
  assumes "lt_ok y" "k < length (ls_loops y)"
    and "lt_gen (ls_session y) \<le> lt_gen (snd (f (ls_loops y ! k, ls_session y)))"
    and "\<And>g. loop_ok g (ls_loops y ! k) \<Longrightarrow> loop_ok g (fst (f (ls_loops y ! k, ls_session y)))"
  shows "lt_ok (on_loop k f y)"
proof -
  obtain l s where f: "f (ls_loops y ! k, ls_session y) = (l, s)" by fastforce
  have "loop_ok (lt_gen s) l' " if "l' \<in> set (ls_loops y)" for l'
    using assms(1,3) that f loop_ok_mono by (fastforce simp: lt_ok_def list_all_iff)
  moreover have "loop_ok (lt_gen s) l" using assms(2,4) f calculation by (metis fst_conv nth_mem)
  ultimately show ?thesis using f set_update_subset_insert [of "ls_loops y" k l]
    by (auto simp: lt_ok_def on_loop_def list_all_iff)
qed

interpretation sessions: invariant lt_init lt_step lt_ok
proof
  show "lt_init y \<Longrightarrow> lt_ok y" for y by (auto simp: lt_init_def lt_ok_def)
next
  fix y z assume ok: "lt_ok y" and "lt_step y z"
  from this(2) show "lt_ok z"
  proof (cases rule: lt_step.cases)
    case (lt_api s)
    then show ?thesis using lt_ok_later [OF ok] call_gen by simp
  next
    case lt_leave
    then show ?thesis using lt_ok_later [OF ok, of "leave (ls_session y)"] by simp
  next
    case (lt_start m)
    then show ?thesis using lt_ok_later [OF ok, of "start_reset (ls_session y)"] by (simp add: lt_ok_def)
  next
    case (lt_spawn k)
    then show ?thesis using ok by (simp add: lt_ok_def new_loop_def loop_ok_def)
  next
    case (lt_top k)
    show ?thesis unfolding lt_top(1)
      by (rule on_loop_ok [OF ok lt_top(2)], rule loop_gen_mono(1), rule loop_attempts(1)) (simp_all add: lt_top(3))
  next
    case (lt_dial_fails k)
    show ?thesis unfolding lt_dial_fails(1)
      by (rule on_loop_ok [OF ok lt_dial_fails(2)], simp add: loop_gen_mono(2), rule loop_attempts(2))
        (simp_all add: lt_dial_fails(3))
  next
    case (lt_dial k)
    have "lt_ok (on_loop k (loop_dialed (Some (ls_next y))) y)"
      by (rule on_loop_ok [OF ok lt_dial(2)], simp add: loop_gen_mono(2), rule loop_attempts(2))
        (simp_all add: lt_dial(3))
    with lt_dial(1) show ?thesis by (simp add: lt_ok_def)
  next
    case (lt_read k c ev)
    show ?thesis unfolding lt_read(1)
      by (rule on_loop_ok [OF ok lt_read(2)], rule loop_gen_mono(3), rule loop_attempts(3)) (simp_all add: lt_read(3))
  next
    case (lt_lost k)
    show ?thesis unfolding lt_lost(1)
      by (rule on_loop_ok [OF ok lt_lost(2)], rule loop_gen_mono(4), rule loop_attempts(4)) (simp_all add: lt_lost(3))
  qed
qed


section \<open>One current loop\<close>

definition current_loops :: "lt_system \<Rightarrow> lt_loop list" where
  "current_loops y = filter (\<lambda>l. live l \<and> lp_gen l = lt_gen (ls_session y)) (ls_loops y)"

text \<open>The machine when calls of \<open>start\<close> do not overlap: each spawns its loop before the next one begins.\<close>

definition serial_step :: "lt_system \<Rightarrow> lt_system \<Rightarrow> bool" where
  "serial_step y z \<longleftrightarrow> lt_step y z \<and> length (ls_starting z) \<le> 1"

definition one_current :: "lt_system \<Rightarrow> bool" where
  "one_current y \<longleftrightarrow> lt_ok y \<and> length (current_loops y) \<le> 1 \<and>
     (ls_starting y \<noteq> [] \<longrightarrow> current_loops y = []) \<and> length (ls_starting y) \<le> 1"

lemma no_current_later:
  assumes "lt_ok y" "lt_gen (ls_session y) < lt_gen s"
  shows "filter (\<lambda>l. live l \<and> lp_gen l = lt_gen s) (ls_loops y) = []"
  using assms by (auto simp: lt_ok_def loop_ok_def list_all_iff filter_empty_conv)

lemma length_filter_update:
  "k < length xs \<Longrightarrow> \<not> P x \<or> P (xs ! k) \<Longrightarrow> length (filter P (xs[k := x])) \<le> length (filter P xs)"
proof (induction xs arbitrary: k)
  case (Cons a xs)
  then show ?case by (cases k) fastforce+
qed simp

lemma one_current_loop_step:
  assumes "one_current y" "lt_ok (on_loop k f y)" "k < length (ls_loops y)" "live (ls_loops y ! k)"
    and "lt_gen (ls_session y) \<le> lt_gen (snd (f (ls_loops y ! k, ls_session y)))"
    and "lp_gen (fst (f (ls_loops y ! k, ls_session y))) = lp_gen (ls_loops y ! k)"
  shows "one_current (on_loop k f y)"
proof -
  obtain l s where f: "f (ls_loops y ! k, ls_session y) = (l, s)" by fastforce
  have "length (current_loops (on_loop k f y)) \<le> length (current_loops y)"
  proof (cases "lt_gen s = lt_gen (ls_session y)")
    case True
    then show ?thesis using f assms(3,4,6)
      by (auto simp: current_loops_def on_loop_def intro!: length_filter_update)
  next
    case False
    then have "lt_gen (ls_session y) < lt_gen s" using assms(5) f by simp
    moreover have "list_all (\<lambda>l. lp_gen l \<le> lt_gen (ls_session y)) (ls_loops y)"
      using assms(1) by (auto simp: one_current_def lt_ok_def loop_ok_def list_all_iff)
    ultimately have "list_all (\<lambda>l. lp_gen l < lt_gen s) ((ls_loops y)[k := l])"
      using assms(3,6) f by (auto simp: list_all_length nth_list_update)
    then have "current_loops (on_loop k f y) = []"
      using f by (auto simp: current_loops_def on_loop_def filter_empty_conv list_all_iff)
    then show ?thesis by simp
  qed
  then show ?thesis using assms(1,2) f by (auto simp: one_current_def on_loop_def)
qed

lemma one_current_later:
  assumes "one_current y" "lt_gen (ls_session y) < lt_gen s" "length st \<le> 1"
  shows "one_current (y\<lparr>ls_session := s, ls_starting := st\<rparr>)"
  using assms no_current_later [of y s] lt_ok_later [of y s]
  by (auto simp: one_current_def current_loops_def lt_ok_def)

interpretation serial: invariant lt_init serial_step one_current
proof
  show "lt_init y \<Longrightarrow> one_current y" for y
    by (auto simp: lt_init_def one_current_def lt_ok_def current_loops_def)
next
  fix y z assume one: "one_current y" and st: "serial_step y z"
  then have step: "lt_step y z" and ser: "length (ls_starting z) \<le> 1" by (auto simp: serial_step_def)
  have ok: "lt_ok z" by (rule sessions.inv_step [OF _ step]) (use one in \<open>simp add: one_current_def\<close>)
  from step show "one_current z"
  proof (cases rule: lt_step.cases)
    case (lt_api s)
    then show ?thesis using one ok call_gen by (auto simp: one_current_def current_loops_def)
  next
    case lt_leave
    then show ?thesis using one_current_later [OF one, of "leave (ls_session y)" "ls_starting y"] one
      by (simp add: one_current_def)
  next
    case (lt_start m)
    then show ?thesis using one_current_later [OF one, of "start_reset (ls_session y)" "ls_starting z"] ser by simp
  next
    case (lt_spawn k)
    then have "current_loops y = []" "length (ls_starting y) = 1"
      using one by (auto simp: one_current_def)
    then show ?thesis using lt_spawn ok by (auto simp: one_current_def current_loops_def)
  next
    case (lt_top k)
    then show ?thesis using one_current_loop_step [OF one _ lt_top(2), of loop_top] ok
      by (simp add: loop_gen_mono loop_keeps_gen)
  next
    case (lt_dial_fails k)
    then show ?thesis using one_current_loop_step [OF one _ lt_dial_fails(2), of "loop_dialed None"] ok
      by (simp add: loop_gen_mono loop_keeps_gen)
  next
    case (lt_dial k)
    have "lt_ok (on_loop k (loop_dialed (Some (ls_next y))) y)" using ok lt_dial(1) by (simp add: lt_ok_def)
    from one_current_loop_step [OF one this lt_dial(2)] lt_dial show ?thesis
      by (simp add: loop_gen_mono loop_keeps_gen one_current_def current_loops_def lt_ok_def)
  next
    case (lt_read k c ev)
    then show ?thesis using one_current_loop_step [OF one _ lt_read(2), of "loop_read ev"] ok
      by (simp add: loop_gen_mono loop_keeps_gen)
  next
    case (lt_lost k)
    then show ?thesis using one_current_loop_step [OF one _ lt_lost(2), of loop_lost] ok
      by (simp add: loop_gen_mono loop_keeps_gen)
  qed
qed

text \<open>As long as calls of \<open>start\<close> do not overlap, at most one loop is current: two connections never handle
  messages for one session, and no loop tries to reconnect more than 15 times in a row.\<close>

theorem one_current_loop:
  assumes "reachable lt_init serial_step y"
  shows "length (current_loops y) \<le> 1 \<and> list_all (\<lambda>l. lp_phase l = Ended \<or> lp_attempt l \<le> 15) (ls_loops y)"
  using serial.inv_reachable [OF assms]
  by (auto simp: one_current_def lt_ok_def loop_ok_def list_all_iff MAX_ATTEMPTS_def)

end
