(* ===== verification/Listen_Races.thy ===== *)
theory Listen_Races
  imports Listen_Loops
begin

text \<open>
  Runs of the connection loops of the Listen Together client: giving up, and the races between a superseded loop and
  the session that replaced it.
\<close>

section \<open>Giving up\<close>

text \<open>One failed round of a loop: the top, a failed dial, and the bookkeeping behind it.\<close>

definition fail_round :: "lt_loop \<times> lt_session \<Rightarrow> lt_loop \<times> lt_session" where
  "fail_round ls = loop_lost (loop_dialed None (loop_top ls))"

text \<open>What is waited in all before round n + 1.\<close>

definition waited :: "nat \<Rightarrow> nat" where
  "waited n = sum_list (map backoff_delay [1..<n + 1])"

lemma fail_round_goes_on:
  assumes "lp_gen l = lt_gen s" "lt_url (lt_state s) \<noteq> []" "lt_token (lt_state s) = Some t" "lp_attempt l < 15"
  shows "fail_round (l, s) = (l\<lparr>lp_attempt := lp_attempt l + 1, lp_message := Reconnect t, lp_phase := AtTop\<rparr>,
    inner_upd (\<lambda>i. i\<lparr>lt_connecting := True, lt_connected := False\<rparr>) s)"
  using assms
  by (simp add: fail_round_def loop_top_def loop_dialed_def loop_lost_def Let_def MAX_ATTEMPTS_def)

lemma fail_rounds:
  assumes "lp_gen l = lt_gen s" "lt_url (lt_state s) \<noteq> []" "lt_token (lt_state s) = Some t" "lp_attempt l + n \<le> 15"
  shows "\<exists>l' s'. (fail_round ^^ n) (l, s) = (l', s') \<and> lp_gen l' = lt_gen s' \<and> lp_attempt l' = lp_attempt l + n \<and>
    lt_url (lt_state s') \<noteq> [] \<and> lt_token (lt_state s') = Some t \<and> membership s' = membership s \<and>
    (0 < n \<longrightarrow> lp_message l' = Reconnect t \<and> lp_phase l' = AtTop)"
  using assms(4)
proof (induction n)
  case (Suc n)
  then obtain l' s' where i: "(fail_round ^^ n) (l, s) = (l', s')" "lp_gen l' = lt_gen s'"
    "lp_attempt l' = lp_attempt l + n" "lt_url (lt_state s') \<noteq> []" "lt_token (lt_state s') = Some t"
    "membership s' = membership s" by auto
  with fail_round_goes_on [of l' s' t] Suc.prems show ?case by simp
qed (use assms in simp)

text \<open>C40: A loop whose room is lost and whose every dial fails asks to reconnect with its token fifteen times, with
  pauses that add up to 351 seconds, keeps the room meanwhile, and then ends, with the room given up and the player
  released.\<close>

theorem reconnection_gives_up:
  assumes "lp_gen l = lt_gen s" "lt_url (lt_state s) \<noteq> []" "lt_token (lt_state s) = Some t" "lp_attempt l = 0"
  shows "(\<forall>n \<in> {1..15}. \<exists>l' s'. (fail_round ^^ n) (l, s) = (l', s') \<and> lp_phase l' = AtTop \<and>
      lp_message l' = Reconnect t \<and> membership s' = membership s) \<and>
    (\<exists>l' s'. (fail_round ^^ 16) (l, s) = (l', s') \<and> lp_phase l' = Ended \<and> lt_role (lt_state s') = NoRole \<and>
      lt_token (lt_state s') = None \<and> last (lt_commands s') = Release \<and>
      last (lt_notices s') = lit ''Lost connection to the room.'') \<and> waited 15 = 351"
proof -
  obtain l1 s1 where i: "(fail_round ^^ 15) (l, s) = (l1, s1)" "lp_gen l1 = lt_gen s1" "lp_attempt l1 = 15"
    "lt_url (lt_state s1) \<noteq> []" "lt_token (lt_state s1) = Some t"
    using fail_rounds [OF assms(1-3), of 15] assms(4) by auto
  have "(16 :: nat) = Suc 15" by simp
  then have "(fail_round ^^ 16) (l, s) = fail_round (l1, s1)" by (simp only: funpow.simps comp_apply i(1))
  moreover have "fail_round (l1, s1) = (end_loop (l1\<lparr>lp_phase := Lost, lp_attempt := 16\<rparr>),
      close_locally (lit ''Lost connection to the room.'') (inner_upd (\<lambda>i. i\<lparr>lt_connecting := True, lt_connected := False\<rparr>) s1))"
    using i(2-5) by (simp add: fail_round_def loop_top_def loop_dialed_def loop_lost_def Let_def MAX_ATTEMPTS_def)
  ultimately have stop: "\<exists>l' s'. (fail_round ^^ 16) (l, s) = (l', s') \<and> lp_phase l' = Ended \<and>
      lt_role (lt_state s') = NoRole \<and> lt_token (lt_state s') = None \<and> last (lt_commands s') = Release \<and>
      last (lt_notices s') = lit ''Lost connection to the room.''"
    by (simp add: end_loop_def close_locally_def command_def notice_def reset_room_def Let_def lit_Cons)
  have "waited 15 = 351" by (simp add: waited_def upt_rec backoff_delay_def)
  moreover have "\<exists>l' s'. (fail_round ^^ n) (l, s) = (l', s') \<and> lp_phase l' = AtTop \<and> lp_message l' = Reconnect t \<and>
      membership s' = membership s" if "n \<in> {1..15}" for n
    using fail_rounds [OF assms(1-3), of n] assms(4) that by auto
  ultimately show ?thesis using stop by blast
qed

definition lt_sample_state :: room_state where
  "lt_sample_state = \<lparr>room_code = lit ''R'', host_id = lit ''h'', users = [], current_track = None, is_playing = False,
     position_ms = 0, last_update_ms = 0, volume = Fin 1, queue = []\<rparr>"

definition sample_hosting :: lt_session where
  "sample_hosting = snd (handle (RoomCreated (lit ''R'') (lit ''h'') (lit ''t'') lt_sample_state) (session_new (lit ''wss://x'')))"

theorem reconnection_gives_up_witness:
  "\<exists>l' s'. (fail_round ^^ 16) (new_loop (CreateRoom []) sample_hosting, sample_hosting) = (l', s') \<and>
     lp_phase l' = Ended \<and> lt_token (lt_state s') = None"
proof -
  have "lt_url (lt_state sample_hosting) \<noteq> []" "lt_token (lt_state sample_hosting) = Some (lit ''t'')"
    by (simp_all add: sample_hosting_def session_new_def inner_default_def absorb_def command_def) (simp add: lit_Cons)
  from reconnection_gives_up [of "new_loop (CreateRoom []) sample_hosting", OF _ this] show ?thesis
    by (auto simp: new_loop_def)
qed

section \<open>Races\<close>

definition sample_new :: lt_system where
  "sample_new = \<lparr>ls_session = session_new (lit ''wss://x''), ls_loops = [], ls_starting = [], ls_next = 0\<rparr>"

text \<open>\<open>start\<close> as a whole, and the loop it spawned through its top and a dial that succeeds.\<close>

definition started :: "client_message \<Rightarrow> lt_system \<Rightarrow> lt_system" where
  "started m y = y\<lparr>ls_session := start_reset (ls_session y),
     ls_loops := ls_loops y @ [new_loop m (start_reset (ls_session y))], ls_starting := []\<rparr>"

definition dialed :: "nat \<Rightarrow> lt_system \<Rightarrow> lt_system" where
  "dialed k y = (on_loop k (loop_dialed (Some (ls_next y))) y)\<lparr>ls_next := ls_next y + 1\<rparr>"

abbreviation "lt_reachable \<equiv> reachable lt_init lt_step"

lemma started_reachable:
  assumes "lt_reachable y" "ls_starting y = []"
  shows "lt_reachable (started m y)"
proof -
  let ?s = "y\<lparr>ls_session := start_reset (ls_session y), ls_starting := ls_starting y @ [m]\<rparr>"
  have "lt_reachable ?s" by (rule reachable_step [OF assms(1)]) (rule lt_start)
  moreover have "lt_step ?s (started m y)"
    using lt_spawn [of 0 ?s] assms(2) by (simp add: started_def)
  ultimately show ?thesis by (rule reachable_step)
qed

lemma top_reachable:
  "lt_reachable y \<Longrightarrow> k < length (ls_loops y) \<Longrightarrow> phase_of k y = AtTop \<Longrightarrow> lt_reachable (on_loop k loop_top y)"
  by (rule reachable_step) (auto intro: lt_top)

lemma dialed_reachable:
  "lt_reachable y \<Longrightarrow> k < length (ls_loops y) \<Longrightarrow> phase_of k y = Dialing \<Longrightarrow> lt_reachable (dialed k y)"
  unfolding dialed_def by (rule reachable_step) (use lt_dial [of k y] in simp_all)

lemma read_reachable:
  "lt_reachable y \<Longrightarrow> k < length (ls_loops y) \<Longrightarrow> phase_of k y = Reading c \<Longrightarrow> lt_reachable (on_loop k (loop_read ev) y)"
  by (rule reachable_step) (auto intro: lt_read)

lemma lost_reachable:
  "lt_reachable y \<Longrightarrow> k < length (ls_loops y) \<Longrightarrow> phase_of k y = Lost \<Longrightarrow> lt_reachable (on_loop k loop_lost y)"
  by (rule reachable_step) (auto intro: lt_lost)

lemma sample_new_reachable: "lt_reachable sample_new"
  by (rule reachable_init) (auto simp: lt_init_def sample_new_def)

definition sample_dialing :: lt_system where
  "sample_dialing = on_loop 0 loop_top (started (CreateRoom (lit ''A'')) sample_new)"

lemmas lt_run = started_def dialed_def on_loop_def loop_top_def loop_dialed_def loop_read_def loop_lost_def detach_def
  end_loop_def new_loop_def start_reset_def session_new_def inner_default_def reset_room_def push_to_def leave_def
  lt_send_def command_def absorb_def Let_def

lemma sample_url: "lit ''wss://x'' \<noteq> []"
  by (simp add: lit_Cons)

lemma sample_started_reachable: "lt_reachable (started (CreateRoom (lit ''A'')) sample_new)"
  by (rule started_reachable [OF sample_new_reachable]) (simp add: sample_new_def)

lemma sample_dialing_reachable: "lt_reachable sample_dialing"
  unfolding sample_dialing_def
  by (rule top_reachable [OF sample_started_reachable]) (simp_all add: lt_run sample_new_def)

lemma sample_dialing_eq:
  "ls_loops sample_dialing = [\<lparr>lp_gen = 1, lp_attempt = 0, lp_message = CreateRoom (lit ''A''), lp_phase = Dialing\<rparr>]"
  "lt_gen (ls_session sample_dialing) = 1" "ls_next sample_dialing = 0" "ls_starting sample_dialing = []"
  "lt_outbound (lt_state (ls_session sample_dialing)) = None" "lt_url (lt_state (ls_session sample_dialing)) = lit ''wss://x''"
  using sample_url by (simp_all add: sample_dialing_def lt_run sample_new_def)


text \<open>After leaving while a dial is under way the client can look connected for good: the dial succeeds, the
  superseded loop stores its channel and the connected flag, and takes back only the channel. No loop is left,
  there is no room, and the status says connected.\<close>

theorem left_session_looks_connected:
  "\<exists>y. lt_reachable y \<and> ls_starting y = [] \<and> list_all (\<lambda>l. lp_phase l = Ended) (ls_loops y) \<and>
     lt_role (lt_state (ls_session y)) = NoRole \<and> status (lt_state (ls_session y)) = Connected"
proof -
  let ?a = "sample_dialing\<lparr>ls_session := leave (ls_session sample_dialing)\<rparr>"
  let ?b = "dialed 0 ?a"
  let ?c = "on_loop 0 (loop_read Tick) ?b"
  let ?d = "on_loop 0 loop_lost ?c"
  have "lt_reachable ?a" by (rule reachable_step [OF sample_dialing_reachable]) (rule lt_leave)
  then have "lt_reachable ?b" by (rule dialed_reachable) (simp_all add: sample_dialing_eq)
  then have "lt_reachable ?c"
    by (rule read_reachable [where c = 0]) (simp_all add: sample_dialing_eq dialed_def on_loop_def loop_dialed_def)
  then have "lt_reachable ?d"
    by (rule lost_reachable) (simp_all add: sample_dialing_eq lt_run)
  moreover have "list_all (\<lambda>l. lp_phase l = Ended) (ls_loops ?d)" "ls_starting ?d = []"
    "lt_role (lt_state (ls_session ?d)) = NoRole" "status (lt_state (ls_session ?d)) = Connected"
    by (simp_all add: sample_dialing_eq lt_run status_def)
  ultimately show ?thesis by blast
qed

text \<open>A superseded loop can mute the session that replaced it: it clears the shared channel when it notices, up to
  half a second later, also when the new session's loop has stored its own there. The client is host of a room,
  connected, with one loop, which is current and reading, and yet nothing it sends (approvals, playback, kicks)
  reaches any channel.\<close>

theorem old_loop_mutes_the_new_session:
  "\<exists>y k c. lt_reachable y \<and> ls_starting y = [] \<and> filter live (ls_loops y) = [ls_loops y ! k] \<and>
     current_loops y = [ls_loops y ! k] \<and> lp_phase (ls_loops y ! k) = Reading c \<and>
     lt_role (lt_state (ls_session y)) = HostRole \<and> status (lt_state (ls_session y)) = Connected \<and>
     (\<forall>s. lt_call (ls_session y) s \<longrightarrow> lt_sent s = lt_sent (ls_session y))"
proof -
  let ?m = "Message (RoomCreated (lit ''R'') (lit ''h'') (lit ''t'') lt_sample_state)"
  let ?a = "dialed 0 sample_dialing"
  let ?b = "started (CreateRoom (lit ''A'')) ?a"
  let ?c = "on_loop 1 loop_top ?b"
  let ?d = "dialed 1 ?c"
  let ?e = "on_loop 0 (loop_read Tick) ?d"
  let ?f = "on_loop 0 loop_lost ?e"
  let ?g = "on_loop 1 (loop_read ?m) ?f"
  note run = sample_dialing_eq sample_url lt_run
  have a: "lt_reachable ?a" by (rule dialed_reachable [OF sample_dialing_reachable]) (simp_all add: run)
  have b: "lt_reachable ?b" by (rule started_reachable [OF a]) (simp_all add: run)
  have c: "lt_reachable ?c" by (rule top_reachable [OF b]) (simp_all add: run)
  have d: "lt_reachable ?d" by (rule dialed_reachable [OF c]) (simp_all add: run)
  have e: "lt_reachable ?e" by (rule read_reachable [OF d, where c = 0]) (simp_all add: run)
  have f: "lt_reachable ?f" by (rule lost_reachable [OF e]) (simp_all add: run)
  have g: "lt_reachable ?g" by (rule read_reachable [OF f, where c = 1]) (simp_all add: run)
  have out: "lt_outbound (lt_state (ls_session ?g)) = None" by (simp add: run)
  have "lt_sent s = lt_sent (ls_session ?g)" if "lt_call (ls_session ?g) s" for s
    using that out
    by (cases rule: lt_call.cases)
      (simp_all add: set_server_url_def broadcast_playback_def lt_approve_join_def lt_reject_join_def lt_kick_def
        lt_transfer_host_def lt_suggest_def lt_approve_suggestion_def lt_reject_suggestion_def lt_request_sync_def
        lt_send_def Let_def split: prod.split)
  moreover have "filter live (ls_loops ?g) = [ls_loops ?g ! 1]" "current_loops ?g = [ls_loops ?g ! 1]"
    "lp_phase (ls_loops ?g ! 1) = Reading 1" "ls_starting ?g = []"
    "lt_role (lt_state (ls_session ?g)) = HostRole" "status (lt_state (ls_session ?g)) = Connected"
    by (simp_all add: run current_loops_def status_def)
  ultimately show ?thesis using g by blast
qed

theorem old_loop_mutes_the_new_session_witness:
  "\<exists>y. lt_reachable y \<and> lt_role (lt_state (ls_session y)) = HostRole \<and>
     lt_sent (lt_transfer_host (lit ''g'') (ls_session y)) = lt_sent (ls_session y)"
  using old_loop_mutes_the_new_session call_transfer by metis

text \<open>Two overlapping calls of \<open>start\<close> read the same generation: both loops are current.\<close>

definition start_called :: "client_message \<Rightarrow> lt_system \<Rightarrow> lt_system" where
  "start_called m y = y\<lparr>ls_session := start_reset (ls_session y), ls_starting := ls_starting y @ [m]\<rparr>"

definition spawned :: "lt_system \<Rightarrow> lt_system" where
  "spawned y = y\<lparr>ls_loops := ls_loops y @ [new_loop (ls_starting y ! 0) (ls_session y)],
     ls_starting := take 0 (ls_starting y) @ drop (0 + 1) (ls_starting y)\<rparr>"

lemma start_called_reachable: "lt_reachable y \<Longrightarrow> lt_reachable (start_called m y)"
  unfolding start_called_def by (erule reachable_step) (rule lt_start)

lemma spawned_reachable: "lt_reachable y \<Longrightarrow> ls_starting y \<noteq> [] \<Longrightarrow> lt_reachable (spawned y)"
  unfolding spawned_def by (erule reachable_step) (rule lt_spawn, simp)

theorem overlapping_starts_run_two_loops:
  "\<exists>y. lt_reachable y \<and> length (current_loops y) = 2"
proof -
  let ?y = "spawned (spawned (start_called LeaveRoom (start_called LeaveRoom sample_new)))"
  have "lt_reachable ?y"
    by (intro spawned_reachable start_called_reachable sample_new_reachable)
      (simp_all add: spawned_def start_called_def sample_new_def)
  moreover have "length (current_loops ?y) = 2"
    by (simp add: current_loops_def spawned_def start_called_def sample_new_def new_loop_def)
  ultimately show ?thesis by blast
qed

theorem one_current_loop_witness: "length (current_loops sample_dialing) \<le> 1"
proof -
  let ?a = "sample_new\<lparr>ls_session := start_reset (ls_session sample_new), ls_starting := [CreateRoom (lit ''A'')]\<rparr>"
  let ?b = "started (CreateRoom (lit ''A'')) sample_new"
  have n: "reachable lt_init serial_step sample_new"
    by (rule reachable_init) (auto simp: lt_init_def sample_new_def)
  have "serial_step sample_new ?a"
    unfolding serial_step_def using lt_start [of sample_new "CreateRoom (lit ''A'')"] by (simp add: sample_new_def)
  note a = reachable_step [OF n this]
  have "serial_step ?a ?b"
    unfolding serial_step_def using lt_spawn [of 0 ?a] by (simp add: started_def)
  note b = reachable_step [OF a this]
  have "serial_step ?b sample_dialing"
    unfolding serial_step_def sample_dialing_def by (intro conjI lt_top) (simp_all add: lt_run sample_new_def)
  from one_current_loop [OF reachable_step [OF b this]] show ?thesis by blast
qed

end
