(* ===== verification/Sync_Server.thy ===== *)
theory Sync_Server
  imports Listen_Protocol
begin

text \<open>
  The Listen Together relay, \<open>crates/sync-server/src/main.rs\<close>.

  \<open>relay\<close> is the process: the rooms behind the server's mutex, the identity each connection
  task keeps in \<open>uid\<close> and \<open>room_code\<close>, and the bounded outbound channel of each
  connection. One definition per branch of \<open>Server::dispatch\<close>, then \<open>remove_member\<close>,
  \<open>handle_disconnect\<close> and \<open>cleanup\<close>. A \<open>Tx\<close> is the number of the connection it
  writes to; \<open>try_send\<close> drops the message when the channel is full or its reader is gone.
  What the handlers draw from the clock and the random generator comes in a \<open>draws\<close> record.
  Every handler holds the rooms mutex for its whole body, so it is one atomic step.
\<close>

section \<open>Limits and payload checks\<close>

definition RECONNECT_GRACE :: nat where "RECONNECT_GRACE = 120 * 10 ^ 9"
definition MAX_USERS_PER_ROOM :: nat where "MAX_USERS_PER_ROOM = 50"
definition MAX_ROOMS :: nat where "MAX_ROOMS = 256"
definition MAX_QUEUE_TRACKS :: nat where "MAX_QUEUE_TRACKS = 1000"
definition MAX_SUGGESTIONS_PER_ROOM :: nat where "MAX_SUGGESTIONS_PER_ROOM = 100"
definition OUTBOUND_QUEUE_CAPACITY :: nat where "OUTBOUND_QUEUE_CAPACITY = 128"
definition MAX_TRACK_ID_BYTES :: nat where "MAX_TRACK_ID_BYTES = 256"
definition MAX_TRACK_TEXT_BYTES :: nat where "MAX_TRACK_TEXT_BYTES = 512"
definition MAX_THUMBNAIL_BYTES :: nat where "MAX_THUMBNAIL_BYTES = 2048"

lemmas relay_limits = RECONNECT_GRACE_def MAX_USERS_PER_ROOM_def MAX_ROOMS_def
  MAX_QUEUE_TRACKS_def MAX_SUGGESTIONS_PER_ROOM_def OUTBOUND_QUEUE_CAPACITY_def
  MAX_TRACK_ID_BYTES_def MAX_TRACK_TEXT_BYTES_def MAX_THUMBNAIL_BYTES_def

definition bounded_text :: "ustr \<Rightarrow> nat \<Rightarrow> bool" where
  "bounded_text value max_bytes = (byte_len value \<le> max_bytes \<and> \<not> list_ex is_control value)"

definition bounded_track :: "track \<Rightarrow> bool" where
  "bounded_track t =
     (track_id t \<noteq> [] \<and> bounded_text (track_id t) MAX_TRACK_ID_BYTES \<and>
      bounded_text (title t) MAX_TRACK_TEXT_BYTES \<and> bounded_text (artist t) MAX_TRACK_TEXT_BYTES \<and>
      0 \<le>s duration_ms t \<and>
      (case thumbnail t of None \<Rightarrow> True
       | Some url \<Rightarrow> byte_len url \<le> MAX_THUMBNAIL_BYTES \<and>
           (starts_with (lit ''https://'') url \<or> starts_with (lit ''http://'') url)) \<and>
      (case queued_by t of None \<Rightarrow> True | Some name \<Rightarrow> bounded_text name 50))"

definition bounded_playback :: "playback \<Rightarrow> bool" where
  "bounded_playback p =
     (if pb_position_ms p <s 0 then False
      else if kind p = SetVolume \<and> (\<not> f64_is_finite (pb_volume p) \<or> \<not> f64_in_unit (pb_volume p))
      then False
      else if (case pb_track p of None \<Rightarrow> False | Some t \<Rightarrow> \<not> bounded_track t) then False
      else (case pb_queue p of None \<Rightarrow> True
            | Some q \<Rightarrow> length q \<le> MAX_QUEUE_TRACKS \<and> list_all bounded_track q))"

text \<open>\<open>sanitize\<close>: trim, drop control characters, keep fifty characters, never empty.\<close>

definition sanitize :: "ustr \<Rightarrow> ustr" where
  "sanitize s =
     (let cleaned = take 50 (filter (\<lambda>c. \<not> is_control c) (trim s))
      in if cleaned = [] then lit ''Guest'' else cleaned)"

text \<open>\<open>str::to_uppercase\<close>: exact on ASCII, a table beyond it.\<close>

definition to_uppercase :: "(uchar \<Rightarrow> ustr) \<Rightarrow> ustr \<Rightarrow> ustr" where
  "to_uppercase table s =
     concat (map (\<lambda>c. if c < 128 then [if 97 \<le> c \<and> c \<le> 122 then c - 32 else c] else table c) s)"

section \<open>State\<close>

type_synonym conn = nat

record peer =
  peer_username :: ustr
  tx :: conn
  connected :: bool
  session_token :: ustr
  disconnected_at :: "nat option"

record pending =
  pending_username :: ustr
  pending_tx :: conn

record room =
  room_host :: ustr
  peers :: "(ustr, peer) hmap"
  pending_joins :: "(ustr, pending) hmap"
  suggestions :: "(ustr, suggestion) hmap"
  room_track :: "track option"
  room_playing :: bool
  room_position_ms :: i64
  room_last_update_ms :: i64
  room_volume :: f64
  room_queue :: "track list"

record relay =
  rooms :: "(ustr, room) hmap"
  ident :: "conn \<Rightarrow> ustr option \<times> ustr option"
  outbound :: "conn \<Rightarrow> server_message list"
  alive :: "conn \<Rightarrow> bool"
  next_conn :: conn

definition relay_new :: relay where
  "relay_new = \<lparr>rooms = [], ident = (\<lambda>_. (None, None)), outbound = (\<lambda>_. []),
     alive = (\<lambda>_. False), next_conn = 0\<rparr>"

record draws =
  code_draws :: "nat list list"
  uid_draw :: ustr
  token_draw :: ustr
  wall_ms :: i64
  now_instant :: nat
  upper_table :: "uchar \<Rightarrow> ustr"

section \<open>Rooms on the wire, and sending\<close>

definition wire_users :: "room \<Rightarrow> user list" where
  "wire_users room =
     map (\<lambda>(uid, p). \<lparr>user_id = uid, username = peer_username p, is_host = (uid = room_host room),
            is_connected = connected p\<rparr>) (peers room)"

definition wire_state :: "ustr \<Rightarrow> room \<Rightarrow> room_state" where
  "wire_state code room =
     \<lparr>room_code = code, host_id = room_host room, users = wire_users room,
      current_track = room_track room, is_playing = room_playing room,
      position_ms = room_position_ms room, last_update_ms = room_last_update_ms room,
      volume = room_volume room, queue = room_queue room\<rparr>"

text \<open>The state normalised to the live position, as joins, syncs and reconnections send it.\<close>

definition live_state :: "i64 \<Rightarrow> ustr \<Rightarrow> room \<Rightarrow> room_state" where
  "live_state now code room =
     (let s = wire_state code room
      in s\<lparr>position_ms := live_position_ms s now, last_update_ms := now\<rparr>)"

definition tx_send :: "conn \<Rightarrow> server_message \<Rightarrow> relay \<Rightarrow> relay" where
  "tx_send c m r =
     (if alive r c \<and> length (outbound r c) < OUTBOUND_QUEUE_CAPACITY
      then r\<lparr>outbound := (outbound r)(c := outbound r c @ [m])\<rparr> else r)"

definition broadcast :: "server_message \<Rightarrow> ustr option \<Rightarrow> room \<Rightarrow> relay \<Rightarrow> relay" where
  "broadcast m except room r =
     fold (\<lambda>(uid, p) r. if connected p \<and> Some uid \<noteq> except then tx_send (tx p) m r else r)
       (peers room) r"

definition send_to :: "ustr \<Rightarrow> server_message \<Rightarrow> room \<Rightarrow> relay \<Rightarrow> relay" where
  "send_to uid m room r = (case hget (peers room) uid of Some p \<Rightarrow> tx_send (tx p) m r | None \<Rightarrow> r)"

definition host_is :: "room \<Rightarrow> ustr \<Rightarrow> bool" where
  "host_is room uid = (room_host room = uid)"

definition any_connected_other :: "ustr \<Rightarrow> room \<Rightarrow> ustr option" where
  "any_connected_other besides room =
     map_option fst (find (\<lambda>(uid, p). connected p \<and> uid \<noteq> besides) (peers room))"

definition host_is_reachable :: "room \<Rightarrow> bool" where
  "host_is_reachable room =
     (case hget (peers room) (room_host room) of Some p \<Rightarrow> connected p | None \<Rightarrow> False)"

definition err :: "string \<Rightarrow> string \<Rightarrow> server_message" where
  "err code message = ErrorMsg (lit code) (lit message)"

definition put_room :: "ustr \<Rightarrow> room \<Rightarrow> relay \<Rightarrow> relay" where
  "put_room code room r = r\<lparr>rooms := hput code room (rooms r)\<rparr>"

text \<open>The guard most branches open with: this connection has an identity, and its room exists.\<close>

definition in_room :: "conn \<Rightarrow> relay \<Rightarrow> (ustr \<Rightarrow> ustr \<Rightarrow> room \<Rightarrow> relay) \<Rightarrow> relay" where
  "in_room c r f =
     (case ident r c of
        (Some me, Some code) \<Rightarrow>
          (case hget (rooms r) code of Some room \<Rightarrow> f me code room | None \<Rightarrow> r)
      | _ \<Rightarrow> r)"

section \<open>The branches of dispatch\<close>

definition ping :: "conn \<Rightarrow> relay \<Rightarrow> relay" where
  "ping c r = tx_send c Pong r"

text \<open>\<open>gen_code\<close>: eight characters of the alphabet, from eight draws.\<close>

definition CODE_ALPHABET :: ustr where
  "CODE_ALPHABET = lit ''1234567890QWERTYUPASDFGHJKLZXCVBNM''"

definition gen_code :: "nat list \<Rightarrow> ustr" where
  "gen_code picks = map (\<lambda>i. CODE_ALPHABET ! (i mod length CODE_ALPHABET)) (take 8 picks)"

text \<open>A code is drawn until it is not a room's: \<open>None\<close> when the draws run out.\<close>

fun pick_code :: "ustr list \<Rightarrow> (ustr, room) hmap \<Rightarrow> ustr option" where
  "pick_code [] m = None"
| "pick_code (c # cs) m = (if hget m c = None then Some c else pick_code cs m)"

definition new_room :: "conn \<Rightarrow> draws \<Rightarrow> ustr \<Rightarrow> room" where
  "new_room c d name =
     \<lparr>room_host = uid_draw d,
      peers = [(uid_draw d, \<lparr>peer_username = sanitize name, tx = c, connected = True,
                  session_token = token_draw d, disconnected_at = None\<rparr>)],
      pending_joins = [], suggestions = [], room_track = None, room_playing = False,
      room_position_ms = 0, room_last_update_ms = 0, room_volume = Fin 1, room_queue = []\<rparr>"

definition create_room :: "conn \<Rightarrow> draws \<Rightarrow> ustr \<Rightarrow> relay \<Rightarrow> relay option" where
  "create_room c d name r =
     (if MAX_ROOMS \<le> length (rooms r)
      then Some (tx_send c (err ''server_full'' ''This relay has reached its room limit.'') r)
      else case pick_code (map gen_code (code_draws d)) (rooms r) of
        None \<Rightarrow> None
      | Some code \<Rightarrow>
          let room = new_room c d name;
              r = put_room code room r;
              r = r\<lparr>ident := (ident r)(c := (Some (uid_draw d), Some code))\<rparr>
          in Some (tx_send c (RoomCreated code (uid_draw d) (token_draw d) (wire_state code room)) r))"

definition join_room :: "conn \<Rightarrow> draws \<Rightarrow> ustr \<Rightarrow> ustr \<Rightarrow> relay \<Rightarrow> relay" where
  "join_room c d raw name r =
     (let code = to_uppercase (upper_table d) (trim raw)
      in case hget (rooms r) code of
           None \<Rightarrow> tx_send c (err ''room_not_found'' ''No room with that code.'') r
         | Some room \<Rightarrow>
             if \<not> host_is_reachable room
             then tx_send c (err ''host_unavailable'' ''The host isn't in that room right now.'') r
             else if MAX_USERS_PER_ROOM \<le> length (peers room) + length (pending_joins room)
             then tx_send c (err ''room_full'' ''That room is full.'') r
             else
               let uid = uid_draw d;
                   room = room\<lparr>pending_joins := hput uid
                       \<lparr>pending_username = sanitize name, pending_tx = c\<rparr> (pending_joins room)\<rparr>;
                   r = put_room code room r;
                   r = send_to (room_host room) (JoinRequest uid (sanitize name)) room r
               in r\<lparr>ident := (ident r)(c := (Some uid, Some code))\<rparr>)"

definition approve_join :: "conn \<Rightarrow> draws \<Rightarrow> ustr \<Rightarrow> relay \<Rightarrow> relay" where
  "approve_join c d joiner r = in_room c r (\<lambda>me code room.
     if \<not> host_is room me
     then tx_send c (err ''not_host'' ''Only the host can approve joins.'') r
     else case hget (pending_joins room) joiner of
       None \<Rightarrow> r
     | Some p \<Rightarrow>
         let token = token_draw d;
             room = room\<lparr>pending_joins := hdel joiner (pending_joins room),
               peers := hput joiner \<lparr>peer_username = pending_username p, tx = pending_tx p,
                 connected = True, session_token = token, disconnected_at = None\<rparr> (peers room)\<rparr>;
             state = live_state (wall_ms d) code room;
             user = \<lparr>user_id = joiner, username = pending_username p, is_host = False,
               is_connected = True\<rparr>;
             r = put_room code room r;
             r = tx_send (pending_tx p) (JoinApproved joiner token state) r
         in broadcast (UserJoined user) (Some joiner) room r)"

definition reject_join :: "conn \<Rightarrow> ustr \<Rightarrow> relay \<Rightarrow> relay" where
  "reject_join c joiner r = in_room c r (\<lambda>me code room.
     if \<not> host_is room me then r
     else case hget (pending_joins room) joiner of
       None \<Rightarrow> r
     | Some p \<Rightarrow>
         tx_send (pending_tx p) (JoinRejected (lit ''The host declined your request.''))
           (put_room code (room\<lparr>pending_joins := hdel joiner (pending_joins room)\<rparr>) r))"

text \<open>What an accepted playback action does to the room, and the action as it is rebroadcast.\<close>

fun apply_playback :: "i64 \<Rightarrow> playback \<Rightarrow> room \<Rightarrow> room \<times> playback" where
  "apply_playback now p room =
     (case kind p of
        Play \<Rightarrow>
          (room\<lparr>room_playing := True, room_position_ms := pb_position_ms p,
             room_last_update_ms := now\<rparr>, p\<lparr>server_time_ms := now\<rparr>)
      | Pause \<Rightarrow>
          (room\<lparr>room_playing := False, room_position_ms := pb_position_ms p,
             room_last_update_ms := now\<rparr>, p)
      | Seek \<Rightarrow>
          (room\<lparr>room_position_ms := pb_position_ms p, room_last_update_ms := now\<rparr>, p)
      | ChangeTrack \<Rightarrow>
          (let room = room\<lparr>room_track := pb_track p, room_position_ms := pb_position_ms p,
                 room_playing := pb_playing p, room_last_update_ms := now\<rparr>
           in (case pb_queue p of Some q \<Rightarrow> room\<lparr>room_queue := q\<rparr> | None \<Rightarrow> room, p))
      | SyncQueue \<Rightarrow>
          (case pb_queue p of Some q \<Rightarrow> room\<lparr>room_queue := q\<rparr> | None \<Rightarrow> room, p)
      | SetVolume \<Rightarrow> (room\<lparr>room_volume := pb_volume p\<rparr>, p))"

declare apply_playback.simps [simp del]

definition playback_msg :: "conn \<Rightarrow> draws \<Rightarrow> playback \<Rightarrow> relay \<Rightarrow> relay" where
  "playback_msg c d p r =
     (if \<not> bounded_playback p
      then tx_send c (err ''invalid_playback'' ''Playback payload exceeds relay limits.'') r
      else in_room c r (\<lambda>me code room.
        if \<not> host_is room me
        then tx_send c (err ''not_host'' ''Only the host controls playback.'') r
        else let (room, p) = apply_playback (wall_ms d) p room
             in broadcast (SyncPlayback p) (Some me) room (put_room code room r)))"

definition request_sync :: "conn \<Rightarrow> draws \<Rightarrow> relay \<Rightarrow> relay" where
  "request_sync c d r = in_room c r (\<lambda>me code room.
     if hget (peers room) me = None then r
     else tx_send c (SyncState (live_state (wall_ms d) code room)) r)"

definition suggest :: "conn \<Rightarrow> draws \<Rightarrow> track \<Rightarrow> relay \<Rightarrow> relay" where
  "suggest c d t r =
     (if \<not> bounded_track t
      then tx_send c (err ''invalid_track'' ''Suggested track exceeds relay limits.'') r
      else in_room c r (\<lambda>me code room.
        if host_is room me then r
        else if MAX_SUGGESTIONS_PER_ROOM \<le> length (suggestions room)
        then tx_send c (err ''suggestions_full'' ''This room has too many pending suggestions.'') r
        else case hget (peers room) me of
          None \<Rightarrow> r
        | Some peer \<Rightarrow>
            let s = \<lparr>suggestion_id = token_draw d, from_user_id = me,
                      from_username = peer_username peer, suggested = t\<rparr>;
                room = room\<lparr>suggestions := hput (suggestion_id s) s (suggestions room)\<rparr>
            in send_to (room_host room) (SuggestionReceived s) room (put_room code room r)))"

definition approve_suggestion :: "conn \<Rightarrow> ustr \<Rightarrow> relay \<Rightarrow> relay" where
  "approve_suggestion c sid r = in_room c r (\<lambda>me code room.
     if \<not> host_is room me then r
     else case hget (suggestions room) sid of
       None \<Rightarrow> r
     | Some s \<Rightarrow>
         let room = room\<lparr>suggestions := hdel sid (suggestions room)\<rparr>
         in send_to (from_user_id s) (SuggestionApproved sid) room (put_room code room r))"

definition reject_suggestion :: "conn \<Rightarrow> ustr \<Rightarrow> relay \<Rightarrow> relay" where
  "reject_suggestion c sid r = in_room c r (\<lambda>me code room.
     if \<not> host_is room me then r
     else case hget (suggestions room) sid of
       None \<Rightarrow> r
     | Some s \<Rightarrow>
         let room = room\<lparr>suggestions := hdel sid (suggestions room)\<rparr>
         in send_to (from_user_id s)
              (SuggestionRejected sid (lit ''The host declined your suggestion.'')) room
              (put_room code room r))"

definition kick_user :: "conn \<Rightarrow> ustr \<Rightarrow> relay \<Rightarrow> relay" where
  "kick_user c target r = in_room c r (\<lambda>me code room.
     if \<not> host_is room me \<or> target = me then r
     else case hget (peers room) target of
       None \<Rightarrow> r
     | Some p \<Rightarrow>
         let room = room\<lparr>peers := hdel target (peers room)\<rparr>;
             r = put_room code room r;
             r = tx_send (tx p) (Kicked (lit ''The host removed you from the room.'')) r
         in broadcast (UserLeft target) None room r)"

definition transfer_host :: "conn \<Rightarrow> ustr \<Rightarrow> relay \<Rightarrow> relay" where
  "transfer_host c target r = in_room c r (\<lambda>me code room.
     if \<not> host_is room me \<or> hget (peers room) target = None then r
     else let room = room\<lparr>room_host := target\<rparr>
          in broadcast (HostChanged target) None room (put_room code room r))"

text \<open>The first room, in table order, with a peer holding the token.\<close>

fun find_token :: "ustr \<Rightarrow> (ustr, room) hmap \<Rightarrow> (ustr \<times> ustr) option" where
  "find_token token [] = None"
| "find_token token ((code, room) # m) =
     (case find (\<lambda>(_, p). session_token p = token) (peers room) of
        Some (uid, _) \<Rightarrow> Some (code, uid)
      | None \<Rightarrow> find_token token m)"

definition reattach :: "conn \<Rightarrow> ustr \<Rightarrow> room \<Rightarrow> room" where
  "reattach c uid room =
     (case hget (peers room) uid of
        Some p \<Rightarrow> room\<lparr>peers := hput uid
          (p\<lparr>tx := c, connected := True, disconnected_at := None\<rparr>) (peers room)\<rparr>
      | None \<Rightarrow> room)"

definition reconnect :: "conn \<Rightarrow> draws \<Rightarrow> ustr \<Rightarrow> relay \<Rightarrow> relay" where
  "reconnect c d token r =
     (case find_token token (rooms r) of
        None \<Rightarrow> tx_send c (err ''session_expired'' ''Your session has expired.'') r
      | Some (code, uid) \<Rightarrow>
          (case hget (rooms r) code of
             None \<Rightarrow> r
           | Some room \<Rightarrow>
               let room = reattach c uid room;
                   r = put_room code room r;
                   r = tx_send c (Reconnected uid (host_is room uid)
                         (live_state (wall_ms d) code room)) r;
                   r = broadcast (UserReconnected uid) (Some uid) room r
               in r\<lparr>ident := (ident r)(c := (Some uid, Some code))\<rparr>))"

text \<open>\<open>remove_member\<close>: explicit leave, or a reconnection slot that expired.\<close>

definition hand_off :: "ustr \<Rightarrow> ustr \<Rightarrow> room \<Rightarrow> relay \<Rightarrow> room \<times> relay" where
  "hand_off code me room r =
     (if room_host room = me
      then (case any_connected_other me room of
              Some next \<Rightarrow> (let room = room\<lparr>room_host := next\<rparr>
                           in (room, broadcast (HostChanged next) None room r))
            | None \<Rightarrow> (room, r))
      else (room, r))"

definition remove_member :: "ustr \<Rightarrow> ustr \<Rightarrow> bool \<Rightarrow> relay \<Rightarrow> relay" where
  "remove_member code me graceful r =
     (case hget (rooms r) code of
        None \<Rightarrow> r
      | Some room \<Rightarrow>
          let was_peer = (hget (peers room) me \<noteq> None);
              room = room\<lparr>pending_joins := hdel me (pending_joins room),
                          peers := hdel me (peers room)\<rparr>;
              r = (if was_peer \<and> graceful then broadcast (UserLeft me) None room r else r);
              (room, r) = hand_off code me room r
          in if peers room = []
             then (fold (\<lambda>(_, p). tx_send (pending_tx p)
                           (JoinRejected (lit ''The host closed the session.'')))
                     (pending_joins room) r)\<lparr>rooms := hdel code (rooms r)\<rparr>
             else put_room code room r)"

definition leave_room :: "conn \<Rightarrow> relay \<Rightarrow> relay" where
  "leave_room c r =
     (let r' = r\<lparr>ident := (ident r)(c := (None, None))\<rparr>
      in case ident r c of
           (Some me, Some code) \<Rightarrow> remove_member code me True r'
         | _ \<Rightarrow> r')"

fun dispatch :: "conn \<Rightarrow> draws \<Rightarrow> client_message \<Rightarrow> relay \<Rightarrow> relay option" where
  "dispatch c d Ping r = Some (ping c r)"
| "dispatch c d (CreateRoom name) r = create_room c d name r"
| "dispatch c d (JoinRoom code name) r = Some (join_room c d code name r)"
| "dispatch c d (ApproveJoin joiner) r = Some (approve_join c d joiner r)"
| "dispatch c d (RejectJoin joiner) r = Some (reject_join c joiner r)"
| "dispatch c d (PlaybackMsg p) r = Some (playback_msg c d p r)"
| "dispatch c d RequestSync r = Some (request_sync c d r)"
| "dispatch c d (Suggest t) r = Some (suggest c d t r)"
| "dispatch c d (ApproveSuggestion sid) r = Some (approve_suggestion c sid r)"
| "dispatch c d (RejectSuggestion sid) r = Some (reject_suggestion c sid r)"
| "dispatch c d (KickUser target) r = Some (kick_user c target r)"
| "dispatch c d (TransferHost target) r = Some (transfer_host c target r)"
| "dispatch c d (Reconnect token) r = Some (reconnect c d token r)"
| "dispatch c d LeaveRoom r = Some (leave_room c r)"

section \<open>Connections and the sweep\<close>

text \<open>\<open>handle_disconnect\<close>: the socket dropped without leaving; the slot is kept.\<close>

definition handle_disconnect :: "ustr option \<Rightarrow> ustr option \<Rightarrow> nat \<Rightarrow> relay \<Rightarrow> relay" where
  "handle_disconnect uid code_opt now r =
     (case (uid, code_opt) of
        (Some me, Some code) \<Rightarrow>
          (case hget (rooms r) code of
             None \<Rightarrow> r
           | Some room \<Rightarrow>
               if hget (pending_joins room) me \<noteq> None
               then put_room code (room\<lparr>pending_joins := hdel me (pending_joins room)\<rparr>) r
               else case hget (peers room) me of
                 None \<Rightarrow> r
               | Some p \<Rightarrow>
                   let room = room\<lparr>peers := hput me
                         (p\<lparr>connected := False, disconnected_at := Some now\<rparr>) (peers room)\<rparr>;
                       r = broadcast (UserDisconnected me) (Some me) room r;
                       (room, r) = hand_off code me room r
                   in put_room code room r)
      | _ \<Rightarrow> r)"

text \<open>\<open>handle_conn\<close>: a new socket, and the end of one (its writer task is aborted).\<close>

definition connect :: "relay \<Rightarrow> relay" where
  "connect r = r\<lparr>alive := (alive r)(next_conn r := True), next_conn := next_conn r + 1\<rparr>"

definition disconnect :: "conn \<Rightarrow> nat \<Rightarrow> relay \<Rightarrow> relay" where
  "disconnect c now r =
     (let r = handle_disconnect (fst (ident r c)) (snd (ident r c)) now r
      in r\<lparr>alive := (alive r)(c := False), ident := (ident r)(c := (None, None))\<rparr>)"

text \<open>The writer task takes the next message of its channel.\<close>

definition drain :: "conn \<Rightarrow> relay \<Rightarrow> relay" where
  "drain c r = r\<lparr>outbound := (outbound r)(c := tl (outbound r c))\<rparr>"

definition grace_expired :: "nat \<Rightarrow> peer \<Rightarrow> bool" where
  "grace_expired now p =
     (\<not> connected p \<and>
      (case disconnected_at p of Some t \<Rightarrow> RECONNECT_GRACE < now - t | None \<Rightarrow> False))"

definition sweep_room :: "nat \<Rightarrow> ustr \<Rightarrow> relay \<Rightarrow> relay" where
  "sweep_room now code r =
     (case hget (rooms r) code of
        None \<Rightarrow> r
      | Some room \<Rightarrow>
          fold (\<lambda>uid. remove_member code uid False)
            (map fst (filter (\<lambda>(_, p). grace_expired now p) (peers room))) r)"

definition cleanup :: "nat \<Rightarrow> relay \<Rightarrow> relay" where
  "cleanup now r = fold (sweep_room now) (hkeys (rooms r)) r"

text \<open>The relay as a whole. A hash table may be walked in another order at any time.\<close>

inductive relay_step :: "relay \<Rightarrow> relay \<Rightarrow> bool" where
  rconnect: "relay_step r (connect r)"
| rdispatch: "alive r c \<Longrightarrow> dispatch c d m r = Some r' \<Longrightarrow> relay_step r r'"
| rdisconnect: "alive r c \<Longrightarrow> relay_step r (disconnect c now r)"
| rdrain: "relay_step r (drain c r)"
| rcleanup: "relay_step r (cleanup now r)"
| rehash_rooms: "mset m = mset (rooms r) \<Longrightarrow> relay_step r (r\<lparr>rooms := m\<rparr>)"
| rehash_peers: "hget (rooms r) code = Some room \<Longrightarrow> mset ps = mset (peers room) \<Longrightarrow>
    mset ws = mset (pending_joins room) \<Longrightarrow>
    relay_step r (put_room code (room\<lparr>peers := ps, pending_joins := ws\<rparr>) r)"

inductive_cases relay_stepE: "relay_step r r'"

abbreviation relay_reachable :: "relay \<Rightarrow> bool" where
  "relay_reachable \<equiv> reachable (\<lambda>r. r = relay_new) relay_step"

section \<open>What sending leaves alone\<close>

lemma tx_send_simps [simp]:
  "rooms (tx_send c m r) = rooms r" "ident (tx_send c m r) = ident r"
  "alive (tx_send c m r) = alive r" "next_conn (tx_send c m r) = next_conn r"
  by (simp_all add: tx_send_def)

text \<open>Any function of the relay that every send keeps is kept by a fold of sends.\<close>

lemma fold_sends:
  assumes "\<And>c m r. g (tx_send c m r) = g r"
    and "\<And>x r. f x r = r \<or> (\<exists>c m. f x r = tx_send c m r)"
  shows "g (fold f xs r) = g r"
proof (induction xs arbitrary: r)
  case (Cons x xs)
  have "g (f x r) = g r" using assms(2) [of x r] assms(1) by auto
  with Cons show ?case by simp
qed simp

lemma broadcast_keeps: "(\<And>c m r. g (tx_send c m r) = g r) \<Longrightarrow> g (broadcast m e room r) = g r"
  unfolding broadcast_def by (rule fold_sends) (auto split: prod.splits)

lemma broadcast_simps [simp]:
  "rooms (broadcast m e room r) = rooms r" "ident (broadcast m e room r) = ident r"
  "alive (broadcast m e room r) = alive r" "next_conn (broadcast m e room r) = next_conn r"
  by (rule broadcast_keeps, simp)+

lemma send_to_simps [simp]:
  "rooms (send_to uid m room r) = rooms r" "ident (send_to uid m room r) = ident r"
  "alive (send_to uid m room r) = alive r" "next_conn (send_to uid m room r) = next_conn r"
  by (simp_all add: send_to_def split: option.splits)

lemma put_room_simps [simp]:
  "rooms (put_room code room r) = hput code room (rooms r)" "ident (put_room code room r) = ident r"
  "alive (put_room code room r) = alive r" "outbound (put_room code room r) = outbound r"
  "next_conn (put_room code room r) = next_conn r"
  by (simp_all add: put_room_def)

section \<open>The relay stays within its limits\<close>

definition clean_name :: "ustr \<Rightarrow> bool" where
  "clean_name s = (s \<noteq> [] \<and> length s \<le> 50 \<and> \<not> list_ex is_control s)"

definition room_ok :: "room \<Rightarrow> bool" where
  "room_ok room =
     (hwf (peers room) \<and> hwf (pending_joins room) \<and> hwf (suggestions room) \<and>
      length (peers room) + length (pending_joins room) \<le> MAX_USERS_PER_ROOM \<and>
      length (suggestions room) \<le> MAX_SUGGESTIONS_PER_ROOM \<and>
      length (room_queue room) \<le> MAX_QUEUE_TRACKS \<and> list_all bounded_track (room_queue room) \<and>
      (case room_track room of None \<Rightarrow> True | Some t \<Rightarrow> bounded_track t) \<and>
      \<not> room_position_ms room <s 0 \<and> f64_in_unit (room_volume room) \<and>
      hall (\<lambda>s. bounded_track (suggested s)) (suggestions room) \<and>
      hall (\<lambda>p. clean_name (peer_username p)) (peers room) \<and>
      hall (\<lambda>p. clean_name (pending_username p)) (pending_joins room))"

definition channels_ok :: "relay \<Rightarrow> bool" where
  "channels_ok r \<longleftrightarrow> (\<forall>c. length (outbound r c) \<le> OUTBOUND_QUEUE_CAPACITY)"

definition rooms_ok :: "(ustr, room) hmap \<Rightarrow> bool" where
  "rooms_ok m \<longleftrightarrow> hwf m \<and> length m \<le> MAX_ROOMS \<and> hall room_ok m"

definition relay_ok :: "relay \<Rightarrow> bool" where
  "relay_ok r \<longleftrightarrow> rooms_ok (rooms r) \<and> channels_ok r"

lemma clean_name_sanitize: "clean_name (sanitize s)"
proof -
  have "\<not> list_ex is_control (take n (filter (\<lambda>c. \<not> is_control c) xs))" for n xs
    by (auto simp: list_ex_iff dest: in_set_takeD)
  then show ?thesis
    by (auto simp: sanitize_def clean_name_def Let_def is_control_def lit_Cons)
qed

lemma channels_ok_tx_send [intro]: "channels_ok r \<Longrightarrow> channels_ok (tx_send c m r)"
  by (auto simp: channels_ok_def tx_send_def)

lemma channels_ok_fold:
  assumes "channels_ok r" and "\<And>x r. channels_ok r \<Longrightarrow> channels_ok (f x r)"
  shows "channels_ok (fold f xs r)"
  using assms by (induction xs arbitrary: r) auto

lemma channels_ok_broadcast [intro]: "channels_ok r \<Longrightarrow> channels_ok (broadcast m e room r)"
  unfolding broadcast_def by (erule channels_ok_fold) (auto split: prod.splits)

lemma channels_ok_send_to [intro]: "channels_ok r \<Longrightarrow> channels_ok (send_to uid m room r)"
  by (auto simp: send_to_def split: option.splits)

lemma channels_ok_same [simp]:
  "channels_ok (r\<lparr>ident := i\<rparr>) = channels_ok r" "channels_ok (r\<lparr>rooms := m\<rparr>) = channels_ok r"
  "channels_ok (r\<lparr>alive := a\<rparr>) = channels_ok r" "channels_ok (r\<lparr>next_conn := n\<rparr>) = channels_ok r"
  "channels_ok (put_room code room r) = channels_ok r"
  by (simp_all add: channels_ok_def put_room_def)

lemma relay_ok_tx_send [intro]: "relay_ok r \<Longrightarrow> relay_ok (tx_send c m r)"
  by (auto simp: relay_ok_def)

lemma relay_ok_broadcast [intro]: "relay_ok r \<Longrightarrow> relay_ok (broadcast m e room r)"
  by (auto simp: relay_ok_def)

lemma relay_ok_send_to [intro]: "relay_ok r \<Longrightarrow> relay_ok (send_to uid m room r)"
  by (auto simp: relay_ok_def)

lemma relay_ok_ident [simp]: "relay_ok (r\<lparr>ident := i\<rparr>) = relay_ok r"
  by (simp add: relay_ok_def)

lemma relay_ok_put_room:
  assumes "relay_ok r" "room_ok room"
    and "code \<in> set (hkeys (rooms r)) \<or> length (rooms r) < MAX_ROOMS"
  shows "relay_ok (put_room code room r)"
  using assms by (auto simp: relay_ok_def rooms_ok_def length_hput)

lemma relay_ok_put_known [intro]:
  "relay_ok r \<Longrightarrow> room_ok room \<Longrightarrow> hget (rooms r) code = Some old \<Longrightarrow>
   relay_ok (put_room code room r)"
  by (rule relay_ok_put_room) (auto dest: hget_mem_keys)

lemma relay_ok_room: "relay_ok r \<Longrightarrow> hget (rooms r) code = Some room \<Longrightarrow> room_ok room"
  by (auto simp: relay_ok_def rooms_ok_def elim: hall_hget)

lemma in_room_ok:
  assumes "relay_ok r"
    and "\<And>me code room. hget (rooms r) code = Some room \<Longrightarrow> room_ok room \<Longrightarrow> relay_ok (f me code room)"
  shows "relay_ok (in_room c r f)"
  using assms by (auto simp: in_room_def relay_ok_room split: option.splits prod.splits)

text \<open>Each way a room is updated keeps it well formed.\<close>

lemma room_ok_simps [simp]:
  "room_ok (room\<lparr>room_host := h\<rparr>) = room_ok room"
  "room_ok (room\<lparr>room_playing := b\<rparr>) = room_ok room"
  "room_ok (room\<lparr>room_last_update_ms := t\<rparr>) = room_ok room"
  by (simp_all add: room_ok_def)

lemma room_ok_del_pending: "room_ok room \<Longrightarrow>
    room_ok (room\<lparr>pending_joins := hdel uid (pending_joins room)\<rparr>)"
  using length_hdel_le [of uid "pending_joins room"] by (auto simp: room_ok_def)

lemma room_ok_del_peer: "room_ok room \<Longrightarrow> room_ok (room\<lparr>peers := hdel uid (peers room)\<rparr>)"
  using length_hdel_le [of uid "peers room"] by (auto simp: room_ok_def)

lemma room_ok_del_suggestion: "room_ok room \<Longrightarrow>
    room_ok (room\<lparr>suggestions := hdel sid (suggestions room)\<rparr>)"
  using length_hdel_le [of sid "suggestions room"] by (auto simp: room_ok_def)

lemma room_ok_put_pending:
  assumes "room_ok room" "clean_name (pending_username w)"
    and "length (peers room) + length (pending_joins room) < MAX_USERS_PER_ROOM"
  shows "room_ok (room\<lparr>pending_joins := hput uid w (pending_joins room)\<rparr>)"
  using assms by (auto simp: room_ok_def length_hput)

lemma room_ok_put_suggestion:
  assumes "room_ok room" "bounded_track (suggested s)"
    and "length (suggestions room) < MAX_SUGGESTIONS_PER_ROOM"
  shows "room_ok (room\<lparr>suggestions := hput sid s (suggestions room)\<rparr>)"
  using assms by (auto simp: room_ok_def length_hput)

lemma room_ok_update_peer:
  assumes "room_ok room" "hget (peers room) uid = Some p" "peer_username q = peer_username p"
  shows "room_ok (room\<lparr>peers := hput uid q (peers room)\<rparr>)"
proof -
  have "clean_name (peer_username q)"
    using assms by (auto simp: room_ok_def dest: hall_hget)
  then show ?thesis
    using assms(1) hget_mem_keys [OF assms(2)] by (auto simp: room_ok_def length_hput)
qed

lemma room_ok_admit:
  assumes "room_ok room" "hget (pending_joins room) uid = Some w"
    and "peer_username q = pending_username w"
  shows "room_ok (room\<lparr>pending_joins := hdel uid (pending_joins room),
                       peers := hput uid q (peers room)\<rparr>)"
proof -
  have "Suc (length (hdel uid (pending_joins room))) = length (pending_joins room)"
    using assms(1) hget_mem_keys [OF assms(2)] by (intro length_hdel) (simp_all add: room_ok_def)
  moreover have "clean_name (peer_username q)"
    using assms by (auto simp: room_ok_def dest: hall_hget)
  ultimately show ?thesis
    using assms(1) by (auto simp: room_ok_def length_hput)
qed

lemma bounded_playbackD:
  assumes "bounded_playback p"
  shows "\<not> pb_position_ms p <s 0"
    and "kind p = SetVolume \<Longrightarrow> f64_in_unit (pb_volume p)"
    and "pb_track p = Some t \<Longrightarrow> bounded_track t"
    and "pb_queue p = Some q \<Longrightarrow> length q \<le> MAX_QUEUE_TRACKS \<and> list_all bounded_track q"
  using assms by (simp_all add: bounded_playback_def split: if_splits)

lemma room_ok_set_queue: "room_ok room \<Longrightarrow> length q \<le> MAX_QUEUE_TRACKS \<and> list_all bounded_track q \<Longrightarrow>
    room_ok (room\<lparr>room_queue := q\<rparr>)"
  by (simp add: room_ok_def)

lemma room_ok_set_position: "room_ok room \<Longrightarrow> \<not> pos <s 0 \<Longrightarrow>
    room_ok (room\<lparr>room_position_ms := pos\<rparr>)"
  by (simp add: room_ok_def)

lemma room_ok_set_volume: "room_ok room \<Longrightarrow> f64_in_unit v \<Longrightarrow> room_ok (room\<lparr>room_volume := v\<rparr>)"
  by (simp add: room_ok_def)

lemma room_ok_set_track: "room_ok room \<Longrightarrow> (\<And>t. tr = Some t \<Longrightarrow> bounded_track t) \<Longrightarrow>
    room_ok (room\<lparr>room_track := tr\<rparr>)"
  by (cases tr) (simp_all add: room_ok_def)

lemmas room_ok_sets = room_ok_set_queue room_ok_set_position room_ok_set_volume room_ok_set_track

lemma room_ok_playback:
  assumes room: "room_ok room" and p: "bounded_playback p"
    and res: "apply_playback now p room = (room', p')"
  shows "room_ok room'"
proof -
  note b = bounded_playbackD [OF p]
  show ?thesis
  proof (cases "kind p")
    case SetVolume
    with res b(2) show ?thesis by (auto simp: apply_playback.simps intro: room_ok_sets room)
  qed (use res b room in \<open>auto simp: apply_playback.simps Let_def split: option.splits
        intro!: room_ok_sets\<close>)
qed

text \<open>One lemma per operation.\<close>

lemma relay_ok_create:
  assumes "relay_ok r" "create_room c d name r = Some r'"
  shows "relay_ok r'"
proof (cases "MAX_ROOMS \<le> length (rooms r)")
  case False
  have "room_ok (new_room c d name)"
    using clean_name_sanitize [of name]
    by (simp add: room_ok_def new_room_def hwf_def MAX_USERS_PER_ROOM_def)
  with False assms show ?thesis
    by (auto simp: create_room_def Let_def not_le split: option.splits
        intro!: relay_ok_tx_send relay_ok_put_room)
qed (use assms in \<open>auto simp: create_room_def\<close>)

lemma relay_ok_join: "relay_ok r \<Longrightarrow> relay_ok (join_room c d raw name r)"
  by (auto simp: join_room_def Let_def clean_name_sanitize split: option.split
      intro!: relay_ok_send_to relay_ok_put_known room_ok_put_pending elim: relay_ok_room)

lemma relay_ok_approve: "relay_ok r \<Longrightarrow> relay_ok (approve_join c d joiner r)"
  unfolding approve_join_def
  by (rule in_room_ok) (auto simp: Let_def split: option.split intro!: relay_ok_broadcast
      relay_ok_tx_send relay_ok_put_known room_ok_admit)

lemma relay_ok_reject: "relay_ok r \<Longrightarrow> relay_ok (reject_join c joiner r)"
  unfolding reject_join_def
  by (rule in_room_ok) (auto split: option.split intro!: relay_ok_tx_send relay_ok_put_known
      room_ok_del_pending)

lemma relay_ok_put_played:
  assumes "relay_ok r" "bounded_playback p" "hget (rooms r) code = Some room" "room_ok room"
    and "apply_playback now p room = (room', p')"
  shows "relay_ok (put_room code room' r)"
  using assms(1) room_ok_playback [OF assms(4,2,5)] assms(3) by (rule relay_ok_put_known)

lemma relay_ok_playback: "relay_ok r \<Longrightarrow> relay_ok (playback_msg c d p r)"
  unfolding playback_msg_def
  by (auto split: prod.split intro!: in_room_ok relay_ok_broadcast relay_ok_tx_send
      intro: relay_ok_put_played)

lemma relay_ok_sync: "relay_ok r \<Longrightarrow> relay_ok (request_sync c d r)"
  unfolding request_sync_def by (auto intro!: in_room_ok)

lemma relay_ok_suggest: "relay_ok r \<Longrightarrow> relay_ok (suggest c d t r)"
  unfolding suggest_def
  by (auto simp: Let_def split: option.split intro!: in_room_ok relay_ok_send_to
      relay_ok_put_known room_ok_put_suggestion)

lemma relay_ok_approve_suggestion: "relay_ok r \<Longrightarrow> relay_ok (approve_suggestion c sid r)"
  unfolding approve_suggestion_def
  by (auto simp: Let_def split: option.split intro!: in_room_ok relay_ok_send_to
      relay_ok_put_known room_ok_del_suggestion)

lemma relay_ok_reject_suggestion: "relay_ok r \<Longrightarrow> relay_ok (reject_suggestion c sid r)"
  unfolding reject_suggestion_def
  by (auto simp: Let_def split: option.split intro!: in_room_ok relay_ok_send_to
      relay_ok_put_known room_ok_del_suggestion)

lemma relay_ok_kick: "relay_ok r \<Longrightarrow> relay_ok (kick_user c target r)"
  unfolding kick_user_def
  by (auto simp: Let_def split: option.split intro!: in_room_ok relay_ok_broadcast
      relay_ok_tx_send relay_ok_put_known room_ok_del_peer)

lemma relay_ok_transfer: "relay_ok r \<Longrightarrow> relay_ok (transfer_host c target r)"
  unfolding transfer_host_def
  by (auto simp: Let_def intro!: in_room_ok relay_ok_broadcast relay_ok_put_known)

lemma room_ok_reattach: "room_ok room \<Longrightarrow> room_ok (reattach c uid room)"
  by (auto simp: reattach_def split: option.split intro: room_ok_update_peer)

lemma relay_ok_reconnect: "relay_ok r \<Longrightarrow> relay_ok (reconnect c d token r)"
  by (auto simp: reconnect_def Let_def split: option.split intro!: relay_ok_broadcast
      relay_ok_tx_send relay_ok_put_known room_ok_reattach elim: relay_ok_room)

lemma hand_off_ok:
  assumes "hand_off code me room r = (room', r')"
  shows "room_ok room \<Longrightarrow> room_ok room'" and "relay_ok r \<Longrightarrow> relay_ok r'"
    and "rooms r' = rooms r" and "peers room' = peers room"
    and "pending_joins room' = pending_joins room" and "ident r' = ident r"
    and "next_conn r' = next_conn r" and "alive r' = alive r"
  using assms by (auto simp: hand_off_def Let_def split: if_splits option.splits)

lemma relay_ok_close:
  assumes "relay_ok r" "\<And>x r. relay_ok r \<Longrightarrow> relay_ok (f x r)"
  shows "relay_ok ((fold f xs r)\<lparr>rooms := hdel code m\<rparr>) \<longleftrightarrow> rooms_ok (hdel code m)"
proof -
  have "relay_ok (fold f xs r)"
    using assms by (induction xs arbitrary: r) auto
  then show ?thesis by (simp add: relay_ok_def)
qed

lemma rooms_ok_hdel: "rooms_ok m \<Longrightarrow> rooms_ok (hdel code m)"
  using length_hdel_le [of code m] by (auto simp: rooms_ok_def)

lemma remove_member_eq:
  assumes "hget (rooms r) code = Some room"
    and "room1 = room\<lparr>pending_joins := hdel me (pending_joins room), peers := hdel me (peers room)\<rparr>"
    and "r1 = (if hget (peers room) me \<noteq> None \<and> graceful
               then broadcast (UserLeft me) None room1 r else r)"
    and "hand_off code me room1 r1 = (room2, r2)"
  shows "remove_member code me graceful r =
    (if peers room2 = []
     then (fold (\<lambda>(_, p). tx_send (pending_tx p)
              (JoinRejected (lit ''The host closed the session.''))) (pending_joins room2) r2)
            \<lparr>rooms := hdel code (rooms r2)\<rparr>
     else put_room code room2 r2)"
  by (simp only: remove_member_def Let_def assms(1) option.case assms(2) [symmetric]
      assms(3) [symmetric] assms(4) prod.case)

lemma relay_ok_remove:
  assumes "relay_ok r"
  shows "relay_ok (remove_member code me graceful r)"
proof (cases "hget (rooms r) code")
  case (Some room)
  define room1 where "room1 = room\<lparr>pending_joins := hdel me (pending_joins room),
    peers := hdel me (peers room)\<rparr>"
  define r1 where "r1 = (if hget (peers room) me \<noteq> None \<and> graceful
    then broadcast (UserLeft me) None room1 r else r)"
  obtain room2 r2 where ho: "hand_off code me room1 r1 = (room2, r2)" by fastforce
  have "room_ok (room\<lparr>pending_joins := hdel me (pending_joins room)\<rparr>)"
    using assms Some by (intro room_ok_del_pending relay_ok_room)
  from room_ok_del_peer [OF this, of me] have room1: "room_ok room1" by (simp add: room1_def)
  have r1: "relay_ok r1" "rooms r1 = rooms r" using assms by (auto simp: r1_def)
  have "rooms_ok (hdel code (rooms r))"
    using assms by (intro rooms_ok_hdel) (simp add: relay_ok_def)
  with hand_off_ok [OF ho] room1 r1 Some show ?thesis
    unfolding remove_member_eq [OF Some room1_def r1_def ho]
    by (auto split: prod.split intro!: relay_ok_close [THEN iffD2])
qed (use assms in \<open>simp add: remove_member_def\<close>)

lemma relay_ok_leave: "relay_ok r \<Longrightarrow> relay_ok (leave_room c r)"
  by (auto simp: leave_room_def Let_def split: option.split prod.split intro: relay_ok_remove)

lemma relay_ok_dispatch:
  assumes "relay_ok r" "dispatch c d m r = Some r'"
  shows "relay_ok r'"
  using assms
  by (cases m) (auto simp: ping_def intro: relay_ok_create relay_ok_join relay_ok_approve
      relay_ok_reject relay_ok_playback relay_ok_sync relay_ok_suggest relay_ok_approve_suggestion
      relay_ok_reject_suggestion relay_ok_kick relay_ok_transfer relay_ok_reconnect relay_ok_leave)

lemma relay_ok_handle_disconnect:
  assumes "relay_ok r"
  shows "relay_ok (handle_disconnect uid code_opt now r)"
proof (cases "\<exists>me code room. uid = Some me \<and> code_opt = Some code \<and> hget (rooms r) code = Some room")
  case True
  then obtain me code room where u: "uid = Some me" "code_opt = Some code"
      "hget (rooms r) code = Some room" by blast
  then have ok: "room_ok room" using assms by (auto elim: relay_ok_room)
  show ?thesis
  proof (cases "hget (pending_joins room) me")
    case None
    show ?thesis
    proof (cases "hget (peers room) me")
      case (Some p)
      let ?room = "room\<lparr>peers := hput me (p\<lparr>connected := False, disconnected_at := Some now\<rparr>)
        (peers room)\<rparr>"
      obtain room2 r2 where ho: "hand_off code me ?room
          (broadcast (UserDisconnected me) (Some me) ?room r) = (room2, r2)" by fastforce
      have "room_ok ?room" using ok Some by (intro room_ok_update_peer) auto
      with hand_off_ok [OF ho] ho assms u None Some show ?thesis
        by (auto simp: handle_disconnect_def Let_def intro!: relay_ok_put_known)
    qed (use u None assms in \<open>simp add: handle_disconnect_def\<close>)
  qed (use u ok assms in \<open>auto simp: handle_disconnect_def
        intro!: relay_ok_put_known room_ok_del_pending\<close>)
qed (use assms in \<open>auto simp: handle_disconnect_def split: option.splits\<close>)

lemma relay_ok_disconnect: "relay_ok r \<Longrightarrow> relay_ok (disconnect c now r)"
  using relay_ok_handle_disconnect [of r "fst (ident r c)" "snd (ident r c)" now]
  by (auto simp: disconnect_def Let_def relay_ok_def)

lemma relay_ok_fold:
  assumes "relay_ok r" and "\<And>x r. relay_ok r \<Longrightarrow> relay_ok (f x r)"
  shows "relay_ok (fold f xs r)"
  using assms by (induction xs arbitrary: r) auto

lemma relay_ok_cleanup: "relay_ok r \<Longrightarrow> relay_ok (cleanup now r)"
  unfolding cleanup_def
  by (erule relay_ok_fold)
     (auto simp: sweep_room_def split: option.split intro!: relay_ok_fold relay_ok_remove)

lemma relay_ok_drain: "relay_ok r \<Longrightarrow> relay_ok (drain c r)"
  by (auto simp: relay_ok_def drain_def channels_ok_def intro: le_trans [OF diff_le_self])

lemma relay_ok_new: "relay_ok relay_new"
  by (simp add: relay_ok_def relay_new_def rooms_ok_def channels_ok_def)

lemma relay_ok_connect: "relay_ok r \<Longrightarrow> relay_ok (connect r)"
  by (simp add: connect_def relay_ok_def)

lemma relay_ok_step: "relay_ok r \<Longrightarrow> relay_step r r' \<Longrightarrow> relay_ok r'"
proof (erule relay_stepE)
  fix m
  assume "relay_ok r" "r' = r\<lparr>rooms := m\<rparr>" and m: "mset m = mset (rooms r)"
  with hwf_mset [OF m] hall_mset [OF m, of room_ok] mset_eq_length [OF m] show "relay_ok r'"
    by (simp add: relay_ok_def rooms_ok_def)
next
  fix code room ps ws
  assume "relay_ok r" and r': "r' = put_room code (room\<lparr>peers := ps, pending_joins := ws\<rparr>) r"
    and known: "hget (rooms r) code = Some room"
    and m: "mset ps = mset (peers room)" "mset ws = mset (pending_joins room)"
  moreover from this have "room_ok room" by (auto elim: relay_ok_room)
  ultimately show "relay_ok r'"
    using hwf_mset [OF m(1)] hwf_mset [OF m(2)] hall_mset [OF m(1)] hall_mset [OF m(2)]
      mset_eq_length [OF m(1)] mset_eq_length [OF m(2)]
    by (auto simp: room_ok_def intro!: relay_ok_put_known)
qed (auto intro: relay_ok_dispatch relay_ok_disconnect relay_ok_drain relay_ok_cleanup
      relay_ok_connect)

interpretation bounded_relay: invariant "\<lambda>r. r = relay_new" relay_step relay_ok
  by unfold_locales (auto intro: relay_ok_new relay_ok_step)

end
