(* ===== verification/Relay_Contracts.thy ===== *)
theory Relay_Contracts
  imports Sync_Server
begin

text \<open>
  What the relay promises its rooms: who may change what, what every kind of message does to the
  rooms it does not concern, how the host role moves, who is told, and when a room ends.
\<close>

section \<open>What each message does to a room that survives it\<close>

lemma in_room_change:
  assumes "hget (rooms (in_room c r f)) code \<noteq> hget (rooms r) code"
  obtains me code' room where "ident r c = (Some me, Some code')"
    and "hget (rooms r) code' = Some room" and "in_room c r f = f me code' room"
  using assms by (auto simp: in_room_def split: option.splits prod.splits)

text \<open>\<open>changes r r' code room room'\<close>: the room under \<open>code\<close> was \<open>room\<close> and is now \<open>room'\<close>.\<close>

definition changes :: "relay \<Rightarrow> relay \<Rightarrow> ustr \<Rightarrow> room \<Rightarrow> room \<Rightarrow> bool" where
  "changes r r' code room room' \<longleftrightarrow>
     hget (rooms r) code = Some room \<and> hget (rooms r') code = Some room' \<and> room' \<noteq> room"

lemma changes_same: "rooms r' = rooms r \<Longrightarrow> \<not> changes r r' code room room'"
  by (auto simp: changes_def)

lemma changes_in_room:
  assumes "changes r (in_room c r f) code room room'"
  obtains me code' room0 where "ident r c = (Some me, Some code')"
    and "hget (rooms r) code' = Some room0" and "in_room c r f = f me code' room0"
    and "changes r (f me code' room0) code room room'"
proof -
  from assms have "hget (rooms (in_room c r f)) code \<noteq> hget (rooms r) code"
    by (simp add: changes_def)
  then show ?thesis using assms that by (elim in_room_change) auto
qed

lemma changes_put: "changes r (put_room code' new r') code room room' \<Longrightarrow> rooms r' = rooms r \<Longrightarrow>
    code' = code \<and> new = room'"
  by (auto simp: changes_def split: if_splits)

lemma approve_join_change:
  assumes "changes r (approve_join c d joiner r) code room room'"
  obtains w where "ident r c = (Some (room_host room), Some code)"
    and "hget (pending_joins room) joiner = Some w"
    and "room' = room\<lparr>pending_joins := hdel joiner (pending_joins room),
           peers := hput joiner \<lparr>peer_username = pending_username w, tx = pending_tx w,
             connected = True, session_token = token_draw d, disconnected_at = None\<rparr> (peers room)\<rparr>"
  using assms unfolding approve_join_def
  by (elim changes_in_room) (auto simp: host_is_def Let_def changes_def split: if_splits option.splits)

lemma reject_join_change:
  assumes "changes r (reject_join c joiner r) code room room'"
  shows "ident r c = (Some (room_host room), Some code)"
    and "room' = room\<lparr>pending_joins := hdel joiner (pending_joins room)\<rparr>"
  using assms unfolding reject_join_def
  by - (erule changes_in_room; auto simp: host_is_def Let_def changes_def
      split: if_splits option.splits)+

lemma playback_change:
  assumes "changes r (playback_msg c d p r) code room room'"
  shows "bounded_playback p" and "ident r c = (Some (room_host room), Some code)"
    and "room' = fst (apply_playback (wall_ms d) p room)"
  using assms unfolding playback_msg_def
  by (simp_all add: changes_same split: if_splits)
    (erule changes_in_room; auto simp: host_is_def Let_def changes_same changes_def
      split: if_splits option.splits prod.splits)+

lemma suggest_change:
  assumes "changes r (suggest c d t r) code room room'"
  obtains me peer where "ident r c = (Some me, Some code)" and "hget (peers room) me = Some peer"
    and "room' = room\<lparr>suggestions := hput (token_draw d) \<lparr>suggestion_id = token_draw d,
           from_user_id = me, from_username = peer_username peer, suggested = t\<rparr> (suggestions room)\<rparr>"
  using assms that unfolding suggest_def
  by (simp_all add: changes_same split: if_splits)
    (erule changes_in_room; auto simp: host_is_def Let_def changes_same changes_def
      split: if_splits option.splits)+

lemma approve_suggestion_change:
  assumes "changes r (approve_suggestion c sid r) code room room'"
  shows "ident r c = (Some (room_host room), Some code)"
    and "room' = room\<lparr>suggestions := hdel sid (suggestions room)\<rparr>"
  using assms unfolding approve_suggestion_def
  by - (erule changes_in_room; auto simp: host_is_def Let_def changes_def
      split: if_splits option.splits)+

lemma reject_suggestion_change:
  assumes "changes r (reject_suggestion c sid r) code room room'"
  shows "ident r c = (Some (room_host room), Some code)"
    and "room' = room\<lparr>suggestions := hdel sid (suggestions room)\<rparr>"
  using assms unfolding reject_suggestion_def
  by - (erule changes_in_room; auto simp: host_is_def Let_def changes_def
      split: if_splits option.splits)+

lemma kick_change:
  assumes "changes r (kick_user c target r) code room room'"
  shows "ident r c = (Some (room_host room), Some code)" and "target \<noteq> room_host room"
    and "room' = room\<lparr>peers := hdel target (peers room)\<rparr>"
  using assms unfolding kick_user_def
  by - (erule changes_in_room; auto simp: host_is_def Let_def changes_def
      split: if_splits option.splits)+

lemma transfer_change:
  assumes "changes r (transfer_host c target r) code room room'"
  shows "ident r c = (Some (room_host room), Some code)" and "hget (peers room) target \<noteq> None"
    and "room' = room\<lparr>room_host := target\<rparr>"
  using assms unfolding transfer_host_def
  by - (erule changes_in_room; auto simp: host_is_def Let_def changes_def
      split: if_splits option.splits)+

lemma join_change:
  assumes "changes r (join_room c d raw name r) code room room'"
  shows "room' = room\<lparr>pending_joins := hput (uid_draw d)
           \<lparr>pending_username = sanitize name, pending_tx = c\<rparr> (pending_joins room)\<rparr>"
    and "host_is_reachable room"
  using assms by (auto simp: join_room_def Let_def changes_def split: if_splits option.splits)

lemma pick_code_fresh: "pick_code cs m = Some code \<Longrightarrow> hget m code = None"
  by (induction cs) (auto split: if_splits)

lemma create_change:
  assumes "create_room c d name r = Some r'"
  shows "\<not> changes r r' code room room'"
  using assms pick_code_fresh [of "map gen_code (code_draws d)" "rooms r"]
  by (auto simp: create_room_def Let_def changes_def split: if_splits option.splits)

lemma reconnect_change:
  assumes "changes r (reconnect c d token r) code room room'"
  obtains uid p where "find_token token (rooms r) = Some (code, uid)"
    and "hget (peers room) uid = Some p"
    and "room' = room\<lparr>peers := hput uid (p\<lparr>tx := c, connected := True, disconnected_at := None\<rparr>)
           (peers room)\<rparr>"
  using assms by (auto simp: reconnect_def reattach_def Let_def changes_def split: if_splits option.splits)

text \<open>The new host, when the old one goes.\<close>

definition next_host :: "ustr \<Rightarrow> room \<Rightarrow> ustr" where
  "next_host me room =
     (if room_host room = me
      then case any_connected_other me room of Some next \<Rightarrow> next | None \<Rightarrow> room_host room
      else room_host room)"

lemma hand_off_room: "hand_off code me room r = (room', r') \<Longrightarrow>
    room' = room\<lparr>room_host := next_host me room\<rparr>"
  by (auto simp: hand_off_def next_host_def Let_def split: if_splits option.splits)

definition without_member :: "ustr \<Rightarrow> room \<Rightarrow> room" where
  "without_member me room =
     room\<lparr>pending_joins := hdel me (pending_joins room), peers := hdel me (peers room)\<rparr>"

lemma remove_member_rooms:
  "rooms (remove_member code me graceful r) =
     (case hget (rooms r) code of
        None \<Rightarrow> rooms r
      | Some room \<Rightarrow>
          let room' = without_member me room
          in if peers room' = [] then hdel code (rooms r)
             else hput code (room'\<lparr>room_host := next_host me room'\<rparr>) (rooms r))"
proof (cases "hget (rooms r) code")
  case (Some room)
  define r1 where "r1 = (if hget (peers room) me \<noteq> None \<and> graceful
    then broadcast (UserLeft me) None (without_member me room) r else r)"
  obtain room2 r2 where ho: "hand_off code me (without_member me room) r1 = (room2, r2)" by fastforce
  have r1: "rooms r1 = rooms r" by (simp add: r1_def)
  show ?thesis
    unfolding remove_member_eq [OF Some without_member_def r1_def ho]
    using Some hand_off_room [OF ho] hand_off_ok [OF ho] r1 by (simp add: Let_def)
qed (simp add: remove_member_def)

lemma close_sends_simps [simp]:
  "ident (fold (\<lambda>(_, p). tx_send (pending_tx p) m) ws r) = ident r"
  "alive (fold (\<lambda>(_, p). tx_send (pending_tx p) m) ws r) = alive r"
  "next_conn (fold (\<lambda>(_, p). tx_send (pending_tx p) m) ws r) = next_conn r"
  "rooms (fold (\<lambda>(_, p). tx_send (pending_tx p) m) ws r) = rooms r"
  by (rule fold_sends; auto)+

lemma remove_member_keeps [simp]:
  "ident (remove_member code me graceful r) = ident r"
  "alive (remove_member code me graceful r) = alive r"
  "next_conn (remove_member code me graceful r) = next_conn r"
proof -
  have *: "ident (remove_member code me graceful r) = ident r \<and>
      alive (remove_member code me graceful r) = alive r \<and>
      next_conn (remove_member code me graceful r) = next_conn r"
  proof (cases "hget (rooms r) code")
    case (Some room)
    define r1 where "r1 = (if hget (peers room) me \<noteq> None \<and> graceful
      then broadcast (UserLeft me) None (without_member me room) r else r)"
    obtain room2 r2 where ho: "hand_off code me (without_member me room) r1 = (room2, r2)"
      by fastforce
    show ?thesis
      unfolding remove_member_eq [OF Some without_member_def r1_def ho]
      using hand_off_ok [OF ho] by (simp add: r1_def)
  qed (simp add: remove_member_def)
  then show "ident (remove_member code me graceful r) = ident r"
    and "alive (remove_member code me graceful r) = alive r"
    and "next_conn (remove_member code me graceful r) = next_conn r" by auto
qed

lemma remove_member_change:
  assumes "changes r (remove_member code' me graceful r) code room room'"
  shows "code' = code" and "peers (without_member me room) \<noteq> []"
    and "room' = (without_member me room)\<lparr>room_host := next_host me (without_member me room)\<rparr>"
  using assms by (auto simp: changes_def remove_member_rooms Let_def split: if_splits option.splits)

section \<open>Disconnections and the sweep, room by room\<close>

definition dropped_peer :: "ustr \<Rightarrow> peer \<Rightarrow> nat \<Rightarrow> room \<Rightarrow> room" where
  "dropped_peer me p now room =
     room\<lparr>peers := hput me (p\<lparr>connected := False, disconnected_at := Some now\<rparr>) (peers room)\<rparr>"

lemma disconnect_rooms:
  "rooms (disconnect c now r) =
     (case ident r c of
        (Some me, Some code) \<Rightarrow>
          (case hget (rooms r) code of
             None \<Rightarrow> rooms r
           | Some room \<Rightarrow>
               if hget (pending_joins room) me \<noteq> None
               then hput code (room\<lparr>pending_joins := hdel me (pending_joins room)\<rparr>) (rooms r)
               else case hget (peers room) me of
                 None \<Rightarrow> rooms r
               | Some p \<Rightarrow>
                   let room' = dropped_peer me p now room
                   in hput code (room'\<lparr>room_host := next_host me room'\<rparr>) (rooms r))
      | _ \<Rightarrow> rooms r)"
  by (auto simp: disconnect_def handle_disconnect_def dropped_peer_def Let_def hand_off_def
      next_host_def split: option.splits prod.splits if_splits)

lemma disconnect_change:
  assumes "changes r (disconnect c now r) code room room'"
  obtains (waiting) me where "ident r c = (Some me, Some code)"
      and "room' = room\<lparr>pending_joins := hdel me (pending_joins room)\<rparr>"
  | (member) me p where "ident r c = (Some me, Some code)" "hget (peers room) me = Some p"
      and "room' = (dropped_peer me p now room)\<lparr>room_host := next_host me (dropped_peer me p now room)\<rparr>"
  using assms
  by (auto simp: changes_def disconnect_rooms Let_def split: option.splits prod.splits if_splits)

text \<open>Removing one member, seen by the room: \<open>None\<close> is a closed room.\<close>

definition removed :: "ustr \<Rightarrow> room option \<Rightarrow> room option" where
  "removed me ro =
     (case ro of None \<Rightarrow> None
      | Some room \<Rightarrow>
          let room' = without_member me room
          in if peers room' = [] then None else Some (room'\<lparr>room_host := next_host me room'\<rparr>))"

lemma hget_remove_member:
  "hget (rooms (remove_member code me graceful r)) code' =
     (if code' = code then removed me (hget (rooms r) code) else hget (rooms r) code')"
  by (auto simp: remove_member_rooms removed_def Let_def split: option.splits)

lemma hget_remove_members:
  "hget (rooms (fold (\<lambda>uid. remove_member code uid g) us r)) code' =
     (if code' = code then fold removed us (hget (rooms r) code) else hget (rooms r) code')"
  by (induction us arbitrary: r) (auto simp: hget_remove_member)

definition expired_uids :: "nat \<Rightarrow> room \<Rightarrow> ustr list" where
  "expired_uids now room = map fst (filter (\<lambda>(_, p). grace_expired now p) (peers room))"

definition swept :: "nat \<Rightarrow> room option \<Rightarrow> room option" where
  "swept now ro = (case ro of None \<Rightarrow> None | Some room \<Rightarrow> fold removed (expired_uids now room) ro)"

lemma hget_sweep_room:
  "hget (rooms (sweep_room now code r)) code' =
     (if code' = code then swept now (hget (rooms r) code) else hget (rooms r) code')"
  by (auto simp: sweep_room_def swept_def expired_uids_def hget_remove_members split: option.splits)

lemma hget_sweeps:
  "distinct codes \<Longrightarrow> hget (rooms (fold (sweep_room now) codes r)) code =
     (if code \<in> set codes then swept now (hget (rooms r) code) else hget (rooms r) code)"
  by (induction codes arbitrary: r) (auto simp: hget_sweep_room)

lemma hget_cleanup:
  assumes "hwf (rooms r)"
  shows "hget (rooms (cleanup now r)) code = swept now (hget (rooms r) code)"
  using assms hget_sweeps [of "hkeys (rooms r)" now r code] hget_mem_keys [of "rooms r" code]
  by (cases "hget (rooms r) code") (auto simp: cleanup_def hwf_def swept_def)

lemma sweep_keeps: "ident (sweep_room now code r) = ident r \<and> alive (sweep_room now code r) = alive r"
proof -
  have "ident (fold (\<lambda>uid. remove_member code uid False) us r) = ident r \<and>
        alive (fold (\<lambda>uid. remove_member code uid False) us r) = alive r" for us
    by (induction us arbitrary: r) auto
  then show ?thesis by (auto simp: sweep_room_def split: option.split)
qed

lemma cleanup_keeps [simp]: "ident (cleanup now r) = ident r" "alive (cleanup now r) = alive r"
proof -
  have *: "ident (fold (sweep_room now) cs r) = ident r \<and> alive (fold (sweep_room now) cs r) = alive r"
    for cs by (induction cs arbitrary: r) (auto simp: sweep_keeps)
  show "ident (cleanup now r) = ident r" "alive (cleanup now r) = alive r"
    using * by (simp_all add: cleanup_def)
qed

text \<open>What a sequence of removals leaves of a room: the role goes to the first connected peer.\<close>

definition first_connected :: "room \<Rightarrow> ustr option" where
  "first_connected room = map_option fst (find (\<lambda>(_, p). connected p) (peers room))"

definition minus_members :: "ustr list \<Rightarrow> room \<Rightarrow> room option" where
  "minus_members us room =
     (if us = [] then Some room
      else let ps = filter (\<lambda>(uid, _). uid \<notin> set us) (peers room)
           in if ps = [] then None
              else Some (room\<lparr>peers := ps,
                pending_joins := filter (\<lambda>(uid, _). uid \<notin> set us) (pending_joins room),
                room_host := (if room_host room \<in> set us
                  then case first_connected room of Some next \<Rightarrow> next | None \<Rightarrow> room_host room
                  else room_host room)\<rparr>))"

lemma find_filter: "(\<And>x. x \<in> set xs \<Longrightarrow> P x \<Longrightarrow> Q x) \<Longrightarrow> find P (filter Q xs) = find P xs"
  by (induction xs) auto

lemma find_cong_set: "(\<And>x. x \<in> set xs \<Longrightarrow> P x = Q x) \<Longrightarrow> find P xs = find Q xs"
  by (induction xs) auto

lemma removed_None [simp]: "fold removed us None = None"
  by (induction us) (auto simp: removed_def)

lemma first_connected_without:
  assumes "hwf (peers room)" and "\<And>p. (u, p) \<in> set (peers room) \<Longrightarrow> \<not> connected p"
  shows "any_connected_other u (without_member u room) = first_connected room"
    and "first_connected ((without_member u room)\<lparr>room_host := h\<rparr>) = first_connected room"
proof -
  have "find (\<lambda>(k, p). connected p \<and> k \<noteq> u) (hdel u (peers room)) =
      find (\<lambda>(k, p). connected p) (hdel u (peers room))"
    by (intro find_cong_set) (auto simp: hdel_def)
  moreover have "find (\<lambda>(k, p). connected p) (hdel u (peers room)) =
      find (\<lambda>(k, p). connected p) (peers room)"
    unfolding hdel_def using assms(2) by (intro find_filter) auto
  ultimately show "any_connected_other u (without_member u room) = first_connected room"
    and "first_connected ((without_member u room)\<lparr>room_host := h\<rparr>) = first_connected room"
    by (simp_all add: any_connected_other_def first_connected_def without_member_def)
qed

lemma first_connected_mem:
  "first_connected room = Some h \<Longrightarrow> \<exists>p. (h, p) \<in> set (peers room) \<and> connected p"
  by (force simp: first_connected_def find_Some_iff dest: nth_mem)

lemma removes_eq:
  assumes "hwf (peers room)" and "\<And>u p. u \<in> set us \<Longrightarrow> (u, p) \<in> set (peers room) \<Longrightarrow> \<not> connected p"
  shows "fold removed us (Some room) = minus_members us room"
  using assms
proof (induction us arbitrary: room)
  case Nil
  then show ?case by (simp add: minus_members_def)
next
  case (Cons u us)
  let ?ps = "peers (without_member u room)"
  have ps: "?ps = filter (\<lambda>(k, _). k \<noteq> u) (peers room)" by (simp add: without_member_def hdel_def)
  have all: "filter (\<lambda>(k, _). k \<notin> set us) ?ps = filter (\<lambda>(k, _). k \<notin> set (u # us)) (peers room)"
    unfolding ps by (auto simp: filter_filter intro!: filter_cong)
  show ?case
  proof (cases "?ps = []")
    case True
    then have "removed u (Some room) = None" by (simp add: removed_def)
    with True all show ?thesis by (simp add: minus_members_def Let_def)
  next
    case False
    let ?room = "(without_member u room)\<lparr>room_host := next_host u (without_member u room)\<rparr>"
    have "fold removed us (Some ?room) = minus_members us ?room"
      using Cons.prems by (intro Cons.IH) (auto simp: ps without_member_def hwf_hdel dest: set_hdel [THEN subsetD])
    moreover have "removed u (Some room) = Some ?room"
      using False by (simp add: removed_def Let_def)
    moreover have "minus_members us ?room = minus_members (u # us) room"
    proof -
      have "\<not> connected p" if "(u, p) \<in> set (peers room)" for p
        using Cons.prems(2) that by auto
      note fc = first_connected_without [OF Cons.prems(1) this]
      have rh: "room_host (without_member u room) = room_host room" by (simp add: without_member_def)
      have notin: "h \<notin> set (u # us)" if "first_connected room = Some h" for h
        using first_connected_mem [OF that] Cons.prems(2) by auto
      have pend: "filter (\<lambda>(k, _). k \<notin> set us) (hdel u (pending_joins room)) =
          filter (\<lambda>(k, _). k \<notin> set (u # us)) (pending_joins room)"
        by (auto simp: hdel_def intro!: filter_cong)
      define h where "h = next_host u (without_member u room)"
      have host: "(if h \<in> set us
            then case first_connected room of Some next \<Rightarrow> next | None \<Rightarrow> h else h) =
          (if room_host room \<in> set (u # us)
            then case first_connected room of Some next \<Rightarrow> next | None \<Rightarrow> room_host room
            else room_host room)"
        using fc notin by (cases "first_connected room") (auto simp: next_host_def rh h_def)
      have "minus_members us ?room = (let ps = filter (\<lambda>(k, _). k \<notin> set us) ?ps
          in if ps = [] then None else Some (room\<lparr>peers := ps,
            pending_joins := filter (\<lambda>(k, _). k \<notin> set us) (hdel u (pending_joins room)),
            room_host := (if h \<in> set us
              then case first_connected room of Some next \<Rightarrow> next | None \<Rightarrow> h else h)\<rparr>))"
      proof (cases "us = []")
        case False
        have "room_host ?room = h" "first_connected ?room = first_connected room"
          by (simp_all add: h_def fc(2))
        with False show ?thesis
          by (simp only: minus_members_def if_False) (simp add: Let_def without_member_def)
      qed (use False in \<open>simp add: minus_members_def h_def without_member_def Let_def\<close>)
      then show ?thesis
        unfolding all pend host by (simp only: minus_members_def list.simps if_False)
    qed
    ultimately show ?thesis by simp
  qed
qed

lemma swept_eq:
  assumes "hwf (peers room)"
  shows "swept now (Some room) = minus_members (expired_uids now room) room"
proof -
  have "\<not> connected p" if "u \<in> set (expired_uids now room)" "(u, p) \<in> set (peers room)" for u p
  proof -
    from that(1) obtain q where "(u, q) \<in> set (peers room)" "grace_expired now q"
      by (auto simp: expired_uids_def)
    with assms that(2) show ?thesis
      by (auto simp: hwf_def grace_expired_def dest: eq_key_imp_eq_value)
  qed
  then show ?thesis using assms by (simp add: swept_def removes_eq)
qed

section \<open>Authority\<close>

definition playback_view :: "room \<Rightarrow> track option \<times> bool \<times> i64 \<times> i64 \<times> f64 \<times> track list" where
  "playback_view room =
     (room_track room, room_playing room, room_position_ms room, room_last_update_ms room,
      room_volume room, room_queue room)"

lemma playback_view_simps [simp]:
  "playback_view (room\<lparr>room_host := h\<rparr>) = playback_view room"
  "playback_view (room\<lparr>peers := ps\<rparr>) = playback_view room"
  "playback_view (room\<lparr>pending_joins := ws\<rparr>) = playback_view room"
  "playback_view (room\<lparr>suggestions := ss\<rparr>) = playback_view room"
  "playback_view (dropped_peer me p now room) = playback_view room"
  "playback_view (without_member me room) = playback_view room"
  by (simp_all add: playback_view_def dropped_peer_def without_member_def)

lemma minus_members_change:
  assumes "minus_members us room = Some room'" "room' \<noteq> room"
  shows "room' = room\<lparr>peers := filter (\<lambda>(uid, _). uid \<notin> set us) (peers room),
      pending_joins := filter (\<lambda>(uid, _). uid \<notin> set us) (pending_joins room),
      room_host := (if room_host room \<in> set us
        then case first_connected room of Some next \<Rightarrow> next | None \<Rightarrow> room_host room
        else room_host room)\<rparr>"
  using assms by (auto simp: minus_members_def Let_def split: if_splits)

lemma relay_ok_hwf: "relay_ok r \<Longrightarrow> hwf (rooms r)"
  by (simp add: relay_ok_def rooms_ok_def)

lemma room_ok_hwf: "room_ok room \<Longrightarrow> hwf (peers room)" "room_ok room \<Longrightarrow> hwf (pending_joins room)"
  by (simp_all add: room_ok_def)

lemma cleanup_change:
  assumes "relay_ok r" "changes r (cleanup now r) code room room'"
  shows "minus_members (expired_uids now room) room = Some room'" and "room' \<noteq> room"
proof -
  have "hget (rooms r) code = Some room" using assms(2) by (simp add: changes_def)
  from relay_ok_room [OF assms(1) this] have "hwf (peers room)" by (rule room_ok_hwf)
  then show "minus_members (expired_uids now room) room = Some room'" "room' \<noteq> room"
    using assms by (auto simp: changes_def hget_cleanup relay_ok_hwf swept_eq)
qed

text \<open>The steps that are not a message, as changes of a room.\<close>

lemma step_change:
  assumes ok: "relay_ok r" and step: "relay_step r r'" and ch: "changes r r' code room room'"
  obtains (message) c d m where "alive r c" "dispatch c d m r = Some r'"
  | (dropped) c now where "alive r c" "changes r (disconnect c now r) code room room'"
  | (swept) now where "minus_members (expired_uids now room) room = Some room'"
  | (rehashed) ps ws where "mset ps = mset (peers room)" "mset ws = mset (pending_joins room)"
      "room' = room\<lparr>peers := ps, pending_joins := ws\<rparr>"
  using step
proof (cases rule: relay_step.cases)
  case (rcleanup now)
  with ch have "changes r (cleanup now r) code room room'" by simp
  from cleanup_change(1) [OF ok this] show ?thesis by (rule swept)
next
  case (rehash_rooms m)
  then show ?thesis using ch hget_mset [OF rehash_rooms(2) relay_ok_hwf [OF ok]]
    by (auto simp: changes_def)
next
  case (rehash_peers code' room0 ps ws)
  with ch have "code' = code" "room0 = room" "room' = room\<lparr>peers := ps, pending_joins := ws\<rparr>"
    by (auto simp: changes_def split: if_splits)
  with rehash_peers rehashed show ?thesis by blast
qed (use ch message dropped in \<open>auto simp: connect_def drain_def changes_def\<close>)

lemma leave_change:
  assumes "changes r (leave_room c r) code room room'"
  obtains me where "ident r c = (Some me, Some code)" and "peers (without_member me room) \<noteq> []"
    and "room' = (without_member me room)\<lparr>room_host := next_host me (without_member me room)\<rparr>"
proof -
  obtain me code' where i: "ident r c = (Some me, Some code')"
    using assms by (auto simp: leave_room_def changes_def Let_def split: option.splits prod.splits)
  with assms have "changes (r\<lparr>ident := (ident r)(c := (None, None))\<rparr>)
      (remove_member code' me True (r\<lparr>ident := (ident r)(c := (None, None))\<rparr>)) code room room'"
    by (simp add: leave_room_def changes_def)
  from remove_member_change [OF this] i that show ?thesis by auto
qed

text \<open>What a message does to the parts of a surviving room.\<close>

lemma dispatch_playback_view:
  assumes "dispatch c d m r = Some r'" "changes r r' code room room'"
    and "playback_view room' \<noteq> playback_view room"
  obtains p where "m = PlaybackMsg p" "bounded_playback p"
    "ident r c = (Some (room_host room), Some code)"
    "room' = fst (apply_playback (wall_ms d) p room)"
proof (cases m)
  case (PlaybackMsg p)
  with assms playback_change [of r c d p code room room'] that show ?thesis by auto
next
  case (CreateRoom name)
  with assms create_change [of c d name r r'] show ?thesis by auto
next
  case (JoinRoom raw name)
  with assms show ?thesis by (auto dest: join_change(1))
next
  case LeaveRoom
  with assms show ?thesis by (auto elim: leave_change)
qed (use assms in \<open>auto simp: ping_def changes_same request_sync_def elim: approve_join_change
      suggest_change reconnect_change elim!: changes_in_room
      dest: reject_join_change approve_suggestion_change reject_suggestion_change
      kick_change transfer_change split: if_splits\<close>)

lemma view_unchanged:
  assumes "relay_ok r" "changes r r' code room room'" "relay_step r r'"
  obtains (message) c d m where "alive r c" "dispatch c d m r = Some r'"
  | (same) "playback_view room' = playback_view room"
  using assms(1,3,2)
proof (cases rule: step_change)
  case (dropped c now)
  from dropped(2) same show ?thesis by (auto elim!: disconnect_change)
next
  case (swept now)
  from assms(2) have "room' \<noteq> room" by (simp add: changes_def)
  from minus_members_change [OF swept this] same show ?thesis by (simp add: playback_view_def)
qed (use message same in \<open>auto\<close>)

text \<open>C8: In every reachable relay, if a step changes what a room plays (track, play state,
  position, stamp, volume or queue) and the room survives, the step is a playback message within
  the payload limits, sent by the connection that holds the room's host identity, and the room is
  exactly what that action makes of it.\<close>

theorem only_host_moves_playback:
  assumes "relay_reachable r" "relay_step r r'"
    and "hget (rooms r) code = Some room" "hget (rooms r') code = Some room'"
    and "playback_view room' \<noteq> playback_view room"
  shows "\<exists>c d p. alive r c \<and> dispatch c d (PlaybackMsg p) r = Some r' \<and>
    ident r c = (Some (room_host room), Some code) \<and> bounded_playback p \<and>
    room' = fst (apply_playback (wall_ms d) p room)"
proof -
  have ok: "relay_ok r" using assms(1) by (rule bounded_relay.inv_reachable)
  have ch: "changes r r' code room room'" using assms(3-5) by (auto simp: changes_def)
  from ok ch assms(2) show ?thesis
  proof (cases rule: view_unchanged)
    case (message c d m)
    from dispatch_playback_view [OF message(2) ch assms(5)] message show ?thesis by metis
  qed (use assms(5) in simp)
qed

text \<open>Who is in the room.\<close>

lemma dispatch_admits:
  assumes "dispatch c d m r = Some r'" "changes r r' code room room'"
    and "hget (peers room) uid = None" "hget (peers room') uid \<noteq> None"
  shows "m = ApproveJoin uid \<and> ident r c = (Some (room_host room), Some code) \<and>
    hget (pending_joins room) uid \<noteq> None"
proof (cases m)
  case (ApproveJoin joiner)
  from assms(1,2) have "changes r (approve_join c d joiner r) code room room'"
    by (simp add: ApproveJoin)
  then show ?thesis using assms(3,4) ApproveJoin
    by (auto elim!: approve_join_change split: if_splits)
next
  case (PlaybackMsg p)
  then have "peers room' = peers room" using assms(1,2)
    by (auto dest!: playback_change(3) simp: apply_playback.simps Let_def
        split: playback_kind.splits option.splits)
  with assms show ?thesis by simp
next
  case (Reconnect token)
  with assms have "changes r (reconnect c d token r) code room room'" by simp
  then show ?thesis using assms(3,4) by (auto elim!: reconnect_change split: if_splits)
next
  case (CreateRoom name)
  with assms create_change [of c d name r r'] show ?thesis by auto
next
  case (JoinRoom raw name)
  with assms show ?thesis by (auto dest: join_change(1))
next
  case LeaveRoom
  with assms show ?thesis
    by (auto elim!: leave_change simp: without_member_def split: if_splits)
qed (use assms in \<open>auto simp: ping_def changes_same request_sync_def elim: suggest_change
      elim!: changes_in_room dest: reject_join_change approve_suggestion_change
      reject_suggestion_change kick_change transfer_change split: if_splits\<close>)

lemma hget_filter_keys: "hget (filter (\<lambda>(k, _). P k) m) k = (if P k then hget m k else None)"
  by (induction m) auto

lemma step_admits:
  assumes ok: "relay_ok r" and step: "relay_step r r'" and ch: "changes r r' code room room'"
    and uid: "hget (peers room) uid = None" "hget (peers room') uid \<noteq> None"
  shows "\<exists>c d. alive r c \<and> dispatch c d (ApproveJoin uid) r = Some r' \<and>
    ident r c = (Some (room_host room), Some code) \<and> hget (pending_joins room) uid \<noteq> None"
  using ok step ch
proof (cases rule: step_change)
  case (message c d m)
  from dispatch_admits [OF message(2) ch uid] message show ?thesis by auto
next
  case (dropped c now)
  then show ?thesis using uid
    by (auto elim!: disconnect_change simp: dropped_peer_def split: if_splits)
next
  case (swept now)
  from ch have "room' \<noteq> room" by (simp add: changes_def)
  from minus_members_change [OF swept this] uid show ?thesis
    by (auto simp: hget_filter_keys split: if_splits)
next
  case (rehashed ps ws)
  from ch have "hget (rooms r) code = Some room" by (simp add: changes_def)
  from relay_ok_room [OF ok this] have "hwf (peers room)" by (rule room_ok_hwf)
  from hget_mset [OF rehashed(1) this, of uid] rehashed uid show ?thesis by simp
qed

text \<open>C38: Nobody becomes a member of a room without its host's approval: if a step makes \<open>uid\<close>
  a member of a room that existed before, the step is the host's own approval of a join that was
  pending under exactly that id.\<close>

theorem only_host_admits:
  assumes "relay_reachable r" "relay_step r r'"
    and "hget (rooms r) code = Some room" "hget (rooms r') code = Some room'"
    and "hget (peers room) uid = None" "hget (peers room') uid \<noteq> None"
  shows "\<exists>c d. alive r c \<and> dispatch c d (ApproveJoin uid) r = Some r' \<and>
    ident r c = (Some (room_host room), Some code) \<and> hget (pending_joins room) uid \<noteq> None"
proof (rule step_admits)
  show "relay_ok r" using assms(1) by (rule bounded_relay.inv_reachable)
  show "changes r r' code room room'" using assms(3-6) by (auto simp: changes_def)
qed (use assms in simp_all)

section \<open>The host role\<close>

lemma any_connected_other_Some:
  assumes "any_connected_other me room = Some h" "hwf (peers room)"
  shows "h \<noteq> me" and "\<exists>p. hget (peers room) h = Some p \<and> connected p"
  using assms by (auto simp: any_connected_other_def find_Some_iff hwf_def map_of_eq_Some_iff)
    (metis nth_mem)

lemma any_connected_other_ex:
  assumes "hget (peers room) h = Some p" "connected p" "h \<noteq> me"
  shows "any_connected_other me room \<noteq> None"
  using hget_in_set [OF assms(1)] assms(2,3)
  by (auto simp: any_connected_other_def find_None_iff)

lemma next_host_change:
  assumes "next_host me room \<noteq> room_host room" "hwf (peers room)"
  shows "room_host room = me" and "host_is_reachable (room\<lparr>room_host := next_host me room\<rparr>)"
  using assms any_connected_other_Some [of me room]
  by (auto simp: next_host_def host_is_reachable_def split: if_splits option.splits)

lemma dispatch_moves_host:
  assumes "room_ok room" "dispatch c d m r = Some r'" "changes r r' code room room'"
    and "room_host room' \<noteq> room_host room"
  shows "ident r c = (Some (room_host room), Some code) \<and>
    (m = TransferHost (room_host room') \<and> hget (peers room') (room_host room') \<noteq> None \<or>
     m = LeaveRoom \<and> hget (peers room') (room_host room) = None \<and> host_is_reachable room')"
proof (cases m)
  case (TransferHost target)
  with assms(2,3) have "changes r (transfer_host c target r) code room room'" by simp
  from transfer_change [OF this] TransferHost show ?thesis by auto
next
  case LeaveRoom
  with assms(2,3) have "changes r (leave_room c r) code room room'" by simp
  then show ?thesis
  proof (cases rule: leave_change)
    case (1 me)
    have "hwf (peers (without_member me room))" "room_host (without_member me room) = room_host room"
      using assms(1) by (auto simp: without_member_def dest: room_ok_hwf)
    with next_host_change [of me "without_member me room"] 1 assms(4) LeaveRoom show ?thesis
      by (auto simp: without_member_def)
  qed
next
  case (PlaybackMsg p)
  then have "room_host room' = room_host room" using assms(2,3)
    by (auto dest!: playback_change(3) simp: apply_playback.simps Let_def
        split: playback_kind.splits option.splits)
  with assms show ?thesis by simp
next
  case (CreateRoom name)
  with assms create_change [of c d name r r'] show ?thesis by auto
next
  case (JoinRoom raw name)
  with assms show ?thesis by (auto dest: join_change(1))
qed (use assms in \<open>auto simp: ping_def changes_same request_sync_def elim: suggest_change
      approve_join_change reconnect_change elim!: changes_in_room dest: reject_join_change
      approve_suggestion_change reject_suggestion_change kick_change split: if_splits\<close>)

text \<open>The host role only ever passes to a member, and in two ways: the host hands it over by
  name, or the host itself leaves, drops or is swept out, and then a peer that is connected at that
  moment takes it.\<close>

theorem host_role_moves:
  assumes "relay_reachable r" "relay_step r r'"
    and "hget (rooms r) code = Some room" "hget (rooms r') code = Some room'"
    and "room_host room' \<noteq> room_host room"
  shows "(\<exists>c d. dispatch c d (TransferHost (room_host room')) r = Some r' \<and>
       ident r c = (Some (room_host room), Some code) \<and> hget (peers room') (room_host room') \<noteq> None) \<or>
     (case hget (peers room') (room_host room) of None \<Rightarrow> True | Some p \<Rightarrow> \<not> connected p) \<and>
     host_is_reachable room'"
proof -
  have ok: "relay_ok r" using assms(1) by (rule bounded_relay.inv_reachable)
  have rok: "room_ok room" using relay_ok_room [OF ok assms(3)] .
  have ne: "room' \<noteq> room" using assms(5) by auto
  then have ch: "changes r r' code room room'" using assms(3,4) by (auto simp: changes_def)
  from ok assms(2) ch show ?thesis
  proof (cases rule: step_change)
    case (message c d m)
    from dispatch_moves_host [OF rok message(2) ch assms(5)] message show ?thesis by auto
  next
    case (dropped c now)
    from dropped(2) show ?thesis
    proof (cases rule: disconnect_change)
      case (member me p)
      let ?room = "dropped_peer me p now room"
      have "hwf (peers ?room)" "room_host ?room = room_host room"
        using rok by (auto simp: dropped_peer_def dest: room_ok_hwf)
      with next_host_change [of me ?room] member assms(5) show ?thesis
        by (auto simp: dropped_peer_def)
    qed (use assms(5) in simp)
  next
    case (swept now)
    from minus_members_change [OF swept ne] assms(5) obtain h where
      h: "first_connected room = Some h" "room_host room' = h" "room_host room \<in> set (expired_uids now room)"
      and peers: "peers room' = filter (\<lambda>(uid, _). uid \<notin> set (expired_uids now room)) (peers room)"
      by (auto split: if_splits option.splits)
    from first_connected_mem [OF h(1)] obtain p where p: "(h, p) \<in> set (peers room)" "connected p"
      by auto
    have wf: "hwf (peers room)" using rok by (rule room_ok_hwf)
    have "h \<notin> set (expired_uids now room)"
      using p wf by (auto simp: expired_uids_def grace_expired_def hwf_def dest: eq_key_imp_eq_value)
    then have "hget (peers room') h = Some p"
      using p wf by (simp add: peers hget_filter_keys hwf_def)
    with p h show ?thesis by (simp add: host_is_reachable_def peers hget_filter_keys)
  qed (use assms(5) in simp)
qed

section \<open>A sample run\<close>

text \<open>Connection 0 creates room \<open>A\<close>; connection 1 asks to join and is let in; connection 0 plays,
  hands the role over, and so on. The states below serve as concrete inputs.\<close>

definition sample_code :: ustr where
  "sample_code = [65, 65, 65, 65, 65, 65, 65, 65]"

lemma sample_gen_code: "gen_code [18, 18, 18, 18, 18, 18, 18, 18] = sample_code"
  by (simp add: gen_code_def sample_code_def CODE_ALPHABET_def lit_Cons)

definition sample_draws :: "nat \<Rightarrow> draws" where
  "sample_draws n = \<lparr>code_draws = [[18, 18, 18, 18, 18, 18, 18, 18]], uid_draw = [n], token_draw = [100 + n],
     wall_ms = 5000, now_instant = 0, upper_table = (\<lambda>c. [c])\<rparr>"

definition sample_created :: relay where
  "sample_created = the (dispatch 0 (sample_draws 7) (CreateRoom [72]) (connect relay_new))"

definition sample_joining :: relay where
  "sample_joining = the (dispatch 1 (sample_draws 8) (JoinRoom sample_code [74]) (connect sample_created))"

definition sample_pair :: relay where
  "sample_pair = the (dispatch 0 (sample_draws 9) (ApproveJoin [8]) sample_joining)"

definition sample_play :: playback where
  "sample_play = playback_at Play 250"

definition sample_playing :: relay where
  "sample_playing = the (dispatch 0 (sample_draws 10) (PlaybackMsg sample_play) sample_pair)"

definition sample_host :: peer where
  "sample_host = \<lparr>peer_username = [72], tx = 0, connected = True, session_token = [107],
     disconnected_at = None\<rparr>"

definition sample_guest :: peer where
  "sample_guest = \<lparr>peer_username = [74], tx = 1, connected = True, session_token = [109],
     disconnected_at = None\<rparr>"

definition sample_room :: "(ustr, peer) hmap \<Rightarrow> (ustr, pending) hmap \<Rightarrow> room" where
  "sample_room ps ws = \<lparr>room_host = [7], peers = ps, pending_joins = ws, suggestions = [],
     room_track = None, room_playing = False, room_position_ms = 0, room_last_update_ms = 0,
     room_volume = Fin 1, room_queue = []\<rparr>"

lemma sanitize_sample: "sanitize [72] = [72]" "sanitize [74] = [74]"
  by (simp_all add: sanitize_def trim_def trim_matches_def trim_start_matches_def
      trim_end_matches_def is_whitespace_def is_control_def)

lemma sample_uppercase: "to_uppercase (\<lambda>c. [c]) (trim sample_code) = sample_code"
  by (simp add: sample_code_def to_uppercase_def trim_def trim_matches_def trim_start_matches_def
      trim_end_matches_def is_whitespace_def)

lemmas sample_eval = Let_def tx_send_def put_room_def send_to_def broadcast_def in_room_def host_is_def
  hput_def hdel_def sample_draws_def OUTBOUND_QUEUE_CAPACITY_def sanitize_sample sample_uppercase sample_gen_code
  sample_room_def sample_host_def sample_guest_def

lemma sample_created_eq:
  "sample_created = \<lparr>rooms = [(sample_code, sample_room [([7], sample_host)] [])],
     ident = (\<lambda>_. (None, None))(0 := (Some [7], Some sample_code)),
     outbound = (\<lambda>_. [])(0 := [RoomCreated sample_code [7] [107]
       (wire_state sample_code (sample_room [([7], sample_host)] []))]),
     alive = (\<lambda>_. False)(0 := True), next_conn = 1\<rparr>"
  by (simp add: sample_created_def create_room_def new_room_def connect_def relay_new_def
      MAX_ROOMS_def sample_eval)

lemma sample_joining_eq:
  "sample_joining = \<lparr>rooms = [(sample_code, sample_room [([7], sample_host)]
       [([8], \<lparr>pending_username = [74], pending_tx = 1\<rparr>)])],
     ident = (\<lambda>_. (None, None))(0 := (Some [7], Some sample_code), 1 := (Some [8], Some sample_code)),
     outbound = (\<lambda>_. [])(0 := [RoomCreated sample_code [7] [107]
       (wire_state sample_code (sample_room [([7], sample_host)] [])), JoinRequest [8] [74]]),
     alive = (\<lambda>_. False)(0 := True, 1 := True), next_conn = 2\<rparr>"
  by (simp add: sample_joining_def sample_created_eq join_room_def connect_def
      host_is_reachable_def MAX_USERS_PER_ROOM_def sample_eval)


definition sample_state :: room_state where
  "sample_state = (wire_state sample_code (sample_room [([7], sample_host), ([8], sample_guest)] []))
     \<lparr>last_update_ms := 5000\<rparr>"

lemma sample_pair_eq:
  "sample_pair = \<lparr>rooms = [(sample_code, sample_room [([7], sample_host), ([8], sample_guest)] [])],
     ident = (\<lambda>_. (None, None))(0 := (Some [7], Some sample_code), 1 := (Some [8], Some sample_code)),
     outbound = (\<lambda>_. [])(1 := [JoinApproved [8] [109] sample_state],
       0 := [RoomCreated sample_code [7] [107] (wire_state sample_code (sample_room [([7], sample_host)] [])),
         JoinRequest [8] [74],
         UserJoined \<lparr>user_id = [8], username = [74], is_host = False, is_connected = True\<rparr>]),
     alive = (\<lambda>_. False)(0 := True, 1 := True), next_conn = 2\<rparr>"
  by (simp add: sample_pair_def sample_joining_eq approve_join_def live_state_def
      live_position_ms_def wire_state_def sample_state_def sample_eval)

lemma sample_playing_rooms:
  "rooms sample_playing = [(sample_code, (sample_room [([7], sample_host), ([8], sample_guest)] [])
     \<lparr>room_playing := True, room_position_ms := 250, room_last_update_ms := 5000\<rparr>)]"
  by (simp add: sample_playing_def sample_pair_eq playback_msg_def sample_play_def playback_at_def
      playback_new_def bounded_playback_def apply_playback.simps word_sless_alt sample_eval)

lemma relay_reachable_connect: "relay_reachable r \<Longrightarrow> relay_reachable (connect r)"
  by (erule reachable_step) (rule rconnect)

lemma relay_reachable_dispatch:
  "relay_reachable r \<Longrightarrow> alive r c \<Longrightarrow> dispatch c d m r = Some r' \<Longrightarrow> relay_reachable r'"
  by (erule reachable_step) (rule rdispatch)

lemma sample_reachable:
  "relay_reachable sample_created" "relay_reachable sample_joining"
  "relay_reachable sample_pair" "relay_reachable sample_playing"
proof -
  have init: "relay_reachable relay_new" by (rule reachable_init) simp
  note conn = relay_reachable_connect and disp = relay_reachable_dispatch
  show c: "relay_reachable sample_created"
    by (rule disp [OF conn [OF init], where c = 0 and d = "sample_draws 7" and m = "CreateRoom [72]"])
       (simp_all add: connect_def relay_new_def sample_created_def create_room_def MAX_ROOMS_def
          sample_draws_def sample_gen_code Let_def)
  show j: "relay_reachable sample_joining"
    by (rule disp [OF conn [OF c], where c = 1 and d = "sample_draws 8" and m = "JoinRoom sample_code [74]"])
       (simp_all add: connect_def sample_created_eq sample_joining_def)
  show p: "relay_reachable sample_pair"
    by (rule disp [OF j, where c = 0 and d = "sample_draws 9" and m = "ApproveJoin [8]"])
       (simp_all add: sample_joining_eq sample_pair_def)
  show "relay_reachable sample_playing"
    by (rule disp [OF p, where c = 0 and d = "sample_draws 10" and m = "PlaybackMsg sample_play"])
       (simp_all add: sample_pair_eq sample_playing_def)
qed

lemma sample_steps:
  "relay_step (connect sample_created) sample_joining" "relay_step sample_joining sample_pair"
  "relay_step sample_pair sample_playing"
proof -
  show "relay_step (connect sample_created) sample_joining"
    by (rule rdispatch [where c = 1 and d = "sample_draws 8" and m = "JoinRoom sample_code [74]"])
       (simp_all add: connect_def sample_created_eq sample_joining_def)
  show "relay_step sample_joining sample_pair"
    by (rule rdispatch [where c = 0 and d = "sample_draws 9" and m = "ApproveJoin [8]"])
       (simp_all add: sample_joining_eq sample_pair_def)
  show "relay_step sample_pair sample_playing"
    by (rule rdispatch [where c = 0 and d = "sample_draws 10" and m = "PlaybackMsg sample_play"])
       (simp_all add: sample_pair_eq sample_playing_def)
qed

lemma sample_rooms:
  "hget (rooms sample_joining) sample_code = Some (sample_room [([7], sample_host)]
     [([8], \<lparr>pending_username = [74], pending_tx = 1\<rparr>)])"
  "hget (rooms sample_pair) sample_code = Some (sample_room [([7], sample_host), ([8], sample_guest)] [])"
  "hget (rooms sample_playing) sample_code =
     Some ((sample_room [([7], sample_host), ([8], sample_guest)] [])
       \<lparr>room_playing := True, room_position_ms := 250, room_last_update_ms := 5000\<rparr>)"
  by (simp_all add: sample_joining_eq sample_pair_eq sample_playing_rooms)

lemma sample_room_simps [simp]: "room_host (sample_room ps ws) = [7]"
  "peers (sample_room ps ws) = ps" "pending_joins (sample_room ps ws) = ws"
  by (simp_all add: sample_room_def)

theorem only_host_moves_playback_witness:
  "\<exists>c d p. dispatch c d (PlaybackMsg p) sample_pair = Some sample_playing \<and>
     ident sample_pair c = (Some [7], Some sample_code) \<and> bounded_playback p"
  using only_host_moves_playback [OF sample_reachable(3) sample_steps(3) sample_rooms(2,3)]
  by (auto simp: playback_view_def sample_room_def)

theorem only_host_admits_witness:
  "\<exists>c d. dispatch c d (ApproveJoin [8]) sample_joining = Some sample_pair \<and>
     ident sample_joining c = (Some [7], Some sample_code)"
  using only_host_admits [OF sample_reachable(2) sample_steps(2) sample_rooms(1,2), of "[8]"]
  by auto

theorem host_role_moves_witness:
  "\<exists>c d. dispatch c d (TransferHost [8]) sample_pair =
       Some (the (dispatch 0 (sample_draws 9) (TransferHost [8]) sample_pair)) \<and>
     ident sample_pair c = (Some [7], Some sample_code)"
proof -
  let ?r' = "the (dispatch 0 (sample_draws 9) (TransferHost [8]) sample_pair)"
  let ?room = "(sample_room [([7], sample_host), ([8], sample_guest)] [])\<lparr>room_host := [8]\<rparr>"
  have step: "relay_step sample_pair ?r'"
    by (rule rdispatch [where c = 0 and d = "sample_draws 9" and m = "TransferHost [8]"])
       (simp_all add: sample_pair_eq)
  have "hget (rooms ?r') sample_code = Some ?room"
    by (simp add: transfer_host_def sample_pair_eq sample_eval)
  from host_role_moves [OF sample_reachable(3) step sample_rooms(2) this] show ?thesis
    by (auto simp: sample_host_def)
qed

end
