(* ===== verification/Relay_Rooms.thy ===== *)
theory Relay_Rooms
  imports Relay_Contracts
begin

text \<open>
  The life of a room: the limits of the relay, which room a message can touch, what the sweep
  removes, how a disconnection hands the room on, and the two ways a room can outlive its use.
\<close>

section \<open>Limits\<close>

text \<open>C7: In every reachable state the relay holds at most 256 rooms; a room holds at most 50
  members and pending joins together, at most 100 suggestions and at most 1000 queued tracks, all of
  them within the payload limits; every name it shows is one to fifty characters without a control
  character; its position is not negative; and no connection has more than 128 messages waiting.\<close>

theorem relay_stays_bounded:
  assumes "relay_reachable r"
  shows "length (rooms r) \<le> 256 \<and> length (outbound r c) \<le> 128 \<and>
    (case hget (rooms r) code of None \<Rightarrow> True | Some room \<Rightarrow>
       length (peers room) + length (pending_joins room) \<le> 50 \<and>
       length (suggestions room) \<le> 100 \<and> length (room_queue room) \<le> 1000 \<and>
       list_all bounded_track (room_queue room) \<and> 0 \<le> sint (room_position_ms room) \<and>
       hall (\<lambda>p. clean_name (peer_username p)) (peers room) \<and>
       hall (\<lambda>s. bounded_track (suggested s)) (suggestions room))"
proof -
  have ok: "relay_ok r" using assms by (rule bounded_relay.inv_reachable)
  then have rooms: "length (rooms r) \<le> 256" and out: "length (outbound r c) \<le> 128"
    by (simp_all add: relay_ok_def rooms_ok_def channels_ok_def relay_limits)
  show ?thesis
  proof (cases "hget (rooms r) code")
    case (Some room)
    with ok have "room_ok room" by (rule relay_ok_room)
    with Some rooms out show ?thesis by (simp add: room_ok_def relay_limits word_sless_alt)
  qed (use rooms out in simp)
qed

theorem relay_stays_bounded_witness:
  "length (rooms sample_playing) \<le> 256 \<and> length (outbound sample_playing 0) \<le> 128"
  using relay_stays_bounded [OF sample_reachable(4), of 0 sample_code] by simp

section \<open>A message stays in its room\<close>

lemma in_room_other:
  assumes "hget (rooms (in_room c r f)) code \<noteq> hget (rooms r) code"
    and "\<And>me code' room. hget (rooms r) code' = Some room \<Longrightarrow> code' \<noteq> code \<Longrightarrow>
      hget (rooms (f me code' room)) code = hget (rooms r) code"
  shows "snd (ident r c) = Some code"
  using assms by (auto simp: in_room_def split: option.splits prod.splits)

lemma dispatch_isolated:
  assumes "dispatch c d m r = Some r'" "hget (rooms r') code \<noteq> hget (rooms r) code"
  shows "snd (ident r c) = Some code \<or> snd (ident r' c) = Some code"
proof (cases m)
  case (CreateRoom name)
  with assms show ?thesis
    by (auto simp: create_room_def Let_def split: if_splits option.splits)
next
  case (JoinRoom raw name)
  with assms show ?thesis
    by (auto simp: join_room_def Let_def split: if_splits option.splits)
next
  case (Reconnect token)
  with assms show ?thesis
    by (auto simp: reconnect_def Let_def split: if_splits option.splits)
next
  case LeaveRoom
  with assms show ?thesis
    by (auto simp: leave_room_def Let_def hget_remove_member split: if_splits option.splits prod.splits)
next
  case (PlaybackMsg p)
  with assms show ?thesis
    by (auto simp: playback_msg_def intro: in_room_other split: if_splits prod.splits)
next
  case (Suggest t)
  with assms show ?thesis
    by (auto simp: suggest_def Let_def elim!: in_room_other split: if_splits option.splits)
qed (use assms in \<open>auto simp: ping_def approve_join_def reject_join_def request_sync_def
      approve_suggestion_def reject_suggestion_def kick_user_def transfer_host_def Let_def
      elim!: in_room_other split: if_splits option.splits\<close>)

text \<open>Only the connection that sends a message can change who it is.\<close>

lemma in_room_ident: "(\<And>me code room. ident (f me code room) = ident r) \<Longrightarrow> ident (in_room c r f) = ident r"
  by (simp add: in_room_def split: option.split prod.split)

lemma dispatch_ident:
  assumes "dispatch c d m r = Some r'" "c' \<noteq> c"
  shows "ident r' c' = ident r c'"
proof (cases m)
  case (CreateRoom name)
  with assms show ?thesis
    by (auto simp: create_room_def Let_def split: if_splits option.splits)
next
  case (PlaybackMsg p)
  have "ident (playback_msg c d p r) = ident r"
    by (auto simp: playback_msg_def intro!: in_room_ident split: prod.split)
  with PlaybackMsg assms show ?thesis by auto
next
  case (Suggest t)
  have "ident (suggest c d t r) = ident r"
    by (auto simp: suggest_def Let_def intro!: in_room_ident split: option.split)
  with Suggest assms show ?thesis by auto
qed (use assms in \<open>auto simp: ping_def join_room_def reconnect_def leave_room_def Let_def
      approve_join_def reject_join_def request_sync_def approve_suggestion_def
      reject_suggestion_def kick_user_def transfer_host_def in_room_ident split: option.splits prod.splits\<close>)

text \<open>Rooms are isolated: a message changes nothing of a room unless its sender was in that
  room or has just entered it, and never changes which identity another connection holds.\<close>

theorem messages_stay_in_their_room:
  assumes "dispatch c d m r = Some r'"
  shows "(hget (rooms r') code = hget (rooms r) code \<or>
      snd (ident r c) = Some code \<or> snd (ident r' c) = Some code) \<and>
    (c' = c \<or> ident r' c' = ident r c')"
  using dispatch_isolated [OF assms, of code] dispatch_ident [OF assms, of c'] by blast

theorem messages_stay_in_their_room_witness:
  "hget (rooms sample_playing) [1] = hget (rooms sample_pair) [1] \<and>
   ident sample_playing 1 = ident sample_pair 1"
proof -
  have "dispatch 0 (sample_draws 10) (PlaybackMsg sample_play) sample_pair = Some sample_playing"
    by (simp add: sample_playing_def)
  from messages_stay_in_their_room [OF this, of "[1]" 1] show ?thesis
    by (simp add: sample_pair_eq sample_playing_rooms sample_code_def)
qed

section \<open>Rooms nobody can run any more\<close>

text \<open>The host is no longer a member, and no connection holds its identity.\<close>

definition orphan :: "ustr \<Rightarrow> ustr \<Rightarrow> relay \<Rightarrow> bool" where
  "orphan h code r \<longleftrightarrow>
     (\<exists>room. hget (rooms r) code = Some room \<and> room_host room = h \<and>
        hget (peers room) h = None \<and> hget (pending_joins room) h = None) \<and>
     (\<forall>c. ident r c \<noteq> (Some h, Some code))"

lemma find_token_peer:
  assumes "find_token token m = Some (code, uid)" "hwf m" "hall (\<lambda>room. hwf (peers room)) m"
  shows "\<exists>room p. hget m code = Some room \<and> hget (peers room) uid = Some p \<and> session_token p = token"
  using assms
proof (induction token m rule: find_token.induct)
  case (2 token code' room m)
  show ?case
  proof (cases "find (\<lambda>(_, p). session_token p = token) (peers room)")
    case (Some up)
    then obtain u p where up: "up = (u, p)" by fastforce
    with Some have "(u, p) \<in> set (peers room)" "session_token p = token"
      by (auto simp: find_Some_iff dest: nth_mem)
    with up Some 2 show ?thesis by (auto simp: hwf_def)
  next
    case None
    with 2 obtain room' p where "hget m code = Some room'" "hget (peers room') uid = Some p"
      "session_token p = token" by (auto simp: hwf_def)
    moreover from this(1) 2(3) have "code \<noteq> code'" by (force simp: hwf_def)
    ultimately show ?thesis by simp
  qed
qed simp

lemma relay_ok_peers: "relay_ok r \<Longrightarrow> hall (\<lambda>room. hwf (peers room)) (rooms r)"
  by (auto simp: relay_ok_def rooms_ok_def hall_def list_all_iff dest: room_ok_hwf)

lemma orphan_idents:
  assumes ok: "relay_ok r" and orphan: "orphan h code r" and step: "dispatch c d m r = Some r'"
  shows "ident r' c' \<noteq> (Some h, Some code)"
proof (cases "c' = c")
  case False
  with dispatch_ident [OF step] orphan show ?thesis by (simp add: orphan_def)
next
  case True
  from orphan have old: "ident r c \<noteq> (Some h, Some code)" by (simp add: orphan_def)
  show ?thesis
  proof (cases m)
    case (CreateRoom name)
    with step old orphan True show ?thesis
      by (auto simp: create_room_def Let_def orphan_def dest: pick_code_fresh
          split: if_splits option.splits)
  next
    case (JoinRoom raw name)
    with step old orphan True show ?thesis
      by (auto simp: join_room_def Let_def orphan_def host_is_reachable_def
          split: if_splits option.splits)
  next
    case (Reconnect token)
    with step old orphan True relay_ok_hwf [OF ok] relay_ok_peers [OF ok] show ?thesis
      by (auto simp: reconnect_def Let_def orphan_def split: option.splits
          dest: find_token_peer)
  next
    case (PlaybackMsg p)
    have "ident (playback_msg c d p r) = ident r"
      by (auto simp: playback_msg_def intro!: in_room_ident split: prod.split)
    with PlaybackMsg step old True show ?thesis by auto
  next
    case (Suggest t)
    have "ident (suggest c d t r) = ident r"
      by (auto simp: suggest_def Let_def intro!: in_room_ident split: option.split)
    with Suggest step old True show ?thesis by auto
  qed (use step old True in \<open>auto simp: ping_def leave_room_def Let_def approve_join_def
      reject_join_def request_sync_def approve_suggestion_def reject_suggestion_def kick_user_def
      transfer_host_def in_room_ident split: option.splits prod.splits\<close>)
qed

text \<open>Every surviving room keeps an absent host absent.\<close>

lemma orphan_room:
  assumes ok: "relay_ok r" and orphan: "orphan h code r" and step: "relay_step r r'"
    and room: "hget (rooms r) code = Some room" and room': "hget (rooms r') code = Some room'"
  shows "room_host room' = h \<and> hget (peers room') h = None \<and> hget (pending_joins room') h = None"
proof (cases "room' = room")
  case True
  with orphan room show ?thesis by (simp add: orphan_def)
next
  case False
  have rok: "room_ok room" using relay_ok_room [OF ok room] .
  from orphan room have h: "room_host room = h" "hget (peers room) h = None"
    "hget (pending_joins room) h = None" and no: "\<And>c. ident r c \<noteq> (Some (room_host room), Some code)"
    by (auto simp: orphan_def)
  from False room room' have ch: "changes r r' code room room'" by (simp add: changes_def)
  from ok step ch show ?thesis
  proof (cases rule: step_change)
    case (message c d m)
    from dispatch_moves_host [OF rok message(2) ch] no have 1: "room_host room' = h" by (auto simp: h)
    from dispatch_admits [OF message(2) ch h(2)] no have 2: "hget (peers room') h = None"
      by (cases "hget (peers room') h") auto
    have "hget (pending_joins room') h = None"
    proof (cases m)
      case (JoinRoom raw name)
      with message(2) ch have "changes r (join_room c d raw name r) code room room'" by simp
      from join_change(2) [OF this] h show ?thesis by (simp add: host_is_reachable_def)
    next
      case (PlaybackMsg p)
      with message(2) ch have "changes r (playback_msg c d p r) code room room'" by simp
      from playback_change(2) [OF this] no show ?thesis by simp
    next
      case (ApproveJoin joiner)
      with message(2) ch have "changes r (approve_join c d joiner r) code room room'" by simp
      then show ?thesis using no by (auto elim: approve_join_change)
    next
      case (CreateRoom name)
      with message(2) ch create_change show ?thesis by fastforce
    next
      case LeaveRoom
      with message(2) ch have "changes r (leave_room c r) code room room'" by simp
      then show ?thesis using h by (auto elim!: leave_change simp: without_member_def)
    qed (use message(2) ch h no in \<open>auto simp: ping_def changes_same request_sync_def elim: suggest_change
      reconnect_change elim!: changes_in_room dest: reject_join_change
      approve_suggestion_change reject_suggestion_change kick_change transfer_change split: if_splits\<close>)
    with 1 2 show ?thesis by simp
  next
    case (dropped c now)
    from dropped(2) show ?thesis
    proof (cases rule: disconnect_change)
      case (member me p)
      have "me \<noteq> h" using member(1) no h by auto
      with member h show ?thesis by (simp add: dropped_peer_def next_host_def)
    qed (use h in simp)
  next
    case (swept now)
    have "h \<notin> set (expired_uids now room)"
      using h(2) by (force simp: expired_uids_def hget_eq_None)
    with minus_members_change [OF swept False] h show ?thesis by (simp add: hget_filter_keys)
  next
    case (rehashed ps ws)
    with h hget_mset [OF rehashed(1), of h] hget_mset [OF rehashed(2), of h] room_ok_hwf [OF rok]
    show ?thesis by simp
  qed
qed

lemma step_idents:
  assumes "relay_step r r'"
  obtains (message) c d m where "dispatch c d m r = Some r'"
  | (other) "\<And>c. ident r' c = ident r c \<or> ident r' c = (None, None)"
  using assms
proof (cases rule: relay_step.cases)
  case (rdisconnect c now)
  have "ident r' c' = ident r c' \<or> ident r' c' = (None, None)" for c'
    by (auto simp: rdisconnect(1) disconnect_def handle_disconnect_def Let_def hand_off_def
        split: option.splits prod.splits if_splits)
  with other show ?thesis by blast
qed (use message other in \<open>auto simp: connect_def drain_def\<close>)

text \<open>A room whose host is gone never gets one again: once the host is no longer a member and
  nobody holds its identity, every step leaves the room in that condition (or closes it), leaves what
  it plays as it is, and lets nobody in.\<close>

theorem orphaned_room_is_stuck:
  assumes "relay_reachable r" "relay_step r r'" "orphan h code r"
  shows "hget (rooms r') code = None \<or>
    (orphan h code r' \<and>
     (\<exists>room room'. hget (rooms r) code = Some room \<and> hget (rooms r') code = Some room' \<and>
        playback_view room' = playback_view room \<and>
        set (hkeys (peers room')) \<subseteq> set (hkeys (peers room))))"
proof (cases "hget (rooms r') code")
  case (Some room')
  have ok: "relay_ok r" using assms(1) by (rule bounded_relay.inv_reachable)
  from assms(3) obtain room where room: "hget (rooms r) code = Some room" "room_host room = h"
    and no: "\<And>c. ident r c \<noteq> (Some h, Some code)" by (auto simp: orphan_def)
  have host: "room_host room' = h \<and> hget (peers room') h = None \<and> hget (pending_joins room') h = None"
    using orphan_room [OF ok assms(3,2) room(1) Some] .
  have "ident r' c \<noteq> (Some h, Some code)" for c
    using assms(2)
  proof (cases rule: step_idents)
    case (message c d m)
    from orphan_idents [OF ok assms(3) message] show ?thesis .
  next
    case other
    with no show ?thesis by (metis option.distinct(1) prod.inject)
  qed
  with Some host have "orphan h code r'" by (auto simp: orphan_def)
  moreover have "playback_view room' = playback_view room"
  proof (rule ccontr)
    assume ne: "playback_view room' \<noteq> playback_view room"
    then have ch: "changes r r' code room room'" using room Some by (auto simp: changes_def)
    from ok ch assms(2) show False
    proof (cases rule: view_unchanged)
      case (message c d m)
      from dispatch_playback_view [OF message(2) ch ne] no room(2) show False by metis
    qed (use ne in simp)
  qed
  moreover have "set (hkeys (peers room')) \<subseteq> set (hkeys (peers room))"
  proof (cases "room' = room")
    case False
    with room Some have ch: "changes r r' code room room'" by (simp add: changes_def)
    have "hget (peers room') uid = None" if "hget (peers room) uid = None" for uid
      using step_admits [OF ok assms(2) ch that] no room(2) by metis
    then show ?thesis by (auto simp: hget_eq_None)
  qed simp
  ultimately show ?thesis using Some room(1) by blast
qed simp

text \<open>The guest's socket drops, the host leaves, the guest reconnects in time.\<close>

definition sample_dropped :: relay where
  "sample_dropped = disconnect 1 0 sample_pair"

definition sample_left :: relay where
  "sample_left = the (dispatch 0 (sample_draws 9) LeaveRoom sample_dropped)"

definition sample_back :: relay where
  "sample_back = the (dispatch 2 (sample_draws 9) (Reconnect [109]) (connect sample_left))"

lemma sample_dropped_rooms:
  "rooms sample_dropped = [(sample_code, sample_room [([7], sample_host),
     ([8], sample_guest\<lparr>connected := False, disconnected_at := Some 0\<rparr>)] [])]"
  "ident sample_dropped = (\<lambda>_. (None, None))(0 := (Some [7], Some sample_code))"
  "alive sample_dropped = (\<lambda>_. False)(0 := True)" "next_conn sample_dropped = 2"
  by (simp_all add: sample_dropped_def disconnect_def handle_disconnect_def hand_off_def
      sample_pair_eq sample_eval fun_eq_iff)

lemma sample_left_rooms:
  "rooms sample_left = [(sample_code, sample_room
     [([8], sample_guest\<lparr>connected := False, disconnected_at := Some 0\<rparr>)] [])]"
  "ident sample_left = (\<lambda>_. (None, None))"
  "alive sample_left = (\<lambda>_. False)(0 := True)"
  by (simp_all add: sample_left_def leave_room_def remove_member_rooms sample_dropped_rooms
      without_member_def next_host_def any_connected_other_def sample_room_def sample_guest_def
      Let_def hput_def hdel_def fun_eq_iff)

lemma sample_left_conn: "next_conn sample_left = 2"
  by (simp add: sample_left_def leave_room_def sample_dropped_rooms Let_def)

lemma sample_back_rooms:
  "rooms sample_back = [(sample_code, sample_room [([8], sample_guest\<lparr>tx := 2\<rparr>)] [])]"
  "ident sample_back = (\<lambda>_. (None, None))(2 := (Some [8], Some sample_code))"
  by (simp_all add: sample_back_def reconnect_def reattach_def connect_def sample_left_rooms
      sample_left_conn sample_room_def sample_guest_def Let_def hput_def put_room_def)

lemma sample_left_step: "relay_step sample_dropped sample_left"
  by (rule rdispatch [where c = 0 and d = "sample_draws 9" and m = LeaveRoom])
     (simp_all add: sample_dropped_rooms sample_left_def)

lemma sample_back_step: "relay_step (connect sample_left) sample_back"
  by (rule rdispatch [where c = 2 and d = "sample_draws 9" and m = "Reconnect [109]"])
     (simp_all add: connect_def sample_left_conn sample_back_def)

lemma sample_left_reachable: "relay_reachable sample_left"
proof -
  have "relay_step sample_pair sample_dropped"
    unfolding sample_dropped_def by (rule rdisconnect) (simp add: sample_pair_eq)
  from reachable_step [OF sample_reachable(3) this] sample_left_step show ?thesis
    by (rule reachable_step)
qed

lemma sample_back_reachable: "relay_reachable sample_back"
  using relay_reachable_connect [OF sample_left_reachable] sample_back_step by (rule reachable_step)

text \<open>The relay reaches such a room with people in it: when the host leaves while every other
  member is inside the reconnection grace, no successor is found; a guest that then reconnects is a
  connected member of a room without a host.\<close>

theorem orphaned_room_reachable:
  "\<exists>r room p. relay_reachable r \<and> orphan [7] sample_code r \<and>
     hget (rooms r) sample_code = Some room \<and> hget (peers room) [8] = Some p \<and> connected p"
proof -
  have "orphan [7] sample_code sample_back"
    by (simp add: orphan_def sample_back_rooms)
  with sample_back_reachable show ?thesis
    by (intro exI [of _ sample_back]) (simp add: sample_back_rooms sample_guest_def)
qed

theorem orphaned_room_is_stuck_witness:
  "hget (rooms sample_back) sample_code = None \<or> orphan [7] sample_code sample_back"
proof -
  have "orphan [7] sample_code (connect sample_left)"
    by (simp add: orphan_def connect_def sample_left_rooms)
  from orphaned_room_is_stuck [OF relay_reachable_connect [OF sample_left_reachable]
      sample_back_step this] show ?thesis by blast
qed

section \<open>Rooms nobody is in any more\<close>

text \<open>A member counted as connected, in a room that no connection is in.\<close>

definition abandoned :: "ustr \<Rightarrow> relay \<Rightarrow> bool" where
  "abandoned code r \<longleftrightarrow>
     (\<exists>room uid p. hget (rooms r) code = Some room \<and> hget (peers room) uid = Some p \<and> connected p) \<and>
     (\<forall>c. snd (ident r c) \<noteq> Some code)"

lemma abandoned_same:
  assumes "abandoned code r" "hget (rooms r') code = hget (rooms r) code"
    and "\<And>c. snd (ident r' c) \<noteq> Some code"
  shows "abandoned code r'"
  using assms by (auto simp: abandoned_def)

lemma abandoned_cleanup:
  assumes ok: "relay_ok r" and ab: "abandoned code r"
  shows "abandoned code (cleanup now r)"
proof -
  from ab obtain room uid p where room: "hget (rooms r) code = Some room"
    and p: "hget (peers room) uid = Some p" "connected p" by (auto simp: abandoned_def)
  have wf: "hwf (peers room)" using relay_ok_room [OF ok room] by (rule room_ok_hwf)
  have "uid \<notin> set (expired_uids now room)"
  proof
    assume "uid \<in> set (expired_uids now room)"
    then obtain q where "(uid, q) \<in> set (peers room)" "\<not> connected q"
      by (auto simp: expired_uids_def grace_expired_def)
    with p wf show False by (auto simp: hwf_def)
  qed
  with p have kept: "hget (filter (\<lambda>(k, _). k \<notin> set (expired_uids now room)) (peers room)) uid = Some p"
    by (simp add: hget_filter_keys)
  then have "filter (\<lambda>(k, _). k \<notin> set (expired_uids now room)) (peers room) \<noteq> []" by auto
  with kept p have "\<exists>room'. minus_members (expired_uids now room) room = Some room' \<and>
      hget (peers room') uid = Some p"
    by (auto simp: minus_members_def Let_def)
  with room wf ok have "\<exists>room'. hget (rooms (cleanup now r)) code = Some room' \<and>
      hget (peers room') uid = Some p"
    by (simp add: hget_cleanup relay_ok_hwf swept_eq)
  with p ab show ?thesis by (auto simp: abandoned_def)
qed

lemma abandoned_dispatch:
  assumes ab: "abandoned code r" and step: "dispatch c d m r = Some r'"
  shows "abandoned code r' \<or> snd (ident r' c) = Some code"
proof (cases "snd (ident r' c) = Some code")
  case False
  have "snd (ident r' c') \<noteq> Some code" for c'
    using False ab dispatch_ident [OF step, of c'] by (cases "c' = c") (auto simp: abandoned_def)
  moreover have "hget (rooms r') code = hget (rooms r) code"
    using dispatch_isolated [OF step, of code] False ab by (auto simp: abandoned_def)
  ultimately show ?thesis using abandoned_same [OF ab] by blast
qed simp

text \<open>A room with a member counted as connected but with no connection in it is never
  collected: neither the sweep nor any disconnection frees it, until somebody enters it by its code
  or with a session token of one of its members.\<close>

theorem abandoned_room_stays:
  assumes "relay_reachable r" "relay_step r r'" "abandoned code r"
  shows "abandoned code r' \<or> (\<exists>c d m. dispatch c d m r = Some r' \<and> snd (ident r' c) = Some code)"
  using assms(2)
proof (cases rule: relay_step.cases)
  case (rdispatch c d m)
  with abandoned_dispatch [OF assms(3)] show ?thesis by blast
next
  case (rdisconnect c now)
  have other: "snd (ident r c) \<noteq> Some code" using assms(3) by (simp add: abandoned_def)
  have "hget (rooms (disconnect c now r)) code = hget (rooms r) code"
    using other by (auto simp: disconnect_rooms Let_def split: option.splits prod.splits)
  moreover have "snd (ident (disconnect c now r) c') \<noteq> Some code" for c'
    using assms(3) by (auto simp: abandoned_def disconnect_def handle_disconnect_def Let_def
        hand_off_def split: option.splits prod.splits if_splits)
  ultimately show ?thesis using abandoned_same [OF assms(3)] rdisconnect by blast
next
  case (rcleanup now)
  with abandoned_cleanup [OF bounded_relay.inv_reachable [OF assms(1)] assms(3)] show ?thesis by simp
next
  case (rehash_rooms m)
  have "hwf (rooms r)" using bounded_relay.inv_reachable [OF assms(1)] by (rule relay_ok_hwf)
  with rehash_rooms hget_mset have "hget (rooms r') code = hget (rooms r) code" by fastforce
  then show ?thesis
    using abandoned_same [OF assms(3)] assms(3) rehash_rooms by (auto simp: abandoned_def)
next
  case (rehash_peers code' room ps ws)
  have "room_ok room"
    using relay_ok_room [OF bounded_relay.inv_reachable [OF assms(1)] rehash_peers(2)] .
  then have "hget ps = hget (peers room)"
    using hget_mset [OF rehash_peers(3)] by (auto dest: room_ok_hwf)
  with assms(3) rehash_peers show ?thesis by (auto simp: abandoned_def) blast
qed (use assms(3) in \<open>simp_all add: abandoned_def connect_def drain_def\<close>)

text \<open>How one connection gets there: it creates a room and, without leaving it, the next one.\<close>

definition nth_picks :: "nat \<Rightarrow> nat list" where
  "nth_picks n = [n div 34, n mod 34, 0, 0, 0, 0, 0, 0]"

lemma alphabet_length: "length CODE_ALPHABET = 34"
  by (simp add: CODE_ALPHABET_def)

lemma alphabet_distinct: "distinct CODE_ALPHABET"
  by (simp add: CODE_ALPHABET_def lit_Cons)

lemma gen_code_inj:
  assumes "i < 256" "j < 256" "gen_code (nth_picks i) = gen_code (nth_picks j)"
  shows "i = j"
proof -
  have "CODE_ALPHABET ! (i div 34) = CODE_ALPHABET ! (j div 34)"
    "CODE_ALPHABET ! (i mod 34) = CODE_ALPHABET ! (j mod 34)"
    using assms by (simp_all add: gen_code_def nth_picks_def alphabet_length)
  then have "i div 34 = j div 34" "i mod 34 = j mod 34"
    using assms alphabet_distinct by (simp_all add: nth_eq_iff_index_eq alphabet_length)
  then show ?thesis by (metis div_mult_mod_eq)
qed

definition nth_draws :: "nat \<Rightarrow> draws" where
  "nth_draws n = (sample_draws 7)\<lparr>code_draws := [nth_picks n]\<rparr>"

lemma fill_relay:
  "n \<le> 256 \<Longrightarrow> \<exists>r. relay_reachable r \<and> alive r = (\<lambda>c. c = 0) \<and> length (rooms r) = n \<and>
     set (hkeys (rooms r)) = (\<lambda>i. gen_code (nth_picks i)) ` {..<n} \<and>
     (\<forall>c. c \<noteq> 0 \<longrightarrow> ident r c = (None, None)) \<and>
     hall (\<lambda>room. \<exists>uid p. hget (peers room) uid = Some p \<and> connected p) (rooms r)"
proof (induction n)
  case 0
  have "relay_reachable (connect relay_new)"
    by (rule relay_reachable_connect, rule reachable_init) simp
  then show ?case by (intro exI [of _ "connect relay_new"]) (auto simp: connect_def relay_new_def)
next
  case (Suc n)
  then obtain r where r: "relay_reachable r" "alive r = (\<lambda>c. c = 0)" "length (rooms r) = n"
      "set (hkeys (rooms r)) = (\<lambda>i. gen_code (nth_picks i)) ` {..<n}"
      "\<forall>c. c \<noteq> 0 \<longrightarrow> ident r c = (None, None)"
      "hall (\<lambda>room. \<exists>uid p. hget (peers room) uid = Some p \<and> connected p) (rooms r)" by auto
  let ?code = "gen_code (nth_picks n)" and ?d = "nth_draws n"
  have fresh: "?code \<notin> set (hkeys (rooms r))"
  proof
    assume "?code \<in> set (hkeys (rooms r))"
    then obtain i where "i < n" "?code = gen_code (nth_picks i)" unfolding r(4) by blast
    with gen_code_inj [of n i] Suc.prems show False by simp
  qed
  then have pick: "pick_code (map gen_code (code_draws ?d)) (rooms r) = Some ?code"
    by (simp add: nth_draws_def hget_eq_None)
  obtain r' where r': "create_room 0 ?d [72] r = Some r'"
    and rooms: "rooms r' = hput ?code (new_room 0 ?d [72]) (rooms r)"
    and al: "alive r' = alive r"
    using pick r(3) Suc.prems by (auto simp: create_room_def MAX_ROOMS_def Let_def)
  have d: "dispatch 0 ?d (CreateRoom [72]) r = Some r'" using r' by simp
  have "relay_reachable r'"
    using r(1) by (rule relay_reachable_dispatch [OF _ _ d]) (simp add: r(2))
  moreover have "ident r' c = (None, None)" if "c \<noteq> 0" for c
    using dispatch_ident [OF d that] r(5) that by simp
  moreover have "length (rooms r') = Suc n" using fresh r(3) by (simp add: rooms length_hput)
  moreover have "set (hkeys (rooms r')) = (\<lambda>i. gen_code (nth_picks i)) ` {..<Suc n}"
    unfolding rooms set_hkeys_hput r(4) by (simp add: lessThan_Suc)
  moreover have "hall (\<lambda>room. \<exists>uid p. hget (peers room) uid = Some p \<and> connected p) (rooms r')"
    unfolding rooms using r(6) by (intro hall_hput) (simp_all add: new_room_def)
  ultimately show ?case using r(2) al by (intro exI [of _ r'] conjI allI impI) simp_all
qed

lemma length_filter_all_but:
  assumes "distinct xs" "\<And>x. x \<in> set xs \<Longrightarrow> x \<noteq> y \<Longrightarrow> P x"
  shows "length xs \<le> Suc (length (filter P xs))"
  using assms
proof (induction xs)
  case (Cons x xs)
  show ?case
  proof (cases "P x")
    case False
    with Cons.prems have "x = y" by auto
    with Cons.prems have "filter P xs = xs" by (auto simp: filter_id_conv)
    with False show ?thesis by simp
  qed (use Cons in simp)
qed simp

text \<open>One connection can fill the relay: \<open>CreateRoom\<close> forgets the room the connection was in
  without leaving it, so 256 of them reach a state where a single connection is open, every one of
  the 256 places is taken and at least 255 rooms are abandoned.\<close>

theorem one_connection_fills_the_relay:
  "\<exists>r. relay_reachable r \<and> alive r = (\<lambda>c. c = 0) \<and> length (rooms r) = 256 \<and>
     255 \<le> length (filter (\<lambda>code. abandoned code r) (hkeys (rooms r)))"
proof -
  obtain r where r: "relay_reachable r" "alive r = (\<lambda>c. c = 0)" "length (rooms r) = 256"
      "\<forall>c. c \<noteq> 0 \<longrightarrow> ident r c = (None, None)"
      "hall (\<lambda>room. \<exists>uid p. hget (peers room) uid = Some p \<and> connected p) (rooms r)"
    using fill_relay [of 256] by auto
  have wf: "hwf (rooms r)" using bounded_relay.inv_reachable [OF r(1)] by (rule relay_ok_hwf)
  have "abandoned code r" if code: "code \<in> set (hkeys (rooms r))" "code \<noteq> the (snd (ident r 0))" for code
  proof -
    obtain room where room: "hget (rooms r) code = Some room"
      using code(1) by (cases "hget (rooms r) code") (auto simp: hget_eq_None)
    have "snd (ident r c) \<noteq> Some code" for c
      using r(4) code(2) by (cases "c = 0") auto
    with room hall_hget [OF r(5) room] show ?thesis by (auto simp: abandoned_def)
  qed
  then have "length (hkeys (rooms r)) \<le> Suc (length (filter (\<lambda>code. abandoned code r) (hkeys (rooms r))))"
    using wf by (intro length_filter_all_but) (auto simp: hwf_def)
  with r show ?thesis by (intro exI [of _ r]) simp
qed

text \<open>An instance of the fifth property: one connection that has created two rooms.\<close>

definition sample_two :: relay where
  "sample_two = the (dispatch 0 (nth_draws 1) (CreateRoom [72]) sample_created)"

lemma sample_two_values:
  "ident sample_two = (\<lambda>_. (None, None))(0 := (Some [7], Some (gen_code (nth_picks 1))))"
  "alive sample_two = (\<lambda>c. c = 0)"
  "hget (rooms sample_two) sample_code = Some (sample_room [([7], sample_host)] [])"
  "relay_reachable sample_two"
proof -
  have ne: "gen_code (nth_picks 1) \<noteq> sample_code"
    by (simp add: gen_code_def nth_picks_def sample_code_def CODE_ALPHABET_def lit_Cons)
  obtain r' where r': "create_room 0 (nth_draws 1) [72] sample_created = Some r'"
    "rooms r' = hput (gen_code (nth_picks 1)) (new_room 0 (nth_draws 1) [72]) (rooms sample_created)"
    "ident r' = (ident sample_created)(0 := (Some [7], Some (gen_code (nth_picks 1))))"
    "alive r' = alive sample_created"
    using ne by (auto simp: create_room_def MAX_ROOMS_def sample_created_eq nth_draws_def
        sample_draws_def Let_def)
  then have eq: "sample_two = r'" by (simp add: sample_two_def)
  show "ident sample_two = (\<lambda>_. (None, None))(0 := (Some [7], Some (gen_code (nth_picks 1))))"
    "alive sample_two = (\<lambda>c. c = 0)"
    "hget (rooms sample_two) sample_code = Some (sample_room [([7], sample_host)] [])"
    using ne by (auto simp: eq r' sample_created_eq fun_eq_iff)
  have "dispatch 0 (nth_draws 1) (CreateRoom [72]) sample_created = Some sample_two"
    using r' by (simp add: eq)
  moreover have "alive sample_created 0" by (simp add: sample_created_eq)
  ultimately show "relay_reachable sample_two"
    using relay_reachable_dispatch [OF sample_reachable(1)] by blast
qed

theorem abandoned_room_stays_witness: "abandoned sample_code (disconnect 0 9 sample_two)"
proof -
  have ne: "gen_code (nth_picks 1) \<noteq> sample_code"
    by (simp add: gen_code_def nth_picks_def sample_code_def CODE_ALPHABET_def lit_Cons)
  then have ab: "abandoned sample_code sample_two"
    by (auto simp: abandoned_def sample_two_values sample_host_def)
  have step: "relay_step sample_two (disconnect 0 9 sample_two)"
    by (rule rdisconnect) (simp add: sample_two_values)
  have none: "ident (disconnect 0 9 sample_two) c = (None, None)" for c
    by (auto simp: disconnect_def handle_disconnect_def hand_off_def sample_two_values Let_def
        split: option.splits prod.splits if_splits)
  from abandoned_room_stays [OF sample_two_values(4) step ab] show ?thesis by (auto simp: none)
qed

end
