(* ===== verification/Relay_Traffic.thy ===== *)
theory Relay_Traffic
  imports Relay_Rooms
begin

text \<open>
  Who hears what, and how a place in a room is kept: delivery of broadcasts, what a connection that
  is not let in can learn, disconnection, the sweep, reconnection, and picking a room code.
\<close>

section \<open>Delivery\<close>

definition copies :: "ustr option \<Rightarrow> room \<Rightarrow> conn \<Rightarrow> nat" where
  "copies except room k =
     length (filter (\<lambda>(uid, p). connected p \<and> Some uid \<noteq> except \<and> tx p = k) (peers room))"

definition delivered :: "conn \<Rightarrow> nat \<Rightarrow> server_message \<Rightarrow> relay \<Rightarrow> server_message list" where
  "delivered k n m r =
     (if alive r k
      then outbound r k @ replicate (min n (OUTBOUND_QUEUE_CAPACITY - length (outbound r k))) m
      else outbound r k)"

lemma delivered_0 [simp]: "delivered k 0 m r = outbound r k"
  by (simp add: delivered_def)

lemma delivered_tx_send:
  "delivered k n m (tx_send c m r) = delivered k (if c = k then Suc n else n) m r"
proof (cases "alive r k \<and> c = k \<and> length (outbound r k) < OUTBOUND_QUEUE_CAPACITY")
  case True
  then have "Suc (min n (OUTBOUND_QUEUE_CAPACITY - Suc (length (outbound r k)))) =
      min (Suc n) (OUTBOUND_QUEUE_CAPACITY - length (outbound r k))" by arith
  then have "m # replicate (min n (OUTBOUND_QUEUE_CAPACITY - Suc (length (outbound r k)))) m =
      replicate (min (Suc n) (OUTBOUND_QUEUE_CAPACITY - length (outbound r k))) m"
    by (metis replicate_Suc)
  with True show ?thesis by (simp add: delivered_def tx_send_def)
qed (auto simp: delivered_def tx_send_def)

lemma broadcast_delivers:
  "outbound (broadcast m except room r) k = delivered k (copies except room k) m r"
proof -
  have "outbound (fold (\<lambda>(uid, p) r. if connected p \<and> Some uid \<noteq> except then tx_send (tx p) m r else r)
        ps r) k =
      delivered k (length (filter (\<lambda>(uid, p). connected p \<and> Some uid \<noteq> except \<and> tx p = k) ps)) m r"
    for ps
  proof (induction ps arbitrary: r)
    case (Cons up ps)
    obtain uid p where "up = (uid, p)" by fastforce
    with Cons show ?case
      by (cases "connected p \<and> Some uid \<noteq> except") (auto simp: delivered_tx_send)
  qed simp
  then show ?thesis by (simp add: broadcast_def copies_def)
qed

text \<open>A playback action of the host reaches exactly the members connected at that moment,
  each once and never the host itself: a connection's channel gains one copy of the action (with the
  relay's clock stamped on \<open>Play\<close>) per such member it serves, up to the room left in the channel,
  and nothing else.\<close>

theorem playback_reaches_the_members:
  assumes "bounded_playback p" "ident r c = (Some me, Some code)"
    and "hget (rooms r) code = Some room" "room_host room = me" "alive r k"
    and "length (outbound r k) + copies (Some me) room k \<le> OUTBOUND_QUEUE_CAPACITY"
  shows "outbound (playback_msg c d p r) k =
    outbound r k @ replicate (copies (Some me) room k)
      (SyncPlayback (if kind p = Play then p\<lparr>server_time_ms := wall_ms d\<rparr> else p))"
proof -
  obtain room' p' where a: "apply_playback (wall_ms d) p room = (room', p')" by fastforce
  then have "p' = (if kind p = Play then p\<lparr>server_time_ms := wall_ms d\<rparr> else p)"
    and "peers room' = peers room"
    by (auto simp: apply_playback.simps Let_def split: playback_kind.splits option.splits)
  moreover from this(2) have "copies (Some me) room' k = copies (Some me) room k"
    by (simp add: copies_def)
  moreover have "min (copies (Some me) room k) (OUTBOUND_QUEUE_CAPACITY - length (outbound r k)) =
      copies (Some me) room k" using assms(6) by simp
  ultimately show ?thesis using assms a
    by (simp add: playback_msg_def in_room_def host_is_def broadcast_delivers delivered_def)
qed

theorem playback_reaches_the_members_witness:
  "outbound sample_playing 1 = outbound sample_pair 1 @
     [SyncPlayback (sample_play\<lparr>server_time_ms := 5000\<rparr>)]"
proof -
  have "bounded_playback sample_play"
    by (simp add: sample_play_def playback_at_def playback_new_def bounded_playback_def word_sless_alt)
  moreover have "ident sample_pair 0 = (Some [7], Some sample_code)" "alive sample_pair 1"
    by (simp_all add: sample_pair_eq)
  moreover have "copies (Some [7]) (sample_room [([7], sample_host), ([8], sample_guest)] []) 1 = 1"
    by (simp add: copies_def sample_host_def sample_guest_def)
  moreover have "length (outbound sample_pair 1) = 1" by (simp add: sample_pair_eq)
  ultimately show ?thesis
    using playback_reaches_the_members [of sample_play sample_pair 0 "[7]" sample_code _ 1 "sample_draws 10"]
    by (simp add: sample_rooms OUTBOUND_QUEUE_CAPACITY_def sample_playing_def sample_play_def
        playback_at_def playback_new_def sample_draws_def)
qed

section \<open>Outside the door\<close>

definition harmless :: "server_message \<Rightarrow> bool" where
  "harmless m = (case m of Pong \<Rightarrow> True | ErrorMsg _ _ \<Rightarrow> True | _ \<Rightarrow> False)"

definition gains_harmless :: "conn \<Rightarrow> relay \<Rightarrow> relay \<Rightarrow> bool" where
  "gains_harmless k r r' \<longleftrightarrow> (\<exists>ms. outbound r' k = outbound r k @ ms \<and> list_all harmless ms)"

lemma gains_harmless_refl [simp]: "outbound r' k = outbound r k \<Longrightarrow> gains_harmless k r r'"
  by (simp add: gains_harmless_def)

lemma gains_harmless_send: "c \<noteq> k \<or> harmless m \<Longrightarrow> outbound r0 k = outbound r k \<Longrightarrow>
    gains_harmless k r (tx_send c m r0)"
  by (auto simp: gains_harmless_def tx_send_def)

lemma harmless_err: "harmless (err a b)" "harmless Pong"
  by (simp_all add: harmless_def err_def)

lemma gains_harmless_in_room:
  assumes "\<And>code room. ident r c = (Some me, Some code) \<Longrightarrow> hget (rooms r) code = Some room \<Longrightarrow>
      gains_harmless k r (f me code room)" "fst (ident r c) = Some me"
  shows "gains_harmless k r (in_room c r f)"
  using assms by (auto simp: in_room_def split: option.split prod.split)

text \<open>A connection that has asked to join but was not let in learns nothing of the room: as
  long as no member is served over it, whatever it sends (short of creating, leaving or
  reconnecting), its own channel gains only errors and pongs.\<close>

theorem waiting_connection_learns_nothing:
  assumes "dispatch c d m r = Some r'" "ident r c = (Some me, Some code)"
    and "hget (rooms r) code = Some room" "hget (peers room) me = None" "room_host room \<noteq> me"
    and "list_all (\<lambda>(_, room). list_all (\<lambda>(_, p). tx p \<noteq> c) (peers room)) (rooms r)"
    and "\<not> (case m of CreateRoom _ \<Rightarrow> True | Reconnect _ \<Rightarrow> True | LeaveRoom \<Rightarrow> True | _ \<Rightarrow> False)"
  shows "\<exists>ms. outbound r' c = outbound r c @ ms \<and> list_all harmless ms"
proof -
  have notc: "tx p \<noteq> c" if "hget (rooms r) code = Some room" "hget (peers room) uid = Some p"
    for code room uid p
    using that assms(6) by (auto simp: list_all_iff dest!: hget_in_set)
  have "gains_harmless c r r'"
  proof (cases m)
    case (JoinRoom raw name)
    have "gains_harmless c r (join_room c d raw name r)"
      using notc by (auto simp: join_room_def Let_def send_to_def gains_harmless_def tx_send_def
          harmless_err split: option.split)
    with JoinRoom assms(1) show ?thesis by simp
  next
    case (PlaybackMsg p)
    with assms(1-3,5) show ?thesis
      by (auto simp: playback_msg_def in_room_def host_is_def harmless_err intro!: gains_harmless_send)
  next
    case (Suggest t)
    with assms(1-5) show ?thesis
      by (auto simp: suggest_def in_room_def host_is_def harmless_err intro!: gains_harmless_send)
  qed (use assms in \<open>auto simp: ping_def approve_join_def reject_join_def request_sync_def
      approve_suggestion_def reject_suggestion_def kick_user_def transfer_host_def in_room_def
      host_is_def harmless_err intro!: gains_harmless_send\<close>)
  then show ?thesis by (simp add: gains_harmless_def)
qed

theorem waiting_connection_learns_nothing_witness:
  "\<exists>ms. outbound (request_sync 1 (sample_draws 9) sample_joining) 1 =
     outbound sample_joining 1 @ ms \<and> list_all harmless ms"
  using waiting_connection_learns_nothing [of 1 "sample_draws 9" RequestSync sample_joining _ "[8]" sample_code]
  by (simp add: sample_joining_eq sample_room_def sample_host_def)

section \<open>Keeping and losing a place\<close>

lemma expired_uids_iff:
  assumes "hwf (peers room)" "(uid, p) \<in> set (peers room)"
  shows "uid \<in> set (expired_uids now room) \<longleftrightarrow> grace_expired now p"
  using assms by (force simp: expired_uids_def hwf_def dest: eq_key_imp_eq_value)

text \<open>The sweep removes exactly the members whose reconnection grace has run out. A room with
  none of them is untouched; a room with no other member is closed; otherwise the rest stay, in
  place, and the host role of a removed host goes to the first member that is connected.\<close>

theorem sweep_removes_exactly_the_expired:
  assumes "relay_reachable r" "hget (rooms r) code = Some room"
  shows "hget (rooms (cleanup now r)) code =
    (if list_all (\<lambda>(_, p). \<not> grace_expired now p) (peers room) then Some room
     else if list_all (\<lambda>(_, p). grace_expired now p) (peers room) then None
     else Some (room\<lparr>
       peers := filter (\<lambda>(_, p). \<not> grace_expired now p) (peers room),
       pending_joins := filter (\<lambda>(uid, _). uid \<notin> set (expired_uids now room)) (pending_joins room),
       room_host := (if room_host room \<in> set (expired_uids now room)
         then case first_connected room of Some next \<Rightarrow> next | None \<Rightarrow> room_host room
         else room_host room)\<rparr>))"
proof -
  have ok: "relay_ok r" using assms(1) by (rule bounded_relay.inv_reachable)
  have wf: "hwf (peers room)" using relay_ok_room [OF ok assms(2)] by (rule room_ok_hwf)
  have keep: "filter (\<lambda>(uid, _). uid \<notin> set (expired_uids now room)) (peers room) =
      filter (\<lambda>(_, p). \<not> grace_expired now p) (peers room)"
    by (auto intro!: filter_cong simp: expired_uids_iff [OF wf])
  have none: "expired_uids now room = [] \<longleftrightarrow> list_all (\<lambda>(_, p). \<not> grace_expired now p) (peers room)"
    by (auto simp: expired_uids_def filter_empty_conv list_all_iff)
  have all: "filter (\<lambda>(_, p). \<not> grace_expired now p) (peers room) = [] \<longleftrightarrow>
      list_all (\<lambda>(_, p). grace_expired now p) (peers room)"
    by (auto simp: filter_empty_conv list_all_iff)
  show ?thesis
    using assms(2) ok by (simp add: hget_cleanup relay_ok_hwf swept_eq wf minus_members_def keep none
        all Let_def)
qed

theorem sweep_removes_exactly_the_expired_witness:
  "hget (rooms (cleanup (2 * RECONNECT_GRACE) sample_left)) sample_code = None"
  using sweep_removes_exactly_the_expired [OF sample_left_reachable, of sample_code _ "2 * RECONNECT_GRACE"]
  by (simp add: sample_left_rooms sample_guest_def grace_expired_def RECONNECT_GRACE_def)

text \<open>A socket that drops keeps the member's place: the member stays, marked disconnected with
  the time, nobody else's entry changes, and if the member was the host and somebody else is
  connected, one of the connected members is host from then on.\<close>

theorem drop_keeps_the_place:
  assumes "relay_reachable r" "ident r c = (Some me, Some code)"
    and "hget (rooms r) code = Some room" "hget (pending_joins room) me = None"
    and "hget (peers room) me = Some p"
  shows "\<exists>room'. hget (rooms (disconnect c now r)) code = Some room' \<and>
    hget (peers room') = (hget (peers room))(me \<mapsto> p\<lparr>connected := False, disconnected_at := Some now\<rparr>) \<and>
    pending_joins room' = pending_joins room \<and> playback_view room' = playback_view room \<and>
    (if room_host room = me \<and> (\<exists>uid q. hget (peers room) uid = Some q \<and> connected q \<and> uid \<noteq> me)
     then host_is_reachable room' \<and> room_host room' \<noteq> me else room_host room' = room_host room)"
proof -
  let ?room = "dropped_peer me p now room"
  let ?room' = "?room\<lparr>room_host := next_host me ?room\<rparr>"
  have wf: "hwf (peers ?room)" using relay_ok_room [OF bounded_relay.inv_reachable [OF assms(1)] assms(3)]
    by (auto simp: dropped_peer_def dest: room_ok_hwf)
  have 1: "hget (rooms (disconnect c now r)) code = Some ?room'"
    using assms by (simp add: disconnect_rooms Let_def)
  have 2: "hget (peers ?room') = (hget (peers room))
      (me \<mapsto> p\<lparr>connected := False, disconnected_at := Some now\<rparr>)"
    by (auto simp: dropped_peer_def fun_eq_iff)
  have host: "room_host ?room = room_host room" by (simp add: dropped_peer_def)
  have 3: "if room_host room = me \<and> (\<exists>uid q. hget (peers room) uid = Some q \<and> connected q \<and> uid \<noteq> me)
     then host_is_reachable ?room' \<and> room_host ?room' \<noteq> me else room_host ?room' = room_host room"
  proof (cases "any_connected_other me ?room")
    case None
    have "\<not> connected q" if "hget (peers room) uid = Some q" "uid \<noteq> me" for uid q
      using any_connected_other_ex [of ?room uid q me] that None by (auto simp: dropped_peer_def)
    with None show ?thesis by (auto simp: next_host_def host)
  next
    case (Some h)
    from any_connected_other_Some [OF Some wf] obtain q where
      "h \<noteq> me" "hget (peers ?room) h = Some q" "connected q" by auto
    moreover from this have "hget (peers room) h = Some q" by (simp add: dropped_peer_def)
    ultimately show ?thesis using Some by (auto simp: next_host_def host host_is_reachable_def)
  qed
  show ?thesis using 1 2 3 by (intro exI [of _ ?room']) (simp add: dropped_peer_def)
qed

theorem drop_keeps_the_place_witness:
  "\<exists>room'. hget (rooms (disconnect 0 3 sample_pair)) sample_code = Some room' \<and>
     host_is_reachable room' \<and> room_host room' \<noteq> [7]"
  using drop_keeps_the_place [OF sample_reachable(3), of 0 "[7]" sample_code _ sample_host 3]
    sample_rooms(2)
  by (auto simp: sample_pair_eq sample_guest_def split: if_splits)

lemma close_delivers:
  "outbound (fold (\<lambda>(_, w). tx_send (pending_tx w) m) ws r) k =
   delivered k (length (filter (\<lambda>(_, w). pending_tx w = k) ws)) m r"
proof (induction ws arbitrary: r)
  case (Cons uw ws)
  obtain u w where "uw = (u, w)" by fastforce
  with Cons show ?case by (simp add: delivered_tx_send)
qed simp

text \<open>When the last member leaves, the room is gone, the connection has no identity any more,
  and everyone who was waiting to be let in is told, each once.\<close>

theorem last_leave_closes_the_room:
  assumes "ident r c = (Some me, Some code)" "hget (rooms r) code = Some room"
    and "hkeys (peers room) = [me]" "alive r k"
    and "length (outbound r k) +
      length (filter (\<lambda>(uid, w). uid \<noteq> me \<and> pending_tx w = k) (pending_joins room)) \<le> OUTBOUND_QUEUE_CAPACITY"
  shows "hget (rooms (leave_room c r)) code = None \<and> ident (leave_room c r) c = (None, None) \<and>
    outbound (leave_room c r) k = outbound r k @
      replicate (length (filter (\<lambda>(uid, w). uid \<noteq> me \<and> pending_tx w = k) (pending_joins room)))
        (JoinRejected (lit ''The host closed the session.''))"
proof -
  let ?r = "r\<lparr>ident := (ident r)(c := (None, None))\<rparr>"
  obtain p where p: "peers room = [(me, p)]" using assms(3) by (cases "peers room") auto
  have room: "hget (rooms ?r) code = Some room" using assms(2) by simp
  have empty: "peers (without_member me room) = []" by (simp add: without_member_def p)
  have sent: "broadcast (UserLeft me) None (without_member me room) ?r = ?r"
    by (simp add: broadcast_def empty)
  have ho: "hand_off code me (without_member me room) ?r = (without_member me room, ?r)"
    by (simp add: hand_off_def any_connected_other_def empty)
  have eq: "leave_room c r = remove_member code me True ?r"
    by (simp add: leave_room_def assms(1))
  have ws: "filter (\<lambda>(_, w). pending_tx w = k) (pending_joins (without_member me room)) =
      filter (\<lambda>(uid, w). uid \<noteq> me \<and> pending_tx w = k) (pending_joins room)"
    by (auto simp: without_member_def hdel_def intro!: filter_cong)
  have r1: "?r = (if hget (peers room) me \<noteq> None \<and> True
      then broadcast (UserLeft me) None (without_member me room) ?r else ?r)" by (simp add: sent)
  show ?thesis
    unfolding eq remove_member_eq [OF room without_member_def r1 ho]
    using assms(4,5) by (simp add: empty close_delivers ws delivered_def)
qed

theorem last_leave_closes_the_room_witness:
  "hget (rooms (leave_room 0 sample_joining)) sample_code = None \<and>
   outbound (leave_room 0 sample_joining) 1 = [JoinRejected (lit ''The host closed the session.'')]"
proof -
  have i: "ident sample_joining 0 = (Some [7], Some sample_code)" "alive sample_joining 1"
    "outbound sample_joining 1 = []" by (simp_all add: sample_joining_eq)
  from last_leave_closes_the_room [OF i(1) sample_rooms(1), of 1] i show ?thesis
    by (simp add: OUTBOUND_QUEUE_CAPACITY_def)
qed

lemma reconnect_finds:
  assumes ok: "relay_ok r" and room: "hget (rooms r) code = Some room"
    and me: "hget (peers room) me = Some p" "session_token p = token"
    and unique: "\<And>code' room' uid q. hget (rooms r) code' = Some room' \<Longrightarrow>
      hget (peers room') uid = Some q \<Longrightarrow> session_token q = token \<Longrightarrow> code' = code \<and> uid = me"
  shows "find_token token (rooms r) = Some (code, me)"
proof -
  have "(code, room) \<in> set (rooms r)" "(me, p) \<in> set (peers room)"
    using room me by (auto dest: hget_in_set)
  then have "find_token token (rooms r) \<noteq> None" using me(2)
  proof (induction token "rooms r" arbitrary: r rule: find_token.induct)
    case (2 token code' room' m)
    from 2(3-) have "m = rooms (r\<lparr>rooms := m\<rparr>)" by simp
    show ?case
    proof (cases "find (\<lambda>(_, p). session_token p = token) (peers room')")
      case None
      with 2 have "(code, room) \<in> set m" by (auto simp: find_None_iff simp flip: 2(2))
      with 2(1) [of "r\<lparr>rooms := m\<rparr>"] None 2 show ?thesis by (auto simp flip: 2(2))
    qed (auto simp flip: 2(2) split: prod.splits)
  qed auto
  then obtain code' uid where f: "find_token token (rooms r) = Some (code', uid)" by auto
  from find_token_peer [OF f relay_ok_hwf [OF ok] relay_ok_peers [OF ok]] obtain room' q where
    "hget (rooms r) code' = Some room'" "hget (peers room') uid = Some q" "session_token q = token"
    by blast
  with unique have "code' = code \<and> uid = me" by blast
  with f show ?thesis by simp
qed

lemma cleanup_peers:
  assumes "relay_ok r" "hget (rooms (cleanup now r)) code = Some room'"
  obtains room where "hget (rooms r) code = Some room"
    and "\<And>uid. hget (peers room') uid = None \<or> hget (peers room') uid = hget (peers room) uid"
proof -
  obtain room where room: "hget (rooms r) code = Some room"
    using assms by (cases "hget (rooms r) code") (auto simp: hget_cleanup relay_ok_hwf swept_def)
  have "hwf (peers room)" using relay_ok_room [OF assms(1) room] by (rule room_ok_hwf)
  with assms room have m: "minus_members (expired_uids now room) room = Some room'"
    by (simp add: hget_cleanup relay_ok_hwf swept_eq)
  have "hget (peers room') uid = None \<or> hget (peers room') uid = hget (peers room) uid" for uid
    using m by (auto simp: minus_members_def Let_def hget_filter_keys split: if_splits)
  with room that show ?thesis by blast
qed

lemma cleanup_keeps_peer:
  assumes ok: "relay_ok r" and room: "hget (rooms r) code = Some room"
    and p: "hget (peers room) uid = Some p" "\<not> grace_expired now p"
  obtains room' where "hget (rooms (cleanup now r)) code = Some room'" "hget (peers room') uid = Some p"
proof -
  have wf: "hwf (peers room)" using relay_ok_room [OF ok room] by (rule room_ok_hwf)
  have "uid \<notin> set (expired_uids now room)"
    using expired_uids_iff [OF wf hget_in_set [OF p(1)]] p(2) by simp
  with p have kept: "hget (filter (\<lambda>(k, _). k \<notin> set (expired_uids now room)) (peers room)) uid = Some p"
    by (simp add: hget_filter_keys)
  then have "filter (\<lambda>(k, _). k \<notin> set (expired_uids now room)) (peers room) \<noteq> []" by auto
  with kept p(1) have "\<exists>room'. minus_members (expired_uids now room) room = Some room' \<and>
      hget (peers room') uid = Some p"
    by (auto simp: minus_members_def Let_def)
  with room wf ok that show ?thesis by (auto simp: hget_cleanup relay_ok_hwf swept_eq)
qed

lemma reconnect_restores:
  assumes "find_token token (rooms r) = Some (code, me)" "hget (rooms r) code = Some room"
    and "hget (peers room) me = Some p"
  shows "\<exists>room'. hget (rooms (reconnect c d token r)) code = Some room' \<and>
      hget (peers room') me = Some (p\<lparr>tx := c, connected := True, disconnected_at := None\<rparr>)"
    and "ident (reconnect c d token r) c = (Some me, Some code)"
  using assms by (auto simp: reconnect_def reattach_def Let_def)

text \<open>A member that drops and comes back with its session token within the grace has its place
  again: whatever sweeps ran in between, the same id, name and token, now connected over the new
  socket, with no disconnection time, in the same room.\<close>

theorem reconnect_within_grace:
  assumes "relay_reachable r" "ident r c = (Some me, Some code)"
    and "hget (rooms r) code = Some room" "hget (pending_joins room) me = None"
    and "hget (peers room) me = Some p" "now' - now \<le> RECONNECT_GRACE"
    and "list_all (\<lambda>(code', room'). list_all (\<lambda>(uid, q).
      session_token q = session_token p \<longrightarrow> code' = code \<and> uid = me) (peers room')) (rooms r)"
  shows "\<exists>room'. hget (rooms (reconnect c' d (session_token p) (cleanup now' (disconnect c now r)))) code =
      Some room' \<and>
    hget (peers room') me = Some (p\<lparr>tx := c', connected := True, disconnected_at := None\<rparr>) \<and>
    ident (reconnect c' d (session_token p) (cleanup now' (disconnect c now r))) c' = (Some me, Some code)"
proof -
  let ?p = "p\<lparr>connected := False, disconnected_at := Some now\<rparr>"
  let ?room = "dropped_peer me p now room"
  let ?r1 = "disconnect c now r" and ?r2 = "cleanup now' (disconnect c now r)"
  have ok: "relay_ok r" using assms(1) by (rule bounded_relay.inv_reachable)
  then have ok1: "relay_ok ?r1" by (rule relay_ok_disconnect)
  then have ok2: "relay_ok ?r2" by (rule relay_ok_cleanup)
  have r1: "rooms ?r1 = hput code (?room\<lparr>room_host := next_host me ?room\<rparr>) (rooms r)"
    using assms by (simp add: disconnect_rooms Let_def)
  have tokens: "code' = code \<and> uid = me"
    if "hget (rooms ?r1) code' = Some room'" "hget (peers room') uid = Some q"
      "session_token q = session_token p" for code' room' uid q
  proof (cases "code' = code")
    case True
    with that have "hget (peers room) uid = Some q \<or> uid = me"
      by (auto simp: r1 dropped_peer_def split: if_splits)
    with that(3) assms(3,7) True show ?thesis by (auto simp: list_all_iff dest!: hget_in_set)
  next
    case False
    with that have "hget (rooms r) code' = Some room'" by (simp add: r1)
    with that assms(7) show ?thesis by (auto simp: list_all_iff dest!: hget_in_set)
  qed
  have "hget (rooms ?r1) code = Some (?room\<lparr>room_host := next_host me ?room\<rparr>)" by (simp add: r1)
  moreover have "hget (peers (?room\<lparr>room_host := next_host me ?room\<rparr>)) me = Some ?p"
    by (simp add: dropped_peer_def)
  moreover have "\<not> grace_expired now' ?p" using assms(6) by (simp add: grace_expired_def)
  ultimately obtain room2 where room2: "hget (rooms ?r2) code = Some room2"
    "hget (peers room2) me = Some ?p" using cleanup_keeps_peer [OF ok1] by metis
  have "find_token (session_token p) (rooms ?r2) = Some (code, me)"
  proof (rule reconnect_finds [OF ok2 room2])
    fix code' room' uid q
    assume c: "hget (rooms ?r2) code' = Some room'" "hget (peers room') uid = Some q"
      "session_token q = session_token p"
    from cleanup_peers [OF ok1 c(1)] c(2) obtain room1 where
      "hget (rooms ?r1) code' = Some room1" "hget (peers room1) uid = Some q" by (metis option.distinct(1))
    with tokens c(3) show "code' = code \<and> uid = me" by blast
  qed simp
  from reconnect_restores [OF this room2, of c' d] show ?thesis by auto
qed

theorem reconnect_within_grace_witness:
  "\<exists>room'. hget (rooms (reconnect 5 (sample_draws 9) [109] (cleanup 60 (disconnect 1 0 sample_pair))))
      sample_code = Some room' \<and>
    hget (peers room') [8] = Some (sample_guest\<lparr>tx := 5\<rparr>)"
proof -
  have i: "ident sample_pair 1 = (Some [8], Some sample_code)" by (simp add: sample_pair_eq)
  have u: "list_all (\<lambda>(code', room'). list_all (\<lambda>(uid, q).
      session_token q = session_token sample_guest \<longrightarrow> code' = sample_code \<and> uid = [8])
      (peers room')) (rooms sample_pair)"
    by (simp add: sample_pair_eq sample_host_def sample_guest_def)
  have g: "session_token sample_guest = [109]"
    "sample_guest\<lparr>tx := 5, connected := True, disconnected_at := None\<rparr> = sample_guest\<lparr>tx := 5\<rparr>"
    by (simp_all add: sample_guest_def)
  from reconnect_within_grace [OF sample_reachable(3) i sample_rooms(2) _ _ _ u, of 60 0 5 "sample_draws 9"]
  show ?thesis by (auto simp: g RECONNECT_GRACE_def)
qed

text \<open>The late end of an old socket takes a live member offline: when a member reconnects over a
  new socket before the relay has seen the old one end, the end of the old one marks the member
  disconnected although its new socket is open and carries its identity, and a sweep after the grace
  removes the member from the room.\<close>

theorem stale_socket_evicts_a_live_member:
  assumes "relay_reachable r" "ident r c = (Some me, Some code)" "alive r c'" "c' \<noteq> c"
    and "hget (rooms r) code = Some room" "hget (peers room) me = Some p"
    and "hget (pending_joins room) me = None" "find_token token (rooms r) = Some (code, me)"
    and "RECONNECT_GRACE < now' - now"
  shows "let r2 = disconnect c now (reconnect c' d token r)
    in ident r2 c' = (Some me, Some code) \<and> alive r2 c' \<and>
       (\<exists>room2. hget (rooms r2) code = Some room2 \<and>
         hget (peers room2) me = Some (p\<lparr>tx := c', connected := False, disconnected_at := Some now\<rparr>)) \<and>
       (case hget (rooms (cleanup now' r2)) code of None \<Rightarrow> True
        | Some room3 \<Rightarrow> hget (peers room3) me = None)"
proof -
  let ?r1 = "reconnect c' d token r" and ?r2 = "disconnect c now (reconnect c' d token r)"
  let ?p = "p\<lparr>tx := c', connected := False, disconnected_at := Some now\<rparr>"
  have ok: "relay_ok ?r1" using bounded_relay.inv_reachable [OF assms(1)] by (rule relay_ok_reconnect)
  then have ok2: "relay_ok ?r2" by (rule relay_ok_disconnect)
  have id: "ident ?r1 c = (Some me, Some code)" "ident ?r1 c' = (Some me, Some code)" "alive ?r1 = alive r"
    using assms by (simp_all add: reconnect_def Let_def)
  have r1: "rooms ?r1 = hput code (reattach c' me room) (rooms r)"
    using assms by (simp add: reconnect_def Let_def)
  have keep: "ident ?r2 c' = (Some me, Some code) \<and> alive ?r2 c'"
    using assms(3,4) id by (auto simp: disconnect_def handle_disconnect_def Let_def hand_off_def
        split: option.splits prod.splits if_splits)
  let ?room = "dropped_peer me (p\<lparr>tx := c', connected := True, disconnected_at := None\<rparr>) now
    (reattach c' me room)"
  have room2: "hget (rooms ?r2) code = Some (?room\<lparr>room_host := next_host me ?room\<rparr>)"
    using assms(6,7) id(1) by (simp add: disconnect_rooms r1 reattach_def Let_def)
  have p: "hget (peers (?room\<lparr>room_host := next_host me ?room\<rparr>)) me = Some ?p"
    by (simp add: dropped_peer_def)
  let ?room2 = "?room\<lparr>room_host := next_host me ?room\<rparr>"
  have wf: "hwf (peers ?room2)" using relay_ok_room [OF ok2 room2] by (rule room_ok_hwf)
  have "grace_expired now' ?p" using assms(9) by (simp add: grace_expired_def)
  then have gone: "me \<in> set (expired_uids now' ?room2)"
    using expired_uids_iff [OF wf hget_in_set [OF p]] by simp
  then have "expired_uids now' ?room2 \<noteq> []" by auto
  with gone have "case minus_members (expired_uids now' ?room2) ?room2 of None \<Rightarrow> True
      | Some room3 \<Rightarrow> hget (peers room3) me = None"
    by (simp add: minus_members_def Let_def hget_filter_keys)
  then have "case hget (rooms (cleanup now' ?r2)) code of None \<Rightarrow> True
      | Some room3 \<Rightarrow> hget (peers room3) me = None"
    by (simp only: hget_cleanup [OF relay_ok_hwf [OF ok2]] room2 swept_eq [OF wf])
  with keep room2 p show ?thesis by (simp add: Let_def)
qed

theorem stale_socket_evicts_a_live_member_witness:
  "case hget (rooms (cleanup (RECONNECT_GRACE + 5) (disconnect 1 0
      (reconnect 2 (sample_draws 9) [109] (connect sample_pair))))) sample_code of None \<Rightarrow> True
    | Some room3 \<Rightarrow> hget (peers room3) [8] = None"
proof -
  let ?r = "connect sample_pair"
  have i: "ident ?r 1 = (Some [8], Some sample_code)" "alive ?r 2" "rooms ?r = rooms sample_pair"
    by (simp_all add: connect_def sample_pair_eq)
  have f: "find_token [109] (rooms ?r) = Some (sample_code, [8])"
    unfolding i(3) by (simp add: sample_pair_eq sample_host_def sample_guest_def)
  have room: "hget (rooms ?r) sample_code =
      Some (sample_room [([7], sample_host), ([8], sample_guest)] [])"
    using sample_rooms(2) by (simp add: i)
  have "(2 :: conn) \<noteq> 1" "hget (peers (sample_room [([7], sample_host), ([8], sample_guest)] [])) [8] =
      Some sample_guest" "hget (pending_joins (sample_room [([7], sample_host), ([8], sample_guest)] [])) [8] = None"
    "RECONNECT_GRACE < RECONNECT_GRACE + 5 - 0" by simp_all
  from stale_socket_evicts_a_live_member [OF relay_reachable_connect [OF sample_reachable(3)] i(1,2)
      this(1) room this(2,3) f this(4), of "sample_draws 9"]
  show ?thesis by (simp only: Let_def)
qed

section \<open>Opening a room\<close>

text \<open>A room can always be created: below the room limit, 256 draws of distinct codes contain
  one no room has, so the drawing loop ends; the creator is host and only member of the new room,
  holds its token, and no other room changes.\<close>

theorem create_room_succeeds:
  assumes "relay_reachable r" "length (rooms r) < MAX_ROOMS"
    and "distinct (map gen_code (code_draws d))" "MAX_ROOMS \<le> length (code_draws d)"
  shows "\<exists>code r'. create_room c d name r = Some r' \<and> code \<in> set (map gen_code (code_draws d)) \<and>
    hget (rooms r) code = None \<and> rooms r' = hput code (new_room c d name) (rooms r) \<and>
    ident r' c = (Some (uid_draw d), Some code)"
proof -
  have "\<exists>code \<in> set cs. hget (rooms r) code = None" if "distinct cs" "length (rooms r) < length cs"
    for cs :: "ustr list"
  proof (rule ccontr)
    assume "\<not> (\<exists>code \<in> set cs. hget (rooms r) code = None)"
    then have "set cs \<subseteq> set (hkeys (rooms r))" by (auto simp: hget_eq_None)
    then have "card (set cs) \<le> card (set (hkeys (rooms r)))" by (rule card_mono [rotated]) simp
    also have "\<dots> \<le> length (rooms r)" using card_length [of "hkeys (rooms r)"] by simp
    finally show False using that by (simp add: distinct_card)
  qed
  from this [OF assms(3)] assms(2,4) obtain code0 where
    code0: "code0 \<in> set (map gen_code (code_draws d))" "hget (rooms r) code0 = None" by auto
  have "\<exists>code. pick_code cs m = Some code \<and> code \<in> set cs"
    if "code0 \<in> set cs" "hget m code0 = None" for cs and m :: "(ustr, room) hmap"
    using that by (induction cs) auto
  from this [OF code0] obtain code where code: "pick_code (map gen_code (code_draws d)) (rooms r) = Some code"
    "code \<in> set (map gen_code (code_draws d))" by blast
  from pick_code_fresh [OF code(1)] code assms(2) show ?thesis
    by (intro exI [of _ code]) (simp add: create_room_def Let_def)
qed

theorem create_room_succeeds_witness:
  "\<exists>r'. create_room 0 ((sample_draws 7)\<lparr>code_draws := map nth_picks [0..<256]\<rparr>) [72] (connect relay_new) = Some r'"
proof -
  have r: "relay_reachable (connect relay_new)"
    by (rule relay_reachable_connect, rule reachable_init) simp
  have d: "distinct (map gen_code (map nth_picks [0..<256]))"
    by (auto simp: distinct_map inj_on_def intro: gen_code_inj)
  from create_room_succeeds [OF r, of "(sample_draws 7)\<lparr>code_draws := map nth_picks [0..<256]\<rparr>" 0 "[72]"] d
  show ?thesis by (auto simp: connect_def relay_new_def MAX_ROOMS_def)
qed

section \<open>A position nobody checked from above\<close>

text \<open>The payload check has no upper bound on the position. A host may set the largest 64-bit
  position and play; from the next millisecond on, every joiner, sync and reconnection is told that
  the track is at zero (with overflow checks on, the relay's task panics there instead).\<close>

theorem unbounded_position_restarts_the_track:
  assumes "0 < sint t" "sint t < 2 ^ 63 - 1"
  shows "bounded_playback (playback_at Play (2 ^ 63 - 1)) \<and>
    position_ms (live_state (t + 1) code
      (fst (apply_playback t (playback_at Play (2 ^ 63 - 1)) room))) = 0"
proof -
  have top: "sint (2 ^ 63 - 1 :: i64) = 2 ^ 63 - 1" by simp
  have "sint (t + 1) = sint t + 1" using assms by (subst sint_add_no_overflow) simp_all
  moreover have "sint (t + 1 - t) = 1" by simp
  moreover have "(2 ^ 63 - 1 :: i64) + 1 <s 0" by (simp add: word_sless_alt)
  ultimately show ?thesis using assms top
    by (simp add: bounded_playback_def playback_at_def playback_new_def apply_playback.simps
        live_state_def live_position_ms_def wire_state_def Let_def word_sless_alt)
qed

theorem unbounded_position_restarts_the_track_witness:
  "position_ms (live_state 5001 sample_code
      (fst (apply_playback 5000 (playback_at Play (2 ^ 63 - 1)) (sample_room [] [])))) = 0"
  using unbounded_position_restarts_the_track [of 5000 sample_code "sample_room [] []"] by simp

end
