(* ===== verification/Listen_Session.thy ===== *)
theory Listen_Session
  imports Listen_Client Relay_Traffic "HOL-Library.Sublist"
begin

text \<open>
  The Listen Together client and the relay together: a guest's client, fed by its connection's channel, as an
  implementation of the room's track and queue. The channel delays messages; the client has caught up once it
  has handled everything in it.
\<close>

section \<open>What a connection gains\<close>

definition gains :: "(server_message \<Rightarrow> bool) \<Rightarrow> conn \<Rightarrow> relay \<Rightarrow> relay \<Rightarrow> bool" where
  "gains P c r r' \<longleftrightarrow> (\<exists>ms. outbound r' c = outbound r c @ ms \<and> list_all P ms)"

lemma gains_same [intro]: "outbound r' c = outbound r c \<Longrightarrow> gains P c r r'"
  by (simp add: gains_def)

lemma gains_simps [simp]:
  "gains P c r (t\<lparr>rooms := m\<rparr>) = gains P c r t" "gains P c r (t\<lparr>ident := i\<rparr>) = gains P c r t"
  "gains P c r (put_room code room t) = gains P c r t" "gains P c (put_room code room r) t = gains P c r t"
  "gains P c r (t\<lparr>alive := a\<rparr>) = gains P c r t"
  by (simp_all add: gains_def)

lemma gains_trans: "gains P c r s \<Longrightarrow> gains P c s t \<Longrightarrow> gains P c r t"
  by (auto simp: gains_def)

lemma gains_from: "outbound s c = outbound r c \<Longrightarrow> gains P c s t \<Longrightarrow> gains P c r t"
  by (simp add: gains_def)

lemma gains_to: "gains P c r s \<Longrightarrow> outbound t c = outbound s c \<Longrightarrow> gains P c r t"
  by (simp add: gains_def)

lemma gains_send: "c' = c \<Longrightarrow> P m \<Longrightarrow> gains P c r (tx_send c' m r)"
  by (auto simp: gains_def tx_send_def)

lemma gains_send_other: "c' \<noteq> c \<Longrightarrow> gains P c r (tx_send c' m r)"
  by (auto simp: gains_def tx_send_def)

lemma gains_broadcast: "P m \<Longrightarrow> gains P c r (broadcast m e room r)"
  by (auto simp: gains_def broadcast_delivers delivered_def list_all_iff)

lemma gains_broadcast_none: "copies e room c = 0 \<Longrightarrow> gains P c r (broadcast m e room r)"
  by (auto simp: gains_def broadcast_delivers)

lemma gains_send_to: "P m \<Longrightarrow> gains P c r (send_to uid m room r)"
  by (auto simp: send_to_def gains_def tx_send_def split: option.split)

lemma gains_fold: "(\<And>x r. x \<in> set xs \<Longrightarrow> gains P c r (f x r)) \<Longrightarrow> gains P c r (fold f xs r)"
proof (induction xs arbitrary: r)
  case (Cons x xs)
  have "gains P c r (f x r)" "gains P c (f x r) (fold f xs (f x r))" using Cons by auto
  then show ?case by (auto intro: gains_trans)
qed auto

section \<open>Calm messages\<close>

text \<open>Messages that do not touch what a guest shows as playing, nor end its session.\<close>

fun calm :: "server_message \<Rightarrow> bool" where
  "calm (RoomCreated _ _ _ _) = False"
| "calm (JoinApproved _ _ _) = False"
| "calm (JoinRejected _) = False"
| "calm (Reconnected _ _ _) = False"
| "calm (SyncPlayback _) = False"
| "calm (SyncState _) = False"
| "calm (Kicked _) = False"
| "calm (ErrorMsg code _) = (code \<noteq> lit ''session_expired'')"
| "calm _ = True"

text \<open>The connection serves the guest \<open>g\<close> of room \<open>code\<close>, and nobody else.\<close>

definition seated :: "ustr \<Rightarrow> ustr \<Rightarrow> conn \<Rightarrow> relay \<Rightarrow> bool" where
  "seated code g c r \<longleftrightarrow> (alive r c \<and> ident r c = (Some g, Some code)) \<and>
     (\<exists>room p. hget (rooms r) code = Some room \<and> room_host room \<noteq> g \<and> hget (peers room) g = Some p \<and>
        connected p \<and> tx p = c) \<and>
     (\<forall>code' room uid p. hget (rooms r) code' = Some room \<longrightarrow> hget (peers room) uid = Some p \<longrightarrow> tx p = c \<longrightarrow>
        code' = code \<and> uid = g) \<and>
     (\<forall>code' room uid w. hget (rooms r) code' = Some room \<longrightarrow> hget (pending_joins room) uid = Some w \<longrightarrow>
        pending_tx w \<noteq> c)"

lemma seatedD:
  assumes "seated code g c r"
  shows "alive r c \<and> ident r c = (Some g, Some code)"
    "hget (rooms r) code' = Some room \<Longrightarrow> hget (peers room) uid = Some p \<Longrightarrow> tx p = c \<Longrightarrow> code' = code \<and> uid = g"
    "hget (rooms r) code' = Some room \<Longrightarrow> hget (pending_joins room) uid = Some w \<Longrightarrow> pending_tx w \<noteq> c"
    "hget (rooms r) code = Some room \<Longrightarrow> room_host room \<noteq> g"
proof -
  note s = assms [unfolded seated_def]
  show "alive r c \<and> ident r c = (Some g, Some code)" using s by blast
  show "hget (rooms r) code' = Some room \<Longrightarrow> hget (peers room) uid = Some p \<Longrightarrow> tx p = c \<Longrightarrow> code' = code \<and> uid = g"
    using s [THEN conjunct2, THEN conjunct2, THEN conjunct1] by blast
  show "hget (rooms r) code' = Some room \<Longrightarrow> hget (pending_joins room) uid = Some w \<Longrightarrow> pending_tx w \<noteq> c"
    using s [THEN conjunct2, THEN conjunct2, THEN conjunct2] by blast
  show "hget (rooms r) code = Some room \<Longrightarrow> room_host room \<noteq> g"
    using s [THEN conjunct2, THEN conjunct1] by auto
qed

lemma seated_peer:
  assumes "seated code g c r" "hget (rooms r) code = Some room"
  obtains p where "hget (peers room) g = Some p" "connected p" "tx p = c"
  using assms(2) that assms(1) [unfolded seated_def, THEN conjunct2, THEN conjunct1] by auto

lemma copies_0:
  "(\<And>uid p. (uid, p) \<in> set (peers room) \<Longrightarrow> tx p \<noteq> c \<or> Some uid = e) \<Longrightarrow> copies e room c = 0"
  by (auto simp: copies_def filter_empty_conv)

lemma copies_1:
  assumes "hwf (peers room)" "hget (peers room) g = Some p" "connected p" "tx p = c" "e \<noteq> Some g"
    and "\<And>uid q. hget (peers room) uid = Some q \<Longrightarrow> tx q = c \<Longrightarrow> uid = g"
  shows "copies e room c = 1"
proof -
  obtain as bs where ps: "peers room = as @ (g, p) # bs"
    using assms(2) by (auto dest!: hget_in_set split_list)
  have other: "tx q \<noteq> c" if "(uid, q) \<in> set as \<union> set bs" for uid q
  proof
    assume "tx q = c"
    have "hget (peers room) uid = Some q"
      using that ps assms(1) by (subst map_of_eq_Some_iff) (auto simp: hwf_def)
    with \<open>tx q = c\<close> assms(6) have "uid = g" by blast
    moreover have "g \<notin> fst ` (set as \<union> set bs)" using ps assms(1) by (auto simp: hwf_def)
    ultimately show False using that by (metis fst_conv image_eqI)
  qed
  then have "filter (\<lambda>(uid, p). connected p \<and> Some uid \<noteq> e \<and> tx p = c) as = []"
    "filter (\<lambda>(uid, p). connected p \<and> Some uid \<noteq> e \<and> tx p = c) bs = []"
    by (auto simp: filter_empty_conv)
  then show ?thesis using ps assms(3-5) by (simp add: copies_def)
qed

section \<open>What the relay sends a seated guest\<close>

lemma calm_err: "calm (err a b) \<longleftrightarrow> lit a \<noteq> lit ''session_expired''"
  by (simp add: err_def)

lemma gains_hand_off: "gains calm c r (snd (hand_off code me room r))"
  by (auto simp: hand_off_def Let_def split: option.split intro: gains_broadcast)

lemma gains_remove_member:
  assumes "\<And>room uid w. hget (rooms r) code = Some room \<Longrightarrow> (uid, w) \<in> set (pending_joins room) \<Longrightarrow> pending_tx w \<noteq> c"
  shows "gains calm c r (remove_member code me graceful r)"
proof (cases "hget (rooms r) code")
  case (Some room)
  let ?room = "room\<lparr>pending_joins := hdel me (pending_joins room), peers := hdel me (peers room)\<rparr>"
  let ?r = "if hget (peers room) me \<noteq> None \<and> graceful then broadcast (UserLeft me) None ?room r else r"
  obtain room2 r2 where h: "hand_off code me ?room ?r = (room2, r2)" by fastforce
  have "gains calm c r ?r" by (auto intro: gains_broadcast)
  moreover have "gains calm c ?r r2" using gains_hand_off [of c ?r code me ?room] h by simp
  ultimately have g: "gains calm c r r2" by (rule gains_trans)
  have "pending_joins room2 = hdel me (pending_joins room)"
    using h by (auto simp: hand_off_def Let_def split: if_splits option.splits)
  then have "gains calm c r2 (fold (\<lambda>(_, p). tx_send (pending_tx p) m) (pending_joins room2) r2)" for m
    using assms [OF Some] set_hdel [of me "pending_joins room"]
    by (intro gains_fold) (auto intro!: gains_send_other)
  then have "gains calm c r (fold (\<lambda>(_, p). tx_send (pending_tx p) m) (pending_joins room2) r2)" for m
    by (rule gains_trans [OF g])
  then show ?thesis using Some h g
    by (simp add: remove_member_def Let_def)
qed (auto simp: remove_member_def)

definition unawaited :: "conn \<Rightarrow> relay \<Rightarrow> bool" where
  "unawaited c r \<longleftrightarrow> list_all (\<lambda>(_, room). list_all (\<lambda>(_, w). pending_tx w \<noteq> c) (pending_joins room)) (rooms r)"

lemma unawaitedD:
  "unawaited c r \<Longrightarrow> hget (rooms r) code = Some room \<Longrightarrow> (uid, w) \<in> set (pending_joins room) \<Longrightarrow> pending_tx w \<noteq> c"
  by (auto simp: unawaited_def list_all_iff dest!: hget_in_set)

lemma unawaited_remove:
  assumes "unawaited c r"
  shows "unawaited c (remove_member code me graceful r)"
proof (cases "hget (rooms r) code")
  case (Some room)
  let ?room = "room\<lparr>pending_joins := hdel me (pending_joins room), peers := hdel me (peers room)\<rparr>"
  let ?r = "if hget (peers room) me \<noteq> None \<and> graceful then broadcast (UserLeft me) None ?room r else r"
  obtain room2 r2 where h: "hand_off code me ?room ?r = (room2, r2)" by fastforce
  have p: "pending_joins room2 = hdel me (pending_joins room)" "rooms r2 = rooms r"
    using h by (auto simp: hand_off_def Let_def split: if_splits option.splits)
  have "list_all (\<lambda>(_, w). pending_tx w \<noteq> c) (pending_joins room2)"
    using p unawaitedD [OF assms Some] set_hdel [of me "pending_joins room"] by (auto simp: list_all_iff)
  then have "list_all (\<lambda>(_, room). list_all (\<lambda>(_, w). pending_tx w \<noteq> c) (pending_joins room))
      (hput code room2 (rooms r))"
    using assms set_hput [of code room2 "rooms r"] unfolding unawaited_def list_all_iff by blast
  then have "unawaited c (put_room code room2 r2)" using p by (simp add: unawaited_def)
  moreover have "unawaited c (x\<lparr>rooms := hdel code (rooms r2)\<rparr>)" for x :: relay
    using assms p set_hdel [of code "rooms r"] unfolding unawaited_def list_all_iff by fastforce
  ultimately show ?thesis using Some h by (simp add: remove_member_def Let_def)
qed (use assms in \<open>simp add: remove_member_def\<close>)

lemma gains_removals:
  "unawaited c r \<Longrightarrow> gains calm c r (fold (\<lambda>uid. remove_member code uid b) us r) \<and>
    unawaited c (fold (\<lambda>uid. remove_member code uid b) us r)"
proof (induction us arbitrary: r)
  case (Cons u us)
  have "gains calm c r (remove_member code u b r)"
    by (rule gains_remove_member) (rule unawaitedD [OF Cons.prems])
  with Cons.IH [OF unawaited_remove [OF Cons.prems, of code u b]] show ?case by (auto intro: gains_trans)
qed auto

lemma gains_cleanup:
  assumes "unawaited c r"
  shows "gains calm c r (cleanup now r)"
proof -
  have "gains calm c r (fold (sweep_room now) cs r) \<and> unawaited c (fold (sweep_room now) cs r)" if "unawaited c r" for cs r
    using that
  proof (induction cs arbitrary: r)
    case (Cons x cs)
    have "gains calm c r (sweep_room now x r) \<and> unawaited c (sweep_room now x r)"
      using gains_removals [OF Cons.prems] Cons.prems by (auto simp: sweep_room_def split: option.split)
    with Cons.IH [of "sweep_room now x r"] show ?case by (auto intro: gains_trans)
  qed auto
  with assms show ?thesis by (simp add: cleanup_def)
qed

lemma seated_unawaited:
  assumes "seated code g c r" "relay_ok r"
  shows "unawaited c r"
proof -
  have "pending_tx w \<noteq> c" if "(code', room) \<in> set (rooms r)" "(uid, w) \<in> set (pending_joins room)" for code' room uid w
  proof -
    have "hget (rooms r) code' = Some room" using that(1) relay_ok_hwf [OF assms(2)] by (simp add: hwf_def)
    moreover from this have "hget (pending_joins room) uid = Some w"
      using that(2) room_ok_hwf(2) [OF relay_ok_room [OF assms(2)]] by (simp add: hwf_def)
    ultimately show ?thesis by (rule seatedD(3) [OF assms(1)])
  qed
  then show ?thesis by (auto simp: unawaited_def list_all_iff)
qed


text \<open>Nothing in the channel ends the guest's role.\<close>

fun unsettling :: "ustr \<Rightarrow> server_message \<Rightarrow> bool" where
  "unsettling g (HostChanged h) = (h = g)"
| "unsettling g (ErrorMsg code _) = (code = lit ''session_expired'')"
| "unsettling g _ = False"

definition shown :: "room \<Rightarrow> track option \<times> track list" where
  "shown room = (room_track room, room_queue room)"

definition show_playback :: "playback \<Rightarrow> track option \<times> track list \<Rightarrow> track option \<times> track list" where
  "show_playback p v =
     (case kind p of
        ChangeTrack \<Rightarrow> (pb_track p, case pb_queue p of Some q \<Rightarrow> q | None \<Rightarrow> snd v)
      | SyncQueue \<Rightarrow> (fst v, case pb_queue p of Some q \<Rightarrow> q | None \<Rightarrow> snd v)
      | _ \<Rightarrow> v)"

lemma shown_apply_playback:
  "apply_playback now p room = (room', p') \<Longrightarrow> shown room' = show_playback p' (shown room)"
  by (cases "kind p") (auto simp: apply_playback.simps shown_def show_playback_def Let_def split: option.splits)

lemma live_state_shown: "(current_track (live_state now code room), queue (live_state now code room)) = shown room"
  by (simp add: live_state_def wire_state_def shown_def Let_def)

lemma view_shown: "playback_view room' = playback_view room \<Longrightarrow> shown room' = shown room"
  by (simp add: playback_view_def shown_def)

text \<open>What a step may add to the channel, and what the room shows before and after.\<close>

definition told :: "ustr \<Rightarrow> track option \<times> track list \<Rightarrow> track option \<times> track list \<Rightarrow> server_message list \<Rightarrow> bool" where
  "told g v v' ms \<longleftrightarrow> (list_all calm ms \<and> v' = v) \<or>
     (\<exists>p. ms = [SyncPlayback p] \<and> v' = show_playback p v) \<or>
     (\<exists>st. ms = [SyncState st] \<and> v' = (current_track st, queue st)) \<or>
     (\<exists>st. ms = [Reconnected g False st] \<and> v' = (current_track st, queue st))"

lemma gains_in_room:
  "(\<And>me code room. ident r c' = (Some me, Some code) \<Longrightarrow> hget (rooms r) code = Some room \<Longrightarrow>
    gains P c r (f me code room)) \<Longrightarrow> gains P c r (in_room c' r f)"
  by (auto simp: in_room_def split: option.split prod.split)

lemma gains_tx: "outbound t c = outbound r c \<Longrightarrow> (c' = c \<Longrightarrow> P m) \<Longrightarrow> gains P c r (tx_send c' m t)"
  by (auto simp: gains_def tx_send_def)

lemma outbound_other: "c' \<noteq> c \<Longrightarrow> outbound (tx_send c' m r) c = outbound r c"
  by (simp add: tx_send_def)

lemma gains_err: "lit a \<noteq> lit ''session_expired'' \<Longrightarrow> gains calm c r (tx_send c' (err a b) r)"
  by (rule gains_tx) (simp_all add: calm_err)

lemma gains_after: "outbound t c = outbound r c \<Longrightarrow> calm m \<Longrightarrow> gains calm c r (broadcast m e room t)"
    "outbound t c = outbound r c \<Longrightarrow> calm m \<Longrightarrow> gains calm c r (send_to uid m room t)"
  by (erule gains_from, erule gains_broadcast, erule gains_from, erule gains_send_to)

lemma gains_create:
  assumes "create_room c' d name r = Some r'" "seated code g c r" "seated code g c r'"
  shows "gains calm c r r'"
proof (cases "MAX_ROOMS \<le> length (rooms r)")
  case False
  with assms(1) obtain code' where code': "pick_code (map gen_code (code_draws d)) (rooms r) = Some code'"
    by (auto simp: create_room_def split: option.splits)
  have "hget (rooms r) code' = None" using code' by (rule pick_code_fresh)
  moreover have "hget (rooms r) code \<noteq> None" using assms(2) by (auto simp: seated_def)
  ultimately have ne: "code' \<noteq> code" by auto
  have "c' \<noteq> c"
  proof
    assume "c' = c"
    then have "ident r' c = (Some (uid_draw d), Some code')"
      using False assms(1) code' by (auto simp: create_room_def Let_def)
    with seatedD(1) [OF assms(3)] ne show False by simp
  qed
  with False assms(1) code' show ?thesis
    by (auto simp: create_room_def Let_def intro!: gains_tx)
next
  case True
  with assms(1) have "r' = tx_send c' (err ''server_full'' ''This relay has reached its room limit.'') r"
    by (simp add: create_room_def)
  then show ?thesis by (simp add: gains_err lit_def)
qed

lemma gains_join: "gains calm c r (join_room c' d raw name r)"
  by (auto simp: join_room_def Let_def lit_def split: option.split intro!: gains_err gains_after)

lemma gains_approve:
  assumes "seated code g c r"
  shows "gains calm c r (approve_join c' d joiner r)"
  unfolding approve_join_def
proof (rule gains_in_room)
  fix me code' room
  assume room: "hget (rooms r) code' = Some room"
  note other = seatedD(3) [OF assms room]
  show "gains calm c r (if \<not> host_is room me
     then tx_send c' (err ''not_host'' ''Only the host can approve joins.'') r
     else case hget (pending_joins room) joiner of
       None \<Rightarrow> r
     | Some p \<Rightarrow>
         let token = token_draw d;
             room = room\<lparr>pending_joins := hdel joiner (pending_joins room),
               peers := hput joiner \<lparr>peer_username = pending_username p, tx = pending_tx p,
                 connected = True, session_token = token, disconnected_at = None\<rparr> (peers room)\<rparr>;
             state = live_state (wall_ms d) code' room;
             user = \<lparr>user_id = joiner, username = pending_username p, is_host = False,
               is_connected = True\<rparr>;
             r = put_room code' room r;
             r = tx_send (pending_tx p) (JoinApproved joiner token state) r
         in broadcast (UserJoined user) (Some joiner) room r)"
    using other by (auto simp: Let_def lit_def outbound_other split: option.split intro!: gains_err gains_after)
qed

lemma gains_reject:
  assumes "seated code g c r"
  shows "gains calm c r (reject_join c' joiner r)"
  unfolding reject_join_def using seatedD(3) [OF assms]
  by (intro gains_in_room) (auto split: option.split intro!: gains_tx)

lemma gains_suggest: "gains calm c r (suggest c' d t r)"
  unfolding suggest_def
  by (auto simp: Let_def lit_def split: option.split intro!: gains_in_room gains_err gains_after)

lemma gains_approve_suggestion: "gains calm c r (approve_suggestion c' sid r)"
  unfolding approve_suggestion_def
  by (auto simp: Let_def split: option.split intro!: gains_in_room gains_after)

lemma gains_reject_suggestion: "gains calm c r (reject_suggestion c' sid r)"
  unfolding reject_suggestion_def
  by (auto simp: Let_def split: option.split intro!: gains_in_room gains_after)

lemma gains_transfer: "gains calm c r (transfer_host c' target r)"
  unfolding transfer_host_def
  by (auto simp: Let_def split: option.split intro!: gains_in_room gains_after)

lemma gains_kick:
  assumes "seated code g c r" "seated code g c (kick_user c' target r)"
  shows "gains calm c r (kick_user c' target r)"
proof -
  have "tx p \<noteq> c" if k: "ident r c' = (Some me, Some code')" "hget (rooms r) code' = Some room"
      "host_is room me" "target \<noteq> me" "hget (peers room) target = Some p" for me code' room p
  proof
    assume "tx p = c"
    with seatedD(2) [OF assms(1) k(2,5)] have e: "code' = code" "target = g" by simp_all
    from k have "hget (rooms (kick_user c' target r)) code' = Some (room\<lparr>peers := hdel target (peers room)\<rparr>)"
      by (simp add: kick_user_def in_room_def Let_def)
    with seated_peer [OF assms(2)] e show False by fastforce
  qed
  note other = this
  show ?thesis unfolding kick_user_def
  proof (rule gains_in_room)
    fix me code' room
    assume i: "ident r c' = (Some me, Some code')" "hget (rooms r) code' = Some room"
    show "gains calm c r (if \<not> host_is room me \<or> target = me then r
      else case hget (peers room) target of None \<Rightarrow> r
      | Some p \<Rightarrow>
         let room = room\<lparr>peers := hdel target (peers room)\<rparr>;
             r = put_room code' room r;
             r = tx_send (tx p) (Kicked (lit ''The host removed you from the room.'')) r
         in broadcast (UserLeft target) None room r)"
      using other [OF i] by (auto simp: Let_def outbound_other split: option.split intro!: gains_after)
  qed
qed

lemma gains_leave:
  assumes "unawaited c r"
  shows "gains calm c r (leave_room c' r)"
proof -
  have "gains calm c (r\<lparr>ident := i\<rparr>) (remove_member code me True (r\<lparr>ident := i\<rparr>))" for i code me
    by (rule gains_remove_member) (use assms in \<open>auto dest: unawaitedD\<close>)
  then have "gains calm c r (remove_member code me True (r\<lparr>ident := i\<rparr>))" for i code me
    by (simp add: gains_def)
  then show ?thesis by (auto simp: leave_room_def Let_def split: option.split prod.split)
qed

lemma gains_disconnect: "gains calm c r (disconnect c' now r)"
proof -
  have "gains calm c r (handle_disconnect u k now r)" for u k
  proof (cases "\<exists>me code room p. u = Some me \<and> k = Some code \<and> hget (rooms r) code = Some room \<and>
      hget (pending_joins room) me = None \<and> hget (peers room) me = Some p")
    case True
    then obtain me code room p where w: "u = Some me" "k = Some code" "hget (rooms r) code = Some room"
      "hget (pending_joins room) me = None" "hget (peers room) me = Some p" by blast
    let ?room = "room\<lparr>peers := hput me (p\<lparr>connected := False, disconnected_at := Some now\<rparr>) (peers room)\<rparr>"
    let ?r = "broadcast (UserDisconnected me) (Some me) ?room r"
    obtain room2 r2 where h: "hand_off code me ?room ?r = (room2, r2)" by fastforce
    have "gains calm c r ?r" by (rule gains_broadcast) simp
    moreover have "gains calm c ?r r2" using gains_hand_off [of c ?r code me ?room] h by simp
    ultimately have "gains calm c r r2" by (rule gains_trans)
    with w h show ?thesis by (simp add: handle_disconnect_def Let_def)
  qed (auto simp: handle_disconnect_def split: option.split)
  then show ?thesis by (simp add: disconnect_def Let_def)
qed

lemma told_intros:
  "v' = show_playback p v \<Longrightarrow> told g v v' [SyncPlayback p]"
  "v' = (current_track st, queue st) \<Longrightarrow> told g v v' [SyncState st]"
  "v' = (current_track st, queue st) \<Longrightarrow> told g v v' [Reconnected g False st]"
  "told g v v []"
  by (simp_all add: told_def)

text \<open>The three messages whose answer carries what the room shows.\<close>

lemma copies_none:
  assumes "hwf (peers room)"
    and "\<And>uid q. hget (peers room) uid = Some q \<Longrightarrow> tx q = c \<Longrightarrow> Some uid = e"
  shows "copies e room c = 0"
proof (rule copies_0)
  fix uid p assume "(uid, p) \<in> set (peers room)"
  with assms(1) have "hget (peers room) uid = Some p" by (simp add: hwf_def)
  with assms(2) show "tx p \<noteq> c \<or> Some uid = e" by blast
qed

lemma delivered_1: "alive r c \<Longrightarrow> length (outbound r c) < OUTBOUND_QUEUE_CAPACITY \<Longrightarrow>
    delivered c (Suc 0) m r = outbound r c @ [m]"
  by (cases "OUTBOUND_QUEUE_CAPACITY - length (outbound r c)") (auto simp: delivered_def)

lemma told_quiet: "gains calm c r r' \<Longrightarrow> v' = v \<Longrightarrow> \<exists>ms. outbound r' c = outbound r c @ ms \<and> told g v v' ms"
  by (auto simp: gains_def told_def)

lemma told_playback:
  assumes ok: "relay_ok r" and s: "seated code g c r" and cap: "length (outbound r c) < OUTBOUND_QUEUE_CAPACITY"
    and room: "hget (rooms r) code = Some room" "hget (rooms (playback_msg c' d p r)) code = Some room'"
  shows "\<exists>ms. outbound (playback_msg c' d p r) c = outbound r c @ ms \<and> told g (shown room) (shown room') ms"
proof (cases "\<exists>me code2 room2. bounded_playback p \<and> ident r c' = (Some me, Some code2) \<and>
    hget (rooms r) code2 = Some room2 \<and> host_is room2 me")
  case False
  then have no: "\<not> host_is room2 me"
    if "bounded_playback p" "ident r c' = (Some me, Some code2)" "hget (rooms r) code2 = Some room2"
    for me code2 room2 using that by blast
  have "gains calm c r (playback_msg c' d p r)"
    unfolding playback_msg_def by (auto simp: lit_def no intro!: gains_err gains_in_room)
  moreover have "rooms (in_room c' r f) = rooms r"
    if "bounded_playback p" "\<And>me code2 room2. \<not> host_is room2 me \<Longrightarrow> rooms (f me code2 room2) = rooms r" for f
    using that no by (auto simp: in_room_def split: option.split prod.split)
  then have "rooms (playback_msg c' d p r) = rooms r"
    unfolding playback_msg_def by simp
  ultimately have same: "gains calm c r (playback_msg c' d p r)" "rooms (playback_msg c' d p r) = rooms r"
    by blast+
  from same(2) room have "room' = room" by simp
  with same(1) show ?thesis by (intro told_quiet) simp_all
next
  case True
  then obtain me code2 room2 where h: "bounded_playback p" "ident r c' = (Some me, Some code2)"
    "hget (rooms r) code2 = Some room2" "room_host room2 = me" by (auto simp: host_is_def)
  obtain room3 q where a: "apply_playback (wall_ms d) p room2 = (room3, q)" by fastforce
  have peers3: "peers room3 = peers room2" using a
    by (auto simp: apply_playback.simps Let_def split: playback_kind.splits option.splits)
  have wf: "hwf (peers room3)" unfolding peers3 using relay_ok_room [OF ok h(3)] by (rule room_ok_hwf)
  note mine = seatedD(2) [OF s h(3)]
  have r': "playback_msg c' d p r = broadcast (SyncPlayback q) (Some me) room3 (put_room code2 room3 r)"
    using h a by (simp add: playback_msg_def in_room_def host_is_def)
  have out: "outbound (playback_msg c' d p r) c =
      delivered c (copies (Some me) room3 c) (SyncPlayback q) (put_room code2 room3 r)"
    by (simp add: r' broadcast_delivers)
  show ?thesis
  proof (cases "code2 = code")
    case True
    with room h(3) have e: "room2 = room" "room' = room3" by (simp_all add: r')
    obtain pg where pg: "hget (peers room) g = Some pg" "connected pg" "tx pg = c"
      using seated_peer [OF s room(1)] .
    have "copies (Some me) room3 c = 1"
    proof (rule copies_1 [OF wf])
      show "hget (peers room3) g = Some pg" "connected pg" "tx pg = c" using pg peers3 e by simp_all
      show "Some me \<noteq> Some g" using seatedD(4) [OF s room(1)] h(4) e by simp
      show "uid = g" if "hget (peers room3) uid = Some q'" "tx q' = c" for uid q'
        using mine [of uid q'] that unfolding peers3 by blast
    qed
    with out seatedD(1) [OF s] cap have "outbound (playback_msg c' d p r) c = outbound r c @ [SyncPlayback q]"
      by (simp add: delivered_1)
    moreover have "told g (shown room) (shown room') [SyncPlayback q]"
      using shown_apply_playback [OF a] e by (intro told_intros) simp
    ultimately show ?thesis by blast
  next
    case False
    have "copies (Some me) room3 c = 0"
    proof (rule copies_none [OF wf])
      show "Some uid = Some me" if "hget (peers room3) uid = Some q'" "tx q' = c" for uid q'
        using mine [of uid q'] that False unfolding peers3 by blast
    qed
    with out have "outbound (playback_msg c' d p r) c = outbound r c" by simp
    moreover have "room' = room" using room False by (simp add: r')
    ultimately show ?thesis using told_intros(4) by (metis append_Nil2)
  qed
qed

lemma told_sync:
  assumes s: "seated code g c r" and cap: "length (outbound r c) < OUTBOUND_QUEUE_CAPACITY"
    and room: "hget (rooms r) code = Some room"
  shows "\<exists>ms. outbound (request_sync c' d r) c = outbound r c @ ms \<and> told g (shown room) (shown room) ms"
proof (cases "c' = c")
  case True
  obtain pg where "hget (peers room) g = Some pg" using seated_peer [OF s room] .
  with True seatedD(1) [OF s] room cap
  have "outbound (request_sync c' d r) c = outbound r c @ [SyncState (live_state (wall_ms d) code room)]"
    by (simp add: request_sync_def in_room_def tx_send_def)
  moreover have "told g (shown room) (shown room) [SyncState (live_state (wall_ms d) code room)]"
    by (intro told_intros) (simp add: live_state_shown)
  ultimately show ?thesis by blast
next
  case False
  then have "gains calm c r (request_sync c' d r)" unfolding request_sync_def
    by (intro gains_in_room) (auto intro: gains_tx)
  then show ?thesis by (intro told_quiet) auto
qed

lemma shown_reattach: "shown (reattach c uid room) = shown room"
  by (simp add: reattach_def shown_def split: option.split)

lemma told_reconnect:
  assumes ok: "relay_ok r" and s: "seated code g c r" and s': "seated code g c (reconnect c' d t r)"
    and cap: "length (outbound r c) < OUTBOUND_QUEUE_CAPACITY"
    and room: "hget (rooms r) code = Some room" "hget (rooms (reconnect c' d t r)) code = Some room'"
    and quiet: "\<not> list_ex (unsettling g) (outbound (reconnect c' d t r) c)"
  shows "\<exists>ms. outbound (reconnect c' d t r) c = outbound r c @ ms \<and> told g (shown room) (shown room') ms"
proof (cases "find_token t (rooms r)")
  case None
  have "c' \<noteq> c"
  proof
    assume "c' = c"
    with quiet None seatedD(1) [OF s] cap show False by (simp add: reconnect_def tx_send_def err_def)
  qed
  with None room show ?thesis by (intro told_quiet) (auto simp: reconnect_def intro: gains_tx)
next
  case (Some cu)
  obtain code2 uid where cu: "cu = (code2, uid)" by fastforce
  show ?thesis
  proof (cases "hget (rooms r) code2")
    case None
    with Some cu room show ?thesis by (intro told_quiet) (auto simp: reconnect_def)
  next
    case (Some room2)
    let ?room = "reattach c' uid room2"
    let ?r = "put_room code2 ?room r"
    let ?m = "Reconnected uid (host_is ?room uid) (live_state (wall_ms d) code2 ?room)"
    have r': "reconnect c' d t r = (broadcast (UserReconnected uid) (Some uid) ?room (tx_send c' ?m ?r))
        \<lparr>ident := (ident r)(c' := (Some uid, Some code2))\<rparr>"
      using Some cu \<open>find_token t (rooms r) = Some cu\<close> by (simp add: reconnect_def Let_def)
    have view: "shown room' = shown room" using room Some
      by (cases "code2 = code") (auto simp: r' shown_reattach)
    show ?thesis
    proof (cases "c' = c")
      case False
      then have "gains calm c r (reconnect c' d t r)"
        by (auto simp: r' outbound_other intro!: gains_after)
      with view show ?thesis by (intro told_quiet)
    next
      case True
      with seatedD(1) [OF s'] have e: "uid = g" "code2 = code"
        unfolding r' by (simp_all add: True)
      with room Some have e2: "room2 = room" "room' = ?room" by (simp_all add: r')
      have "hwf (peers ?room)" using relay_ok_room [OF ok Some] by (intro room_ok_hwf(1) room_ok_reattach)
      then have 0: "copies (Some uid) ?room c = 0"
      proof (rule copies_none)
        show "Some uid' = Some uid" if "hget (peers ?room) uid' = Some q" "tx q = c" for uid' q
          using seatedD(2) [OF s' room(2), of uid' q] that unfolding e2(2) e(1) by blast
      qed
      have "host_is ?room uid = False" using seatedD(4) [OF s' room(2)] e e2 by (simp add: host_is_def)
      moreover have "outbound (tx_send c' m ?r) c = outbound r c @ [m]" for m
        using True cap seatedD(1) [OF s] by (simp add: tx_send_def)
      ultimately have "outbound (reconnect c' d t r) c =
          outbound r c @ [Reconnected g False (live_state (wall_ms d) code ?room)]"
        unfolding r' using 0 by (simp add: broadcast_delivers e)
      moreover have "told g (shown room) (shown room')
          [Reconnected g False (live_state (wall_ms d) code ?room)]"
        unfolding e2(2) by (intro told_intros) (simp add: live_state_shown shown_reattach e2(1))
      ultimately show ?thesis by blast
    qed
  qed
qed

text \<open>Every step of the relay between two seated states.\<close>

lemma same_view:
  assumes "dispatch c' d m r = Some r'" "hget (rooms r) code = Some room" "hget (rooms r') code = Some room'"
    and "\<And>p. m \<noteq> PlaybackMsg p"
  shows "shown room' = shown room"
proof (cases "playback_view room' = playback_view room")
  case False
  then have "changes r r' code room room'" using assms(2,3) by (auto simp: changes_def)
  from dispatch_playback_view [OF assms(1) this False] assms(4) show ?thesis by metis
qed (rule view_shown)

lemma dispatch_told:
  assumes ok: "relay_ok r" and s: "seated code g c r" "seated code g c r'"
    and d: "dispatch c' d m r = Some r'" and cap: "length (outbound r c) < OUTBOUND_QUEUE_CAPACITY"
    and room: "hget (rooms r) code = Some room" "hget (rooms r') code = Some room'"
    and quiet: "\<not> list_ex (unsettling g) (outbound r' c)"
  shows "\<exists>ms. outbound r' c = outbound r c @ ms \<and> told g (shown room) (shown room') ms"
proof -
  have calm: ?thesis if "gains calm c r r'" "\<And>p. m \<noteq> PlaybackMsg p"
    using that same_view [OF d room] by (intro told_quiet) auto
  note un = seated_unawaited [OF s(1) ok]
  show ?thesis
  proof (cases m)
    case Ping
    with d show ?thesis by (intro calm) (auto simp: ping_def intro: gains_tx)
  next
    case (CreateRoom name)
    with d gains_create [OF _ s] show ?thesis by (intro calm) auto
  next
    case (JoinRoom raw name)
    with d gains_join show ?thesis by (intro calm) auto
  next
    case (ApproveJoin joiner)
    with d gains_approve [OF s(1)] show ?thesis by (intro calm) auto
  next
    case (RejectJoin joiner)
    with d gains_reject [OF s(1)] show ?thesis by (intro calm) auto
  next
    case (PlaybackMsg p)
    with d have "r' = playback_msg c' d p r" by simp
    with told_playback [OF ok s(1) cap room(1)] room(2) show ?thesis by simp
  next
    case RequestSync
    with d have r': "r' = request_sync c' d r" by simp
    from same_view [OF d room] RequestSync have "shown room' = shown room" by simp
    with told_sync [OF s(1) cap room(1), of c' d] r' show ?thesis by simp
  next
    case (Suggest t)
    with d gains_suggest show ?thesis by (intro calm) auto
  next
    case (ApproveSuggestion sid)
    with d gains_approve_suggestion show ?thesis by (intro calm) auto
  next
    case (RejectSuggestion sid)
    with d gains_reject_suggestion show ?thesis by (intro calm) auto
  next
    case (KickUser target)
    with d s(2) gains_kick [OF s(1), of c' target] show ?thesis by (intro calm) auto
  next
    case (TransferHost target)
    with d gains_transfer show ?thesis by (intro calm) auto
  next
    case (Reconnect t)
    with d have "r' = reconnect c' d t r" by simp
    with told_reconnect [OF ok s(1) _ cap room(1)] s(2) room(2) quiet show ?thesis by simp
  next
    case LeaveRoom
    with d gains_leave [OF un] show ?thesis by (intro calm) auto
  qed
qed

lemma step_told:
  assumes ok: "relay_ok r" and s: "seated code g c r" "seated code g c r'"
    and step: "relay_step r r'" and cap: "length (outbound r c) < OUTBOUND_QUEUE_CAPACITY"
    and room: "hget (rooms r) code = Some room" "hget (rooms r') code = Some room'"
    and quiet: "\<not> list_ex (unsettling g) (outbound r' c)" and pre: "prefix (outbound r c) (outbound r' c)"
  shows "\<exists>ms. outbound r' c = outbound r c @ ms \<and> told g (shown room) (shown room') ms"
proof (cases "\<exists>c' d m. dispatch c' d m r = Some r'")
  case True
  then obtain c' d m where "dispatch c' d m r = Some r'" by blast
  from dispatch_told [OF ok s this cap room quiet] show ?thesis .
next
  case False
  have "shown room' = shown room"
  proof (cases "room' = room")
    case False
    then have ch: "changes r r' code room room'" using room by (simp add: changes_def)
    from ok ch step show ?thesis
      by (cases rule: view_unchanged) (use \<open>\<nexists>c' d m. dispatch c' d m r = Some r'\<close> in \<open>auto dest: view_shown\<close>)
  qed simp
  moreover have "gains calm c r r'" using step
  proof (cases rule: relay_step.cases)
    case (rdispatch c d m)
    with False show ?thesis by blast
  next
    case (rdrain c')
    with prefix_length_le [OF pre] show ?thesis
      by (cases "outbound r c") (auto simp: drain_def gains_def split: if_splits)
  qed (auto simp: connect_def intro: gains_disconnect gains_cleanup seated_unawaited [OF s(1) ok])
  ultimately show ?thesis by (intro told_quiet)
qed

section \<open>The client's side\<close>

definition mirrors :: "ustr \<Rightarrow> track option \<times> track list \<Rightarrow> lt_session \<Rightarrow> bool" where
  "mirrors g v s \<longleftrightarrow> lt_role (lt_state s) = GuestRole \<and> lt_my_id (lt_state s) = Some g \<and>
     (lt_track (lt_state s), lt_queue (lt_state s)) = v"

definition deliver :: "server_message list \<Rightarrow> lt_session \<Rightarrow> lt_session" where
  "deliver ms s = foldl (\<lambda>s m. snd (handle m s)) s ms"

lemma deliver_simps [simp]:
  "deliver [] s = s" "deliver (m # ms) s = deliver ms (snd (handle m s))"
  "deliver (xs @ ys) s = deliver ys (deliver xs s)"
  by (simp_all add: deliver_def)

lemma handle_calm:
  "mirrors g v s \<Longrightarrow> calm m \<Longrightarrow> \<not> unsettling g m \<Longrightarrow> mirrors g v (snd (handle m s))"
  by (cases m) (auto simp: mirrors_def command_def notice_def lt_send_def push_to_def Let_def split: option.split)

lemma deliver_calm:
  "mirrors g v s \<Longrightarrow> list_all calm ms \<Longrightarrow> \<not> list_ex (unsettling g) ms \<Longrightarrow> mirrors g v (deliver ms s)"
  by (induction ms arbitrary: s) (auto intro: handle_calm)

lemma mirror_shows: "(lt_track (mirror_playback p i), lt_queue (mirror_playback p i)) =
    show_playback p (lt_track i, lt_queue i)"
  by (simp add: mirror_playback_def show_playback_def Let_def split: playback_kind.split option.split)

lemma mirror_keeps: "lt_role (mirror_playback p i) = lt_role i" "lt_my_id (mirror_playback p i) = lt_my_id i"
  by (simp_all add: mirror_playback_def Let_def split: playback_kind.split option.split)

lemma handle_playback: "mirrors g v s \<Longrightarrow> mirrors g (show_playback p v) (snd (handle (SyncPlayback p) s))"
  using mirror_shows [of p "lt_state s"]
  by (auto simp: mirrors_def client_playback_def command_def Let_def mirror_keeps split: option.split)

lemma deliver_told:
  assumes "mirrors g v s" "told g v v' ms" "\<not> list_ex (unsettling g) ms"
  shows "mirrors g v' (deliver ms s)"
  using assms(2) unfolding told_def
proof (elim disjE exE conjE)
  assume "list_all calm ms" "v' = v"
  with assms(1,3) show ?thesis by (simp add: deliver_calm)
next
  fix p assume "ms = [SyncPlayback p]" "v' = show_playback p v"
  with handle_playback [OF assms(1)] show ?thesis by (simp del: handle.simps)
qed (use assms(1) in \<open>auto simp: mirrors_def absorb_def command_def Let_def\<close>)

section \<open>A guest follows its room\<close>

text \<open>One step of the room and one guest of it: the relay does something, the guest's client handles the
  next message of its channel, or the guest's user does something. While it goes on, the guest keeps its seat
  and does not become host, and the channel does not fill up.\<close>

inductive guest_call :: "lt_session \<Rightarrow> lt_session \<Rightarrow> bool" where
  "guest_call s (lt_suggest t s)"
| "guest_call s (lt_request_sync s)"
| "guest_call s (lt_approve_join uid s)"
| "guest_call s (lt_reject_join uid s)"
| "guest_call s (lt_kick uid s)"
| "guest_call s (lt_transfer_host uid s)"
| "guest_call s (snd (lt_approve_suggestion sid s))"
| "guest_call s (lt_reject_suggestion sid s)"
| "guest_call s (set_server_url url s)"
| "guest_call s (broadcast_playback p s)"

inductive follow_step :: "ustr \<Rightarrow> ustr \<Rightarrow> conn \<Rightarrow> relay \<times> lt_session \<Rightarrow> relay \<times> lt_session \<Rightarrow> bool"
  for code g c where
  relay_acts: "relay_step r r' \<Longrightarrow> seated code g c r' \<Longrightarrow> prefix (outbound r c) (outbound r' c) \<Longrightarrow>
    length (outbound r c) < OUTBOUND_QUEUE_CAPACITY \<Longrightarrow> \<not> list_ex (unsettling g) (outbound r' c) \<Longrightarrow>
    follow_step code g c (r, s) (r', s)"
| client_handles: "outbound r c = m # ms \<Longrightarrow> follow_step code g c (r, s) (drain c r, snd (handle m s))"
| user_acts: "guest_call s s' \<Longrightarrow> follow_step code g c (r, s) (r, s')"

definition following :: "ustr \<Rightarrow> ustr \<Rightarrow> conn \<Rightarrow> relay \<times> lt_session \<Rightarrow> bool" where
  "following code g c rs \<longleftrightarrow> relay_ok (fst rs) \<and> seated code g c (fst rs) \<and>
     \<not> list_ex (unsettling g) (outbound (fst rs) c) \<and>
     (\<forall>room. hget (rooms (fst rs)) code = Some room \<longrightarrow>
        mirrors g (shown room) (deliver (outbound (fst rs) c) (snd rs)))"

text \<open>Sending does not show in what a message does to the mirror.\<close>

definition alike :: "lt_session \<Rightarrow> lt_session \<Rightarrow> bool" where
  "alike s s' \<longleftrightarrow> lt_role (lt_state s') = lt_role (lt_state s) \<and> lt_my_id (lt_state s') = lt_my_id (lt_state s) \<and>
     lt_track (lt_state s') = lt_track (lt_state s) \<and> lt_queue (lt_state s') = lt_queue (lt_state s)"

lemma alike_mirrors: "alike s s' \<Longrightarrow> mirrors g v s \<Longrightarrow> mirrors g v s'"
  by (simp add: alike_def mirrors_def)

lemma alike_lt_send: "alike s (lt_send m s)"
  by (simp add: alike_def lt_send_def push_to_def split: option.split)

lemma guest_call_alike: "guest_call s s' \<Longrightarrow> alike s s'"
  by (induction rule: guest_call.induct)
     (auto simp: alike_def lt_send_def push_to_def lt_suggest_def lt_request_sync_def lt_approve_join_def
       lt_reject_join_def lt_kick_def lt_transfer_host_def lt_approve_suggestion_def lt_reject_suggestion_def
       set_server_url_def broadcast_playback_def Let_def split: option.split prod.split)

lemma alike_handle: "alike s s' \<Longrightarrow> alike (snd (handle m s)) (snd (handle m s'))"
  by (cases m)
     (auto simp: alike_def command_def notice_def lt_send_def push_to_def Let_def absorb_def close_locally_def
       reset_room_def client_playback_def mirror_playback_def split: option.split playback_kind.split)

lemma alike_deliver: "alike s s' \<Longrightarrow> alike (deliver ms s) (deliver ms s')"
  by (induction ms arbitrary: s s') (auto intro: alike_handle simp del: handle.simps)

lemma seated_drain: "seated code g c r \<Longrightarrow> seated code g c (drain c r)"
  by (simp add: seated_def drain_def)

lemma following_step:
  assumes "following code g c rs" "follow_step code g c rs rs'"
  shows "following code g c rs'"
  using assms(2)
proof (cases rule: follow_step.cases)
  case (relay_acts r r' s)
  note f = assms(1) [unfolded relay_acts(1) following_def fst_conv snd_conv]
  obtain room where room: "hget (rooms r) code = Some room" using f by (auto simp: seated_def)
  have m: "mirrors g (shown room) (deliver (outbound r c) s)" using f room by blast
  have "mirrors g (shown room') (deliver (outbound r' c) s)" if after: "hget (rooms r') code = Some room'" for room'
  proof -
    obtain ms where ms: "outbound r' c = outbound r c @ ms" "told g (shown room) (shown room') ms"
      using step_told [OF _ _ relay_acts(4,3,6) room after relay_acts(7,5)] f by blast
    have "\<not> list_ex (unsettling g) ms" using relay_acts(7) ms(1) by simp
    from deliver_told [OF m ms(2) this] ms(1) show ?thesis by simp
  qed
  with relay_acts f relay_ok_step show ?thesis by (auto simp: following_def)
next
  case (client_handles r m ms s)
  then show ?thesis using assms(1) relay_ok_drain [of r c] seated_drain [of code g c r]
    by (auto simp: following_def drain_def simp del: handle.simps)
next
  case (user_acts s s' r)
  note alike_deliver [OF guest_call_alike [OF user_acts(3)], of "outbound r c"]
  with assms(1) user_acts show ?thesis by (auto simp: following_def intro: alike_mirrors)
qed

interpretation follower: invariant "following code g c" "follow_step code g c" "following code g c"
  by unfold_locales (auto intro: following_step)

lemma following_admitted:
  assumes "relay_ok r" "seated code g c r" "hget (rooms r) code = Some room"
    and "outbound r c = [JoinApproved g token (live_state now code room)]"
  shows "following code g c (r, s)"
  using assms live_state_shown [of now code room]
  by (simp add: following_def mirrors_def absorb_def command_def)


section \<open>A session that follows\<close>

definition sample_tune :: track where
  "sample_tune = \<lparr>track_id = [97], title = [98], artist = [99], thumbnail = None, duration_ms = 1000,
     queued_by = None\<rparr>"

definition sample_change :: playback where
  "sample_change = (playback_new ChangeTrack)\<lparr>pb_track := Some sample_tune, pb_queue := Some [sample_tune]\<rparr>"

definition sample_changed :: relay where
  "sample_changed = playback_msg 0 (sample_draws 10) sample_change sample_pair"

definition sample_changed_room :: room where
  "sample_changed_room = (sample_room [([7], sample_host), ([8], sample_guest)] [])
     \<lparr>room_track := Some sample_tune, room_last_update_ms := 5000, room_queue := [sample_tune]\<rparr>"

lemma sample_bounded: "bounded_playback sample_change"
  by (simp add: bounded_playback_def sample_change_def playback_new_def sample_tune_def bounded_track_def
      bounded_text_def byte_len_def MAX_QUEUE_TRACKS_def MAX_TRACK_ID_BYTES_def MAX_TRACK_TEXT_BYTES_def
      MAX_THUMBNAIL_BYTES_def word_sless_alt word_sle_eq is_control_def
      utf8_width_def)

lemma sample_changed_eq:
  "rooms sample_changed = [(sample_code, sample_changed_room)]"
  "outbound sample_changed (Suc 0) = [JoinApproved [8] [109] sample_state, SyncPlayback sample_change]"
  "alive sample_changed (Suc 0)" "ident sample_changed (Suc 0) = (Some [8], Some sample_code)"
  using sample_bounded
  by (simp_all add: sample_changed_def sample_pair_eq playback_msg_def sample_changed_room_def sample_change_def
      playback_new_def apply_playback.simps sample_eval)

lemma seated_single:
  assumes "rooms r = [(code, room)]" "pending_joins room = []" "alive r c" "ident r c = (Some g, Some code)"
    and "hget (peers room) g = Some p" "connected p" "tx p = c" "room_host room \<noteq> g"
    and "\<And>uid q. hget (peers room) uid = Some q \<Longrightarrow> tx q = c \<Longrightarrow> uid = g"
  shows "seated code g c r"
proof -
  have one: "hget (rooms r) code' = Some room' \<longleftrightarrow> code' = code \<and> room' = room" for code' room'
    using assms(1) by auto
  show ?thesis unfolding seated_def
  proof (intro conjI allI impI)
    fix code' room' uid q
    assume r: "hget (rooms r) code' = Some room'" and q: "hget (peers room') uid = Some q" "tx q = c"
    from r show "code' = code" by (simp add: one)
    from r q show "uid = g" using assms(9) unfolding one by blast
  next
    fix code' room' uid w
    assume "hget (rooms r) code' = Some room'" "hget (pending_joins room') uid = Some w"
    with assms(2) show "pending_tx w \<noteq> c" unfolding one by simp
  qed (use assms(3-8) one in auto)
qed

lemma sample_seated: "seated sample_code [8] 1 sample_pair" "seated sample_code [8] 1 sample_changed"
proof -
  have p: "uid = [8]" if "hget [([7], sample_host), ([8], sample_guest)] uid = Some q" "tx q = 1" for uid :: ustr and q
    using that by (auto simp: sample_host_def split: if_splits)
  show "seated sample_code [8] 1 sample_pair"
    by (rule seated_single [where room = "sample_room [([7], sample_host), ([8], sample_guest)] []" and p = sample_guest])
       (use p in \<open>simp_all add: sample_pair_eq sample_room_def sample_guest_def\<close>)
  show "seated sample_code [8] 1 sample_changed"
    by (rule seated_single [where room = sample_changed_room and p = sample_guest])
       (use p in \<open>simp_all add: sample_changed_eq sample_changed_room_def sample_room_def sample_guest_def\<close>)
qed

lemma sample_follow:
  "(follow_step sample_code [8] 1)\<^sup>*\<^sup>* (sample_pair, session_new []) (sample_changed, session_new [])"
proof (rule r_into_rtranclp, rule relay_acts)
  show "relay_step sample_pair sample_changed"
    by (rule rdispatch [where c = 0 and d = "sample_draws 10" and m = "PlaybackMsg sample_change"])
       (simp_all add: sample_pair_eq sample_changed_def)
  show "prefix (outbound sample_pair 1) (outbound sample_changed 1)"
    by (simp add: sample_pair_eq sample_changed_eq)
  show "length (outbound sample_pair 1) < OUTBOUND_QUEUE_CAPACITY"
    by (simp add: sample_pair_eq OUTBOUND_QUEUE_CAPACITY_def)
  show "\<not> list_ex (unsettling [8]) (outbound sample_changed 1)" by (simp add: sample_changed_eq)
qed (rule sample_seated)


end
