(* ===== verification/Discord_Presence.thy ===== *)
theory Discord_Presence
  imports Track_Ids
begin

text \<open>
  Discord Rich Presence (crates/core/src/discord.rs): the presence thread's state, the messages it applies, the
  plan it makes and the frames it puts on Discord's socket. Instants are nanoseconds of the monotonic clock.
  Positions and lengths are rationals (rounding of \<open>f64\<close> is left out). Whether the socket connects and whether
  a frame is accepted are parameters; every frame written is kept in \<open>dp_frames\<close>.
\<close>

section \<open>Constants\<close>

definition BRAND_IMAGE :: ustr where
  "BRAND_IMAGE = lit ''https://raw.githubusercontent.com/ryoku-dev/ryotunes/main/src-tauri/icons/icon.png''"
definition BRAND_BADGE_TEXT :: ustr where "BRAND_BADGE_TEXT = lit ''Ryotunes''"
definition SONG_URL :: ustr where "SONG_URL = lit ''https://music.youtube.com/watch?v=''"
definition DEFAULT_PRESENCE_NAME :: ustr where "DEFAULT_PRESENCE_NAME = lit ''Ryotunes''"

text \<open>Durations, in nanoseconds.\<close>

definition millis :: "nat \<Rightarrow> nat" where "millis n = n * 1000000"

definition CONNECT_RETRY_MIN :: nat where "CONNECT_RETRY_MIN = millis 1000"
definition CONNECT_RETRY_MAX :: nat where "CONNECT_RETRY_MAX = millis 120000"
definition IDLE_TICK :: nat where "IDLE_TICK = millis 300000"
definition SEND_FLOOR :: nat where "SEND_FLOOR = millis 1500"
definition DURATION_GRACE :: nat where "DURATION_GRACE = millis 800"
definition MIN_WAIT :: nat where "MIN_WAIT = millis 10"
definition SEEK_DRIFT_MS :: int where "SEEK_DRIFT_MS = 2000"
definition MAX_FIELD :: nat where "MAX_FIELD = 128"

definition checked_sub :: "nat \<Rightarrow> nat \<Rightarrow> nat option" where
  "checked_sub a b = (if b \<le> a then Some (a - b) else None)"

text \<open>\<open>f64 as i64\<close>: towards zero, saturating; and arithmetic on \<open>i64\<close>.\<close>

definition as_i64 :: "rat \<Rightarrow> int" where
  "as_i64 q = max (- (2 ^ 63)) (min (2 ^ 63 - 1) (if q < 0 then \<lceil>q\<rceil> else \<lfloor>q\<rfloor>))"

definition i64 :: "int \<Rightarrow> int" where
  "i64 n = signed_take_bit 63 n"

section \<open>The text of a card\<close>

definition normalize_presence_name :: "ustr \<Rightarrow> ustr + ustr" where
  "normalize_presence_name raw =
     (let v = trim raw
      in if v = [] then Inr DEFAULT_PRESENCE_NAME
         else if 2 \<le> length v \<and> length v \<le> MAX_FIELD then Inr v
         else Inl (lit ''Discord presence title must be between 2 and 128 characters.''))"

definition field :: "ustr \<Rightarrow> ustr" where
  "field s =
     (let out = (if MAX_FIELD < length s then take (MAX_FIELD - 1) s @ [8230] else s)
      in out @ replicate (2 - length out) 10240)"

text \<open>YouTube's id shape: eleven bytes.\<close>

definition youtube_shaped :: "ustr \<Rightarrow> bool" where
  "youtube_shaped s = (byte_len s = 11 \<and> list_all (\<lambda>c. is_ascii_alphanumeric c \<or> c = 45 \<or> c = 95) s)"

definition listen_link :: "ustr \<Rightarrow> (ustr \<times> ustr) option" where
  "listen_link v =
     (case spotify_track_id v of
        Some k \<Rightarrow> Some (lit ''Listen on Spotify'', lit ''https://open.spotify.com/track/'' @ k)
      | None \<Rightarrow> if youtube_shaped v then Some (lit ''Listen on YouTube Music'', SONG_URL @ v) else None)"

definition provider_label :: "ustr \<Rightarrow> ustr" where
  "provider_label v =
     (if is_local_song v then lit ''Local library''
      else if is_radio_id v then lit ''Radio''
      else if is_sc_id v then lit ''SoundCloud''
      else if is_spotify_id v then lit ''Spotify''
      else lit ''YouTube Music'')"

record dp_song =
  dt_video_id :: ustr
  dt_title :: ustr
  dt_artists :: ustr
  dt_album :: "ustr option"
  dt_thumbnail :: "ustr option"

definition art_hover :: "dp_song \<Rightarrow> ustr" where
  "art_hover t =
     (let provider = provider_label (dt_video_id t)
      in case dt_album t of
           None \<Rightarrow> field provider
         | Some album \<Rightarrow> if trim album = [] then field provider
                          else field (trim album @ lit '' '' @ [183] @ lit '' '' @ provider))"

section \<open>The state\<close>

datatype dp_message =
    TrackMsg dp_song
  | DurationMsg rat
  | PositionMsg rat nat
  | PlayingMsg bool
  | EnabledMsg bool
  | NameMsg ustr

text \<open>What a card carries.\<close>

record activity =
  ac_name :: ustr
  ac_details :: ustr
  ac_state :: "ustr option"
  ac_start :: int
  ac_end :: "int option"
  ac_button :: "(ustr \<times> ustr) option"
  ac_large_image :: ustr
  ac_small_image :: "(ustr \<times> ustr) option"
  ac_large_text :: ustr

datatype frame = Card activity | ClearCard

record dp_sent =
  sn_video_id :: ustr
  sn_name :: ustr
  sn_start_ms :: int
  sn_duration :: rat

record presence =
  dp_enabled :: bool
  dp_status :: nat
  dp_client :: bool
  dp_last_try :: "nat option"
  dp_backoff :: nat
  dp_name :: ustr
  dp_track :: "dp_song option"
  dp_track_at :: nat
  dp_duration :: rat
  dp_playing :: bool
  dp_pos :: rat
  dp_pos_at :: nat
  dp_sent :: "dp_sent option"
  dp_last_send :: "nat option"
  dp_frames :: "(nat \<times> frame) list"

text \<open>The surroundings of one action: both clocks, whether Discord's socket connects and takes a frame.\<close>

record dp_env =
  de_now :: nat
  de_wall_ms :: int
  de_connects :: bool
  de_accepts :: bool

definition presence_new :: "bool \<Rightarrow> ustr \<Rightarrow> nat \<Rightarrow> presence" where
  "presence_new on name now = \<lparr>dp_enabled = on, dp_status = (if on then 1 else 0), dp_client = False,
     dp_last_try = None, dp_backoff = CONNECT_RETRY_MIN, dp_name = name, dp_track = None, dp_track_at = now,
     dp_duration = 0, dp_playing = False, dp_pos = 0, dp_pos_at = now, dp_sent = None, dp_last_send = None,
     dp_frames = []\<rparr>"

definition estimate :: "nat \<Rightarrow> presence \<Rightarrow> rat" where
  "estimate now p =
     (if dp_playing p then dp_pos p + of_nat (now - dp_pos_at p) / 1000000000 else dp_pos p)"

section \<open>The socket\<close>

definition write_frame :: "dp_env \<Rightarrow> frame \<Rightarrow> presence \<Rightarrow> presence" where
  "write_frame e f p = p\<lparr>dp_last_send := Some (de_now e), dp_frames := dp_frames p @ [(de_now e, f)]\<rparr>"

definition clear_shown :: "dp_env \<Rightarrow> presence \<Rightarrow> presence" where
  "clear_shown e p =
     (if dp_sent p = None then p
      else let p = p\<lparr>dp_sent := None\<rparr>
           in if dp_client p then (write_frame e ClearCard p)\<lparr>dp_client := de_accepts e\<rparr> else p)"

definition dp_disconnect :: "dp_env \<Rightarrow> presence \<Rightarrow> presence" where
  "dp_disconnect e p =
     (let p = clear_shown e (p\<lparr>dp_status := (if dp_enabled p then 3 else 0)\<rparr>)
      in p\<lparr>dp_client := False, dp_sent := None, dp_last_try := None, dp_backoff := CONNECT_RETRY_MIN\<rparr>)"

definition backoff_remaining :: "nat \<Rightarrow> presence \<Rightarrow> nat option" where
  "backoff_remaining now p =
     (case dp_last_try p of None \<Rightarrow> None | Some t \<Rightarrow> checked_sub (dp_backoff p) (now - t))"

definition ensure_connected :: "dp_env \<Rightarrow> presence \<Rightarrow> bool \<times> presence" where
  "ensure_connected e p =
     (if dp_client p then (True, p)
      else if backoff_remaining (de_now e) p \<noteq> None then (False, p)
      else let p = p\<lparr>dp_last_try := Some (de_now e)\<rparr>
           in if de_connects e
              then (True, p\<lparr>dp_status := 2, dp_client := True, dp_backoff := CONNECT_RETRY_MIN, dp_sent := None\<rparr>)
              else (False, p\<lparr>dp_status := 3, dp_backoff := min (dp_backoff p * 2) CONNECT_RETRY_MAX\<rparr>))"

definition card :: "dp_env \<Rightarrow> dp_song \<Rightarrow> presence \<Rightarrow> activity" where
  "card e t p =
     (let pos = max 0 (estimate (de_now e) p);
          start_ms = i64 (de_wall_ms e - as_i64 (pos * 1000))
      in \<lparr>ac_name = field (dp_name p), ac_details = field (dt_title t),
          ac_state = (if dt_artists t = [] then None else Some (field (dt_artists t))),
          ac_start = start_ms,
          ac_end = (if 0 < dp_duration p then Some (i64 (start_ms + as_i64 (dp_duration p * 1000))) else None),
          ac_button = listen_link (dt_video_id t),
          ac_large_image = (case dt_thumbnail t of Some url \<Rightarrow> url | None \<Rightarrow> BRAND_IMAGE),
          ac_small_image = (case dt_thumbnail t of Some _ \<Rightarrow> Some (BRAND_IMAGE, BRAND_BADGE_TEXT) | None \<Rightarrow> None),
          ac_large_text = art_hover t\<rparr>)"

definition push_card :: "dp_env \<Rightarrow> presence \<Rightarrow> presence" where
  "push_card e p =
     (case dp_track p of
        None \<Rightarrow> p
      | Some t \<Rightarrow>
          if \<not> dp_client p then p
          else let a = card e t p; q = write_frame e (Card a) p
               in if de_accepts e
                  then q\<lparr>dp_sent := Some \<lparr>sn_video_id = dt_video_id t, sn_name = dp_name p,
                      sn_start_ms = ac_start a, sn_duration = dp_duration p\<rparr>\<rparr>
                  else q\<lparr>dp_client := False, dp_sent := None\<rparr>)"

section \<open>Messages\<close>

fun dp_apply :: "dp_env \<Rightarrow> dp_message \<Rightarrow> presence \<Rightarrow> presence" where
  "dp_apply e (TrackMsg t) p = p\<lparr>dp_track := Some t, dp_track_at := de_now e, dp_pos := 0,
     dp_pos_at := de_now e, dp_duration := 0\<rparr>"
| "dp_apply e (DurationMsg secs) p = p\<lparr>dp_duration := secs\<rparr>"
| "dp_apply e (PositionMsg pos read_at) p = p\<lparr>dp_pos := pos, dp_pos_at := read_at\<rparr>"
| "dp_apply e (PlayingMsg on) p =
     (if dp_playing p = on then p
      else let p = p\<lparr>dp_pos := estimate (de_now e) p, dp_pos_at := de_now e, dp_playing := on\<rparr>
           in if on \<and> dp_enabled p \<and> \<not> dp_client p
              then p\<lparr>dp_last_try := None, dp_backoff := CONNECT_RETRY_MIN\<rparr> else p)"
| "dp_apply e (EnabledMsg on) p =
     (if dp_enabled p = on then p
      else let p = p\<lparr>dp_enabled := on\<rparr>
           in if on then p\<lparr>dp_status := 1, dp_last_try := None\<rparr> else dp_disconnect e p)"
| "dp_apply e (NameMsg name) p = (if dp_name p = name then p else p\<lparr>dp_name := name\<rparr>)"

section \<open>The plan\<close>

datatype act = Idle | Wait nat | Push | Clear

definition floor_remaining :: "nat \<Rightarrow> presence \<Rightarrow> nat option" where
  "floor_remaining now p =
     (case dp_last_send p of None \<Rightarrow> None | Some t \<Rightarrow> checked_sub SEND_FLOOR (now - t))"

definition wants_push :: "dp_env \<Rightarrow> presence \<Rightarrow> bool" where
  "wants_push e p =
     (case dp_track p of
        None \<Rightarrow> False
      | Some t \<Rightarrow> (case dp_sent p of
          None \<Rightarrow> True
        | Some s \<Rightarrow>
            sn_video_id s \<noteq> dt_video_id t \<or> sn_name s \<noteq> dp_name p \<or>
            1 < \<bar>dp_duration p - sn_duration s\<bar> \<or>
            (let drift_ms = i64 (as_i64 (estimate (de_now e) p * 1000) - i64 (de_wall_ms e - sn_start_ms s))
             in SEEK_DRIFT_MS < i64 \<bar>drift_ms\<bar>)))"

definition is_new_card :: "presence \<Rightarrow> bool" where
  "is_new_card p =
     (case (dp_sent p, dp_track p) of
        (Some s, Some t) \<Rightarrow> sn_video_id s \<noteq> dt_video_id t
      | _ \<Rightarrow> True)"

definition want_card :: "presence \<Rightarrow> bool" where
  "want_card p = (dp_playing p \<and> dp_track p \<noteq> None)"

definition plan :: "dp_env \<Rightarrow> presence \<Rightarrow> act" where
  "plan e p =
     (if \<not> dp_enabled p then Idle
      else if want_card p \<and> \<not> wants_push e p then Idle
      else if \<not> want_card p \<and> dp_sent p = None then Idle
      else case (if want_card p \<and> dp_duration p \<le> 0 \<and> is_new_card p
                 then checked_sub DURATION_GRACE (de_now e - dp_track_at p) else None) of
             Some rem \<Rightarrow> Wait (max rem MIN_WAIT)
           | None \<Rightarrow> (case floor_remaining (de_now e) p of
               Some rem \<Rightarrow> Wait (max rem MIN_WAIT)
             | None \<Rightarrow> if want_card p then Push else Clear))"

definition sync :: "dp_env \<Rightarrow> presence \<Rightarrow> presence \<times> nat" where
  "sync e p =
     (if \<not> dp_enabled p then (p, IDLE_TICK)
      else let (_, p) = ensure_connected e p;
               (p, wait) = (case plan e p of
                   Idle \<Rightarrow> (p, IDLE_TICK)
                 | Wait d \<Rightarrow> (p, d)
                 | Push \<Rightarrow> (let (ok, p) = ensure_connected e p
                            in (if ok then push_card e p else p, IDLE_TICK))
                 | Clear \<Rightarrow> (clear_shown e p, IDLE_TICK))
           in (p, case backoff_remaining (de_now e) p of
                    Some rem \<Rightarrow> if \<not> dp_client p then min wait (max rem MIN_WAIT) else wait
                  | None \<Rightarrow> wait))"

text \<open>The owner thread: messages, wake-ups and the end, at instants that only grow.\<close>

inductive dp_step :: "presence \<times> nat \<Rightarrow> presence \<times> nat \<Rightarrow> bool" where
  dp_message: "now \<le> de_now e \<Longrightarrow> dp_step (p, now) (dp_apply e m p, de_now e)"
| dp_wake: "now \<le> de_now e \<Longrightarrow> dp_step (p, now) (fst (sync e p), de_now e)"
| dp_shutdown: "now \<le> de_now e \<Longrightarrow> dp_step (p, now) (dp_disconnect e p, de_now e)"

definition dp_init :: "presence \<times> nat \<Rightarrow> bool" where
  "dp_init pn \<longleftrightarrow> (\<exists>on name now. pn = (presence_new on name now, now))"

section \<open>What is on the wire\<close>

fun is_card :: "frame \<Rightarrow> bool" where
  "is_card (Card _) = True"
| "is_card ClearCard = False"

text \<open>Frames in order of time, and no card within the floor of an earlier frame.\<close>

definition spaced :: "(nat \<times> frame) list \<Rightarrow> bool" where
  "spaced fs \<longleftrightarrow> sorted_wrt (\<lambda>(t, _) (t', f). t \<le> t' \<and> (is_card f \<longrightarrow> t + SEND_FLOOR < t')) fs"

definition dp_ok :: "presence \<times> nat \<Rightarrow> bool" where
  "dp_ok = (\<lambda>(p, now). spaced (dp_frames p) \<and>
     dp_last_send p = (if dp_frames p = [] then None else Some (fst (last (dp_frames p)))) \<and>
     (\<forall>t. dp_last_send p = Some t \<longrightarrow> t \<le> now) \<and>
     (\<forall>s. dp_sent p = Some s \<longrightarrow> dp_client p \<and> (\<exists>t a. dp_frames p \<noteq> [] \<and> last (dp_frames p) = (t, Card a) \<and>
        ac_start a = sn_start_ms s \<and> ac_name a = field (sn_name s))) \<and>
     (dp_client p \<longrightarrow> dp_enabled p \<and> dp_status p = 2) \<and> (dp_status p = 0 \<longleftrightarrow> \<not> dp_enabled p))"

lemma dp_okD:
  assumes "dp_ok (p, now)"
  shows "spaced (dp_frames p)"
    "dp_last_send p = (if dp_frames p = [] then None else Some (fst (last (dp_frames p))))"
    "dp_last_send p = Some t \<Longrightarrow> t \<le> now"
    "dp_sent p = Some s \<Longrightarrow> dp_client p \<and> (\<exists>t a. dp_frames p \<noteq> [] \<and> last (dp_frames p) = (t, Card a) \<and>
        ac_start a = sn_start_ms s \<and> ac_name a = field (sn_name s))"
    "dp_client p \<Longrightarrow> dp_enabled p \<and> dp_status p = 2" "dp_status p = 0 \<longleftrightarrow> \<not> dp_enabled p"
  using assms unfolding dp_ok_def prod.case by blast+

lemma dp_ok_later: "dp_ok (p, now) \<Longrightarrow> now \<le> now' \<Longrightarrow> dp_ok (p, now')"
  by (auto simp: dp_ok_def)

text \<open>Messages that leave the socket and what was sent alone.\<close>

lemma dp_ok_desired:
  assumes "dp_ok (p, now)" "dp_frames q = dp_frames p" "dp_last_send q = dp_last_send p" "dp_sent q = dp_sent p"
    "dp_client q = dp_client p" "dp_status q = dp_status p" "dp_enabled q = dp_enabled p"
  shows "dp_ok (q, now)"
  using assms by (simp add: dp_ok_def)

lemma spaced_snoc:
  assumes "spaced fs" "\<And>t. fs \<noteq> [] \<Longrightarrow> t = fst (last fs) \<Longrightarrow> t \<le> now \<and> (is_card f \<longrightarrow> t + SEND_FLOOR < now)"
  shows "spaced (fs @ [(now, f)])"
proof -
  have "t \<le> now \<and> (is_card f \<longrightarrow> t + SEND_FLOOR < now)" if "(t, g) \<in> set fs" for t g
  proof -
    from that have "fs \<noteq> []" by auto
    have "t \<le> fst (last fs)"
      using that assms(1) by (cases fs rule: rev_cases) (auto simp: spaced_def sorted_wrt_append)
    with assms(2) [OF \<open>fs \<noteq> []\<close> refl] show ?thesis by fastforce
  qed
  with assms(1) show ?thesis by (auto simp: spaced_def sorted_wrt_append)
qed

lemma frames_clear:
  assumes "dp_ok (p, now)" "now \<le> de_now e"
  shows "spaced (dp_frames p @ [(de_now e, ClearCard)])"
  using dp_okD(1,2,3) [OF assms(1)] assms(2) by (intro spaced_snoc) force+

lemma clear_shown_ok: "dp_ok (p, now) \<Longrightarrow> now \<le> de_now e \<Longrightarrow> dp_ok (clear_shown e p, de_now e)"
  using frames_clear [of p now e]
  by (auto simp: clear_shown_def write_frame_def dp_ok_def Let_def split: if_splits)

lemma dp_disconnect_ok: "dp_ok (p, now) \<Longrightarrow> now \<le> de_now e \<Longrightarrow> dp_ok (dp_disconnect e p, de_now e)"
  using frames_clear [of p now e]
  by (auto simp: dp_disconnect_def clear_shown_def write_frame_def dp_ok_def Let_def split: if_splits)

text \<open>Turning presence off: the flag changes before the socket is closed.\<close>

lemma dp_switch_off_ok:
  "dp_ok (p, now) \<Longrightarrow> now \<le> de_now e \<Longrightarrow> dp_ok (dp_disconnect e (p\<lparr>dp_enabled := False\<rparr>), de_now e)"
  using frames_clear [of p now e]
  by (auto simp: dp_disconnect_def clear_shown_def write_frame_def dp_ok_def Let_def split: if_splits)

lemma dp_apply_ok:
  assumes "dp_ok (p, now)" "now \<le> de_now e"
  shows "dp_ok (dp_apply e m p, de_now e)"
proof -
  note later = dp_ok_later [OF assms]
  show ?thesis
  proof (cases m)
    case (EnabledMsg on)
    show ?thesis
    proof (cases "dp_enabled p = on")
      case False
      show ?thesis
      proof (cases on)
        case True
        with later False EnabledMsg show ?thesis by (auto simp: dp_ok_def Let_def)
      next
        case False
        with \<open>dp_enabled p \<noteq> on\<close> EnabledMsg show ?thesis
          using dp_switch_off_ok [OF assms] by simp
      qed
    qed (use later EnabledMsg in simp)
  qed (use later in \<open>auto simp: Let_def intro: dp_ok_desired [OF later]\<close>)
qed

lemma ensure_connected_ok:
  assumes "dp_ok (p, de_now e)" "dp_enabled p"
  shows "dp_ok (snd (ensure_connected e p), de_now e)"
  using assms by (auto simp: ensure_connected_def dp_ok_def Let_def)

lemma ensure_connected_keeps:
  "dp_frames (snd (ensure_connected e p)) = dp_frames p" "dp_enabled (snd (ensure_connected e p)) = dp_enabled p"
  "dp_last_send (snd (ensure_connected e p)) = dp_last_send p"
  by (simp_all add: ensure_connected_def Let_def)

lemma push_card_ok:
  assumes "dp_ok (p, de_now e)" "floor_remaining (de_now e) p = None"
  shows "dp_ok (push_card e p, de_now e)"
proof -
  have "spaced (dp_frames p @ [(de_now e, Card a)])" for a
    using dp_okD(1,2,3) [OF assms(1)] assms(2)
    by (intro spaced_snoc) (auto simp: floor_remaining_def checked_sub_def split: option.splits if_splits)
  with assms(1) show ?thesis
    by (auto simp: push_card_def write_frame_def dp_ok_def Let_def card_def split: option.split if_splits)
qed

lemma plan_Push: "plan e p = Push \<Longrightarrow> floor_remaining (de_now e) p = None \<and> want_card p \<and> wants_push e p"
  by (auto simp: plan_def split: if_splits option.splits)

lemma sync_ok:
  assumes "dp_ok (p, now)" "now \<le> de_now e"
  shows "dp_ok (fst (sync e p), de_now e)"
proof (cases "dp_enabled p")
  case True
  obtain b q where q: "ensure_connected e p = (b, q)" by fastforce
  have ok: "dp_ok (q, de_now e)" "dp_enabled q"
    using ensure_connected_ok [OF dp_ok_later [OF assms] True] ensure_connected_keeps(2) [of e p] q True by auto
  show ?thesis
  proof (cases "plan e q")
    case Push
    obtain c r where r: "ensure_connected e q = (c, r)" by fastforce
    have "dp_ok (r, de_now e)" "floor_remaining (de_now e) r = None"
      using ensure_connected_ok [OF ok] ensure_connected_keeps(3) [of e q] r plan_Push [OF Push]
      by (auto simp: floor_remaining_def)
    with True q r Push show ?thesis by (simp add: sync_def Let_def push_card_ok)
  next
    case Clear
    with True q clear_shown_ok [OF ok(1), of e] show ?thesis by (simp add: sync_def Let_def)
  qed (use True q ok in \<open>simp_all add: sync_def Let_def\<close>)
qed (use dp_ok_later [OF assms] in \<open>simp add: sync_def\<close>)

interpretation presence_thread: invariant dp_init dp_step dp_ok
proof
  fix pn assume "dp_init pn"
  then show "dp_ok pn" by (auto simp: dp_init_def presence_new_def dp_ok_def spaced_def)
next
  fix x y assume "dp_ok x" "dp_step x y"
  from this(2,1) show "dp_ok y"
    by (cases rule: dp_step.cases) (auto intro: dp_apply_ok sync_ok dp_disconnect_ok)
qed


section \<open>A card that has to wait goes out\<close>

text \<open>One turn of the thread with nothing in its channel: it syncs, and wakes when the wait is over.\<close>

definition turn :: "(nat \<Rightarrow> dp_env) \<Rightarrow> presence \<times> nat \<Rightarrow> presence \<times> nat" where
  "turn env = (\<lambda>(p, now). let (q, wait) = sync (env now) p in (q, now + wait))"

lemma turn_waits:
  assumes "dp_enabled p" "dp_client p" "plan (env t) p = Wait w"
  shows "turn env (p, t) = (p, t + w)"
  using assms by (auto simp: turn_def sync_def ensure_connected_def Let_def split: option.split)

lemma turn_pushes:
  assumes "dp_enabled p" "dp_client p" "plan (env t) p = Push"
  shows "fst (turn env (p, t)) = push_card (env t) p"
  using assms by (simp add: turn_def sync_def ensure_connected_def Let_def)

lemma wait_out:
  assumes "start \<le> t" and p: "dp_enabled p" "dp_client p"
    and waits: "\<And>t r. t0 \<le> t \<Longrightarrow> checked_sub D (t - start) = Some r \<Longrightarrow> plan (env t) p = Wait (max r MIN_WAIT)"
    and "t0 \<le> t"
  shows "\<exists>n \<le> 2. \<exists>t'. (turn env ^^ n) (p, t) = (p, t') \<and> checked_sub D (t' - start) = None \<and> t \<le> t' \<and>
    t' \<le> max t (start + D + MIN_WAIT)"
proof (cases "checked_sub D (t - start)")
  case None
  then show ?thesis by (intro exI [of _ 0]) auto
next
  case (Some r)
  from turn_waits [of p env, OF p waits [OF assms(5) Some]] have 1: "turn env (p, t) = (p, t + max r MIN_WAIT)" .
  have pos: "0 < MIN_WAIT" by (simp add: MIN_WAIT_def millis_def)
  have r: "r = D - (t - start)" "t - start \<le> D" using Some by (auto simp: checked_sub_def split: if_splits)
  show ?thesis
  proof (cases "r < MIN_WAIT")
    case True
    have "(turn env ^^ 1) (p, t) = (p, t + MIN_WAIT)" using 1 True by simp
    moreover have "checked_sub D (t + MIN_WAIT - start) = None" "t + MIN_WAIT \<le> start + D + MIN_WAIT"
      using r True assms(1) by (auto simp: checked_sub_def)
    ultimately show ?thesis by (intro exI [of _ 1]) auto
  next
    case False
    let ?t = "t + r"
    have "?t - start = D" using r assms(1) by auto
    then have "checked_sub D (?t - start) = Some 0" by (simp add: checked_sub_def)
    from turn_waits [of p env, OF p waits [OF _ this]] assms(5)
    have 2: "turn env (p, ?t) = (p, ?t + MIN_WAIT)" by simp
    have "(turn env ^^ 2) (p, t) = (p, ?t + MIN_WAIT)"
      using 1 2 False by (simp add: numeral_2_eq_2)
    moreover have "checked_sub D (?t + MIN_WAIT - start) = None" "?t + MIN_WAIT \<le> start + D + MIN_WAIT"
      using r assms(1) pos by (auto simp: checked_sub_def)
    ultimately show ?thesis by (intro exI [of _ 2]) auto
  qed
qed

text \<open>A card that is due but too early is delayed, never dropped: while the thread is connected and playing a
  track whose card is not up yet, four wake-ups and 1.51 seconds later at most, with nothing else arriving, it has
  written exactly that track's card, and remembers it.\<close>

theorem new_card_goes_out:
  assumes "\<And>t. de_now (env t) = t" "\<And>t. de_accepts (env t)"
    and p: "dp_enabled p" "dp_client p" "dp_playing p" "dp_track p = Some tr" "is_new_card p"
    and past: "dp_track_at p \<le> now" "\<And>t. dp_last_send p = Some t \<Longrightarrow> t \<le> now"
  shows "\<exists>n \<le> 4. \<exists>t q. (turn env ^^ n) (p, now) = (p, t) \<and> t \<le> now + millis 1510 \<and> fst (turn env (p, t)) = q \<and>
    dp_frames q = dp_frames p @ [(t, Card (card (env t) tr p))] \<and>
    dp_sent q = Some \<lparr>sn_video_id = dt_video_id tr, sn_name = dp_name p,
      sn_start_ms = ac_start (card (env t) tr p), sn_duration = dp_duration p\<rparr>"
proof -
  have want: "want_card p" "wants_push e p" for e
    using p by (auto simp: want_card_def wants_push_def is_new_card_def split: option.splits)
  let ?grace = "\<lambda>t. if dp_duration p \<le> 0 then checked_sub DURATION_GRACE (t - dp_track_at p) else None"
  have plan: "plan (env t) p = (case ?grace t of Some r \<Rightarrow> Wait (max r MIN_WAIT)
      | None \<Rightarrow> case floor_remaining t p of Some r \<Rightarrow> Wait (max r MIN_WAIT) | None \<Rightarrow> Push)" for t
    using p want by (simp add: plan_def assms(1) split: option.split)
  obtain n1 t1 where 1: "n1 \<le> 2" "(turn env ^^ n1) (p, now) = (p, t1)" "?grace t1 = None" "now \<le> t1"
    "t1 \<le> now + DURATION_GRACE + MIN_WAIT"
  proof (cases "dp_duration p \<le> 0")
    case True
    have "plan (env t) p = Wait (max r MIN_WAIT)" if "checked_sub DURATION_GRACE (t - dp_track_at p) = Some r" for t r
      using that True by (simp add: plan)
    from wait_out [OF past(1) p(1,2) this, of now] that True past(1) show ?thesis by fastforce
  next
    case False
    with that [of 0 now] show ?thesis by simp
  qed
  have later: "?grace t = None" if "t1 \<le> t" for t
    using 1(3) that by (auto simp: checked_sub_def split: if_splits)
  obtain n2 t2 where 2: "n2 \<le> 2" "(turn env ^^ n2) (p, t1) = (p, t2)" "floor_remaining t2 p = None" "t1 \<le> t2"
    "t2 \<le> max t1 (now + SEND_FLOOR + MIN_WAIT)"
  proof (cases "dp_last_send p")
    case None
    with that [of 0 t1] show ?thesis by (simp add: floor_remaining_def)
  next
    case (Some ls)
    have "\<exists>n \<le> 2. \<exists>t'. (turn env ^^ n) (p, t1) = (p, t') \<and> checked_sub SEND_FLOOR (t' - ls) = None \<and> t1 \<le> t' \<and>
        t' \<le> max t1 (ls + SEND_FLOOR + MIN_WAIT)"
    proof (rule wait_out [where ?t0.0 = t1])
      show "ls \<le> t1" using past(2) [OF Some] 1(4) by simp
      show "plan (env t) p = Wait (max r MIN_WAIT)" if "t1 \<le> t" "checked_sub SEND_FLOOR (t - ls) = Some r" for t r
        using that(2) Some later [OF that(1)] by (simp add: plan floor_remaining_def)
    qed (use p in simp_all)
    then obtain n t where "n \<le> 2" "(turn env ^^ n) (p, t1) = (p, t)" "checked_sub SEND_FLOOR (t - ls) = None" "t1 \<le> t"
      "t \<le> max t1 (ls + SEND_FLOOR + MIN_WAIT)" by blast
    with that [of n t] past(2) [OF Some] Some show ?thesis by (simp add: floor_remaining_def)
  qed
  have run: "(turn env ^^ (n2 + n1)) (p, now) = (p, t2)" using 1(2) 2(2) by (simp add: funpow_add)
  have "t2 \<le> now + millis 1510"
    using 1(5) 2(5) by (simp add: DURATION_GRACE_def SEND_FLOOR_def MIN_WAIT_def millis_def)
  moreover have "plan (env t2) p = Push" using later [OF 2(4)] 2(3) by (simp add: plan)
  from turn_pushes [of p env, OF p(1,2) this] have "fst (turn env (p, t2)) = push_card (env t2) p" .
  moreover have "dp_frames (push_card (env t2) p) = dp_frames p @ [(t2, Card (card (env t2) tr p))]"
    "dp_sent (push_card (env t2) p) = Some \<lparr>sn_video_id = dt_video_id tr, sn_name = dp_name p,
      sn_start_ms = ac_start (card (env t2) tr p), sn_duration = dp_duration p\<rparr>"
    using p assms(1,2) by (simp_all add: push_card_def write_frame_def Let_def)
  ultimately show ?thesis using run 1(1) 2(1) by (intro exI [of _ "n2 + n1"]) auto
qed

section \<open>Steady playback is silent\<close>

text \<open>The plan as long as a card is up and nothing about it has changed.\<close>

definition on_track :: "presence \<Rightarrow> dp_sent \<Rightarrow> bool" where
  "on_track p s \<longleftrightarrow> dp_sent p = Some s \<and> dp_enabled p \<and> dp_client p \<and> dp_playing p \<and>
     (\<exists>t. dp_track p = Some t \<and> sn_video_id s = dt_video_id t) \<and> sn_name s = dp_name p \<and>
     \<bar>dp_duration p - sn_duration s\<bar> \<le> 1"

lemma as_i64_near:
  assumes "\<bar>q\<bar> < 2 ^ 62"
  shows "\<bar>of_int (as_i64 q) - q\<bar> < 1" and "\<bar>as_i64 q\<bar> < 2 ^ 62 + 1"
proof -
  have f: "(- (2 ^ 62) :: int) \<le> \<lfloor>q\<rfloor>" "\<lceil>q\<rceil> \<le> (2 ^ 62 :: int)" "\<lfloor>q\<rfloor> \<le> (2 ^ 62 :: int)" "- (2 ^ 62) \<le> \<lceil>q\<rceil>"
    using assms by (simp_all add: le_floor_iff ceiling_le_iff floor_le_iff le_ceiling_iff abs_if split: if_splits)
  then have "as_i64 q = (if q < 0 then \<lceil>q\<rceil> else \<lfloor>q\<rfloor>)" by (simp add: as_i64_def)
  with f show "\<bar>of_int (as_i64 q) - q\<bar> < 1" "\<bar>as_i64 q\<bar> < 2 ^ 62 + 1"
    by (auto simp: abs_if) linarith+
qed

lemma i64_small: "\<bar>n\<bar> < 2 ^ 63 \<Longrightarrow> i64 n = n"
  by (simp add: i64_def signed_take_bit_int_eq_self_iff abs_if split: if_splits)

text \<open>The drift between the timeline on the card and the position, in the code's arithmetic.\<close>

lemma no_push_on_timeline:
  assumes "on_track p s" and drift: "\<bar>estimate (de_now e) p * 1000 - of_int (de_wall_ms e - sn_start_ms s)\<bar> \<le> 1999"
    and small: "\<bar>de_wall_ms e - sn_start_ms s\<bar> < 2 ^ 61"
  shows "\<not> wants_push e p"
proof -
  let ?q = "estimate (de_now e) p * 1000" and ?d = "de_wall_ms e - sn_start_ms s"
  have d: "\<bar>of_int ?d :: rat\<bar> < 2 ^ 61" using small by (metis of_int_abs of_int_less_iff of_int_numeral of_int_power)
  with drift have "\<bar>?q\<bar> < 2 ^ 62" by (simp add: abs_if split: if_splits)
  note q = as_i64_near [OF this]
  have "\<bar>of_int (as_i64 ?q - ?d) :: rat\<bar> < 2001" using q(1) drift by (simp add: abs_if split: if_splits)
  then have "(of_int \<bar>as_i64 ?q - ?d\<bar> :: rat) < of_int 2001" by simp
  then have "\<bar>as_i64 ?q - ?d\<bar> < 2001" by (simp only: of_int_less_iff)
  then have "\<bar>as_i64 ?q - ?d\<bar> \<le> 2000" by simp
  moreover have "i64 ?d = ?d" using small by (intro i64_small) simp
  ultimately have "i64 \<bar>i64 (as_i64 ?q - i64 ?d)\<bar> \<le> SEEK_DRIFT_MS"
    by (simp add: i64_small SEEK_DRIFT_MS_def)
  with assms(1) show ?thesis by (auto simp: wants_push_def on_track_def Let_def)
qed

text \<open>A position tick: the surroundings, the position and when it was read. It is honest about a song that was at
  its beginning at \<open>a\<close> when the position is within a second of it and the wall clock agrees with the monotonic
  one within 0.9 seconds.\<close>

type_synonym tick = "dp_env \<times> rat \<times> nat"

definition honest :: "nat \<Rightarrow> int \<Rightarrow> tick \<Rightarrow> bool" where
  "honest a start_ms = (\<lambda>(e, pos, read_at). a \<le> read_at \<and> read_at \<le> de_now e \<and> de_now e - a < 10 ^ 18 \<and>
     \<bar>pos - of_nat (read_at - a) / 1000000000\<bar> \<le> 1 \<and>
     \<bar>of_int (de_wall_ms e - start_ms) - of_nat (de_now e - a) / 1000000 :: rat\<bar> \<le> 900)"

definition dp_tick :: "presence \<Rightarrow> tick \<Rightarrow> presence" where
  "dp_tick p = (\<lambda>(e, pos, read_at). fst (sync e (dp_apply e (PositionMsg pos read_at) p)))"

lemma honest_tick:
  assumes "on_track p s" "honest a (sn_start_ms s) (e, pos, read_at)"
  shows "dp_tick p (e, pos, read_at) = p\<lparr>dp_pos := pos, dp_pos_at := read_at\<rparr>"
proof -
  let ?p = "p\<lparr>dp_pos := pos, dp_pos_at := read_at\<rparr>"
  have h: "a \<le> read_at" "read_at \<le> de_now e" "de_now e - a < 10 ^ 18"
    "\<bar>pos - of_nat (read_at - a) / 1000000000\<bar> \<le> 1"
    "\<bar>of_int (de_wall_ms e - sn_start_ms s) - of_nat (de_now e - a) / 1000000 :: rat\<bar> \<le> 900"
    using assms(2) unfolding honest_def prod.case by blast+
  have on: "on_track ?p s" using assms(1) by (simp add: on_track_def)
  have "de_now e - a = (de_now e - read_at) + (read_at - a)" using h by simp
  then have sum: "(of_nat (de_now e - a) :: rat) = of_nat (de_now e - read_at) + of_nat (read_at - a)"
    by (metis of_nat_add)
  have est: "estimate (de_now e) ?p = pos + of_nat (de_now e - read_at) / 1000000000"
    using assms(1) by (simp add: estimate_def on_track_def)
  have "\<bar>estimate (de_now e) ?p * 1000 - of_int (de_wall_ms e - sn_start_ms s)\<bar> \<le> 1999"
    using h(4,5) unfolding est sum by (simp add: abs_if field_simps split: if_splits)
  moreover have "\<bar>de_wall_ms e - sn_start_ms s\<bar> < 2 ^ 61"
  proof -
    have "(of_nat (de_now e - a) :: rat) < 10 ^ 18" using h(3) by (metis of_nat_less_iff of_nat_numeral of_nat_power)
    then have "(of_int \<bar>de_wall_ms e - sn_start_ms s\<bar> :: rat) < of_int (2 ^ 61)"
      using h(5) by (simp add: abs_if split: if_splits)
    then show ?thesis by (simp only: of_int_less_iff)
  qed
  ultimately have "\<not> wants_push e ?p" using on by (intro no_push_on_timeline)
  with on have "plan e ?p = Idle" by (auto simp: plan_def want_card_def on_track_def)
  with on show ?thesis by (simp add: dp_tick_def sync_def ensure_connected_def on_track_def)
qed

text \<open>While a track plays on, with its card up, the position ticks of any length of time, each honest about the
  song, make no frame: the card stays, and Discord is not sent one update per tick.\<close>

theorem steady_playback_is_silent:
  assumes "on_track p s" "list_all (honest a (sn_start_ms s)) ticks"
  shows "dp_frames (foldl dp_tick p ticks) = dp_frames p \<and> dp_sent (foldl dp_tick p ticks) = Some s"
  using assms
proof (induction ticks arbitrary: p)
  case (Cons x ticks)
  obtain e pos r where x: "x = (e, pos, r)" by (cases x) auto
  from Cons.prems(2) x have t: "dp_tick p x = p\<lparr>dp_pos := pos, dp_pos_at := r\<rparr>"
    using honest_tick [OF Cons.prems(1), of a e pos r] by simp
  have "on_track (p\<lparr>dp_pos := pos, dp_pos_at := r\<rparr>) s" using Cons.prems by (simp add: on_track_def)
  from Cons.IH [OF this] Cons.prems t show ?case by simp
qed (simp add: on_track_def)

section \<open>Two slips\<close>

text \<open>When the socket turns out broken after a connection that is older than the backoff, the thread does not wake
  for the attempt it may make at once: it sleeps five minutes, enabled, with a card to show and no socket.\<close>

theorem broken_socket_sleeps:
  assumes "dp_enabled p" "dp_client p" "plan e p = Push" "\<not> de_accepts e"
    and "dp_last_try p = Some t" "t + dp_backoff p < de_now e"
  shows "\<exists>q. sync e p = (q, IDLE_TICK) \<and> dp_enabled q \<and> \<not> dp_client q \<and> want_card q \<and> dp_status q = dp_status p \<and>
    backoff_remaining (de_now e) q = None"
proof -
  have "want_card p" using plan_Push [OF assms(3)] by blast
  then obtain tr where tr: "dp_track p = Some tr" by (auto simp: want_card_def)
  have b: "backoff_remaining (de_now e) (push_card e p) = None"
    using assms(2,4-6) tr by (simp add: backoff_remaining_def checked_sub_def push_card_def write_frame_def Let_def)
  with assms tr \<open>want_card p\<close> show ?thesis
    by (simp add: sync_def ensure_connected_def Let_def push_card_def write_frame_def want_card_def)
qed

text \<open>A TIDAL track's card says it plays from YouTube Music.\<close>

theorem tidal_card_names_youtube:
  "provider_label (TIDAL_TRACK_PREFIX @ dec n) = lit ''YouTube Music'' \<and> is_tidal_id (TIDAL_TRACK_PREFIX @ dec n)"
  by (simp add: provider_label_def is_tidal_id_def is_local_song_def is_radio_id_def is_sc_id_def is_spotify_id_def
      starts_with_def TIDAL_TRACK_PREFIX_def SONG_PREFIX_def RADIO_ID_PREFIX_def lit_Cons)

section \<open>A thread that plays\<close>

definition dp_env_at :: "nat \<Rightarrow> dp_env" where
  "dp_env_at t = \<lparr>de_now = t, de_wall_ms = int (t div 1000000), de_connects = True, de_accepts = True\<rparr>"

definition dp_sample_song :: dp_song where
  "dp_sample_song = \<lparr>dt_video_id = lit ''spotify:track:x'', dt_title = lit ''Song'', dt_artists = lit ''Artist'',
     dt_album = None, dt_thumbnail = None\<rparr>"

definition dp_sample_playing :: presence where
  "dp_sample_playing = dp_apply (dp_env_at 0) (DurationMsg 180) (dp_apply (dp_env_at 0) (PlayingMsg True)
     (dp_apply (dp_env_at 0) (TrackMsg dp_sample_song) (fst (sync (dp_env_at 0)
       (presence_new True DEFAULT_PRESENCE_NAME 0)))))"

definition dp_sample_shown :: presence where
  "dp_sample_shown = fst (sync (dp_env_at 0) dp_sample_playing)"

definition dp_sample_sent :: dp_sent where
  "dp_sample_sent = \<lparr>sn_video_id = lit ''spotify:track:x'', sn_name = DEFAULT_PRESENCE_NAME, sn_start_ms = 0,
     sn_duration = 180\<rparr>"

lemmas dp_run = dp_env_at_def presence_new_def sync_def ensure_connected_def plan_def want_card_def backoff_remaining_def
  Let_def wants_push_def is_new_card_def floor_remaining_def push_card_def write_frame_def estimate_def

lemma dp_sample_playing_eq:
  "dp_sample_playing = \<lparr>dp_enabled = True, dp_status = 2, dp_client = True, dp_last_try = Some 0,
     dp_backoff = CONNECT_RETRY_MIN, dp_name = DEFAULT_PRESENCE_NAME, dp_track = Some dp_sample_song, dp_track_at = 0,
     dp_duration = 180, dp_playing = True, dp_pos = 0, dp_pos_at = 0, dp_sent = None, dp_last_send = None,
     dp_frames = []\<rparr>"
  by (simp add: dp_sample_playing_def dp_run)

lemma dp_sample_card_start: "ac_start (card e t p) = i64 (de_wall_ms e - as_i64 (max 0 (estimate (de_now e) p) * 1000))"
  by (simp add: card_def Let_def)

lemma dp_sample_shown_eq:
  "dp_frames dp_sample_shown = [(0, Card (card (dp_env_at 0) dp_sample_song dp_sample_playing))]"
  "dp_sent dp_sample_shown = Some dp_sample_sent" "on_track dp_sample_shown dp_sample_sent"
proof -
  have "as_i64 0 = 0" "i64 0 = 0" by (simp_all add: as_i64_def i64_def)
  then show "dp_sent dp_sample_shown = Some dp_sample_sent" "on_track dp_sample_shown dp_sample_sent"
    by (simp_all add: dp_sample_shown_def dp_sample_playing_eq dp_run dp_sample_sent_def dp_sample_card_start on_track_def
        dp_sample_song_def)
qed (simp add: dp_sample_shown_def dp_sample_playing_eq dp_run)

lemma dp_reachable_message: "reachable dp_init dp_step (p, 0) \<Longrightarrow>
    reachable dp_init dp_step (dp_apply (dp_env_at 0) m p, 0)"
  by (erule reachable_step) (use dp_message [of 0 "dp_env_at 0"] in \<open>simp add: dp_env_at_def\<close>)

lemma dp_reachable_wake: "reachable dp_init dp_step (p, 0) \<Longrightarrow>
    reachable dp_init dp_step (fst (sync (dp_env_at 0) p), 0)"
  by (erule reachable_step) (use dp_wake [of 0 "dp_env_at 0"] in \<open>simp add: dp_env_at_def\<close>)

lemma dp_sample_reachable: "reachable dp_init dp_step (dp_sample_shown, 0)"
  unfolding dp_sample_shown_def dp_sample_playing_def
  by (intro dp_reachable_wake dp_reachable_message reachable_init) (auto simp: dp_init_def)


theorem new_card_goes_out_witness:
  "\<exists>n \<le> 4. \<exists>t q. (turn dp_env_at ^^ n) (dp_sample_playing, 5) = (dp_sample_playing, t) \<and> t \<le> 5 + millis 1510 \<and>
    fst (turn dp_env_at (dp_sample_playing, t)) = q \<and> length (dp_frames q) = 1"
proof -
  have "\<exists>n \<le> 4. \<exists>t q. (turn dp_env_at ^^ n) (dp_sample_playing, 5) = (dp_sample_playing, t) \<and> t \<le> 5 + millis 1510 \<and>
      fst (turn dp_env_at (dp_sample_playing, t)) = q \<and>
      dp_frames q = dp_frames dp_sample_playing @ [(t, Card (card (dp_env_at t) dp_sample_song dp_sample_playing))] \<and>
      dp_sent q = Some \<lparr>sn_video_id = dt_video_id dp_sample_song, sn_name = dp_name dp_sample_playing,
        sn_start_ms = ac_start (card (dp_env_at t) dp_sample_song dp_sample_playing),
        sn_duration = dp_duration dp_sample_playing\<rparr>"
    by (rule new_card_goes_out) (simp_all add: dp_env_at_def dp_sample_playing_eq is_new_card_def)
  then show ?thesis by (auto simp: dp_sample_playing_eq)
qed

theorem steady_playback_is_silent_witness:
  "dp_frames (foldl dp_tick dp_sample_shown [(dp_env_at 1000000000, 1, 1000000000), (dp_env_at 2500000000, 2, 2000000000)]) =
    dp_frames dp_sample_shown"
proof -
  have "list_all (honest 0 (sn_start_ms dp_sample_sent))
      [(dp_env_at 1000000000, 1, 1000000000), (dp_env_at 2500000000, 2, 2000000000)]"
    by (simp add: honest_def dp_env_at_def dp_sample_sent_def)
  from steady_playback_is_silent [OF dp_sample_shown_eq(3) this] show ?thesis by blast
qed

end
