(* ===== verification/Self_Update.thy ===== *)
theory Self_Update
  imports Wire_Format
begin

text \<open>
  The self-updater (crates/core/src/update.rs): canonical release versions, what a GitHub release offers, the
  checksum file, the download, the package's own identity, and the one privileged command an update runs. What
  GitHub, the package managers and the archive format answer are parameters (\<open>update_world\<close>), as is SHA-256.
\<close>

section \<open>Versions and names\<close>

definition version :: "ustr \<Rightarrow> (nat \<times> nat \<times> nat) option" where
  "version raw =
     (case split_on 46 raw of
        [major, minor, patch] \<Rightarrow>
          if major \<noteq> lit ''1'' then None
          else if (1 < byte_len minor \<and> starts_with (lit ''0'') minor) \<or> \<not> list_all is_ascii_digit minor \<or>
            byte_len patch \<noteq> 1 \<or> \<not> list_all is_ascii_digit patch then None
          else map_option (\<lambda>m. (1, m, hd patch - 48)) (parse_u64 minor)
      | _ \<Rightarrow> None)"

definition package_name :: "ustr \<Rightarrow> ustr" where
  "package_name v = lit ''ryotunes-'' @ v @ lit ''-1-x86_64.pkg.tar.zst''"

text \<open>Versions compare component by component, \<open>None\<close> below every \<open>Some\<close>.\<close>

fun version_less :: "(nat \<times> nat \<times> nat) option \<Rightarrow> (nat \<times> nat \<times> nat) option \<Rightarrow> bool" where
  "version_less _ None = False"
| "version_less None (Some _) = True"
| "version_less (Some (a, b, c)) (Some (x, y, z)) = (a < x \<or> a = x \<and> (b < y \<or> b = y \<and> c < z))"

section \<open>Releases\<close>

definition MAX_PACKAGE :: nat where "MAX_PACKAGE = 1024 * 1024 * 1024"
definition REPOSITORY :: ustr where "REPOSITORY = lit ''https://github.com/ryoku-dev/ryotunes''"

record release =
  tag_name :: ustr
  draft :: bool
  prerelease :: bool
  release_body :: "ustr option"
  assets :: "(ustr \<times> nat) list"

record update_info =
  current_version :: ustr
  latest_version :: "ustr option"
  available :: bool
  release_url :: ustr
  release_notes :: ustr
  can_install :: bool
  unsupported_reason :: "ustr option"
  restart_pending :: bool

definition incomplete_release :: ustr where
  "incomplete_release = lit ''This release has no complete x86_64 Arch package and checksum. View the changelog or check again after the release build finishes.''"

definition release_info :: "release option \<Rightarrow> ustr \<Rightarrow> ustr option \<Rightarrow> update_info" where
  "release_info rel current reason =
     (let info = \<lparr>current_version = current, latest_version = None, available = False,
            release_url = REPOSITORY @ lit ''/releases'', release_notes = [], can_install = False,
            unsupported_reason = reason, restart_pending = False\<rparr>
      in case rel of None \<Rightarrow> info | Some r \<Rightarrow>
         (case strip_prefix (lit ''v'') (tag_name r) of None \<Rightarrow> info | Some latest \<Rightarrow>
         (case version latest of None \<Rightarrow> info | Some next \<Rightarrow>
         (if draft r \<or> prerelease r then info
          else let name = package_name latest;
                   has_package = list_ex (\<lambda>(n, size). n = name \<and> 0 < size \<and> size \<le> MAX_PACKAGE) (assets r);
                   has_checksum = list_ex (\<lambda>(n, size). n = name @ lit ''.sha256'' \<and> 0 < size \<and> size \<le> 4096) (assets r);
                   unsupported = (if \<not> has_package \<or> \<not> has_checksum then Some incomplete_release else reason)
               in info\<lparr>latest_version := Some latest,
                    available := (case version current of None \<Rightarrow> True | Some i \<Rightarrow> version_less (Some i) (Some next)),
                    release_url := REPOSITORY @ lit ''/releases/tag/v'' @ latest,
                    release_notes := (case release_body r of Some b \<Rightarrow> b | None \<Rightarrow> []),
                    unsupported_reason := unsupported,
                    can_install := (unsupported = None \<and> has_package \<and> has_checksum)\<rparr>))))"

section \<open>The installation\<close>

datatype manager = Pacman | Xbps

definition package_version :: "ustr \<Rightarrow> ustr option" where
  "package_version query =
     Option.bind (strip_prefix (lit ''ryotunes 1:'') (trim query)) (\<lambda>v. map_option fst (rsplit_once 45 v))"

definition xbps_version :: "ustr \<Rightarrow> ustr option" where
  "xbps_version pkgver =
     Option.bind (strip_prefix (lit ''ryotunes-'') (trim pkgver)) (\<lambda>v.
     Option.bind (rsplit_once 95 v) (\<lambda>(ver, revision).
       if revision \<noteq> [] \<and> list_all is_ascii_digit revision \<and> 45 \<notin> set ver then Some ver else None))"

definition owns :: "manager \<Rightarrow> u8 list \<Rightarrow> bool" where
  "owns m stdout =
     (case m of
        Pacman \<Rightarrow> stdout = utf8_encode (lit ''ryotunes'' @ [10])
      | Xbps \<Rightarrow> (case Option.bind (utf8_decode stdout) (split_at_text (lit '': '')) of
            Some (pkgver, _) \<Rightarrow> xbps_version pkgver \<noteq> None
          | None \<Rightarrow> False))"

definition on_disk :: "ustr \<Rightarrow> ustr" where
  "on_disk exe = (case strip_suffix (lit '' (deleted)'') exe of Some path \<Rightarrow> path | None \<Rightarrow> exe)"

text \<open>What \<open>installation\<close> looks at: the platform, three files, the running binary and the package manager's
  answer about who owns it (\<open>None\<close>: it failed or timed out).\<close>

record machine =
  mc_linux_x86_64 :: bool
  mc_has_file :: "ustr \<Rightarrow> bool"
  mc_current_exe :: "ustr + ustr"
  mc_owner_of :: "manager \<Rightarrow> ustr \<Rightarrow> u8 list option"

definition not_packaged :: ustr where
  "not_packaged = lit ''This copy of Ryotunes was not installed from its package, so it cannot update itself. Install the package from the release page; development builds are never overwritten.''"

definition installation :: "machine \<Rightarrow> ustr + manager" where
  "installation mc =
     (if \<not> mc_linux_x86_64 mc then Inl (lit ''Self update supports the x86_64 Arch and Void Linux packages. Download a release for your platform instead.'')
      else case (if mc_has_file mc (lit ''/usr/bin/pacman'') then Some Pacman
                 else if mc_has_file mc (lit ''/usr/bin/xbps-install'') then Some Xbps else None) of
        None \<Rightarrow> Inl (lit ''Self update needs pacman or xbps.'')
      | Some m \<Rightarrow>
          if \<not> mc_has_file mc (lit ''/usr/bin/pkexec'')
          then Inl (lit ''Self update needs polkit (pkexec), with a desktop authentication agent.'')
          else case mc_current_exe mc of
            Inl e \<Rightarrow> Inl (lit ''Cannot determine the running installation: '' @ e)
          | Inr exe \<Rightarrow>
              (case mc_owner_of mc m (on_disk exe) of
                 Some stdout \<Rightarrow> if owns m stdout then Inr m else Inl not_packaged
               | None \<Rightarrow> Inl not_packaged))"

section \<open>Checksum and download\<close>

text \<open>A body read chunk by chunk, each an error or bytes.\<close>

fun bounded_body :: "nat \<Rightarrow> u8 list \<Rightarrow> (ustr + u8 list) list \<Rightarrow> ustr + u8 list" where
  "bounded_body limit bytes [] = Inr bytes"
| "bounded_body limit bytes (Inl e # cs) = Inl e"
| "bounded_body limit bytes (Inr c # cs) =
     (if limit - length bytes < length c then Inl (lit ''GitHub response exceeded the allowed size.'')
      else bounded_body limit (bytes @ c) cs)"

definition bad_checksum :: ustr where
  "bad_checksum = lit ''Invalid package checksum: expected one SHA-256 entry for this release package.''"

definition checksum :: "u8 list \<Rightarrow> ustr \<Rightarrow> ustr + ustr" where
  "checksum bytes name =
     (case utf8_decode bytes of
        None \<Rightarrow> Inl (lit ''Invalid package checksum encoding.'')
      | Some t \<Rightarrow>
          (case split_whitespace t of
             [hash, n] \<Rightarrow> if n = name \<and> byte_len hash = 64 \<and> list_all is_ascii_hexdigit hash
                          then Inr (to_ascii_lowercase hash) else Inl bad_checksum
           | _ \<Rightarrow> Inl bad_checksum))"

text \<open>The chunks of the download, each with the outcome of writing it; what ends in the file.\<close>

fun download_chunks :: "u8 list \<Rightarrow> ((ustr + u8 list) \<times> ustr option) list \<Rightarrow> ustr + u8 list" where
  "download_chunks file [] = Inr file"
| "download_chunks file ((Inl e, _) # cs) = Inl (lit ''Package download interrupted: '' @ e)"
| "download_chunks file ((Inr c, w) # cs) =
     (if MAX_PACKAGE < length file + length c then Inl (lit ''Release package is too large.'')
      else case w of Some e \<Rightarrow> Inl (lit ''Could not write update: '' @ e)
                   | None \<Rightarrow> download_chunks (file @ c) cs)"

record download_world =
  dw_response :: "ustr option"
  dw_length :: "nat option"
  dw_create :: "ustr option"
  dw_chunks :: "((ustr + u8 list) \<times> ustr option) list"
  dw_sync :: "ustr option"

definition download :: "(u8 list \<Rightarrow> ustr) \<Rightarrow> download_world \<Rightarrow> ustr \<Rightarrow> ustr + u8 list" where
  "download sha256 w expected =
     (case dw_response w of Some e \<Rightarrow> Inl (lit ''Package download failed: '' @ e) | None \<Rightarrow>
     (if (case dw_length w of Some n \<Rightarrow> MAX_PACKAGE < n | None \<Rightarrow> False)
      then Inl (lit ''Release package is too large.'')
      else case dw_create w of Some e \<Rightarrow> Inl (lit ''Could not stage update: '' @ e) | None \<Rightarrow>
     (case download_chunks [] (dw_chunks w) of Inl e \<Rightarrow> Inl e | Inr file \<Rightarrow>
      if file = [] \<or> sha256 file \<noteq> expected
      then Inl (lit ''Package SHA-256 verification failed. Nothing was installed.'')
      else case dw_sync w of Some e \<Rightarrow> Inl (lit ''Could not save update: '' @ e) | None \<Rightarrow> Inr file)))"

section \<open>The package's own identity\<close>

definition pkginfo_field :: "ustr \<Rightarrow> ustr \<Rightarrow> ustr option" where
  "pkginfo_field pkginfo key =
     (case filter (\<lambda>v. v \<noteq> None) (map (\<lambda>l. Option.bind (strip_prefix key l) (strip_prefix (lit '' = ''))) (str_lines pkginfo)) of
        v # _ \<Rightarrow> v | [] \<Rightarrow> None)"

definition pkginfo_matches :: "ustr \<Rightarrow> ustr \<Rightarrow> bool" where
  "pkginfo_matches pkginfo requested =
     (pkginfo_field pkginfo (lit ''pkgname'') = Some (lit ''ryotunes'') \<and>
      pkginfo_field pkginfo (lit ''pkgver'') = Some (lit ''1:'' @ requested @ lit ''-1'') \<and>
      pkginfo_field pkginfo (lit ''arch'') = Some (lit ''x86_64''))"

text \<open>An archive entry: its path by components, its text, and what unpacking it below the root answers.\<close>

record tar_entry =
  te_path :: "ustr list"
  te_text :: "ustr + ustr"
  te_unpack :: "ustr + bool"

definition cannot_unpack :: "ustr \<Rightarrow> ustr" where
  "cannot_unpack e = lit ''Could not unpack the package: '' @ e"

fun unpack_entries :: "ustr \<Rightarrow> (ustr + tar_entry) list \<Rightarrow> ustr + ustr" where
  "unpack_entries pkginfo [] = Inr pkginfo"
| "unpack_entries pkginfo (Inl e # es) = Inl (cannot_unpack e)"
| "unpack_entries pkginfo (Inr t # es) =
     (if te_path t = [lit ''.PKGINFO''] then
        (case te_text t of Inl e \<Rightarrow> Inl (cannot_unpack e) | Inr x \<Rightarrow> unpack_entries (pkginfo @ x) es)
      else if take 1 (te_path t) = [lit ''usr''] \<and> take 3 (te_path t) \<noteq> [lit ''usr'', lit ''lib'', lit ''systemd''] then
        (case te_unpack t of
           Inl e \<Rightarrow> Inl (cannot_unpack e)
         | Inr b \<Rightarrow> if b then unpack_entries pkginfo es
                    else Inl (lit ''The package contains a path outside its install root.''))
      else unpack_entries pkginfo es)"

definition wrong_identity :: ustr where
  "wrong_identity = lit ''Downloaded package identity does not match the selected Ryotunes release.''"

definition unpack :: "ustr + (ustr + tar_entry) list \<Rightarrow> ustr \<Rightarrow> ustr + unit" where
  "unpack archive requested =
     (case archive of Inl e \<Rightarrow> Inl (cannot_unpack e) | Inr es \<Rightarrow>
      case unpack_entries [] es of Inl e \<Rightarrow> Inl e | Inr pkginfo \<Rightarrow>
        if pkginfo_matches pkginfo requested then Inr () else Inl wrong_identity)"

text \<open>\<open>ldd\<close> over the unpacked binaries: each a name and what the tool wrote, or an error.\<close>

definition needs_newer_glibc :: "ustr \<Rightarrow> bool" where
  "needs_newer_glibc ldd =
     list_ex (\<lambda>l. contains (lit ''version '' @ [96] @ lit ''GLIBC_'') l \<and> contains (lit ''not found'') l) (str_lines ldd)"

fun refuse_unrunnable :: "(ustr \<times> (ustr + ustr \<times> ustr)) list \<Rightarrow> ustr + unit" where
  "refuse_unrunnable [] = Inr ()"
| "refuse_unrunnable ((_, Inl e) # es) = Inl e"
| "refuse_unrunnable ((name, Inr (out, errs)) # es) =
     (if needs_newer_glibc out \<or> needs_newer_glibc errs
      then Inl (lit ''This release needs a newer glibc than this system has ('' @ name @ lit ''). Nothing was installed.'')
      else refuse_unrunnable es)"

fun join_with :: "ustr \<Rightarrow> ustr list \<Rightarrow> ustr" where
  "join_with sep [] = []"
| "join_with sep [x] = x"
| "join_with sep (x # y # xs) = x @ sep @ join_with sep (y # xs)"

definition void_depends :: "ustr \<Rightarrow> ustr" where
  "void_depends text =
     join_with (lit '' '') (map (\<lambda>name. name @ lit ''>=0'')
       (filter (\<lambda>l. l \<noteq> [] \<and> \<not> starts_with (lit ''#'') l) (map trim (str_lines text))))"

section \<open>Installing\<close>

text \<open>The one effect that matters: a command run through \<open>pkexec\<close>, with the version and bytes it installs.\<close>

datatype privileged = Elevated manager ustr "u8 list"

record update_world =
  uw_busy :: bool
  uw_machine :: machine
  uw_release :: "ustr + release option"
  uw_installed :: "manager \<Rightarrow> ustr + ustr"
  uw_staging :: "ustr option"
  uw_checksum :: "ustr + (ustr + u8 list) list"
  uw_download :: download_world
  uw_identity :: "ustr + bool \<times> u8 list"
  uw_archive :: "u8 list \<Rightarrow> ustr + (ustr + tar_entry) list"
  uw_binaries :: "(ustr \<times> (ustr + ustr \<times> ustr)) list"
  uw_repository :: "ustr option"
  uw_tools :: "ustr option"
  uw_elevate :: "ustr + bool \<times> ustr \<times> ustr"

definition installed_package_version :: "update_world \<Rightarrow> manager \<Rightarrow> ustr + ustr option" where
  "installed_package_version w m =
     (case uw_installed w m of
        Inl e \<Rightarrow> Inl e
      | Inr text \<Rightarrow> Inr (case m of Pacman \<Rightarrow> package_version text | Xbps \<Rightarrow> xbps_version text))"

definition check_update :: "update_world \<Rightarrow> ustr \<Rightarrow> ustr + update_info \<times> manager option" where
  "check_update w current =
     (case uw_release w of
        Inl e \<Rightarrow> Inl e
      | Inr rel \<Rightarrow>
          let inst = installation (uw_machine w);
              info = release_info rel current (case inst of Inl e \<Rightarrow> Some e | Inr _ \<Rightarrow> None);
              m = (case inst of Inl _ \<Rightarrow> None | Inr m \<Rightarrow> Some m)
          in Inr (case m of
               Some m \<Rightarrow> if available info \<and> can_install info
                         then info\<lparr>restart_pending := ((case installed_package_version w m of Inr v \<Rightarrow> v | Inl _ \<Rightarrow> None) =
                                latest_version info)\<rparr>
                         else info
             | None \<Rightarrow> info, m))"

definition privileged_install :: "update_world \<Rightarrow> manager \<Rightarrow> ustr \<Rightarrow> u8 list \<Rightarrow> (ustr + unit) \<times> privileged list" where
  "privileged_install w m requested package =
     (case uw_elevate w of
        Inl e \<Rightarrow> (Inl (lit ''Could not start the administrator approval: '' @ e), [])
      | Inr (ok, status_text, detail) \<Rightarrow>
          (if ok then Inr ()
           else Inl (lit ''Update was cancelled or '' @ (case m of Pacman \<Rightarrow> lit ''pacman'' | Xbps \<Rightarrow> lit ''xbps'') @
             lit '' could not install the package ('' @ status_text @ lit ''). '' @ trim detail),
           [Elevated m requested package]))"

definition install_pacman :: "update_world \<Rightarrow> ustr \<Rightarrow> u8 list \<Rightarrow> (ustr + unit) \<times> privileged list" where
  "install_pacman w requested package =
     (case uw_identity w of
        Inl e \<Rightarrow> (Inl (lit ''Could not inspect the package: '' @ e), [])
      | Inr (ok, stdout) \<Rightarrow>
          if \<not> ok \<or> stdout \<noteq> utf8_encode (lit ''ryotunes 1:'' @ requested @ lit ''-1'' @ [10])
          then (Inl wrong_identity, [])
          else privileged_install w Pacman requested package)"

definition install_xbps :: "update_world \<Rightarrow> ustr \<Rightarrow> u8 list \<Rightarrow> (ustr + unit) \<times> privileged list" where
  "install_xbps w requested package =
     (case unpack (uw_archive w package) requested of Inl e \<Rightarrow> (Inl e, []) | Inr _ \<Rightarrow>
      case refuse_unrunnable (uw_binaries w) of Inl e \<Rightarrow> (Inl e, []) | Inr _ \<Rightarrow>
      case uw_repository w of Some e \<Rightarrow> (Inl (lit ''Could not stage update: '' @ e), []) | None \<Rightarrow>
      case uw_tools w of Some e \<Rightarrow> (Inl e, []) | None \<Rightarrow> privileged_install w Xbps requested package)"

definition restart_after :: "ustr \<Rightarrow> (ustr + unit) \<times> privileged list \<Rightarrow> (ustr + ustr) \<times> privileged list" where
  "restart_after v r = (case fst r of Inl e \<Rightarrow> Inl e | Inr _ \<Rightarrow> Inr v, snd r)"

definition install_update :: "(u8 list \<Rightarrow> ustr) \<Rightarrow> ustr \<Rightarrow> update_world \<Rightarrow> ustr \<Rightarrow> (ustr + ustr) \<times> privileged list" where
  "install_update sha256 current w requested =
     (if version requested = None then (Inl (lit ''Select a valid v1 release.''), [])
      else if uw_busy w then (Inl (lit ''An update is already in progress.''), [])
      else case check_update w current of Inl e \<Rightarrow> (Inl e, []) | Inr (info, m) \<Rightarrow>
      if latest_version info \<noteq> Some requested
      then (Inl (lit ''The latest release changed. Check for new versions again before updating.''), [])
      else if \<not> available info
      then (Inl (lit ''This version is already running, or a newer version is installed.''), [])
      else case (if can_install info then m else None) of
        None \<Rightarrow> (Inl (case unsupported_reason info of Some r \<Rightarrow> r
                 | None \<Rightarrow> lit ''Self update is not available for this installation.''), [])
      | Some m \<Rightarrow>
      case installed_package_version w m of Inl e \<Rightarrow> (Inl e, []) | Inr installed \<Rightarrow>
      if (case installed of Some v \<Rightarrow> version_less (version requested) (version v) | None \<Rightarrow> False)
      then (Inl (lit ''A newer package is already installed. Quit Ryotunes and open it again.''), [])
      else if installed = Some requested then (Inr requested, [])
      else case uw_staging w of Some e \<Rightarrow> (Inl (lit ''Could not create private update staging: '' @ e), []) | None \<Rightarrow>
      case (case uw_checksum w of Inl e \<Rightarrow> Inl e | Inr cs \<Rightarrow> bounded_body 4096 [] cs) of Inl e \<Rightarrow> (Inl e, []) | Inr body \<Rightarrow>
      case checksum body (package_name requested) of Inl e \<Rightarrow> (Inl e, []) | Inr expected \<Rightarrow>
      case download sha256 (uw_download w) expected of Inl e \<Rightarrow> (Inl e, []) | Inr package \<Rightarrow>
      restart_after requested (case m of Pacman \<Rightarrow> install_pacman w requested package
                                | Xbps \<Rightarrow> install_xbps w requested package))"

section \<open>Versions are canonical\<close>

lemma digits_value_bound: "list_all is_ascii_digit s \<Longrightarrow> digits_value s < 10 ^ length s"
proof (induction s rule: rev_induct)
  case (snoc c s)
  have "c - 48 \<le> 9" using snoc.prems by (auto simp: is_ascii_digit_def)
  with snoc show ?case by simp
qed (simp add: digits_value_def)

text \<open>A number written without a needless zero is the one \<open>dec\<close> writes.\<close>

lemma dec_digits_value:
  assumes "list_all is_ascii_digit s" "s \<noteq> []" "length s = 1 \<or> hd s \<noteq> 48"
  shows "dec (digits_value s) = s"
  using assms
proof (induction s rule: rev_induct)
  case (snoc c s)
  have c: "48 \<le> c" "c \<le> 57" using snoc.prems by (auto simp: is_ascii_digit_def)
  show ?case
  proof (cases "s = []")
    case True
    with c show ?thesis by (subst dec.simps) (simp add: digits_value_def)
  next
    case False
    then have hd: "hd s \<noteq> 48" using snoc.prems(3) by simp
    then have ih: "dec (digits_value s) = s" using snoc False by simp
    have "digits_value s \<noteq> 0"
    proof
      assume "digits_value s = 0"
      with ih have "s = dec 0" by simp
      then have "s = [48]" by (simp add: dec.simps)
      with hd show False by simp
    qed
    then have "\<not> digits_value (s @ [c]) < 10" by simp
    moreover have "(10 * v + k) div 10 = v" "(10 * v + k) mod 10 = k" if "k < 10" for v k :: nat
      using that by simp_all
    from this [of "c - 48"] c have "digits_value (s @ [c]) div 10 = digits_value s" "digits_value (s @ [c]) mod 10 = c - 48"
      unfolding digits_value_snoc by auto
    ultimately show ?thesis using ih c by (subst dec.simps) (simp del: digits_value_snoc)
  qed
qed simp

lemma dec_canonical: "length (dec n) = 1 \<or> hd (dec n) \<noteq> 48"
proof (induction n rule: dec.induct)
  case (1 n)
  show ?case
  proof (cases "n < 10")
    case False
    then have d: "dec n = dec (n div 10) @ [48 + n mod 10]" by (subst dec.simps) simp
    show ?thesis
    proof (cases "n div 10 < 10")
      case True
      with False have "hd (dec (n div 10)) \<noteq> 48" by (subst dec.simps) simp
      with d show ?thesis by simp
    next
      case no: False
      have "dec (n div 10) = dec (n div 10 div 10) @ [48 + n div 10 mod 10]" using no by (subst dec.simps) simp
      then have "length (dec (n div 10)) \<noteq> 1" by simp
      with 1 False d show ?thesis by simp
    qed
  qed (subst dec.simps, simp)
qed

lemma dec_small: "n < 10 \<Longrightarrow> dec n = [48 + n]"
  by (subst dec.simps) simp

lemma byte_len_digits: "list_all is_ascii_digit s \<Longrightarrow> byte_len s = length s"
  by (induction s) (auto simp: is_ascii_digit_def utf8_width_def)

lemma dots_in_digits: "list_all is_ascii_digit s \<Longrightarrow> 46 \<notin> set s"
  by (auto simp: list_all_iff is_ascii_digit_def)

lemma split_on_join: "split_on d s = [a] \<Longrightarrow> s = a"
  "split_on d s = x # y # xs \<Longrightarrow> \<exists>t. s = x @ d # t \<and> split_on d t = y # xs"
proof -
  show "split_on d s = [a] \<Longrightarrow> s = a"
    by (induction s arbitrary: a) (auto split: if_splits list.splits)
  show "split_on d s = x # y # xs \<Longrightarrow> \<exists>t. s = x @ d # t \<and> split_on d t = y # xs"
  proof (induction s arbitrary: x)
    case (Cons c s)
    show ?case
    proof (cases "c = d")
      case False
      with Cons.prems obtain w where w: "split_on d s = w # y # xs" "x = c # w" by (auto split: list.splits)
      from Cons.IH [OF w(1)] w(2) show ?thesis by auto
    qed (use Cons.prems in auto)
  qed simp
qed

lemma version_iff:
  "version s = Some v \<longleftrightarrow> (\<exists>m p. v = (1, m, p) \<and> m < 2 ^ 64 \<and> p < 10 \<and>
     s = lit ''1'' @ [46] @ dec m @ [46] @ dec p)"
proof
  assume v: "version s = Some v"
  then obtain a b c where abc: "split_on 46 s = [a, b, c]"
    by (auto simp: version_def split: list.splits)
  from v abc have ok: "a = lit ''1''" "\<not> (1 < byte_len b \<and> starts_with (lit ''0'') b)" "list_all is_ascii_digit b"
    "byte_len c = 1" "list_all is_ascii_digit c" and m: "map_option (\<lambda>m. (1, m, hd c - 48)) (parse_u64 b) = Some v"
    by (auto simp: version_def split: if_splits)
  from m obtain n where n: "parse_u64 b = Some n" "v = (1, n, hd c - 48)" by blast
  have "hd b \<noteq> 43" if "b \<noteq> []" using that ok(3) by (cases b) (auto simp: is_ascii_digit_def)
  then have b: "b \<noteq> []" "n = digits_value b" "n < 2 ^ 64"
    using n(1) by (auto simp: parse_u64_def parse_unsigned_def Let_def split: list.splits if_splits)
  have "length b = 1 \<or> hd b \<noteq> 48"
    using ok(2) b(1) byte_len_digits [OF ok(3)] by (cases b) (auto simp: starts_with_def lit_Cons)
  then have "dec n = b" using dec_digits_value [OF ok(3) b(1)] b(2) by simp
  moreover obtain x where x: "c = [x]" "48 \<le> x" "x \<le> 57"
    using ok(4,5) byte_len_digits [OF ok(5)] by (cases c) (auto simp: is_ascii_digit_def)
  moreover have "s = a @ 46 # b @ 46 # c"
    using split_on_join(2) [OF abc] split_on_join by blast
  ultimately show "\<exists>m p. v = (1, m, p) \<and> m < 2 ^ 64 \<and> p < 10 \<and> s = lit ''1'' @ [46] @ dec m @ [46] @ dec p"
    using n(2) b(3) ok(1) by (intro exI [of _ n] exI [of _ "x - 48"]) (simp add: dec_small)
next
  assume "\<exists>m p. v = (1, m, p) \<and> m < 2 ^ 64 \<and> p < 10 \<and> s = lit ''1'' @ [46] @ dec m @ [46] @ dec p"
  then obtain m p where v: "v = (1, m, p)" "m < 2 ^ 64" "p < 10"
    and s: "s = lit ''1'' @ 46 # dec m @ 46 # dec p" by auto
  note dm = dots_in_digits [OF dec_digits [of m]] and dp = dots_in_digits [OF dec_digits [of p]]
  have "46 \<notin> set (lit ''1'')" by (simp add: lit_Cons)
  then have "split_on 46 s = [lit ''1'', dec m, dec p]"
    by (simp add: s split_on_append split_on_no_sep dm dp)
  moreover have "\<not> (1 < byte_len (dec m) \<and> starts_with (lit ''0'') (dec m))"
    using dec_canonical [of m] byte_len_digits [OF dec_digits [of m]] dec_ne [of m]
    by (cases "dec m") (auto simp: starts_with_def lit_Cons)
  ultimately show "version s = Some v"
    using v dec_digits [of m] parse_dec [OF v(2)]
    by (simp add: version_def dec_small is_ascii_digit_def utf8_width_def parse_u64_def)
qed

text \<open>A version is accepted exactly when it is \<open>1.m.p\<close> with \<open>m\<close> a 64-bit number and \<open>p\<close> one digit, both
  written the canonical way: reading inverts writing, two texts never name one version, and nothing else (a path,
  a leading zero, a pre-release) gets into a package name.\<close>

theorem version_is_canonical:
  "version s = Some v \<longleftrightarrow> (\<exists>m p. v = (1, m, p) \<and> m < 2 ^ 64 \<and> p < 10 \<and>
     s = lit ''1'' @ [46] @ dec m @ [46] @ dec p)"
  by (rule version_iff)

section \<open>Nothing unverified is installed\<close>

lemma download_chunks_size:
  "download_chunks got cs = Inr r \<Longrightarrow> length got \<le> MAX_PACKAGE \<Longrightarrow> length r \<le> MAX_PACKAGE"
  by (induction got cs rule: download_chunks.induct) (auto split: if_splits option.splits)

lemma download_ok:
  assumes "download sha256 w expected = Inr file"
  shows "file \<noteq> []" "sha256 file = expected" "length file \<le> MAX_PACKAGE"
proof -
  from assms have "download_chunks [] (dw_chunks w) = Inr file \<and> file \<noteq> [] \<and> sha256 file = expected"
    by (auto simp: download_def split: option.splits sum.splits if_splits)
  then show "file \<noteq> []" "sha256 file = expected" "length file \<le> MAX_PACKAGE"
    by (auto dest!: download_chunks_size)
qed

lemma checksum_ok:
  "checksum bytes name = Inr h \<Longrightarrow> \<exists>t hash. utf8_decode bytes = Some t \<and> split_whitespace t = [hash, name] \<and>
     byte_len hash = 64 \<and> h = to_ascii_lowercase hash"
  by (auto simp: checksum_def split: option.splits list.splits if_splits)

lemma release_info_ok:
  assumes "latest_version (release_info rel current reason) = Some v" "available (release_info rel current reason)"
  shows "\<exists>r. rel = Some r \<and> tag_name r = lit ''v'' @ v \<and> \<not> draft r \<and> \<not> prerelease r \<and>
    (version current = None \<or> version_less (version current) (version v))"
  using assms by (auto simp: release_info_def Let_def strip_prefix_Some split: option.splits if_splits)

definition identified :: "update_world \<Rightarrow> manager \<Rightarrow> ustr \<Rightarrow> u8 list \<Rightarrow> bool" where
  "identified w m v package =
     (case m of
        Pacman \<Rightarrow> uw_identity w = Inr (True, utf8_encode (lit ''ryotunes 1:'' @ v @ lit ''-1'' @ [10]))
      | Xbps \<Rightarrow> (case uw_archive w package of
            Inr es \<Rightarrow> (case unpack_entries [] es of Inr info \<Rightarrow> pkginfo_matches info v | Inl _ \<Rightarrow> False)
          | Inl _ \<Rightarrow> False) \<and> refuse_unrunnable (uw_binaries w) = Inr ())"

lemma privileged_install_effects: "x \<in> set (snd (privileged_install w m v package)) \<Longrightarrow> x = Elevated m v package"
  "length (snd (privileged_install w m v package)) \<le> 1"
  by (auto simp: privileged_install_def split: sum.splits)

lemma install_pacman_effects:
  assumes "x \<in> set (snd (install_pacman w v package))"
  shows "x = Elevated Pacman v package" "identified w Pacman v package"
  using assms privileged_install_effects(1)
  by (auto simp: install_pacman_def identified_def split: sum.splits prod.splits if_splits)

lemma install_xbps_effects:
  assumes "x \<in> set (snd (install_xbps w v package))"
  shows "x = Elevated Xbps v package" "identified w Xbps v package"
  using assms privileged_install_effects(1)
  by (auto simp: install_xbps_def unpack_def identified_def split: sum.splits option.splits if_splits)

lemma restart_after_effects [simp]: "snd (restart_after v r) = snd r"
  by (simp add: restart_after_def)

text \<open>Every test an update passes before its command, in order.\<close>

lemma install_update_inv:
  assumes "x \<in> set (snd (install_update sha256 current w requested))"
  obtains info m cs body expected package where "version requested \<noteq> None"
    "check_update w current = Inr (info, Some m)" "latest_version info = Some requested" "available info"
    "uw_checksum w = Inr cs" "bounded_body 4096 [] cs = Inr body"
    "checksum body (package_name requested) = Inr expected" "download sha256 (uw_download w) expected = Inr package"
    "\<not> (\<exists>v. installed_package_version w m = Inr (Some v) \<and> (v = requested \<or> version_less (version requested) (version v)))"
    "x \<in> set (snd (case m of Pacman \<Rightarrow> install_pacman w requested package | Xbps \<Rightarrow> install_xbps w requested package))"
proof -
  note d = assms [unfolded install_update_def]
  have v: "version requested \<noteq> None" "\<not> uw_busy w" using d by (auto split: if_splits)
  obtain info m0 where c: "check_update w current = Inr (info, m0)"
    using d v by (cases "check_update w current") auto
  have a: "latest_version info = Some requested" "available info"
    using d v c by (auto split: if_splits)
  obtain m where m: "m0 = Some m" "can_install info"
    using d v c a by (auto split: if_splits option.splits)
  obtain installed where i: "installed_package_version w m = Inr installed"
    using d v c a m by (cases "installed_package_version w m") auto
  have old: "\<not> (case installed of Some v \<Rightarrow> version_less (version requested) (version v) | None \<Rightarrow> False)"
    "installed \<noteq> Some requested" using d v c a m i by (auto split: if_splits)
  have st: "uw_staging w = None" using d v c a m i old by (cases "uw_staging w") auto
  obtain cs where cs: "uw_checksum w = Inr cs" using d v c a m i old st by (cases "uw_checksum w") auto
  obtain body where body: "bounded_body 4096 [] cs = Inr body"
    using d v c a m i old st cs by (cases "bounded_body 4096 [] cs") auto
  obtain expected where e: "checksum body (package_name requested) = Inr expected"
    using d v c a m i old st cs body by (cases "checksum body (package_name requested)") auto
  obtain package where p: "download sha256 (uw_download w) expected = Inr package"
    using d v c a m i old st cs body e by (cases "download sha256 (uw_download w) expected") auto
  have "x \<in> set (snd (case m of Pacman \<Rightarrow> install_pacman w requested package | Xbps \<Rightarrow> install_xbps w requested package))"
    using d v c a m i old st cs body e p by auto
  moreover have "\<not> (\<exists>v. installed_package_version w m = Inr (Some v) \<and>
      (v = requested \<or> version_less (version requested) (version v)))"
    using old i by (auto split: option.splits)
  ultimately show ?thesis using that v(1) c a m(1) cs body e p by blast
qed


section \<open>An update that installs\<close>

definition sample_machine :: machine where
  "sample_machine = \<lparr>mc_linux_x86_64 = True, mc_has_file = (\<lambda>_. True), mc_current_exe = Inr (lit ''/usr/bin/ryotunesd''),
     mc_owner_of = (\<lambda>_ _. Some (utf8_encode (lit ''ryotunes'' @ [10])))\<rparr>"

definition sample_update :: update_world where
  "sample_update = \<lparr>uw_busy = False, uw_machine = sample_machine,
     uw_release = Inr (Some \<lparr>tag_name = lit ''v1.2.0'', draft = False, prerelease = False, release_body = None,
       assets = [(package_name (lit ''1.2.0''), 7), (package_name (lit ''1.2.0'') @ lit ''.sha256'', 9)]\<rparr>),
     uw_installed = (\<lambda>_. Inr (lit ''ryotunes 1:1.1.0-1'')), uw_staging = None,
     uw_checksum = Inr [Inr (utf8_encode (replicate 64 97 @ [32] @ package_name (lit ''1.2.0'')))],
     uw_download = \<lparr>dw_response = None, dw_length = None, dw_create = None, dw_chunks = [(Inr [1, 2], None)],
       dw_sync = None\<rparr>,
     uw_identity = Inr (True, utf8_encode (lit ''ryotunes 1:1.2.0-1'' @ [10])), uw_archive = (\<lambda>_. Inl []),
     uw_binaries = [], uw_repository = None, uw_tools = None, uw_elevate = Inr (True, [], [])\<rparr>"

lemma sample_versions:
  "version (lit ''1.1.0'') = Some (1, 1, 0)" "version (lit ''1.2.0'') = Some (1, 2, 0)"
  by (simp_all add: version_iff dec_small lit_Cons)

lemma split_ws_word: "list_all (\<lambda>c. \<not> is_whitespace c) s \<Longrightarrow> split_ws w (s @ t) = split_ws (rev s @ w) t"
  by (induction s arbitrary: w) simp_all

lemma sample_package_name: "list_all (\<lambda>c. \<not> is_whitespace c) (package_name (lit ''1.2.0''))" "package_name (lit ''1.2.0'') \<noteq> []"
  by (simp_all add: package_name_def lit_Cons is_whitespace_def)

lemma sample_checksum:
  "checksum (utf8_encode (replicate 64 97 @ [32] @ package_name (lit ''1.2.0''))) (package_name (lit ''1.2.0'')) =
    Inr (replicate 64 97)"
proof -
  have "list_all is_scalar (replicate 64 97 @ [32] @ package_name (lit ''1.2.0''))"
    by (simp add: package_name_def lit_Cons is_scalar_def list_all_iff)
  then have d: "utf8_decode (utf8_encode (replicate 64 97 @ [32] @ package_name (lit ''1.2.0''))) =
      Some (replicate 64 97 @ [32] @ package_name (lit ''1.2.0''))" by (rule utf8_decode_encode)
  have a: "list_all (\<lambda>c. \<not> is_whitespace c) (replicate 64 97)" by (simp add: list_all_iff is_whitespace_def)
  have "split_whitespace (replicate 64 97 @ [32] @ package_name (lit ''1.2.0'')) =
      [replicate 64 97, package_name (lit ''1.2.0'')]"
    using split_ws_word [OF a, of "[]"] split_ws_word [OF sample_package_name(1), of "[]" "[]"] sample_package_name(2)
    by (simp add: split_whitespace_def is_whitespace_def)
  moreover have "byte_len (replicate 64 97) = 64" by (simp add: byte_len_def sum_list_replicate utf8_width_def)
  ultimately show ?thesis
    unfolding checksum_def d by (simp add: list_all_iff is_ascii_hexdigit_def to_ascii_lowercase_def)
qed

lemma sample_update_runs:
  "snd (install_update (\<lambda>_. replicate 64 97) (lit ''1.1.0'') sample_update (lit ''1.2.0'')) =
    [Elevated Pacman (lit ''1.2.0'') [1, 2]]"
proof -
  have inst: "installation (uw_machine sample_update) = Inr Pacman"
    by (simp add: sample_update_def sample_machine_def installation_def owns_def)
  have old: "installed_package_version sample_update Pacman = Inr (Some (lit ''1.1.0''))"
    by (simp add: installed_package_version_def sample_update_def package_version_def trim_def trim_matches_def
        trim_end_matches_def trim_start_matches_def is_whitespace_def strip_prefix_def rsplit_once_def lit_Cons)
  have strip: "strip_prefix (lit ''v'') (lit ''v1.2.0'') = Some (lit ''1.2.0'')"
    by (simp add: strip_prefix_def lit_Cons)
  let ?name = "package_name (lit ''1.2.0'')"
  define info where "info = \<lparr>current_version = lit ''1.1.0'', latest_version = Some (lit ''1.2.0''), available = True,
    release_url = REPOSITORY @ lit ''/releases/tag/v'' @ lit ''1.2.0'', release_notes = [], can_install = True,
    unsupported_reason = None, restart_pending = False\<rparr>"
  have "release_info (Some \<lparr>tag_name = lit ''v1.2.0'', draft = False, prerelease = False, release_body = None,
       assets = [(?name, 7), (?name @ lit ''.sha256'', 9)]\<rparr>) (lit ''1.1.0'') None = info"
    by (simp add: release_info_def strip sample_versions info_def MAX_PACKAGE_def Let_def)
  moreover have ne: "lit ''1.1.0'' \<noteq> lit ''1.2.0''" by (simp add: lit_Cons)
  ultimately have c: "check_update sample_update (lit ''1.1.0'') = Inr (info, Some Pacman)"
    using inst old by (simp add: check_update_def sample_update_def info_def Let_def)
  have fields: "uw_busy sample_update = False" "uw_staging sample_update = None"
    "uw_checksum sample_update = Inr [Inr (utf8_encode (replicate 64 97 @ [32] @ ?name))]"
    "download (\<lambda>_. replicate 64 97) (uw_download sample_update) (replicate 64 97) = Inr [1, 2]"
    by (simp_all add: sample_update_def download_def MAX_PACKAGE_def)
  have ident: "lit ''ryotunes 1:1.2.0-1'' @ [10] = lit ''ryotunes 1:'' @ lit ''1.2.0'' @ lit ''-1'' @ [10]"
    by (simp add: lit_Cons)
  have pac: "install_pacman sample_update (lit ''1.2.0'') [1, 2] = (Inr (), [Elevated Pacman (lit ''1.2.0'') [1, 2]])"
    by (simp add: install_pacman_def privileged_install_def sample_update_def ident del: append.simps)
  have len: "length (utf8_encode (replicate 64 97 @ [32] @ ?name)) \<le> 4096"
    by (subst length_utf8_encode) (simp_all add: package_name_def lit_Cons is_scalar_def list_all_iff byte_len_def
        sum_list_replicate utf8_width_def)
  show ?thesis
    unfolding install_update_def
    by (simp add: sample_versions fields c old info_def sample_checksum pac len ne not_less
        del: append_Cons)
qed


end
