(* ===== verification/Scrobbling.thy ===== *)
theory Scrobbling
  imports Track_Ids
begin

text \<open>
  Last.fm (crates/core/src/lastfm.rs): the scrobbler task with the calls it makes, their signature, and the
  connect flow, whose polls run beside disconnects and newer connects. Positions and lengths are rationals; MD5,
  the API key and secret and Last.fm's answers are parameters.
\<close>

section \<open>The scrobbler\<close>

record lf_track =
  lf_title :: ustr
  lf_artists :: ustr
  lf_album :: "ustr option"

datatype lf_message = LfTrack lf_track | LfDuration rat | LfPosition rat | LfSession "ustr option"

type_synonym params = "(ustr \<times> ustr) list"

text \<open>The task's state, and the calls it has made (method and parameters).\<close>

record scrobbler =
  lf_session :: "ustr option"
  lf_current :: "lf_track option"
  lf_started_at :: nat
  lf_duration :: rat
  lf_scrobbled :: bool
  lf_calls :: "(ustr \<times> params) list"

definition scrobbler_new :: "ustr option \<Rightarrow> scrobbler" where
  "scrobbler_new session = \<lparr>lf_session = session, lf_current = None, lf_started_at = 0, lf_duration = 0,
     lf_scrobbled = False, lf_calls = []\<rparr>"

definition UNKNOWN_ARTIST :: ustr where "UNKNOWN_ARTIST = lit ''Unknown artist''"

definition scrobbleable :: "lf_track \<Rightarrow> bool" where
  "scrobbleable t = (trim (lf_title t) \<noteq> [] \<and> trim (lf_artists t) \<noteq> [] \<and> lf_artists t \<noteq> UNKNOWN_ARTIST)"

definition crosses_threshold :: "rat \<Rightarrow> rat \<Rightarrow> bool" where
  "crosses_threshold pos duration =
     (if 0 < duration \<and> duration < 30 then False
      else (if 0 < duration then min (duration / 2) 240 else 240) \<le> pos)"

definition lf_call :: "string \<Rightarrow> params \<Rightarrow> scrobbler \<Rightarrow> scrobbler" where
  "lf_call name ps s = s\<lparr>lf_calls := lf_calls s @ [(lit name, ps)]\<rparr>"

definition album_param :: "lf_track \<Rightarrow> params" where
  "album_param t = (case lf_album t of
       Some a \<Rightarrow> if a = [] then [] else [(lit ''album'', a)] | None \<Rightarrow> [])"

definition now_playing :: "scrobbler \<Rightarrow> scrobbler" where
  "now_playing s =
     (case (lf_session s, lf_current s) of
        (Some sk, Some t) \<Rightarrow>
          if \<not> scrobbleable t then s
          else lf_call ''track.updateNowPlaying''
            ([(lit ''artist'', lf_artists t), (lit ''track'', lf_title t), (lit ''sk'', sk)] @ album_param t) s
      | _ \<Rightarrow> s)"

definition as_seconds :: "rat \<Rightarrow> ustr" where
  "as_seconds q = dec (nat (min (2 ^ 63 - 1) \<lfloor>q\<rfloor>))"

definition scrobble_params :: "ustr \<Rightarrow> lf_track \<Rightarrow> nat \<Rightarrow> rat \<Rightarrow> params" where
  "scrobble_params sk t started duration =
     [(lit ''artist'', lf_artists t), (lit ''track'', lf_title t), (lit ''timestamp'', dec started), (lit ''sk'', sk)] @
     album_param t @ (if 0 < duration then [(lit ''duration'', as_seconds duration)] else [])"

definition scrobble :: "scrobbler \<Rightarrow> scrobbler" where
  "scrobble s =
     (case (lf_session s, lf_current s) of
        (Some sk, Some t) \<Rightarrow>
          if \<not> scrobbleable t then s
          else lf_call ''track.scrobble'' (scrobble_params sk t (lf_started_at s) (lf_duration s)) s
      | _ \<Rightarrow> s)"

fun lf_apply :: "nat \<Rightarrow> lf_message \<Rightarrow> scrobbler \<Rightarrow> scrobbler" where
  "lf_apply now (LfTrack t) s =
     now_playing (s\<lparr>lf_current := Some t, lf_started_at := now, lf_duration := 0, lf_scrobbled := False\<rparr>)"
| "lf_apply now (LfDuration secs) s = s\<lparr>lf_duration := secs\<rparr>"
| "lf_apply now (LfPosition pos) s =
     (if \<not> lf_scrobbled s \<and> crosses_threshold pos (lf_duration s)
      then scrobble (s\<lparr>lf_scrobbled := True\<rparr>) else s)"
| "lf_apply now (LfSession key) s = s\<lparr>lf_session := key\<rparr>"

definition lf_run :: "scrobbler \<Rightarrow> (nat \<times> lf_message) list \<Rightarrow> scrobbler" where
  "lf_run s ms = foldl (\<lambda>s (now, m). lf_apply now m s) s ms"

section \<open>Signed calls\<close>

text \<open>Sorting by name keeps the order of equal names; byte order is order of code points.\<close>

fun text_less :: "ustr \<Rightarrow> ustr \<Rightarrow> bool" where
  "text_less _ [] = False"
| "text_less [] (_ # _) = True"
| "text_less (a # s) (b # t) = (a < b \<or> a = b \<and> text_less s t)"

fun insert_param :: "ustr \<times> ustr \<Rightarrow> params \<Rightarrow> params" where
  "insert_param p [] = [p]"
| "insert_param p (q # qs) = (if text_less (fst q) (fst p) then q # insert_param p qs else p # q # qs)"

definition sort_params :: "params \<Rightarrow> params" where
  "sort_params ps = foldr insert_param ps []"

definition sign :: "(ustr \<Rightarrow> ustr) \<Rightarrow> ustr \<Rightarrow> params \<Rightarrow> ustr" where
  "sign md5 secret ps = md5 (concat (map (\<lambda>(k, v). k @ v) (sort_params ps)) @ secret)"

definition signed_params :: "(ustr \<Rightarrow> ustr) \<Rightarrow> ustr \<Rightarrow> ustr \<Rightarrow> ustr \<Rightarrow> params \<Rightarrow> params" where
  "signed_params md5 key secret name ps =
     (let ps = ps @ [(lit ''api_key'', key), (lit ''method'', name)];
          ps = ps @ [(lit ''api_sig'', sign md5 secret ps)]
      in ps @ [(lit ''format'', lit ''json'')])"

section \<open>Connecting\<close>

definition AUTH_POLL_TRIES :: nat where "AUTH_POLL_TRIES = 60"

text \<open>Last.fm's answer to a poll: the session (name and key, when both are there), an error that is worth another
  poll (not approved yet, unavailable, no answer), or another error.\<close>

datatype poll_answer = Session "(ustr \<times> ustr) option" | Retryable | Refused ustr

text \<open>A poll task waits five seconds, tests the generation, then waits for an answer.\<close>

datatype poll_phase = Sleeping | Asking | Over

record poll =
  pl_gen :: nat
  pl_tries :: nat
  pl_phase :: poll_phase

record lf_account =
  ac_gen :: nat
  ac_key :: ustr
  ac_user :: ustr
  ac_sessions :: "ustr option list"
  ac_polls :: "poll list"
  ac_shown :: "(bool \<times> ustr option \<times> ustr option) list"

text \<open>A connect takes a new generation, then asks for a token and opens the browser; when that has worked it starts its
  poll, by then perhaps an old one.\<close>

definition lf_connect :: "lf_account \<Rightarrow> lf_account" where
  "lf_connect a = a\<lparr>ac_gen := ac_gen a + 1\<rparr>"

definition lf_spawn :: "nat \<Rightarrow> lf_account \<Rightarrow> lf_account" where
  "lf_spawn gen a = a\<lparr>ac_polls := ac_polls a @ [\<lparr>pl_gen = gen, pl_tries = 0, pl_phase = Sleeping\<rparr>]\<rparr>"

definition lf_show :: "bool \<Rightarrow> ustr option \<Rightarrow> ustr option \<Rightarrow> lf_account \<Rightarrow> lf_account" where
  "lf_show on name e a = a\<lparr>ac_shown := ac_shown a @ [(on, name, e)]\<rparr>"

definition lf_disconnect :: "lf_account \<Rightarrow> lf_account" where
  "lf_disconnect a = lf_show False None None (a\<lparr>ac_gen := ac_gen a + 1, ac_key := [], ac_user := [],
     ac_sessions := ac_sessions a @ [None]\<rparr>)"

definition lf_connected :: "lf_account \<Rightarrow> bool" where
  "lf_connected a = (ac_key a \<noteq> [])"

text \<open>A turn of a poll task: after the sleep, and with the answer.\<close>

definition poll_wakes :: "poll \<times> lf_account \<Rightarrow> poll \<times> lf_account" where
  "poll_wakes pa =
     (let (p, a) = pa in if ac_gen a \<noteq> pl_gen p then (p\<lparr>pl_phase := Over\<rparr>, a) else (p\<lparr>pl_phase := Asking\<rparr>, a))"

definition poll_answered :: "poll_answer \<Rightarrow> poll \<times> lf_account \<Rightarrow> poll \<times> lf_account" where
  "poll_answered ans pa =
     (let (p, a) = pa
      in case ans of
           Session None \<Rightarrow> (p\<lparr>pl_phase := Over\<rparr>, lf_show False None (Some (lit ''Last.fm sent a malformed session'')) a)
         | Session (Some (name, key)) \<Rightarrow> (p\<lparr>pl_phase := Over\<rparr>,
             lf_show True (Some name) None (a\<lparr>ac_key := key, ac_user := name, ac_sessions := ac_sessions a @ [Some key]\<rparr>))
         | Refused e \<Rightarrow> (p\<lparr>pl_phase := Over\<rparr>, lf_show False None (Some (lit ''Last.fm: '' @ e)) a)
         | Retryable \<Rightarrow>
             let p = p\<lparr>pl_tries := pl_tries p + 1\<rparr>
             in if pl_tries p < AUTH_POLL_TRIES then (p\<lparr>pl_phase := Sleeping\<rparr>, a)
                else (p\<lparr>pl_phase := Over\<rparr>, lf_show False None
                  (Some (lit ''Last.fm authorization timed out '' @ [8212] @ lit '' try again'')) a))"

definition on_poll :: "nat \<Rightarrow> (poll \<times> lf_account \<Rightarrow> poll \<times> lf_account) \<Rightarrow> lf_account \<Rightarrow> lf_account" where
  "on_poll k f a = (let (p, b) = f (ac_polls a ! k, a) in b\<lparr>ac_polls := (ac_polls a)[k := p]\<rparr>)"

inductive poll_step :: "lf_account \<Rightarrow> lf_account \<Rightarrow> bool" where
  poll_wake: "k < length (ac_polls a) \<Longrightarrow> pl_phase (ac_polls a ! k) = Sleeping \<Longrightarrow> poll_step a (on_poll k poll_wakes a)"
| poll_answer: "k < length (ac_polls a) \<Longrightarrow> pl_phase (ac_polls a ! k) = Asking \<Longrightarrow>
    poll_step a (on_poll k (poll_answered ans) a)"

inductive lf_step :: "lf_account \<Rightarrow> lf_account \<Rightarrow> bool" where
  lf_polls: "poll_step a b \<Longrightarrow> lf_step a b"
| lf_connects: "lf_step a (lf_connect a)"
| lf_spawns: "gen \<le> ac_gen a \<Longrightarrow> lf_step a (lf_spawn gen a)"
| lf_disconnects: "lf_step a (lf_disconnect a)"

definition lf_init :: "lf_account \<Rightarrow> bool" where
  "lf_init a \<longleftrightarrow> ac_gen a = 0 \<and> ac_polls a = []"

section \<open>One scrobble per track\<close>

definition scrobbles :: "scrobbler \<Rightarrow> params list" where
  "scrobbles s = map snd (filter (\<lambda>(m, _). m = lit ''track.scrobble'') (lf_calls s))"

lemma scrobbles_call [simp]: "scrobbles (lf_call name ps s) =
    (if lit name = lit ''track.scrobble'' then scrobbles s @ [ps] else scrobbles s)"
  by (simp add: scrobbles_def lf_call_def)

lemma scrobbles_upd [simp]: "scrobbles (s\<lparr>lf_scrobbled := b\<rparr>) = scrobbles s"
    "scrobbles (s\<lparr>lf_duration := d\<rparr>) = scrobbles s" "scrobbles (s\<lparr>lf_session := k\<rparr>) = scrobbles s"
    "scrobbles (s\<lparr>lf_current := c, lf_started_at := n, lf_duration := d, lf_scrobbled := b\<rparr>) = scrobbles s"
  by (simp_all add: scrobbles_def)

lemma lit_names: "lit ''track.updateNowPlaying'' \<noteq> lit ''track.scrobble''"
  by (simp add: lit_Cons)

lemma scrobbles_now_playing [simp]: "scrobbles (now_playing s) = scrobbles s"
  by (simp add: now_playing_def lit_names split: option.split)

text \<open>The messages of one track with one session, and the length known at the first position over the threshold.\<close>

fun same_track :: "nat \<times> lf_message \<Rightarrow> bool" where
  "same_track (_, LfTrack _) = False"
| "same_track (_, LfSession _) = False"
| "same_track _ = True"

fun length_at_crossing :: "rat \<Rightarrow> (nat \<times> lf_message) list \<Rightarrow> rat option" where
  "length_at_crossing d [] = None"
| "length_at_crossing d ((_, LfDuration secs) # ms) = length_at_crossing secs ms"
| "length_at_crossing d ((_, LfPosition pos) # ms) =
     (if crosses_threshold pos d then Some d else length_at_crossing d ms)"
| "length_at_crossing d (_ # ms) = length_at_crossing d ms"

lemma lf_run_simps [simp]: "lf_run s [] = s" "lf_run s ((now, m) # ms) = lf_run (lf_apply now m s) ms"
  by (simp_all add: lf_run_def)

lemma scrobbled_is_over:
  "lf_scrobbled s \<Longrightarrow> list_all same_track ms \<Longrightarrow> scrobbles (lf_run s ms) = scrobbles s"
proof (induction ms arbitrary: s)
  case (Cons x ms)
  obtain now m where x: "x = (now, m)" by (cases x) auto
  with Cons show ?case by (cases m) auto
qed simp

lemma scrobble_fields: "lf_session (scrobble s) = lf_session s" "lf_scrobbled (scrobble s) = lf_scrobbled s"
  by (simp_all add: scrobble_def lf_call_def split: option.split)

lemma one_scrobble:
  assumes "list_all same_track ms" "\<not> lf_scrobbled s" "lf_session s = Some sk" "lf_current s = Some t" "scrobbleable t"
  shows "scrobbles (lf_run s ms) = scrobbles s @
    (case length_at_crossing (lf_duration s) ms of Some d \<Rightarrow> [scrobble_params sk t (lf_started_at s) d] | None \<Rightarrow> [])"
  using assms
proof (induction ms arbitrary: s)
  case (Cons x ms)
  obtain now m where x: "x = (now, m)" by (cases x) auto
  show ?case
  proof (cases m)
    case (LfDuration secs)
    with Cons.IH [of "s\<lparr>lf_duration := secs\<rparr>"] Cons.prems x show ?thesis by (simp cong: option.case_cong)
  next
    case (LfPosition pos)
    show ?thesis
    proof (cases "crosses_threshold pos (lf_duration s)")
      case True
      have "scrobbles (lf_run (scrobble (s\<lparr>lf_scrobbled := True\<rparr>)) ms) = scrobbles (scrobble (s\<lparr>lf_scrobbled := True\<rparr>))"
        using Cons.prems by (intro scrobbled_is_over) (simp_all add: scrobble_fields)
      with True Cons.prems x LfPosition show ?thesis by (simp add: scrobble_def)
    qed (use Cons.IH [of s] Cons.prems x LfPosition in simp)
  qed (use Cons.prems x in simp_all)
qed simp

text \<open>C21: Whatever length reports and positions follow a track, however often they cross the threshold and however
  the player seeks, the track is scrobbled at most once: at the first position over half its known length or four
  minutes, with the time it started and the length known then; and not at all if no position gets there.\<close>

theorem each_track_scrobbles_once:
  assumes "lf_session s = Some sk" "scrobbleable t" "list_all same_track ms"
  shows "scrobbles (lf_run s ((started, LfTrack t) # ms)) = scrobbles s @
    (case length_at_crossing 0 ms of Some d \<Rightarrow> [scrobble_params sk t started d] | None \<Rightarrow> [])"
proof -
  let ?s = "lf_apply started (LfTrack t) s"
  have "lf_session ?s = Some sk \<and> lf_current ?s = Some t \<and> \<not> lf_scrobbled ?s \<and> lf_duration ?s = 0 \<and>
      lf_started_at ?s = started \<and> scrobbles ?s = scrobbles s"
    using assms(1,2) by (simp add: now_playing_def lf_call_def scrobbles_def lit_names)
  with one_scrobble [OF assms(3), of ?s sk t] assms(2) show ?thesis
    by (simp del: lf_apply.simps cong: option.case_cong)
qed

theorem each_track_scrobbles_once_witness:
  "scrobbles (lf_run (scrobbler_new (Some (lit ''key'')))
     [(5, LfTrack \<lparr>lf_title = lit ''T'', lf_artists = lit ''A'', lf_album = None\<rparr>), (6, LfDuration 180), (7, LfPosition 89),
      (8, LfPosition 95), (9, LfPosition 10), (10, LfPosition 170)]) =
   [scrobble_params (lit ''key'') \<lparr>lf_title = lit ''T'', lf_artists = lit ''A'', lf_album = None\<rparr> 5 180]"
proof -
  have "scrobbleable \<lparr>lf_title = lit ''T'', lf_artists = lit ''A'', lf_album = None\<rparr>"
    by (simp add: scrobbleable_def UNKNOWN_ARTIST_def trim_def trim_matches_def trim_start_matches_def
        trim_end_matches_def is_whitespace_def lit_Cons)
  from each_track_scrobbles_once [OF _ this, of "scrobbler_new (Some (lit ''key''))" "lit ''key''"
      "[(6, LfDuration 180), (7, LfPosition 89), (8, LfPosition 95), (9, LfPosition 10), (10, LfPosition 170)]" 5]
  show ?thesis by (simp add: scrobbler_new_def scrobbles_def crosses_threshold_def)
qed

section \<open>Disconnecting\<close>

text \<open>A disconnected account in which every poll that is still at work belongs to an older generation and none of
  them waits for an answer: nothing the polls do changes that.\<close>

definition no_answer_due :: "lf_account \<Rightarrow> bool" where
  "no_answer_due a \<longleftrightarrow> list_all (\<lambda>p. pl_phase p \<noteq> Asking \<and> pl_gen p \<le> ac_gen a) (ac_polls a)"

definition account_ok :: "lf_account \<Rightarrow> bool" where
  "account_ok a \<longleftrightarrow> list_all (\<lambda>p. pl_gen p \<le> ac_gen a \<and> (pl_phase p \<noteq> Over \<longrightarrow> pl_tries p < AUTH_POLL_TRIES)) (ac_polls a)"

lemma poll_gen: "f (p, a) = (q, b) \<Longrightarrow> f = poll_wakes \<or> (\<exists>ans. f = poll_answered ans) \<Longrightarrow>
    pl_gen q = pl_gen p \<and> ac_gen b = ac_gen a"
  by (auto simp: poll_wakes_def poll_answered_def lf_show_def Let_def split: if_splits poll_answer.splits option.splits)

lemma poll_tries: "f (p, a) = (q, b) \<Longrightarrow> f = poll_wakes \<or> (\<exists>ans. f = poll_answered ans) \<Longrightarrow>
    pl_phase p \<noteq> Over \<Longrightarrow> pl_tries p < AUTH_POLL_TRIES \<Longrightarrow> pl_phase q \<noteq> Over \<longrightarrow> pl_tries q < AUTH_POLL_TRIES"
  by (auto simp: poll_wakes_def poll_answered_def lf_show_def Let_def split: if_splits poll_answer.splits option.splits)

lemma list_all_update: "list_all P xs \<Longrightarrow> P y \<Longrightarrow> list_all P (xs[k := y])"
  by (auto simp: list_all_iff dest!: set_update_subset_insert [THEN subsetD])

lemma account_ok_poll:
  assumes "account_ok a" "k < length (ac_polls a)" "pl_phase (ac_polls a ! k) \<noteq> Over"
    and f: "f = poll_wakes \<or> (\<exists>ans. f = poll_answered ans)"
  shows "account_ok (on_poll k f a)"
proof -
  obtain q b where q: "f (ac_polls a ! k, a) = (q, b)" by fastforce
  have "pl_gen (ac_polls a ! k) \<le> ac_gen a" "pl_tries (ac_polls a ! k) < AUTH_POLL_TRIES"
    using assms(1-3) by (auto simp: account_ok_def list_all_length)
  with poll_gen [OF q f] poll_tries [OF q f assms(3)]
  have "pl_gen q \<le> ac_gen a \<and> (pl_phase q \<noteq> Over \<longrightarrow> pl_tries q < AUTH_POLL_TRIES)" "ac_gen b = ac_gen a" by auto
  with assms(1) q show ?thesis by (simp add: on_poll_def account_ok_def list_all_update)
qed

interpretation accounts: invariant lf_init lf_step account_ok
proof
  show "lf_init a \<Longrightarrow> account_ok a" for a by (simp add: lf_init_def account_ok_def)
  show "account_ok b" if "account_ok a" "lf_step a b" for a b
    using that(2)
  proof (cases rule: lf_step.cases)
    case lf_polls
    from this that(1) show ?thesis by (cases rule: poll_step.cases) (auto intro!: account_ok_poll)
  qed (use that(1) in \<open>auto simp: account_ok_def lf_connect_def lf_spawn_def lf_disconnect_def lf_show_def list_all_iff
      AUTH_POLL_TRIES_def intro: le_SucI\<close>)
qed

text \<open>C30: Disconnecting is final for every poll that is not waiting for an answer at that moment: without a new
  connect the account stays disconnected, whatever the polls do, and each of them ends when it wakes, so there are
  at most as many steps left as there are polls.\<close>

theorem disconnect_is_final:
  assumes "reachable lf_init lf_step a" "list_all (\<lambda>p. pl_phase p \<noteq> Asking) (ac_polls a)"
    and "(poll_step ^^ n) (lf_disconnect a) b"
  shows "\<not> lf_connected b \<and> ac_sessions b = ac_sessions a @ [None] \<and> n \<le> length (ac_polls a)"
proof -
  let ?live = "\<lambda>a. length (filter (\<lambda>p. pl_phase p \<noteq> Over) (ac_polls a))"
  let ?inv = "\<lambda>b. \<not> lf_connected b \<and> ac_sessions b = ac_sessions a @ [None] \<and>
    list_all (\<lambda>p. pl_phase p \<noteq> Asking \<and> pl_gen p < ac_gen b) (ac_polls b)"
  have ok: "account_ok a" by (rule accounts.inv_reachable [OF assms(1)])
  have step: "?inv c \<and> ?live c + 1 \<le> ?live b" if b: "?inv b" and s: "poll_step b c" for b c
    using s
  proof (cases rule: poll_step.cases)
    case (poll_wake k)
    have gen: "ac_gen b \<noteq> pl_gen (ac_polls b ! k)" using b poll_wake(2) by (auto simp: list_all_length)
    then have c: "c = b\<lparr>ac_polls := (ac_polls b)[k := (ac_polls b ! k)\<lparr>pl_phase := Over\<rparr>]\<rparr>"
      by (simp add: poll_wake(1) on_poll_def poll_wakes_def)
    have "?live b = length (filter (\<lambda>p. pl_phase p \<noteq> Over) (take k (ac_polls b))) + 1 +
        length (filter (\<lambda>p. pl_phase p \<noteq> Over) (drop (Suc k) (ac_polls b)))"
      using poll_wake(2,3) by (subst id_take_nth_drop [OF poll_wake(2)]) simp
    moreover have "?live c = length (filter (\<lambda>p. pl_phase p \<noteq> Over) (take k (ac_polls b))) +
        length (filter (\<lambda>p. pl_phase p \<noteq> Over) (drop (Suc k) (ac_polls b)))"
      using poll_wake(2) by (simp add: c upd_conv_take_nth_drop)
    moreover have "pl_gen (ac_polls b ! k) < ac_gen b" using b poll_wake(2) by (auto simp: list_all_length)
    then have "?inv c" using b by (simp add: c lf_connected_def list_all_update)
    ultimately show ?thesis by simp
  next
    case (poll_answer k ans)
    with b show ?thesis by (auto simp: list_all_length)
  qed
  have run: "?inv b \<and> ?live b + n \<le> ?live (lf_disconnect a)" using assms(3)
  proof (induction n arbitrary: b)
    case 0
    have "?inv (lf_disconnect a)" using ok assms(2)
      by (auto simp: account_ok_def lf_disconnect_def lf_show_def lf_connected_def list_all_iff)
    with 0 show ?case by simp
  next
    case (Suc n)
    then obtain c where c: "(poll_step ^^ n) (lf_disconnect a) c" "poll_step c b" by auto
    from Suc.IH [OF c(1)] step [OF _ c(2)] show ?case by fastforce
  qed
  moreover have "?live (lf_disconnect a) \<le> length (ac_polls a)" by (simp add: lf_disconnect_def lf_show_def)
  ultimately show ?thesis by auto
qed

text \<open>A disconnect (or a newer connect) does not stop a poll whose request is under way: the generation is tested
  before the request, and the answer is stored without another test. So an account the user has disconnected can be
  connected again, with nobody having asked for it.\<close>

theorem stale_poll_undoes_a_disconnect:
  "\<exists>a b. reachable lf_init lf_step a \<and> poll_step (lf_disconnect a) b \<and> \<not> lf_connected (lf_disconnect a) \<and>
     lf_connected b \<and> last (ac_sessions b) = Some (lit ''key'') \<and> list_all (\<lambda>p. pl_phase p = Over) (ac_polls b) \<and>
     list_all (\<lambda>p. pl_gen p < ac_gen b) (ac_polls b)"
proof -
  define i where "i = \<lparr>ac_gen = 0, ac_key = [], ac_user = [], ac_sessions = [], ac_polls = [], ac_shown = []\<rparr>"
  let ?c = "lf_spawn 1 (lf_connect i)"
  let ?a = "on_poll 0 poll_wakes ?c"
  let ?b = "on_poll 0 (poll_answered (Session (Some (lit ''me'', lit ''key'')))) (lf_disconnect ?a)"
  note eval = on_poll_def poll_wakes_def poll_answered_def lf_connect_def lf_spawn_def lf_disconnect_def lf_show_def i_def lf_connected_def
  have "reachable lf_init lf_step i" by (rule reachable_init) (simp add: lf_init_def i_def)
  then have "reachable lf_init lf_step (lf_connect i)" by (rule reachable_step) (rule lf_connects)
  then have "reachable lf_init lf_step ?c" by (rule reachable_step) (rule lf_spawns, simp add: eval)
  then have "reachable lf_init lf_step ?a"
    by (rule reachable_step) (rule lf_polls, rule poll_wake, simp_all add: eval)
  moreover have "poll_step (lf_disconnect ?a) ?b" by (rule poll_answer) (simp_all add: eval)
  moreover have "\<not> lf_connected (lf_disconnect ?a)" "lf_connected ?b" "last (ac_sessions ?b) = Some (lit ''key'')"
    "list_all (\<lambda>p. pl_phase p = Over) (ac_polls ?b)" "list_all (\<lambda>p. pl_gen p < ac_gen ?b) (ac_polls ?b)"
    by (simp_all add: eval lit_Cons)
  ultimately show ?thesis by blast
qed

theorem disconnect_is_final_witness:
  "\<exists>a. reachable lf_init lf_step a \<and> length (ac_polls a) = 1 \<and> \<not> lf_connected (lf_disconnect a)"
proof -
  define i where "i = \<lparr>ac_gen = 0, ac_key = [], ac_user = [], ac_sessions = [], ac_polls = [], ac_shown = []\<rparr>"
  have "reachable lf_init lf_step i" by (rule reachable_init) (simp add: lf_init_def i_def)
  then have "reachable lf_init lf_step (lf_connect i)" by (rule reachable_step) (rule lf_connects)
  then have r: "reachable lf_init lf_step (lf_spawn 1 (lf_connect i))"
    by (rule reachable_step) (rule lf_spawns, simp add: lf_connect_def)
  have "list_all (\<lambda>p. pl_phase p \<noteq> Asking) (ac_polls (lf_spawn 1 (lf_connect i)))"
    by (simp add: lf_connect_def lf_spawn_def i_def)
  from disconnect_is_final [OF r this, of 0] have "\<not> lf_connected (lf_disconnect (lf_spawn 1 (lf_connect i)))" by simp
  with r show ?thesis by (intro exI [of _ "lf_spawn 1 (lf_connect i)"]) (simp add: lf_connect_def lf_spawn_def i_def)
qed

end
