(* ===== verification/Json.thy ===== *)
theory Json
  imports Prelude
begin

text \<open>
  \<open>serde_json::Value\<close> as the code reads it: objects keep their keys in the order of the map that holds them, each key
  once. Numbers are rationals. The searches that walk a whole response are those of
  crates/innertube/src/models/metadata.rs.
\<close>

datatype json = JNull | JBool bool | JNum rat | JStr ustr | JArr "json list" | JObj "(ustr \<times> json) list"

section \<open>Accessors\<close>

fun jget :: "json \<Rightarrow> string \<Rightarrow> json option" where
  "jget (JObj m) k = map_of m (lit k)"
| "jget _ k = None"

fun jstr :: "json \<Rightarrow> ustr option" where
  "jstr (JStr s) = Some s"
| "jstr _ = None"

fun jbool :: "json \<Rightarrow> bool option" where
  "jbool (JBool b) = Some b"
| "jbool _ = None"

fun jarr :: "json \<Rightarrow> json list option" where
  "jarr (JArr xs) = Some xs"
| "jarr _ = None"

fun jnum :: "json \<Rightarrow> rat option" where
  "jnum (JNum q) = Some q"
| "jnum _ = None"

text \<open>\<open>get(a).and_then(get(b))...\<close>, \<open>get(a).or_else(get(b))...\<close>, and the element of an array.\<close>

fun jpath :: "json \<Rightarrow> string list \<Rightarrow> json option" where
  "jpath j [] = Some j"
| "jpath j (k # ks) = Option.bind (jget j k) (\<lambda>v. jpath v ks)"

fun jfirst :: "json \<Rightarrow> string list \<Rightarrow> json option" where
  "jfirst j [] = None"
| "jfirst j (k # ks) = (case jget j k of Some v \<Rightarrow> Some v | None \<Rightarrow> jfirst j ks)"

definition jnth :: "nat \<Rightarrow> json list \<Rightarrow> json option" where
  "jnth i xs = (if i < length xs then Some (xs ! i) else None)"

text \<open>\<open>find_map\<close>.\<close>

fun find_map :: "('a \<Rightarrow> 'b option) \<Rightarrow> 'a list \<Rightarrow> 'b option" where
  "find_map f [] = None"
| "find_map f (x # xs) = (case f x of Some y \<Rightarrow> Some y | None \<Rightarrow> find_map f xs)"

lemma find_map_cong [fundef_cong]: "xs = ys \<Longrightarrow> (\<And>x. x \<in> set ys \<Longrightarrow> f x = g x) \<Longrightarrow> find_map f xs = find_map g ys"
  by (induction xs arbitrary: ys) (auto split: option.split)

lemma find_map_Some: "find_map f xs = Some y \<Longrightarrow> \<exists>x\<in>set xs. f x = Some y"
  by (induction xs) (auto split: option.splits)

lemma find_map_None: "find_map f xs = None \<longleftrightarrow> (\<forall>x\<in>set xs. f x = None)"
  by (induction xs) (auto split: option.splits)

section \<open>Searches\<close>

lemma json_size_obj: "(k, v) \<in> set m \<Longrightarrow> size v < size (JObj m)"
  by (induction m) (auto simp: less_Suc_eq)

lemma json_size_arr: "v \<in> set xs \<Longrightarrow> size v < size (JArr xs)"
  by (induction xs) (auto simp: less_Suc_eq)

text \<open>Every value under a key, at any depth; the same without looking inside a match; the first string under a key; and
  the last entry of the first list of thumbnails.\<close>

function find_all :: "json \<Rightarrow> string \<Rightarrow> json list" where
  "find_all (JObj m) key = concat (map (\<lambda>(k, v). (if k = lit key then [v] else []) @ find_all v key) m)"
| "find_all (JArr xs) key = concat (map (\<lambda>v. find_all v key) xs)"
| "find_all JNull key = []"
| "find_all (JBool b) key = []"
| "find_all (JNum q) key = []"
| "find_all (JStr s) key = []"
  by pat_completeness auto

termination
  by (relation "measure (size \<circ> fst)") (auto simp: json_size_obj json_size_arr simp del: json.size)

function find_all_shallow :: "json \<Rightarrow> string \<Rightarrow> json list" where
  "find_all_shallow (JObj m) key = concat (map (\<lambda>(k, v). if k = lit key then [v] else find_all_shallow v key) m)"
| "find_all_shallow (JArr xs) key = concat (map (\<lambda>v. find_all_shallow v key) xs)"
| "find_all_shallow JNull key = []"
| "find_all_shallow (JBool b) key = []"
| "find_all_shallow (JNum q) key = []"
| "find_all_shallow (JStr s) key = []"
  by pat_completeness auto

termination
  by (relation "measure (size \<circ> fst)") (auto simp: json_size_obj json_size_arr simp del: json.size)

function find_first_str :: "json \<Rightarrow> string \<Rightarrow> ustr option" where
  "find_first_str (JObj m) key =
     find_map (\<lambda>(k, v). case (if k = lit key then jstr v else None) of Some s \<Rightarrow> Some s | None \<Rightarrow> find_first_str v key) m"
| "find_first_str (JArr xs) key = find_map (\<lambda>v. find_first_str v key) xs"
| "find_first_str JNull key = None"
| "find_first_str (JBool b) key = None"
| "find_first_str (JNum q) key = None"
| "find_first_str (JStr s) key = None"
  by pat_completeness auto

termination
  by (relation "measure (size \<circ> fst)") (auto simp: json_size_obj json_size_arr simp del: json.size)

function last_thumbnail :: "json \<Rightarrow> ustr option" where
  "last_thumbnail (JObj m) =
     (case Option.bind (Option.bind (jget (JObj m) ''thumbnails'') jarr)
        (\<lambda>xs. if xs = [] then None else Option.bind (jget (last xs) ''url'') jstr) of
        Some url \<Rightarrow> Some url | None \<Rightarrow> find_map (\<lambda>(_, v). last_thumbnail v) m)"
| "last_thumbnail (JArr xs) = find_map last_thumbnail xs"
| "last_thumbnail JNull = None"
| "last_thumbnail (JBool b) = None"
| "last_thumbnail (JNum q) = None"
| "last_thumbnail (JStr s) = None"
  by pat_completeness auto

termination
  by (relation "measure size") (auto simp: json_size_obj json_size_arr simp del: json.size)

lemma json_member_induct [case_names obj arr leaf]:
  assumes "\<And>m. (\<And>k v. (k, v) \<in> set m \<Longrightarrow> P v) \<Longrightarrow> P (JObj m)"
    "\<And>xs. (\<And>v. v \<in> set xs \<Longrightarrow> P v) \<Longrightarrow> P (JArr xs)"
    "\<And>j. (\<forall>m. j \<noteq> JObj m) \<Longrightarrow> (\<forall>xs. j \<noteq> JArr xs) \<Longrightarrow> P j"
  shows "P j"
proof (induction j rule: measure_induct_rule [of size])
  case (less j)
  show ?case
  proof (cases j)
    case (JObj m)
    with less json_size_obj show ?thesis by (auto intro!: assms(1))
  next
    case (JArr xs)
    with less json_size_arr show ?thesis by (auto intro!: assms(2))
  qed (auto intro: assms(3))
qed

lemma find_all_member: "(k, v) \<in> set m \<Longrightarrow> set (find_all v key) \<subseteq> set (find_all (JObj m) key)"
  "(lit key, v) \<in> set m \<Longrightarrow> v \<in> set (find_all (JObj m) key)"
  by force+

lemma find_all_element: "v \<in> set xs \<Longrightarrow> set (find_all v key) \<subseteq> set (find_all (JArr xs) key)"
  by force

lemma find_all_shallow_subset: "set (find_all_shallow j key) \<subseteq> set (find_all j key)"
proof (induction j rule: json_member_induct)
  case (obj m)
  have "x \<in> set (find_all (JObj m) key)" if "x \<in> set (find_all_shallow (JObj m) key)" for x
  proof -
    from that obtain k v where kv: "(k, v) \<in> set m" "x \<in> set (if k = lit key then [v] else find_all_shallow v key)"
      by auto
    show ?thesis
    proof (cases "k = lit key")
      case True
      with kv show ?thesis by (auto simp del: find_all.simps intro: find_all_member(2))
    next
      case False
      with kv have "x \<in> set (find_all v key)" using obj [OF kv(1)] by auto
      then show ?thesis using find_all_member(1) [OF kv(1)] by blast
    qed
  qed
  then show ?case by blast
next
  case (arr xs)
  then show ?case by fastforce
next
  case (leaf j)
  then show ?case by (cases j) auto
qed

lemma jstr_Some [simp]: "jstr v = Some t \<longleftrightarrow> v = JStr t"
  by (cases v) auto

lemma find_first_str_found:
  "find_first_str j key = Some s \<Longrightarrow> JStr s \<in> set (find_all j key)"
proof (induction j rule: json_member_induct)
  case (obj m)
  from obj.prems obtain x where x: "x \<in> set m"
    "(case x of (k, v) \<Rightarrow> case (if k = lit key then jstr v else None) of Some s \<Rightarrow> Some s
        | None \<Rightarrow> find_first_str v key) = Some s"
    unfolding find_first_str.simps by (blast dest: find_map_Some)
  obtain k v where kv: "x = (k, v)" by fastforce
  from x(2) kv consider "k = lit key" "v = JStr s" | "find_first_str v key = Some s"
    by (auto split: if_splits option.splits)
  then show ?case
  proof cases
    case 1
    with x(1) kv show ?thesis by (blast intro: find_all_member(2))
  next
    case 2
    with obj.IH x(1) kv show ?thesis using find_all_member(1) [of k v m key] by blast
  qed
next
  case (arr xs)
  then obtain v where "v \<in> set xs" "find_first_str v key = Some s" by (auto dest!: find_map_Some)
  with arr.IH find_all_element [of v xs key] show ?case by blast
next
  case (leaf j)
  then show ?case by (cases j) auto
qed

end
