(* ===== verification/Response_Rows.thy ===== *)
theory Response_Rows
  imports Json Play_Queue
begin

text \<open>
  Reading YouTube's responses (crates/innertube/src/models/metadata.rs and models/lyrics.rs): rows of search results,
  albums, playlists and the queue panel, the fields of a subtitle, the account menu and the list of identities, and the
  two forms of a lyrics page.
\<close>

section \<open>The kind of a row\<close>

definition AUDIO_TRACK_TYPE :: ustr where
  "AUDIO_TRACK_TYPE = lit ''MUSIC_VIDEO_TYPE_ATV''"

definition UPLOADED_TRACK_TYPE :: ustr where
  "UPLOADED_TRACK_TYPE = lit ''MUSIC_VIDEO_TYPE_PRIVATELY_OWNED_TRACK''"

definition is_video_type :: "ustr \<Rightarrow> bool" where
  "is_video_type t \<longleftrightarrow> t \<noteq> AUDIO_TRACK_TYPE \<and> t \<noteq> UPLOADED_TRACK_TYPE"

definition endpoint_video_type :: "json \<Rightarrow> ustr option" where
  "endpoint_video_type endpoint =
     Option.bind (jfirst endpoint [''watchEndpoint'', ''watchPlaylistEndpoint'']) (\<lambda>w.
     Option.bind (jpath w [''watchEndpointMusicSupportedConfigs'', ''watchEndpointMusicConfig'', ''musicVideoType'']) jstr)"

definition is_video_endpoint :: "json \<Rightarrow> bool" where
  "is_video_endpoint endpoint = (case endpoint_video_type endpoint of Some t \<Rightarrow> is_video_type t | None \<Rightarrow> False)"

definition is_upload_endpoint :: "json \<Rightarrow> bool" where
  "is_upload_endpoint endpoint \<longleftrightarrow> endpoint_video_type endpoint = Some UPLOADED_TRACK_TYPE"

text \<open>The play button's endpoint speaks for the row when it names a type, else the row's own.\<close>

definition row_video_type :: "json \<Rightarrow> ustr option" where
  "row_video_type node =
     (case Option.bind (Option.bind (jfirst node [''overlay'', ''thumbnailOverlay'']) (\<lambda>v. jpath v
          [''musicItemThumbnailOverlayRenderer'', ''content'', ''musicPlayButtonRenderer'', ''playNavigationEndpoint'']))
        endpoint_video_type of
        Some t \<Rightarrow> Some t
      | None \<Rightarrow> Option.bind (jget node ''navigationEndpoint'') endpoint_video_type)"

definition is_video_row :: "json \<Rightarrow> bool" where
  "is_video_row node = (case row_video_type node of Some t \<Rightarrow> is_video_type t | None \<Rightarrow> False)"

definition is_upload_row :: "json \<Rightarrow> bool" where
  "is_upload_row node \<longleftrightarrow> row_video_type node = Some UPLOADED_TRACK_TYPE"

definition is_explicit :: "json \<Rightarrow> bool" where
  "is_explicit node =
     list_ex (\<lambda>key. case jget node key of
         Some b \<Rightarrow> list_ex (\<lambda>t. jstr t = Some (lit ''MUSIC_EXPLICIT_BADGE'')) (find_all b ''iconType'')
       | None \<Rightarrow> False) [''badges'', ''subtitleBadges'', ''subtitleBadge'']"

section \<open>Texts\<close>

definition runs_text_opt :: "json \<Rightarrow> ustr option" where
  "runs_text_opt v =
     Option.bind (Option.bind (jget v ''runs'') jarr) (\<lambda>runs.
       let s = concat (List.map_filter (\<lambda>r. Option.bind (jget r ''text'') jstr) runs)
       in if s \<noteq> [] then Some s else None)"

definition runs_text :: "json option \<Rightarrow> ustr option" where
  "runs_text v = Option.bind v runs_text_opt"

definition nonempty_string :: "ustr \<Rightarrow> ustr option" where
  "nonempty_string raw = (if trim raw \<noteq> [] then Some (trim raw) else None)"

definition account_text :: "json option \<Rightarrow> ustr option" where
  "account_text v =
     Option.bind v (\<lambda>v. case runs_text_opt v of Some s \<Rightarrow> Some s
       | None \<Rightarrow> (case Option.bind (Option.bind (jget v ''simpleText'') jstr) nonempty_string of Some s \<Rightarrow> Some s
           | None \<Rightarrow> Option.bind (jstr v) nonempty_string))"

text \<open>The part of a data-sync id before the bars, or the part behind them.\<close>

definition split_datasync_id :: "ustr \<Rightarrow> ustr" where
  "split_datasync_id raw =
     (case split_at_text (lit ''||'') raw of
        Some (a, b) \<Rightarrow> if a \<noteq> [] then a else b
      | None \<Rightarrow> raw)"

definition normalize_data_sync_id :: "ustr \<Rightarrow> ustr option" where
  "normalize_data_sync_id raw = nonempty_string (split_datasync_id raw)"

section \<open>Artists and subtitles\<close>

definition run_str :: "json \<Rightarrow> ustr" where
  "run_str run = (case Option.bind (jget run ''text'') jstr of Some t \<Rightarrow> t | None \<Rightarrow> [])"

definition run_artist :: "json \<Rightarrow> ustr option" where
  "run_artist r =
     Option.bind (Option.bind (jpath r [''navigationEndpoint'', ''browseEndpoint'', ''browseId'']) jstr)
       (\<lambda>id. if starts_with (lit ''UC'') id then Some id else None)"

definition first_artist_id :: "json list \<Rightarrow> ustr option" where
  "first_artist_id runs = find_map run_artist runs"

definition is_bullet :: "ustr \<Rightarrow> bool" where
  "is_bullet t \<longleftrightarrow> trim t = [8226]"

record subtitle_group =
  group_text :: ustr
  artist_link :: bool

fun group_loop :: "subtitle_group \<Rightarrow> json list \<Rightarrow> subtitle_group list" where
  "group_loop cur [] = [cur]"
| "group_loop cur (run # runs) =
     (if is_bullet (run_str run) then cur # group_loop \<lparr>group_text = [], artist_link = False\<rparr> runs
      else group_loop \<lparr>group_text = group_text cur @ run_str run,
                       artist_link = (artist_link cur \<or> first_artist_id [run] \<noteq> None)\<rparr> runs)"

definition subtitle_groups :: "json list \<Rightarrow> subtitle_group list" where
  "subtitle_groups runs =
     map (\<lambda>g. g\<lparr>group_text := trim (group_text g)\<rparr>) (group_loop \<lparr>group_text = [], artist_link = False\<rparr> runs)"

definition is_type_label :: "ustr \<Rightarrow> bool" where
  "is_type_label s \<longleftrightarrow> s \<in> set (map lit [''Song'', ''Video'', ''Album'', ''Single'', ''EP'', ''Playlist'', ''Artist'',
     ''Episode'', ''Podcast''])"

definition is_duration :: "ustr \<Rightarrow> bool" where
  "is_duration s \<longleftrightarrow> 58 \<in> set (trim s) \<and> list_all (\<lambda>c. is_ascii_digit c \<or> c = 58) (trim s)"

fun drop_label :: "subtitle_group list \<Rightarrow> subtitle_group list" where
  "drop_label [] = []"
| "drop_label (g # gs) =
     (if gs \<noteq> [] \<and> \<not> artist_link g \<and> (is_type_label (group_text g) \<or> list_ex artist_link gs) then gs else g # gs)"

definition split_subtitle :: "json list option \<Rightarrow> ustr \<times> ustr option \<times> ustr option" where
  "split_subtitle runs =
     (case runs of None \<Rightarrow> ([], None, None)
      | Some runs \<Rightarrow>
          (let gs = map group_text (drop_label (subtitle_groups runs));
               dur = find is_duration (rev gs)
           in (case gs of [] \<Rightarrow> [] | g # _ \<Rightarrow> g,
               (if 1 < length gs \<and> Some (gs ! 1) \<noteq> dur then Some (gs ! 1) else None), dur)))"

definition artists_from_runs :: "json list option \<Rightarrow> ustr option" where
  "artists_from_runs runs = (let a = fst (split_subtitle runs) in if a \<noteq> [] then Some a else None)"

definition duration_from_runs :: "json list option \<Rightarrow> ustr option" where
  "duration_from_runs runs = snd (snd (split_subtitle runs))"

fun run_fields :: "artist_run list \<Rightarrow> json list \<Rightarrow> artist_run list list" where
  "run_fields cur [] = [cur]"
| "run_fields cur (run # runs) =
     (if is_bullet (run_str run) then cur # run_fields [] runs
      else run_fields (cur @ [\<lparr>run_text = run_str run, run_id = first_artist_id [run]\<rparr>]) runs)"

definition linked :: "artist_run list \<Rightarrow> bool" where
  "linked f = list_ex (\<lambda>r. run_id r \<noteq> None) f"

fun drop_label_field :: "artist_run list list \<Rightarrow> artist_run list list" where
  "drop_label_field [] = []"
| "drop_label_field (f # fs) =
     (if fs \<noteq> [] \<and> \<not> linked f \<and> (is_type_label (trim (concat (map run_text f))) \<or> list_ex linked fs) then fs else f # fs)"

definition row_artist_runs :: "json list \<Rightarrow> artist_run list" where
  "row_artist_runs runs =
     (case drop_label_field (run_fields [] runs) of [] \<Rightarrow> [] | out # _ \<Rightarrow> if linked out then out else [])"

section \<open>Rows\<close>

definition flex_column :: "json \<Rightarrow> nat \<Rightarrow> json option" where
  "flex_column node i = Option.bind (Option.bind (jget node ''flexColumns'') jarr) (jnth i)"

definition flex_runs :: "json \<Rightarrow> nat \<Rightarrow> json list option" where
  "flex_runs node i =
     Option.bind (flex_column node i) (\<lambda>c.
     Option.bind (jpath c [''musicResponsiveListItemFlexColumnRenderer'', ''text'', ''runs'']) jarr)"

definition flex_text :: "json \<Rightarrow> ustr option" where
  "flex_text col = Option.bind (jpath col [''musicResponsiveListItemFlexColumnRenderer'', ''text'']) runs_text_opt"

definition flex_column_text :: "json \<Rightarrow> nat \<Rightarrow> ustr option" where
  "flex_column_text node i = Option.bind (flex_column node i) flex_text"

definition fixed_column_text :: "json \<Rightarrow> ustr option" where
  "fixed_column_text node =
     (case Option.bind (Option.bind (jget node ''fixedColumns'') jarr) (find_map (\<lambda>c.
        Option.bind (jpath c [''musicResponsiveListItemFixedColumnRenderer'', ''text'']) runs_text_opt)) of
        Some s \<Rightarrow> if is_duration s then Some s else None | None \<Rightarrow> None)"

definition row_play_count :: "json \<Rightarrow> ustr option" where
  "row_play_count node =
     Option.bind (flex_column_text node 2) (\<lambda>text.
     Option.bind (rsplit_once 32 (trim text)) (\<lambda>(count, unit).
     if to_ascii_lowercase unit = lit ''plays'' then Some count else None))"

definition album_column :: "json \<Rightarrow> ustr option" where
  "album_column node =
     Option.bind (flex_column_text node 2) (\<lambda>text.
     if trim text \<noteq> [] \<and> row_play_count node = None then Some (trim text) else None)"

definition row_album_id :: "json \<Rightarrow> ustr option" where
  "row_album_id node = find (starts_with (lit ''MPRE'')) (List.map_filter jstr (find_all node ''browseId''))"

definition contributor :: "json \<Rightarrow> (ustr \<times> ustr) option" where
  "contributor node =
     Option.bind (jnth 0 (find_all node ''contributorsAvatars'')) (\<lambda>stack.
     Option.bind (jnth 0 (find_all stack ''avatarViewModel'')) (\<lambda>avatar.
     Option.bind (Option.bind (jget avatar ''accessibilityText'') jstr) (\<lambda>name.
     Option.bind (Option.bind (Option.bind (Option.bind (jpath avatar [''image'', ''sources'']) jarr) (jnth 0))
       (\<lambda>x. Option.bind (jget x ''url'') jstr)) (\<lambda>url. Some (name, url)))))"

definition removable :: "json \<Rightarrow> bool" where
  "removable node = list_ex (\<lambda>a. jstr a = Some (lit ''ACTION_REMOVE_VIDEO'')) (find_all node ''action'')"

definition like_status :: "json \<Rightarrow> rating option" where
  "like_status node = map_option (\<lambda>s. if s = lit ''LIKE'' then Like else if s = lit ''DISLIKE'' then Dislike else Indifferent)
     (find_first_str node ''likeStatus'')"

definition list_item_video_id :: "json \<Rightarrow> ustr option" where
  "list_item_video_id node =
     (case Option.bind (jpath node [''playlistItemData'', ''videoId'']) jstr of Some v \<Rightarrow> Some v
      | None \<Rightarrow>
     (case Option.bind (jpath node [''navigationEndpoint'', ''watchEndpoint'', ''videoId'']) jstr of Some v \<Rightarrow> Some v
      | None \<Rightarrow> Option.bind (jget node ''overlay'') (\<lambda>v. find_first_str v ''videoId'')))"

definition parse_list_item :: "json \<Rightarrow> song_item option" where
  "parse_list_item node =
     Option.bind (list_item_video_id node) (\<lambda>id.
       let title = (case flex_column_text node 0 of Some t \<Rightarrow> t | None \<Rightarrow> []);
           runs = flex_runs node 1;
           (artists, album, dur) = split_subtitle runs
       in if title = [] then None
          else Some \<lparr>video_id = id, song_title = title, artists = artists,
            artist_id = Option.bind runs first_artist_id,
            artist_runs = (case runs of Some r \<Rightarrow> row_artist_runs r | None \<Rightarrow> []),
            album = (case album of Some a \<Rightarrow> Some a | None \<Rightarrow> album_column node),
            album_id = row_album_id node,
            song_duration = (case dur of Some d \<Rightarrow> Some d | None \<Rightarrow> fixed_column_text node),
            play_count = row_play_count node,
            song_thumbnail = last_thumbnail node,
            set_video_id = (if removable node
              then Option.bind (jpath node [''playlistItemData'', ''playlistSetVideoId'']) jstr else None),
            added_by = map_option fst (contributor node),
            added_by_avatar = map_option snd (contributor node),
            song_rating = like_status node,
            song_queued_by = None, queued = False, queued_end = False, queued_from = None, autoplay = False,
            is_video = is_video_row node, is_upload = is_upload_row node, explicit = is_explicit node\<rparr>)"

definition parse_panel_video :: "json \<Rightarrow> song_item option" where
  "parse_panel_video node =
     Option.bind (Option.bind (jget node ''videoId'') jstr) (\<lambda>id.
     Option.bind (runs_text (jget node ''title'')) (\<lambda>title.
       let runs = Option.bind (Option.bind (jfirst node [''longBylineText'', ''shortBylineText'']) (\<lambda>b. jget b ''runs'')) jarr
       in Some \<lparr>video_id = id, song_title = title,
            artists = (case artists_from_runs runs of Some a \<Rightarrow> a | None \<Rightarrow> []),
            artist_id = Option.bind runs first_artist_id,
            artist_runs = (case runs of Some r \<Rightarrow> row_artist_runs r | None \<Rightarrow> []),
            album = None, album_id = row_album_id node,
            song_duration = Option.bind (jget node ''lengthText'') runs_text_opt,
            play_count = None, song_thumbnail = last_thumbnail node, set_video_id = None,
            added_by = None, added_by_avatar = None, song_rating = like_status node,
            song_queued_by = None, queued = False, queued_end = False, queued_from = None, autoplay = False,
            is_video = is_video_row node, is_upload = is_upload_row node, explicit = is_explicit node\<rparr>))"

section \<open>Pages\<close>

definition continuation_token :: "json \<Rightarrow> ustr option" where
  "continuation_token doc =
     (case find_map (\<lambda>c. Option.bind (jget c ''token'') jstr) (find_all doc ''continuationCommand'') of
        Some t \<Rightarrow> Some t
      | None \<Rightarrow> find_map (\<lambda>c. Option.bind (jget c ''continuation'') jstr) (find_all doc ''nextContinuationData''))"

record search_result =
  search_items :: "song_item list"
  search_continuation :: "ustr option"

definition parse_search :: "json \<Rightarrow> search_result" where
  "parse_search doc =
     \<lparr>search_items = List.map_filter parse_list_item (find_all doc ''musicResponsiveListItemRenderer''),
      search_continuation = continuation_token doc\<rparr>"

record next_result =
  next_items :: "song_item list"
  next_continuation :: "ustr option"
  lyrics_browse :: "ustr option"
  automix_playlist_id :: "ustr option"
  next_rating :: "rating option"

definition lyrics_browse_id :: "json \<Rightarrow> ustr option" where
  "lyrics_browse_id doc =
     find_map (\<lambda>be. if find_first_str be ''pageType'' = Some (lit ''MUSIC_PAGE_TYPE_TRACK_LYRICS'')
                   then Option.bind (jget be ''browseId'') jstr else None) (find_all doc ''browseEndpoint'')"

definition parse_next :: "json \<Rightarrow> next_result" where
  "parse_next doc =
     \<lparr>next_items = List.map_filter parse_panel_video (find_all doc ''playlistPanelVideoRenderer''),
      next_continuation = find_first_str doc ''continuation'',
      lyrics_browse = lyrics_browse_id doc,
      automix_playlist_id = find_map (\<lambda>n. find_first_str n ''playlistId'') (find_all doc ''automixPreviewVideoRenderer''),
      next_rating = Option.bind (jget doc ''playerOverlays'') like_status\<rparr>"

text \<open>\<open>InnerTube::next\<close>, from the body of the answer: video rows are dropped, but for the one asked for.\<close>

definition next_answer :: "ustr option \<Rightarrow> json \<Rightarrow> next_result" where
  "next_answer wanted body =
     (let r = parse_next body in r\<lparr>next_items := filter (\<lambda>i. \<not> is_video i \<or> Some (video_id i) = wanted) (next_items r)\<rparr>)"

section \<open>Accounts\<close>

record account_info =
  account_name :: "ustr option"
  account_handle :: "ustr option"
  account_email :: "ustr option"
  account_thumbnail :: "ustr option"
  account_channel :: "ustr option"
  account_sync_id :: "ustr option"
  account_visitor :: "ustr option"

record account_identity =
  identity_name :: ustr
  identity_handle :: "ustr option"
  identity_email :: "ustr option"
  identity_thumbnail :: "ustr option"
  identity_channel :: "ustr option"
  data_sync_id :: ustr
  is_selected :: bool

definition channel_browse_id :: "json \<Rightarrow> ustr option" where
  "channel_browse_id node =
     find_map (\<lambda>e. Option.bind (Option.bind (jget e ''browseId'') jstr) (\<lambda>id. if starts_with (lit ''UC'') id then Some id else None))
       (find_all node ''browseEndpoint'')"

definition response_data_sync_id :: "json \<Rightarrow> ustr option" where
  "response_data_sync_id doc =
     Option.bind (Option.bind (Option.bind (jpath doc [''responseContext'', ''mainAppWebResponseContext''])
       (\<lambda>m. jfirst m [''datasyncId'', ''dataSyncId''])) jstr) normalize_data_sync_id"

definition parse_account_menu :: "json \<Rightarrow> account_info" where
  "parse_account_menu doc =
     (let header = jnth 0 (find_all doc ''activeAccountHeaderRenderer'');
          text = (\<lambda>k. Option.bind header (\<lambda>h. account_text (jget h k)))
      in \<lparr>account_name = text ''accountName'', account_handle = text ''channelHandle'', account_email = text ''email'',
          account_thumbnail = Option.bind header last_thumbnail,
          account_channel = Option.bind header channel_browse_id,
          account_sync_id = response_data_sync_id doc,
          account_visitor = (case Option.bind (jpath doc [''responseContext'', ''visitorData'']) jstr of
            Some s \<Rightarrow> if s \<noteq> [] then Some s else None | None \<Rightarrow> None)\<rparr>)"

definition sync_token :: "json \<Rightarrow> ustr option" where
  "sync_token token =
     Option.bind (jfirst token [''datasyncIdToken'', ''dataSyncIdToken'']) (\<lambda>v.
     Option.bind (Option.bind (jfirst v [''datasyncIdToken'', ''datasyncId'', ''dataSyncId'']) jstr) normalize_data_sync_id)"

definition page_token :: "json \<Rightarrow> ustr option" where
  "page_token token = Option.bind (Option.bind (jpath token [''pageIdToken'', ''pageId'']) jstr) nonempty_string"

definition or_option :: "'a option \<Rightarrow> 'a option \<Rightarrow> 'a option" where
  "or_option a b = (case a of Some x \<Rightarrow> Some x | None \<Rightarrow> b)"

definition parse_account_identity :: "json \<Rightarrow> ustr option \<Rightarrow> ustr option \<Rightarrow> account_identity option" where
  "parse_account_identity item email response_id =
     (if Option.bind (jget item ''isDisabled'') jbool = Some True \<or> Option.bind (jget item ''hasChannel'') jbool = Some False
      then None
      else Option.bind (account_text (jget item ''accountName'')) (\<lambda>name.
           Option.bind (jpath item [''serviceEndpoint'', ''selectActiveIdentityEndpoint'']) (\<lambda>endpoint.
             let tokens = (case Option.bind (jget endpoint ''supportedTokens'') jarr of Some ts \<Rightarrow> ts | None \<Rightarrow> []);
                 sel = (case Option.bind (jget item ''isSelected'') jbool of Some b \<Rightarrow> b | None \<Rightarrow> False)
             in Option.bind (or_option (find_map sync_token tokens) (or_option (find_map page_token tokens)
                  (if sel then response_id else None))) (\<lambda>id.
                Some \<lparr>identity_name = name, identity_handle = account_text (jget item ''channelHandle''),
                  identity_email = Option.bind email nonempty_string, identity_thumbnail = last_thumbnail item,
                  identity_channel = channel_browse_id item, data_sync_id = id, is_selected = sel\<rparr>))))"

definition push_account_identity :: "json \<Rightarrow> ustr option \<Rightarrow> ustr option \<Rightarrow> account_identity list \<Rightarrow> account_identity list" where
  "push_account_identity item email response_id ids =
     (case parse_account_identity item email response_id of
        None \<Rightarrow> ids
      | Some i \<Rightarrow> if list_all (\<lambda>x. data_sync_id x \<noteq> data_sync_id i) ids then ids @ [i] else ids)"

definition section_identities :: "ustr option \<Rightarrow> json \<Rightarrow> account_identity list \<Rightarrow> account_identity list" where
  "section_identities response_id sec ids =
     (let email = find_map (\<lambda>h. account_text (jget h ''email'')) (find_all sec ''googleAccountHeaderRenderer'')
      in foldl (\<lambda>ids item. push_account_identity item email response_id ids) ids (find_all sec ''accountItem''))"

definition parse_account_identities :: "json \<Rightarrow> account_identity list" where
  "parse_account_identities doc =
     (let response_id = response_data_sync_id doc;
          sections = find_all doc ''accountSectionListRenderer''
      in if sections = []
         then foldl (\<lambda>ids item. push_account_identity item None response_id ids) [] (find_all doc ''accountItem'')
         else foldl (\<lambda>ids sec. section_identities response_id sec ids) [] sections)"

section \<open>Lyrics pages\<close>

definition timed_entry :: "json \<Rightarrow> (nat \<times> ustr) option" where
  "timed_entry e =
     Option.bind (Option.bind (jget e ''lyricLine'') jstr) (\<lambda>text.
     Option.bind (Option.bind (Option.bind (jpath e [''cueRange'', ''startTimeMilliseconds'']) jstr) parse_u64) (\<lambda>ms.
     Some (ms, text)))"

fun first_block :: "json list \<Rightarrow> (nat \<times> ustr) list" where
  "first_block [] = []"
| "first_block (d # ds) =
     (let out = (case jarr d of Some es \<Rightarrow> List.map_filter timed_entry es | None \<Rightarrow> [])
      in if out \<noteq> [] then out else first_block ds)"

definition parse_lyrics_timed :: "json \<Rightarrow> (nat \<times> ustr) list" where
  "parse_lyrics_timed doc = first_block (find_all doc ''timedLyricsData'')"

record plain_page =
  page_text :: ustr
  page_footer :: "ustr option"

definition parse_lyrics_plain :: "json \<Rightarrow> plain_page option" where
  "parse_lyrics_plain doc =
     Option.bind (jnth 0 (find_all doc ''musicDescriptionShelfRenderer'')) (\<lambda>shelf.
     Option.bind (runs_text (jget shelf ''description'')) (\<lambda>text.
     Some \<lparr>page_text = text, page_footer = runs_text (jget shelf ''footer'')\<rparr>))"

section \<open>The artist links and the artist's name\<close>

definition field_group :: "artist_run list \<Rightarrow> subtitle_group" where
  "field_group f = \<lparr>group_text = concat (map run_text f), artist_link = linked f\<rparr>"

definition trimmed_group :: "artist_run list \<Rightarrow> subtitle_group" where
  "trimmed_group f = \<lparr>group_text = trim (concat (map run_text f)), artist_link = linked f\<rparr>"

lemma trimmed_group_simps [simp]: "group_text (trimmed_group f) = trim (concat (map run_text f))"
  "artist_link (trimmed_group f) = linked f"
  by (simp_all add: trimmed_group_def)

lemma linked_simps [simp]: "\<not> linked []" "linked (f @ g) \<longleftrightarrow> linked f \<or> linked g" "linked [r] \<longleftrightarrow> run_id r \<noteq> None"
  by (simp_all add: linked_def)

lemma group_loop_fields: "group_loop (field_group cur) runs = map field_group (run_fields cur runs)"
proof (induction runs arbitrary: cur)
  case (Cons r runs)
  have "group_loop \<lparr>group_text = group_text (field_group cur) @ run_str r,
        artist_link = (artist_link (field_group cur) \<or> first_artist_id [r] \<noteq> None)\<rparr> runs =
      map field_group (run_fields (cur @ [\<lparr>run_text = run_str r, run_id = first_artist_id [r]\<rparr>]) runs)"
    using Cons [of "cur @ [\<lparr>run_text = run_str r, run_id = first_artist_id [r]\<rparr>]"] by (simp add: field_group_def)
  moreover have "group_loop \<lparr>group_text = [], artist_link = False\<rparr> runs = map field_group (run_fields [] runs)"
    using Cons [of "[]"] by (simp add: field_group_def)
  ultimately show ?case by simp
qed simp

lemma subtitle_groups_fields: "subtitle_groups runs = map trimmed_group (run_fields [] runs)"
  using group_loop_fields [of "[]" runs] by (simp add: subtitle_groups_def field_group_def trimmed_group_def)

lemma drop_label_fields: "drop_label (map trimmed_group fs) = map trimmed_group (drop_label_field fs)"
  by (cases fs) (auto simp: list_ex_iff)

lemma split_subtitle_fields:
  "split_subtitle (Some runs) =
     (let gs = map (\<lambda>f. trim (concat (map run_text f))) (drop_label_field (run_fields [] runs));
          dur = find is_duration (rev gs)
      in (case gs of [] \<Rightarrow> [] | g # _ \<Rightarrow> g,
          (if 1 < length gs \<and> Some (gs ! 1) \<noteq> dur then Some (gs ! 1) else None), dur))"
proof -
  have "map group_text (drop_label (subtitle_groups runs)) =
      map (\<lambda>f. trim (concat (map run_text f))) (drop_label_field (run_fields [] runs))"
    by (simp add: subtitle_groups_fields drop_label_fields)
  then show ?thesis by (simp only: split_subtitle_def option.case)
qed

text \<open>C28: The links of an artist line spell the artist's name: where a row carries any, their texts in order are, but for
  white space at the ends, the name the row shows and the scrobbler sends.\<close>

theorem artist_links_spell_the_name:
  assumes "row_artist_runs runs \<noteq> []"
  shows "trim (concat (map run_text (row_artist_runs runs))) = fst (split_subtitle (Some runs))"
  using assms by (auto simp: row_artist_runs_def split_subtitle_fields Let_def split: list.splits if_splits)

definition text_run :: "ustr \<times> ustr option \<Rightarrow> json" where
  "text_run = (\<lambda>(t, link). JObj ((lit ''text'', JStr t) # (case link of None \<Rightarrow> []
     | Some i \<Rightarrow> [(lit ''navigationEndpoint'', JObj [(lit ''browseEndpoint'', JObj [(lit ''browseId'', JStr i)])])])))"

definition bullet_run :: json where
  "bullet_run = text_run ([32, 8226, 32], None)"

fun join_fields :: "(ustr \<times> ustr option) list list \<Rightarrow> json list" where
  "join_fields [] = []"
| "join_fields [f] = map text_run f"
| "join_fields (f # fs) = map text_run f @ bullet_run # join_fields fs"

definition plain_run :: "ustr \<times> ustr option \<Rightarrow> bool" where
  "plain_run = (\<lambda>(t, link). \<not> is_bullet t \<and> (case link of Some i \<Rightarrow> starts_with (lit ''UC'') i | None \<Rightarrow> True))"

definition as_run :: "ustr \<times> ustr option \<Rightarrow> artist_run" where
  "as_run = (\<lambda>(t, link). \<lparr>run_text = t, run_id = link\<rparr>)"

lemma lit_eq_iff [simp]: "lit a = lit b \<longleftrightarrow> a = b"
  unfolding lit_def by (rule inj_map_eq_map) (auto intro: injI)

lemma text_run_fields: "plain_run x \<Longrightarrow> run_str (text_run x) = fst x \<and> first_artist_id [text_run x] = snd x"
  by (auto simp: text_run_def run_str_def first_artist_id_def run_artist_def plain_run_def split: option.splits)

lemma bullet_run_str [simp]: "is_bullet (run_str bullet_run)"
  by (simp add: bullet_run_def text_run_def run_str_def is_bullet_def trim_def trim_matches_def trim_end_matches_def
      trim_start_matches_def is_whitespace_def)

lemma run_fields_texts:
  "list_all plain_run f \<Longrightarrow> run_fields cur (map text_run f @ rest) = run_fields (cur @ map as_run f) rest"
proof (induction f arbitrary: cur)
  case (Cons x f)
  then have "\<not> is_bullet (run_str (text_run x))" "first_artist_id [text_run x] = snd x" "run_str (text_run x) = fst x"
    using text_run_fields [of x] by (auto simp: plain_run_def)
  with Cons show ?case by (simp add: as_run_def split_beta)
qed simp

lemma run_fields_join:
  "list_all (list_all plain_run) (f # fs) \<Longrightarrow>
    run_fields cur (join_fields (f # fs)) = (cur @ map as_run f) # map (map as_run) fs"
proof (induction fs arbitrary: cur f)
  case Nil
  then show ?case using run_fields_texts [of f cur "[]"] by simp
next
  case (Cons g fs)
  then show ?case by (simp add: run_fields_texts)
qed

definition field_str :: "(ustr \<times> ustr option) list \<Rightarrow> ustr" where
  "field_str f = trim (concat (map fst f))"

definition links_artist :: "(ustr \<times> ustr option) list \<Rightarrow> bool" where
  "links_artist f = list_ex (\<lambda>x. snd x \<noteq> None) f"

lemma as_run_field: "trim (concat (map run_text (map as_run f))) = field_str f" "linked (map as_run f) = links_artist f"
proof -
  have "map run_text (map as_run f) = map fst f" by (induction f) (auto simp: as_run_def)
  then show "trim (concat (map run_text (map as_run f))) = field_str f" by (simp only: field_str_def)
  show "linked (map as_run f) = links_artist f"
    by (induction f) (auto simp: as_run_def linked_def links_artist_def split_beta)
qed

text \<open>A row's subtitle: a type label that may be missing, the artists, and an album and a length that may.\<close>

definition opt_field :: "ustr option \<Rightarrow> (ustr \<times> ustr option) list list" where
  "opt_field t = (case t of Some s \<Rightarrow> [[(s, None)]] | None \<Rightarrow> [])"

definition subtitle :: "ustr option \<Rightarrow> (ustr \<times> ustr option) list \<Rightarrow> ustr option \<Rightarrow> ustr option \<Rightarrow> json list" where
  "subtitle label arts alb dur = join_fields (opt_field label @ arts # opt_field alb @ opt_field dur)"

lemma subtitle_read_back:
  assumes "list_all plain_run arts" "\<And>l. label = Some l \<Longrightarrow> trim l = l \<and> \<not> is_bullet l \<and> (is_type_label l \<or> links_artist arts)"
    and "label = None \<Longrightarrow> links_artist arts \<or> \<not> is_type_label (field_str arts)"
    and "\<not> is_duration (field_str arts)" "\<And>a. alb = Some a \<Longrightarrow> trim a = a \<and> \<not> is_bullet a \<and> \<not> is_duration a"
    and "\<And>d. dur = Some d \<Longrightarrow> trim d = d \<and> is_duration d"
  shows "split_subtitle (Some (subtitle label arts alb dur)) = (field_str arts, alb, dur)"
proof -
  have "\<not> is_bullet d" if "dur = Some d" for d
  proof
    assume "is_bullet d"
    with assms(6) [OF that] show False by (auto simp: is_bullet_def is_duration_def)
  qed
  with assms(1,2,5) have plain: "list_all (list_all plain_run) (opt_field label @ arts # opt_field alb @ opt_field dur)"
    by (auto simp: opt_field_def plain_run_def split: option.split)
  have fields: "run_fields [] (subtitle label arts alb dur) = map (map as_run) (opt_field label @ arts # opt_field alb @ opt_field dur)"
    using plain run_fields_join [of "hd (opt_field label @ arts # opt_field alb @ opt_field dur)"
        "tl (opt_field label @ arts # opt_field alb @ opt_field dur)" "[]"]
    by (simp add: subtitle_def opt_field_def split: option.split)
  have plain_text: "trim (concat (map run_text (map as_run [(t, None)]))) = trim t" "\<not> linked (map as_run [(t, None)])" for t
    by (simp_all only: as_run_field) (simp_all add: field_str_def links_artist_def)
  have drop: "drop_label_field (map (map as_run) (opt_field label @ arts # opt_field alb @ opt_field dur)) =
      map (map as_run) (arts # opt_field alb @ opt_field dur)"
  proof (cases label)
    case None
    with assms(3) plain_text show ?thesis
      by (auto simp: opt_field_def as_run_field simp del: map_map split: option.split)
  next
    case (Some l)
    with assms(2) [OF Some] plain_text [of l] show ?thesis
      by (auto simp: opt_field_def as_run_field simp del: map_map)
  qed
  show ?thesis
    unfolding split_subtitle_fields fields drop
    using assms(4,5,6) plain_text(1)
    by (cases alb; cases dur) (auto simp: opt_field_def Let_def as_run_field simp del: map_map)
qed


lemmas text_eval = trim_def trim_matches_def trim_end_matches_def trim_start_matches_def is_whitespace_def lit_Cons
  is_bullet_def is_ascii_digit_def starts_with_def


theorem artist_links_spell_the_name_witness:
  "trim (concat (map run_text (row_artist_runs [text_run (lit ''Artist'', Some (lit ''UC1''))]))) =
    fst (split_subtitle (Some [text_run (lit ''Artist'', Some (lit ''UC1''))]))"
proof (rule artist_links_spell_the_name)
  have "trim (lit ''Artist'') = lit ''Artist''" by (simp add: trim_keeps is_whitespace_def lit_Cons)
  then have "plain_run (lit ''Artist'', Some (lit ''UC1''))"
    by (simp add: plain_run_def is_bullet_def starts_with_def lit_Cons)
  then have "run_fields [] (join_fields [[(lit ''Artist'', Some (lit ''UC1''))]]) = [[as_run (lit ''Artist'', Some (lit ''UC1''))]]"
    by (subst run_fields_join) simp_all
  then show "row_artist_runs [text_run (lit ''Artist'', Some (lit ''UC1''))] \<noteq> []"
    by (simp add: row_artist_runs_def linked_def as_run_def)
qed

text \<open>An album whose name is written like a length is taken for the row's length.\<close>

theorem album_named_like_a_length:
  "split_subtitle (Some (subtitle None [(lit ''JAY-Z'', Some (lit ''UC1''))] (Some (lit ''4:44'')) None)) =
    (lit ''JAY-Z'', None, Some (lit ''4:44''))"
proof -
  let ?arts = "[(lit ''JAY-Z'', Some (lit ''UC1''))]"
  have f: "field_str ?arts = lit ''JAY-Z''" by (simp add: field_str_def text_eval)
  have a: "list_all plain_run ?arts" "links_artist ?arts" by (simp_all add: plain_run_def text_eval links_artist_def)
  have d: "trim (lit ''4:44'') = lit ''4:44''" "is_duration (lit ''4:44'')" "\<not> is_duration (lit ''JAY-Z'')"
    by (simp_all add: text_eval is_duration_def)
  have "subtitle None ?arts (Some (lit ''4:44'')) None = subtitle None ?arts None (Some (lit ''4:44''))"
    by (simp add: subtitle_def opt_field_def)
  moreover have "split_subtitle (Some (subtitle None ?arts None (Some (lit ''4:44'')))) = (field_str ?arts, None, Some (lit ''4:44''))"
    by (rule subtitle_read_back) (use a d in \<open>simp_all only: f option.inject option.distinct simp_thms\<close>)
  ultimately show ?thesis by (simp only: f)
qed

section \<open>Identities\<close>

lemma account_text_nonempty: "account_text v = Some t \<Longrightarrow> t \<noteq> []"
  by (auto simp: account_text_def runs_text_opt_def nonempty_string_def Let_def bind_eq_Some_conv
      split: option.splits if_splits)

lemma nonempty_string_Some: "nonempty_string r = Some t \<Longrightarrow> t \<noteq> []"
  by (auto simp: nonempty_string_def split: if_splits)

lemma identity_is_usable:
  assumes "parse_account_identity item email rid = Some i" "\<And>r. rid = Some r \<Longrightarrow> r \<noteq> []"
  shows "data_sync_id i \<noteq> []" "identity_name i \<noteq> []"
proof -
  have tokens: "sync_token t = Some x \<Longrightarrow> x \<noteq> []" "page_token t = Some x \<Longrightarrow> x \<noteq> []" for t x
    by (auto simp: sync_token_def page_token_def normalize_data_sync_id_def bind_eq_Some_conv dest: nonempty_string_Some)
  have some_id: "x \<noteq> []" if "or_option (find_map sync_token ts) (or_option (find_map page_token ts) r) = Some x"
      "r = None \<or> r = rid" for ts r x
    using that tokens assms(2) by (auto simp: or_option_def split: option.splits dest!: find_map_Some)
  from assms(1) show "data_sync_id i \<noteq> []"
    by (auto simp: parse_account_identity_def bind_eq_Some_conv Let_def split: if_splits dest: some_id)
  from assms(1) show "identity_name i \<noteq> []"
    by (auto simp: parse_account_identity_def bind_eq_Some_conv Let_def split: if_splits dest: account_text_nonempty)
qed

definition identities_ok :: "account_identity list \<Rightarrow> bool" where
  "identities_ok ids \<longleftrightarrow> distinct (map data_sync_id ids) \<and> list_all (\<lambda>i. data_sync_id i \<noteq> [] \<and> identity_name i \<noteq> []) ids"

lemma push_identity_ok:
  "identities_ok ids \<Longrightarrow> (\<And>r. rid = Some r \<Longrightarrow> r \<noteq> []) \<Longrightarrow> identities_ok (push_account_identity item email rid ids)"
  using identity_is_usable [of item email rid]
  by (auto simp: identities_ok_def push_account_identity_def list_all_iff split: option.split)

lemma foldl_keeps: "P a \<Longrightarrow> (\<And>a x. P a \<Longrightarrow> P (f a x)) \<Longrightarrow> P (foldl f a xs)"
  by (induction xs arbitrary: a) auto

text \<open>The identities offered for signing in are different from each other and each can be chosen: it has a name and an
  id the server issued.\<close>

theorem identities_are_selectable:
  "distinct (map data_sync_id (parse_account_identities doc)) \<and>
   list_all (\<lambda>i. data_sync_id i \<noteq> [] \<and> identity_name i \<noteq> []) (parse_account_identities doc)"
proof -
  have rid: "\<And>r. response_data_sync_id doc = Some r \<Longrightarrow> r \<noteq> []"
    by (auto simp: response_data_sync_id_def normalize_data_sync_id_def bind_eq_Some_conv dest: nonempty_string_Some)
  have start: "identities_ok []" by (simp add: identities_ok_def)
  have items: "identities_ok ids \<Longrightarrow>
      identities_ok (foldl (\<lambda>ids item. push_account_identity item email (response_data_sync_id doc) ids) ids its)" for ids email its
    by (rule foldl_keeps) (use rid in \<open>auto intro: push_identity_ok\<close>)
  have "identities_ok (foldl (\<lambda>ids sec. section_identities (response_data_sync_id doc) sec ids) [] secs)" for secs
    by (rule foldl_keeps) (simp_all add: start items section_identities_def Let_def)
  then have "identities_ok (parse_account_identities doc)"
    by (simp add: parse_account_identities_def Let_def items start)
  then show ?thesis by (simp add: identities_ok_def)
qed

end
