(* ===== verification/Player_Response.thy ===== *)
theory Player_Response
  imports Response_Rows "HOL-Library.Product_Lexorder" "HOL-Library.List_Lexorder"
begin

text \<open>
  The \<open>/player\<close> response (crates/innertube/src/models/player.rs): the verdict on a video, its formats and the choice
  among them; the client registry (crates/innertube/src/clients.rs); and \<open>PlaybackData\<close>, what a resolved track hands
  to the player (crates/core/src/orchestrator.rs). Deserialisation is serde's and is not modelled.
\<close>

section \<open>The response\<close>

record playability =
  ps_status :: ustr
  ps_reason :: "ustr option"

definition play_ok :: "playability \<Rightarrow> bool" where
  "play_ok s \<longleftrightarrow> ps_status s = lit ''OK''"

definition is_age_gated :: "playability \<Rightarrow> bool" where
  "is_age_gated s \<longleftrightarrow> ps_status s \<in> {lit ''AGE_CHECK_REQUIRED'', lit ''AGE_VERIFICATION_REQUIRED'',
     lit ''LOGIN_REQUIRED'', lit ''CONTENT_CHECK_REQUIRED''}"

definition is_bot_gate :: "playability \<Rightarrow> bool" where
  "is_bot_gate s \<longleftrightarrow> ps_status s = lit ''LOGIN_REQUIRED'' \<and>
     (case ps_reason s of
        Some r \<Rightarrow> contains (lit ''not a bot'') (to_ascii_lowercase r) \<or> contains (lit ''confirm you'') (to_ascii_lowercase r)
      | None \<Rightarrow> False)"

record stream_format =
  f_itag :: int
  f_url :: "ustr option"
  f_mime :: ustr
  f_bitrate :: int
  f_width :: "int option"
  f_height :: "int option"
  f_fps :: "int option"
  f_quality :: "ustr option"
  f_channels :: "int option"
  f_loudness :: "rat option"
  f_signature_cipher :: "ustr option"
  f_cipher :: "ustr option"
  f_auto_dubbed :: "bool option"

record streaming_data =
  adaptive_formats :: "stream_format list"
  expires_in :: "int option"

record video_details =
  vd_title :: "ustr option"
  vd_author :: "ustr option"
  vd_length :: "ustr option"
  vd_music_type :: "ustr option"
  vd_thumbnails :: "ustr list"

text \<open>\<open>player_config\<close> is here only through the loudness in it, \<open>playback_tracking\<close> through its base URL.\<close>

record player_response =
  pr_status :: playability
  pr_loudness :: "rat option"
  pr_streaming :: "streaming_data option"
  pr_details :: "video_details option"
  pr_tracking :: "ustr option"

definition is_music_video :: "video_details \<Rightarrow> bool option" where
  "is_music_video v = map_option is_video_type (vd_music_type v)"

section \<open>Formats\<close>

definition is_audio_format :: "stream_format \<Rightarrow> bool" where
  "is_audio_format f \<longleftrightarrow> f_width f = None"

definition is_original :: "stream_format \<Rightarrow> bool" where
  "is_original f \<longleftrightarrow> f_auto_dubbed f = None"

definition direct_url :: "stream_format \<Rightarrow> ustr option" where
  "direct_url f = (if f_signature_cipher f \<noteq> None \<or> f_cipher f \<noteq> None then None else f_url f)"

definition cipher_string :: "stream_format \<Rightarrow> ustr option" where
  "cipher_string f = (case f_signature_cipher f of Some c \<Rightarrow> Some c | None \<Rightarrow> f_cipher f)"

definition quality_rank :: "stream_format \<Rightarrow> int" where
  "quality_rank f =
     (if f_quality f = Some (lit ''AUDIO_QUALITY_HIGH'') then 3
      else if f_quality f = Some (lit ''AUDIO_QUALITY_MEDIUM'') then 2
      else if f_quality f = Some (lit ''AUDIO_QUALITY_LOW'') then 1 else 0)"

definition codec_score :: "stream_format \<Rightarrow> int" where
  "codec_score f = (if contains (lit ''opus'') (f_mime f) then 2 else if contains (lit ''mp4a'') (f_mime f) then 1 else 0)"

definition or_else_int :: "int \<Rightarrow> int option \<Rightarrow> int" where
  "or_else_int d x = (case x of Some n \<Rightarrow> n | None \<Rightarrow> d)"

text \<open>\<open>Iterator::max_by\<close>: the last of the greatest.\<close>

fun last_max :: "('a \<Rightarrow> 'k::linorder) \<Rightarrow> 'a list \<Rightarrow> 'a option" where
  "last_max k [] = None" |
  "last_max k (x # xs) = (case last_max k xs of None \<Rightarrow> Some x | Some y \<Rightarrow> Some (if k y < k x then x else y))"

datatype audio_quality = QHigh | QLow | QAuto

type_synonym quality_key = "int \<times> int \<times> int \<times> int"

definition high_key :: "stream_format \<Rightarrow> quality_key" where
  "high_key f = (quality_rank f, or_else_int 2 (f_channels f), codec_score f, f_bitrate f)"

definition LOW_BITRATE_CAP :: int where "LOW_BITRATE_CAP = 128000"

definition find_format :: "streaming_data \<Rightarrow> audio_quality \<Rightarrow> stream_format option" where
  "find_format sd q =
     (let audio = filter is_audio_format (adaptive_formats sd) in
      if audio = [] then None
      else case q of
        QLow \<Rightarrow>
          (let capped = filter (\<lambda>f. f_bitrate f \<le> LOW_BITRATE_CAP) audio;
               pool = (if capped = [] then audio else capped)
           in last_max (\<lambda>f. (is_original f, f_bitrate f)) pool)
      | _ \<Rightarrow> last_max high_key audio)"

definition find_video_format :: "streaming_data \<Rightarrow> int \<Rightarrow> stream_format option" where
  "find_video_format sd max_height =
     last_max (\<lambda>f. (or_else_int 0 (f_height f), or_else_int 30 (f_fps f), f_bitrate f))
       (filter (\<lambda>f. \<not> is_audio_format f \<and> contains (lit ''vp9'') (f_mime f) \<and>
          (case f_height f of Some h \<Rightarrow> h \<le> max_height | None \<Rightarrow> False)) (adaptive_formats sd))"

section \<open>Clients\<close>

record yt_client =
  yc_user_agent :: ustr
  yc_login_required :: bool
  yc_signature_timestamp :: bool
  yc_web_po_tokens :: bool

definition MAIN_CLIENT :: ustr where "MAIN_CLIENT = lit ''WEB_REMIX''"
definition STREAM_FALLBACK_ORDER :: "ustr list" where
  "STREAM_FALLBACK_ORDER = [lit ''VISIONOS'', lit ''ANDROID_VR_1_65_10'', lit ''ANDROID_VR_1_43_32'']"
definition UPLOAD_FALLBACK_ORDER :: "ustr list" where
  "UPLOAD_FALLBACK_ORDER = [lit ''TVHTML5'', lit ''WEB_CREATOR'']"

section \<open>What a resolved track hands to the player\<close>

record playback_ping =
  pp_url :: ustr
  pp_client :: ustr

record resolved_stream =
  pd_video :: ustr
  pd_url :: ustr
  pd_itag :: int
  pd_options :: "ustr list"
  pd_headers :: "(ustr \<times> ustr) list"
  pd_expires_in :: int
  pd_loudness :: "rat option"
  pd_ping :: "playback_ping option"
  pd_title :: "ustr option"
  pd_artists :: "ustr option"
  pd_duration :: "ustr option"
  pd_thumbnail :: "ustr option"
  pd_is_video :: "bool option"
  pd_client :: ustr

datatype resolve_failure = AllClientsFailed ustr | BotGated ustr | UploadUnavailable ustr | SignInRequired ustr
  | LocalMissing ustr

text \<open>A stream with nothing known but where it is.\<close>

definition plain_stream :: "ustr \<Rightarrow> ustr \<Rightarrow> ustr \<Rightarrow> resolved_stream" where
  "plain_stream v url client = \<lparr>pd_video = v, pd_url = url, pd_itag = 0, pd_options = [], pd_headers = [],
     pd_expires_in = 0, pd_loudness = None, pd_ping = None, pd_title = None, pd_artists = None, pd_duration = None,
     pd_thumbnail = None, pd_is_video = Some False, pd_client = client\<rparr>"

section \<open>The choice is the best\<close>

lemma last_max_eq_None [simp]: "last_max k xs = None \<longleftrightarrow> xs = []"
  by (cases xs) (auto split: option.split)

lemma last_max_Some: "last_max k xs = Some y \<Longrightarrow> y \<in> set xs \<and> (\<forall>x \<in> set xs. k x \<le> k y)"
  by (induction xs arbitrary: y) (fastforce split: option.splits if_splits)+

lemma last_max_later:
  "last_max k xs = Some y \<Longrightarrow> \<exists>as bs. xs = as @ y # bs \<and> (\<forall>x \<in> set bs. k x < k y)"
proof (induction xs arbitrary: y)
  case (Cons x xs)
  show ?case
  proof (cases "last_max k xs")
    case None
    with Cons.prems show ?thesis by (intro exI [of _ "[]"] exI [of _ xs]) simp
  next
    case (Some z)
    show ?thesis
    proof (cases "k z < k x")
      case True
      then have "y = x" using Cons.prems Some by simp
      moreover have "\<forall>w \<in> set xs. k w < k x"
        using last_max_Some [OF Some] True by (auto intro: le_less_trans)
      ultimately show ?thesis by (intro exI [of _ "[]"] exI [of _ xs]) simp
    next
      case False
      then have "y = z" using Cons.prems Some by simp
      with Cons.IH [OF Some] obtain as bs where "xs = as @ y # bs" "\<forall>w \<in> set bs. k w < k y" by blast
      then show ?thesis by (intro exI [of _ "x # as"] exI [of _ bs]) simp
    qed
  qed
qed simp

lemma find_format_audio: "find_format sd q = Some f \<Longrightarrow> f \<in> set (adaptive_formats sd) \<and> is_audio_format f"
  by (auto simp: find_format_def Let_def split: audio_quality.splits if_splits dest!: last_max_Some)

lemma find_format_None: "find_format sd q = None \<longleftrightarrow> \<not> (\<exists>f \<in> set (adaptive_formats sd). is_audio_format f)"
  by (auto simp: find_format_def Let_def filter_empty_conv split: audio_quality.splits)

lemma find_format_high:
  "find_format sd q = Some f \<Longrightarrow> q \<noteq> QLow \<Longrightarrow> g \<in> set (adaptive_formats sd) \<Longrightarrow> is_audio_format g \<Longrightarrow>
    high_key g \<le> high_key f"
  by (cases q) (auto simp: find_format_def Let_def split: if_splits dest!: last_max_Some)

lemma find_format_low:
  assumes "find_format sd QLow = Some f" "g \<in> set (adaptive_formats sd)" "is_audio_format g" "f_bitrate g \<le> LOW_BITRATE_CAP"
  shows "f_bitrate f \<le> LOW_BITRATE_CAP \<and> (is_original g, f_bitrate g) \<le> (is_original f, f_bitrate f)"
proof -
  let ?audio = "filter is_audio_format (adaptive_formats sd)"
  let ?capped = "filter (\<lambda>f. f_bitrate f \<le> LOW_BITRATE_CAP) ?audio"
  have ne: "g \<in> set ?capped" using assms(2-4) by simp
  then have c: "?capped \<noteq> []" and a: "?audio \<noteq> []" by (auto simp: filter_empty_conv)
  have "last_max (\<lambda>f. (is_original f, f_bitrate f)) ?capped = Some f"
    using assms(1) c a by (simp add: find_format_def Let_def)
  from last_max_Some [OF this] ne show ?thesis by fastforce
qed

end
