(* ===== verification/Lyrics_Text.thy ===== *)
theory Lyrics_Text
  imports Json "HOL-Library.Option_ord"
begin

text \<open>
  Lyrics as text (crates/core/src/lyrics.rs): LRC and its word-timed extension, TTML, the JSON shapes, and the
  merging of a word-timed source into a line-timed one. Times are \<open>u64\<close> milliseconds whose arithmetic wraps, as in a
  release build. \<open>f64\<close> parsing and the JSON parser are parameters.
\<close>

section \<open>Lines\<close>

record lyric_word =
  word_text :: ustr
  start_ms :: nat
  end_ms :: nat

record lyric_line =
  time_ms :: "nat option"
  end_time_ms :: "nat option"
  line_text :: ustr
  line_words :: "lyric_word list option"
  translation :: "ustr option"
  romanized :: "ustr option"

definition simple_line :: "nat option \<Rightarrow> ustr \<Rightarrow> lyric_line" where
  "simple_line t s = \<lparr>time_ms = t, end_time_ms = None, line_text = s, line_words = None, translation = None,
     romanized = None\<rparr>"

record lyrics =
  lyrics_source :: ustr
  synced :: bool
  instrumental :: bool
  lyric_lines :: "lyric_line list"

definition u64_wrap :: "nat \<Rightarrow> nat" where
  "u64_wrap n = n mod 2 ^ 64"

section \<open>LRC\<close>

definition trim_start :: "ustr \<Rightarrow> ustr" where
  "trim_start = trim_start_matches is_whitespace"

definition trim_end :: "ustr \<Rightarrow> ustr" where
  "trim_end = trim_end_matches is_whitespace"

definition parse_lrc_time :: "ustr \<Rightarrow> nat option" where
  "parse_lrc_time tag =
     Option.bind (split_once 58 tag) (\<lambda>(m, rest).
     Option.bind (parse_u64 (trim m)) (\<lambda>m.
     let (s, frac) = (case split_once 46 rest of Some (s, f) \<Rightarrow> (s, Some f) | None \<Rightarrow> (rest, None))
     in Option.bind (parse_u64 (trim s)) (\<lambda>s.
     Option.bind (case frac of
         None \<Rightarrow> Some 0
       | Some f \<Rightarrow> (let digits = take 3 (filter is_ascii_digit f)
                   in map_option (\<lambda>v. if length digits = 1 then v * 100 else if length digits = 2 then v * 10 else v)
                        (parse_u64 digits))) (\<lambda>ms.
     Some (u64_wrap (u64_wrap (u64_wrap (m * 60) + s) * 1000 + ms))))))"

lemma length_split_once: "split_once d s = Some (a, b) \<Longrightarrow> length b < length s"
  by (drule split_once_Some(1)) simp

lemma length_trim_start: "length (trim_start s) \<le> length s"
  by (simp add: trim_start_def trim_start_matches_def length_dropWhile_le)

text \<open>The tags a line opens with, and the text behind them.\<close>

function lrc_tags :: "ustr \<Rightarrow> nat list \<times> ustr" where
  "lrc_tags rest =
     (case strip_prefix [91] rest of
        None \<Rightarrow> ([], rest)
      | Some after \<Rightarrow> (case split_once 93 after of
          None \<Rightarrow> ([], rest)
        | Some (tag, behind) \<Rightarrow> (case parse_lrc_time tag of
            None \<Rightarrow> ([], rest)
          | Some ms \<Rightarrow> (let (times, text) = lrc_tags (trim_start behind) in (ms # times, text)))))"
  by auto

termination
  by (relation "measure length")
     (auto simp: strip_prefix_Some dest!: length_split_once intro: le_less_trans [OF length_trim_start])

declare lrc_tags.simps [simp del]

definition lrc_line :: "ustr \<Rightarrow> lyric_line list" where
  "lrc_line raw = (let (times, text) = lrc_tags (trim raw) in map (\<lambda>ms. simple_line (Some ms) text) times)"

definition parse_lrc :: "ustr \<Rightarrow> lyric_line list" where
  "parse_lrc lrc = sort_key time_ms (concat (map lrc_line (str_lines lrc)))"

section \<open>Word times in LRC\<close>

text \<open>The scan of a line's text: what is pushed into the text, and the words.\<close>

function elrc_scan :: "nat \<Rightarrow> ustr \<Rightarrow> ustr \<times> lyric_word list" where
  "elrc_scan last_ms [] = ([], [])"
| "elrc_scan last_ms (c # s) =
     (case (if c = 60 then Option.bind (split_once 62 s) (\<lambda>(tag, after).
              map_option (\<lambda>ms. (ms, after)) (parse_lrc_time tag)) else None) of
        Some (ms, after) \<Rightarrow>
          (let w = takeWhile (\<lambda>d. d \<noteq> 60) after;
               (text, ws) = elrc_scan ms (dropWhile (\<lambda>d. d \<noteq> 60) after)
           in (w @ text, \<lparr>word_text = w, start_ms = last_ms, end_ms = ms\<rparr> # ws))
      | None \<Rightarrow> (let (text, ws) = elrc_scan last_ms s in (c # text, ws)))"
  by pat_completeness auto

termination
proof (relation "measure (length \<circ> snd)")
  fix last_ms c s x ms after w
  assume "(if c = (60::nat) then Option.bind (split_once 62 s) (\<lambda>(tag, after).
      map_option (\<lambda>ms. (ms, after)) (parse_lrc_time tag)) else None) = Some x" "(ms, after) = x"
  then have "length after < length s"
    by (auto split: if_splits bind_splits dest!: length_split_once)
  moreover have "length (dropWhile (\<lambda>d. d \<noteq> 60) after) \<le> length after" by (rule length_dropWhile_le)
  ultimately show "((ms, dropWhile (\<lambda>d. d \<noteq> 60) after), (last_ms, c # s)) \<in> measure (length \<circ> snd)" by simp
qed auto

declare elrc_scan.simps(2) [simp del]

definition elrc_line :: "lyric_line \<Rightarrow> lyric_line" where
  "elrc_line l =
     (if 60 \<in> set (line_text l) \<or> 40 \<in> set (line_text l)
      then (let (text, ws) = elrc_scan (case time_ms l of Some t \<Rightarrow> t | None \<Rightarrow> 0) (line_text l)
            in if ws \<noteq> [] then l\<lparr>line_text := trim text, line_words := Some ws\<rparr> else l)
      else l)"

definition parse_elrc :: "ustr \<Rightarrow> lyric_line list" where
  "parse_elrc lrc = map elrc_line (parse_lrc lrc)"

section \<open>Merging\<close>

definition i64_of :: "nat \<Rightarrow> int" where
  "i64_of n = signed_take_bit 63 (int n)"

definition within_800 :: "nat \<Rightarrow> nat \<Rightarrow> bool" where
  "within_800 a b = (signed_take_bit 63 \<bar>signed_take_bit 63 (i64_of a - i64_of b)\<bar> \<le> 800)"

definition mux_line :: "lyric_line list \<Rightarrow> lyric_line \<Rightarrow> lyric_line" where
  "mux_line src p =
     (case time_ms p of
        None \<Rightarrow> p
      | Some t \<Rightarrow>
          (case find (\<lambda>ws. case time_ms ws of Some u \<Rightarrow> within_800 t u | None \<Rightarrow> False) src of
             None \<Rightarrow> p
           | Some ws \<Rightarrow>
               p\<lparr>line_words := (if line_words p = None \<and> line_words ws \<noteq> None then line_words ws else line_words p),
                 translation := (if translation p = None \<and> translation ws \<noteq> None then translation ws else translation p),
                 end_time_ms := (if end_time_ms p = None \<and> end_time_ms ws \<noteq> None then end_time_ms ws
                                 else end_time_ms p)\<rparr>))"

definition lrc_mux :: "lyric_line list \<Rightarrow> lyric_line list \<Rightarrow> lyric_line list" where
  "lrc_mux primary src = (if src = [] then primary else map (mux_line src) primary)"

section \<open>TTML\<close>

fun strip_tags_loop :: "bool \<Rightarrow> ustr \<Rightarrow> ustr" where
  "strip_tags_loop in_tag [] = []"
| "strip_tags_loop in_tag (c # s) =
     (if c = 60 then strip_tags_loop True s
      else if c = 62 then strip_tags_loop False s
      else if in_tag then strip_tags_loop in_tag s else c # strip_tags_loop in_tag s)"

definition strip_xml_tags :: "ustr \<Rightarrow> ustr" where
  "strip_xml_tags = strip_tags_loop False"

definition parse_xml_attr :: "ustr \<Rightarrow> ustr \<Rightarrow> ustr option" where
  "parse_xml_attr tag attr =
     (case split_at_text (attr @ lit ''='' @ [34]) tag of
        Some (_, r) \<Rightarrow> map_option fst (split_once 34 r)
      | None \<Rightarrow> (case split_at_text (attr @ lit ''='' @ [39]) tag of
          Some (_, r) \<Rightarrow> map_option fst (split_once 39 r)
        | None \<Rightarrow> None))"

text \<open>\<open>(secs * 1000.0) as u64\<close>\<close>

fun seconds_ms :: "f64 \<Rightarrow> nat" where
  "seconds_ms (Fin q) = nat (min (2 ^ 64 - 1) \<lfloor>q * 1000\<rfloor>)"
| "seconds_ms PosInf = 2 ^ 64 - 1"
| "seconds_ms _ = 0"

definition parse_ttml_time :: "(ustr \<Rightarrow> f64 option) \<Rightarrow> ustr \<Rightarrow> nat option" where
  "parse_ttml_time parse_f64 raw =
     (let s = trim raw
      in case strip_suffix (lit ''ms'') s of
           Some r \<Rightarrow> parse_u64 r
         | None \<Rightarrow>
         (case strip_suffix (lit ''s'') s of
           Some r \<Rightarrow> map_option seconds_ms (parse_f64 r)
         | None \<Rightarrow>
         (case split_on 58 s of
            [h, m, x] \<Rightarrow>
              Option.bind (parse_u64 h) (\<lambda>h. Option.bind (parse_u64 m) (\<lambda>m. Option.bind (parse_f64 x) (\<lambda>x.
                Some (u64_wrap (u64_wrap (u64_wrap (u64_wrap (h * 3600) + u64_wrap (m * 60)) * 1000) + seconds_ms x)))))
          | [m, x] \<Rightarrow>
              Option.bind (parse_u64 m) (\<lambda>m. Option.bind (parse_f64 x) (\<lambda>x.
                Some (u64_wrap (u64_wrap (u64_wrap (m * 60) * 1000) + seconds_ms x))))
          | _ \<Rightarrow> map_option seconds_ms (parse_f64 s))))"

definition attr_time :: "(ustr \<Rightarrow> f64 option) \<Rightarrow> ustr \<Rightarrow> string \<Rightarrow> nat option" where
  "attr_time parse_f64 tag name = Option.bind (parse_xml_attr tag (lit name)) (parse_ttml_time parse_f64)"

definition or_else :: "'a option \<Rightarrow> 'a option \<Rightarrow> 'a option" where
  "or_else a b = (case a of Some x \<Rightarrow> Some x | None \<Rightarrow> b)"

definition append_to_last :: "ustr \<Rightarrow> lyric_word list \<Rightarrow> lyric_word list" where
  "append_to_last t ws = (if ws = [] then [] else butlast ws @ [(last ws)\<lparr>word_text := word_text (last ws) @ t\<rparr>])"

lemma length_split_at_text: "split_at_text p s = Some (a, b) \<Longrightarrow> length s = length a + length p + length b"
  by (drule split_at_text_Some) simp

text \<open>The spans of a paragraph; what is left when no further span is complete.\<close>

function ttml_spans :: "(ustr \<Rightarrow> f64 option) \<Rightarrow> nat option \<Rightarrow> nat option \<Rightarrow> ustr \<Rightarrow> ustr \<times> lyric_word list
    \<Rightarrow> ustr \<times> lyric_word list \<times> ustr" where
  "ttml_spans parse_f64 b e inner tw =
     (let (text, ws) = tw in
      case split_at_text (lit ''<span'') inner of
        None \<Rightarrow> (text, ws, inner)
      | Some (before_raw, after) \<Rightarrow>
      (case split_once 62 after of
        None \<Rightarrow> (text, ws, inner)
      | Some (tag, body) \<Rightarrow>
        let before = strip_xml_tags before_raw;
            text = text @ before;
            ws = (if before = [] then ws else append_to_last before ws)
        in case split_at_text (lit ''</span>'') body of
             None \<Rightarrow> (text, ws, inner)
           | Some (w_raw, rest) \<Rightarrow>
               let w = strip_xml_tags w_raw;
                   tag_str = lit ''<span'' @ tag @ lit ''>'';
                   wb = or_else (attr_time parse_f64 tag_str ''begin'') b;
                   we = or_else (attr_time parse_f64 tag_str ''end'') e;
                   ws = (case (wb, we) of
                     (Some x, Some y) \<Rightarrow> if w \<noteq> [] then ws @ [\<lparr>word_text = w, start_ms = x, end_ms = y\<rparr>] else ws
                   | _ \<Rightarrow> ws)
               in ttml_spans parse_f64 b e rest (text @ w, ws)))"
  by auto

termination
  by (relation "measure (\<lambda>(_, _, _, inner, _). length inner)")
     (auto dest!: length_split_at_text length_split_once)

declare ttml_spans.simps [simp del]

definition ttml_paragraph :: "(ustr \<Rightarrow> f64 option) \<Rightarrow> ustr \<Rightarrow> ustr \<Rightarrow> lyric_line list" where
  "ttml_paragraph parse_f64 tag inner =
     (let b = attr_time parse_f64 tag ''begin''; e = attr_time parse_f64 tag ''end'';
          (text, ws, rest) = ttml_spans parse_f64 b e inner ([], []);
          full = trim (text @ strip_xml_tags rest)
      in if full \<noteq> [] \<or> b \<noteq> None
         then [\<lparr>time_ms = b, end_time_ms = e, line_text = full, line_words = (if ws \<noteq> [] then Some ws else None),
                translation = None, romanized = None\<rparr>]
         else [])"

function ttml_paragraphs :: "(ustr \<Rightarrow> f64 option) \<Rightarrow> ustr \<Rightarrow> lyric_line list" where
  "ttml_paragraphs parse_f64 xml =
     (case split_at_text (lit ''<p'') xml of None \<Rightarrow> [] | Some (_, after) \<Rightarrow>
     (case split_once 62 after of None \<Rightarrow> [] | Some (tag, body) \<Rightarrow>
     (case split_at_text (lit ''</p>'') body of None \<Rightarrow> [] | Some (inner, rest) \<Rightarrow>
        ttml_paragraph parse_f64 (lit ''<p'' @ tag @ lit ''>'') inner @ ttml_paragraphs parse_f64 rest)))"
  by auto

termination
  by (relation "measure (length \<circ> snd)") (auto dest!: length_split_at_text length_split_once)

declare ttml_paragraphs.simps [simp del]

definition parse_ttml_aaml :: "(ustr \<Rightarrow> f64 option) \<Rightarrow> ustr \<Rightarrow> lyric_line list" where
  "parse_ttml_aaml parse_f64 xml = sort_key time_ms (ttml_paragraphs parse_f64 xml)"

section \<open>JSON\<close>

text \<open>A number below 500 counts seconds, any other milliseconds.\<close>

fun f64_time :: "f64 \<Rightarrow> nat" where
  "f64_time (Fin q) = (if q < 500 then seconds_ms (Fin q) else nat (min (2 ^ 64 - 1) \<lfloor>q\<rfloor>))"
| "f64_time PosInf = 2 ^ 64 - 1"
| "f64_time _ = 0"

fun parse_time_val :: "(ustr \<Rightarrow> f64 option) \<Rightarrow> json \<Rightarrow> nat option" where
  "parse_time_val parse_f64 (JNum q) = Some (f64_time (Fin q))"
| "parse_time_val parse_f64 (JStr s) = map_option f64_time (parse_f64 s)"
| "parse_time_val parse_f64 _ = None"

definition json_word :: "(ustr \<Rightarrow> f64 option) \<Rightarrow> nat option \<Rightarrow> json \<Rightarrow> lyric_word list" where
  "json_word parse_f64 line_time w =
     (let text = (case Option.bind (jfirst w [''text'', ''word'']) jstr of Some t \<Rightarrow> t | None \<Rightarrow> []);
          b = or_else (Option.bind (jfirst w [''startTime'', ''start'', ''time'']) (parse_time_val parse_f64)) line_time;
          e = or_else (Option.bind (jfirst w [''endTime'', ''end'']) (parse_time_val parse_f64))
                (map_option (\<lambda>x. u64_wrap (x + 500)) b)
      in case (b, e) of (Some x, Some y) \<Rightarrow> [\<lparr>word_text = text, start_ms = x, end_ms = y\<rparr>] | _ \<Rightarrow> [])"

definition json_line :: "(ustr \<Rightarrow> f64 option) \<Rightarrow> json \<Rightarrow> lyric_line list" where
  "json_line parse_f64 item =
     (let text = trim (case Option.bind (jfirst item [''text'', ''words'', ''line'']) jstr of Some t \<Rightarrow> t | None \<Rightarrow> []);
          t = Option.bind (jfirst item [''time'', ''startTime'', ''start'', ''t'']) (parse_time_val parse_f64);
          ws = (case Option.bind (jget item ''words'') jarr of
                  Some xs \<Rightarrow> concat (map (json_word parse_f64 t) xs) | None \<Rightarrow> [])
      in if text \<noteq> [] \<or> t \<noteq> None
         then [\<lparr>time_ms = t, end_time_ms = None, line_text = text, line_words = (if ws \<noteq> [] then Some ws else None),
                translation = None, romanized = None\<rparr>]
         else [])"

definition json_items :: "json \<Rightarrow> json list option" where
  "json_items j = or_else (jarr j) (or_else (Option.bind (jget j ''lyrics'') jarr)
     (or_else (Option.bind (jget j ''lines'') jarr) (Option.bind (jget j ''element'') jarr)))"

definition quoted :: "string \<Rightarrow> ustr" where
  "quoted s = [34] @ lit s @ [34]"

definition looks_json :: "ustr \<Rightarrow> bool" where
  "looks_json s =
     ((starts_with (lit ''['') s \<or> starts_with (lit ''{'') s) \<and>
      (contains (quoted ''text'') s \<or> contains (quoted ''time'') s \<or> contains (quoted ''words'') s \<or>
       contains (quoted ''start'') s \<or> contains (quoted ''startTime'') s))"

definition parse_lrc_or_ttml :: "(ustr \<Rightarrow> f64 option) \<Rightarrow> (ustr \<Rightarrow> json option) \<Rightarrow> ustr \<Rightarrow> lyric_line list" where
  "parse_lrc_or_ttml parse_f64 from_json text =
     (let trimmed = trim text;
          from_items = (if looks_json trimmed
            then (case Option.bind (from_json trimmed) json_items of
                    Some xs \<Rightarrow> concat (map (json_line parse_f64) xs) | None \<Rightarrow> [])
            else []);
          from_ttml = (if starts_with (lit ''<'') trimmed \<or> contains (lit ''<p '') trimmed \<or> contains (lit ''<tt'') trimmed
            then parse_ttml_aaml parse_f64 trimmed else [])
      in if from_items \<noteq> [] then sort_key time_ms from_items
         else if from_ttml \<noteq> [] then from_ttml
         else parse_elrc text)"

section \<open>Reading back LRC\<close>

definition pad2 :: "nat \<Rightarrow> ustr" where
  "pad2 n = (if n < 10 then 48 # dec n else dec n)"

definition pad3 :: "nat \<Rightarrow> ustr" where
  "pad3 n = (if n < 10 then 48 # 48 # dec n else if n < 100 then 48 # dec n else dec n)"

definition lrc_time :: "nat \<Rightarrow> ustr" where
  "lrc_time ms = pad2 (ms div 60000) @ [58] @ pad2 (ms div 1000 mod 60) @ [46] @ pad3 (ms mod 1000)"

definition lrc_stamp :: "nat \<Rightarrow> ustr" where
  "lrc_stamp ms = [91] @ lrc_time ms @ [93]"

definition lrc_entry :: "nat list \<times> ustr \<Rightarrow> ustr" where
  "lrc_entry = (\<lambda>(ts, text). concat (map lrc_stamp ts) @ text @ [10])"

definition lrc_text :: "ustr \<Rightarrow> bool" where
  "lrc_text t \<longleftrightarrow> 10 \<notin> set t \<and> (t = [] \<or> \<not> is_whitespace (hd t) \<and> \<not> is_whitespace (last t) \<and> hd t \<noteq> 91)"

lemma digits_value_zero [simp]: "digits_value (48 # s) = digits_value s"
  by (simp add: digits_value_def)

lemma pad_digits: "list_all is_ascii_digit (pad2 n)" "list_all is_ascii_digit (pad3 n)"
  by (simp_all add: pad2_def pad3_def dec_digits is_ascii_digit_def)

lemma parse_digits: "list_all is_ascii_digit s \<Longrightarrow> s \<noteq> [] \<Longrightarrow> digits_value s < 2 ^ 64 \<Longrightarrow> parse_u64 s = Some (digits_value s)"
  by (cases s) (auto simp: parse_u64_def parse_unsigned_def is_ascii_digit_def)

lemma pad_value: "digits_value (pad2 n) = n" "digits_value (pad3 n) = n" "pad2 n \<noteq> []" "pad3 n \<noteq> []"
  by (simp_all add: pad2_def pad3_def)

lemma digit_plain: "is_ascii_digit c \<Longrightarrow> \<not> is_whitespace c \<and> c \<noteq> 58 \<and> c \<noteq> 46 \<and> c \<noteq> 93 \<and> c \<noteq> 62 \<and> c \<noteq> 91 \<and> c \<noteq> 10"
  by (auto simp: is_ascii_digit_def is_whitespace_def)

lemma digits_plain: "list_all is_ascii_digit s \<Longrightarrow> trim s = s"
  by (rule trim_keeps) (metis digit_plain hd_in_set last_in_set list_all_iff)

lemma length_pad3: "n < 1000 \<Longrightarrow> length (pad3 n) = 3"
proof -
  have d2: "length (dec n) = 2" if "\<not> n < 10" "n < 100" for n
    using that by (subst dec.simps) (simp add: dec.simps)
  have d3: "length (dec n) = 3" if "\<not> n < 100" "n < 1000"
    using that d2 [of "n div 10"] by (subst dec.simps) simp
  assume "n < 1000"
  then consider "n < 10" | "\<not> n < 10" "n < 100" | "\<not> n < 100" by linarith
  then show "length (pad3 n) = 3"
  proof cases
    case 1
    then show ?thesis by (simp add: pad3_def dec.simps)
  next
    case 2
    with d2 show ?thesis by (simp add: pad3_def)
  next
    case 3
    with d3 \<open>n < 1000\<close> show ?thesis by (simp add: pad3_def)
  qed
qed

lemma parse_lrc_time_stamp:
  assumes "ms < 2 ^ 64"
  shows "parse_lrc_time (lrc_time ms) = Some ms"
proof -
  let ?m = "ms div 60000" and ?s = "ms div 1000 mod 60" and ?x = "ms mod 1000"
  have no: "58 \<notin> set (pad2 n)" "46 \<notin> set (pad2 n)" for n
    using pad_digits(1) [of n] digit_plain by (auto simp: list_all_iff)
  have f: "filter is_ascii_digit (pad3 ?x) = pad3 ?x" using pad_digits(2) [of ?x] by (simp add: list_all_iff filter_id_conv)
  have len: "length (pad3 ?x) = 3" by (rule length_pad3) simp
  have small: "?m < 2 ^ 64" "?s < 2 ^ 64" "?x < 2 ^ 64" using assms by (simp_all add: less_mult_imp_div_less)
  have parse: "parse_u64 (pad2 ?m) = Some ?m" "parse_u64 (pad2 ?s) = Some ?s" "parse_u64 (pad3 ?x) = Some ?x"
    using small by (simp_all add: parse_digits pad_digits pad_value)
  have "?m = ms div 1000 div 60" by (simp add: div_mult2_eq [symmetric])
  then have sec: "?m * 60 + ?s = ms div 1000" by (simp only: div_mult_mod_eq)
  then have sum: "(?m * 60 + ?s) * 1000 + ?x = ms" by simp
  have "u64_wrap (u64_wrap (u64_wrap (?m * 60) + ?s) * 1000 + ?x) = ms"
  proof -
    have "?m * 60 + ?s \<le> ms" unfolding sec by simp
    then have "?m * 60 + ?s < 2 ^ 64" "?m * 60 < 2 ^ 64" using assms by linarith+
    then show ?thesis using sum assms by (simp add: u64_wrap_def)
  qed
  then show ?thesis
    using no parse f len
    by (simp add: parse_lrc_time_def lrc_time_def digits_plain pad_digits Let_def)
qed

lemma plain_time: "c \<in> set (lrc_time ms) \<Longrightarrow> is_ascii_digit c \<or> c = 58 \<or> c = 46"
  using pad_digits(1) [of "ms div 60000"] pad_digits(1) [of "ms div 1000 mod 60"] pad_digits(2) [of "ms mod 1000"]
  by (auto simp: lrc_time_def list_all_iff)

lemma lrc_time_chars: "93 \<notin> set (lrc_time ms)" "62 \<notin> set (lrc_time ms)" "60 \<notin> set (lrc_time ms)" "10 \<notin> set (lrc_time ms)"
  using plain_time [of 93 ms] plain_time [of 62 ms] plain_time [of 60 ms] plain_time [of 10 ms]
  by (auto simp: is_ascii_digit_def)

lemma trim_start_keeps: "s = [] \<or> \<not> is_whitespace (hd s) \<Longrightarrow> trim_start s = s"
  by (simp add: trim_start_def trim_start_matches_def dropWhile_eq_self_iff)

lemma stamps_hd: "ts \<noteq> [] \<Longrightarrow> hd (concat (map lrc_stamp ts) @ t) = 91"
  by (cases ts) (simp_all add: lrc_stamp_def)

lemma lrc_tags_stamps:
  "list_all (\<lambda>ms. ms < 2 ^ 64) ts \<Longrightarrow> lrc_text t \<Longrightarrow> lrc_tags (concat (map lrc_stamp ts) @ t) = (ts, t)"
proof (induction ts)
  case Nil
  then have "strip_prefix [91] t = None" by (cases t) (auto simp: strip_prefix_def lrc_text_def)
  then show ?case by (simp add: lrc_tags.simps)
next
  case (Cons ms ts)
  let ?rest = "concat (map lrc_stamp ts) @ t"
  have "trim_start ?rest = ?rest"
  proof (rule trim_start_keeps, cases "ts = []")
    case True
    with Cons.prems show "?rest = [] \<or> \<not> is_whitespace (hd ?rest)" by (auto simp: lrc_text_def)
  next
    case False
    then have "hd ?rest = 91" by (rule stamps_hd)
    then show "?rest = [] \<or> \<not> is_whitespace (hd ?rest)" by (simp add: is_whitespace_def)
  qed
  moreover have "split_once 93 (lrc_time ms @ 93 # ?rest) = Some (lrc_time ms, ?rest)"
    using lrc_time_chars by simp
  moreover have "lrc_stamp ms = 91 # lrc_time ms @ [93]" by (simp add: lrc_stamp_def)
  ultimately show ?case
    using Cons parse_lrc_time_stamp [of ms]
    by (subst lrc_tags.simps) (simp add: strip_prefix_def)
qed

lemma str_lines_Cons:
  assumes "10 \<notin> set l" "l = [] \<or> last l \<noteq> 13"
  shows "str_lines (l @ 10 # s) = l # str_lines s"
proof -
  have "strip_suffix [13] l = None"
    using assms(2) by (cases l rule: rev_cases) (auto simp: strip_suffix_def strip_prefix_def)
  with assms(1) show ?thesis
    by (simp add: str_lines_def split_on_append strip_cr_def Let_def)
qed

lemma stamps_last: "ts \<noteq> [] \<Longrightarrow> last (concat (map lrc_stamp ts)) = 93"
  by (induction ts) (auto simp: lrc_stamp_def)

lemma entry_line:
  assumes "lrc_text t" "list_all (\<lambda>ms. ms < 2 ^ 64) ts"
  shows "10 \<notin> set (concat (map lrc_stamp ts) @ t)"
    "let l = concat (map lrc_stamp ts) @ t in l = [] \<or> last l \<noteq> 13"
    "lrc_line (concat (map lrc_stamp ts) @ t) = map (\<lambda>ms. simple_line (Some ms) t) ts"
proof -
  let ?l = "concat (map lrc_stamp ts) @ t"
  have ends: "?l = [] \<or> \<not> is_whitespace (hd ?l) \<and> \<not> is_whitespace (last ?l)"
  proof (cases "ts = []")
    case True
    with assms(1) show ?thesis by (auto simp: lrc_text_def)
  next
    case False
    have "hd ?l = 91" using False by (rule stamps_hd)
    moreover have "last ?l = 93 \<or> (t \<noteq> [] \<and> last ?l = last t)" using stamps_last [OF False] by (cases "t = []") auto
    moreover have "\<not> is_whitespace 91" "\<not> is_whitespace 93" by (simp_all add: is_whitespace_def)
    ultimately show ?thesis using assms(1) unfolding lrc_text_def by metis
  qed
  moreover have "is_whitespace 13" by (simp add: is_whitespace_def)
  ultimately show "let l = ?l in l = [] \<or> last l \<noteq> 13" unfolding Let_def by metis
  show "10 \<notin> set ?l" using assms(1) lrc_time_chars by (auto simp: lrc_text_def lrc_stamp_def)
  show "lrc_line ?l = map (\<lambda>ms. simple_line (Some ms) t) ts"
    using trim_keeps [OF ends] lrc_tags_stamps [OF assms(2,1)] by (simp add: lrc_line_def)
qed



section \<open>Word times\<close>

definition elrc_text :: "(nat \<times> ustr) list \<Rightarrow> ustr" where
  "elrc_text ws = concat (map (\<lambda>(ms, w). [60] @ lrc_time ms @ [62] @ w) ws)"

fun shifted_words :: "nat \<Rightarrow> (nat \<times> ustr) list \<Rightarrow> lyric_word list" where
  "shifted_words last_ms [] = []"
| "shifted_words last_ms ((ms, w) # ws) =
     \<lparr>word_text = w, start_ms = last_ms, end_ms = ms\<rparr> # shifted_words ms ws"

text \<open>The words of a line in enhanced LRC come out with their texts and in order, but each gets the interval that
  ends where its tag says it begins: the first has no length (when its tag is the line's own time), and every
  other is timed like the word before it.\<close>

theorem elrc_words_come_early:
  assumes "list_all (\<lambda>(ms, w). ms < 2 ^ 64 \<and> 60 \<notin> set w) ws"
  shows "elrc_scan last_ms (elrc_text ws) = (concat (map snd ws), shifted_words last_ms ws)"
  using assms
proof (induction ws arbitrary: last_ms)
  case (Cons x ws)
  obtain ms w where x: "x = (ms, w)" by fastforce
  from Cons.prems x have ms: "ms < 2 ^ 64" "60 \<notin> set w" by simp_all
  have hd: "elrc_text ws = [] \<or> hd (elrc_text ws) = 60" by (cases ws) (auto simp: elrc_text_def)
  have t: "takeWhile (\<lambda>d. d \<noteq> 60) (w @ elrc_text ws) = w" "dropWhile (\<lambda>d. d \<noteq> 60) (w @ elrc_text ws) = elrc_text ws"
    using ms(2) hd by (cases "elrc_text ws"; auto simp: takeWhile_append dropWhile_append)+
  have "split_once 62 (lrc_time ms @ 62 # w @ elrc_text ws) = Some (lrc_time ms, w @ elrc_text ws)"
    using lrc_time_chars by simp
  with Cons ms x t parse_lrc_time_stamp [OF ms(1)] show ?case
    by (simp add: elrc_text_def elrc_scan.simps(2) Let_def)
qed (simp add: elrc_text_def)

theorem elrc_words_come_early_witness:
  "snd (elrc_scan 10500 (elrc_text [(10500, lit ''Hello ''), (11200, lit ''world'')])) =
    [\<lparr>word_text = lit ''Hello '', start_ms = 10500, end_ms = 10500\<rparr>,
     \<lparr>word_text = lit ''world'', start_ms = 10500, end_ms = 11200\<rparr>]"
  by (subst elrc_words_come_early) (simp_all add: lit_Cons)

text \<open>A span without its end tag makes the text in front of it appear twice.\<close>

theorem unclosed_span_repeats_text:
  "map line_text (parse_ttml_aaml f (lit ''<p begin='' @ [34] @ lit ''5ms'' @ [34] @ lit ''>Hello <span>world</p>'')) =
    [lit ''Hello Hello world'']"
proof -
  have "trim (lit ''5ms'') = lit ''5ms''" by (rule trim_keeps) (simp add: lit_Cons is_whitespace_def)
  moreover have "strip_suffix (lit ''ms'') (lit ''5ms'') = Some [53]"
    by (simp add: strip_suffix_def strip_prefix_def lit_Cons)
  moreover have "parse_u64 [53] = Some 5"
    by (simp add: parse_u64_def parse_unsigned_def is_ascii_digit_def digits_value_def)
  ultimately have t: "parse_ttml_time f (lit ''5ms'') = Some 5" by (simp add: parse_ttml_time_def)
  note eval = split_at_text.simps strip_prefix_def split_once_def lit_Cons
  have xml: "ttml_paragraphs f (lit ''<p begin='' @ [34] @ lit ''5ms'' @ [34] @ lit ''>Hello <span>world</p>'') =
      ttml_paragraph f (lit ''<p begin='' @ [34] @ lit ''5ms'' @ [34] @ lit ''>'') (lit ''Hello <span>world'')"
    by (subst ttml_paragraphs.simps) (simp add: eval ttml_paragraphs.simps [of f "[]"])
  have "parse_xml_attr (lit ''<p begin='' @ [34] @ lit ''5ms'' @ [34] @ lit ''>'') (lit ''begin'') = Some (lit ''5ms'')"
    "parse_xml_attr (lit ''<p begin='' @ [34] @ lit ''5ms'' @ [34] @ lit ''>'') (lit ''end'') = None"
    by (simp_all add: parse_xml_attr_def eval)
  then have attrs: "attr_time f (lit ''<p begin='' @ [34] @ lit ''5ms'' @ [34] @ lit ''>'') ''begin'' = Some 5"
    "attr_time f (lit ''<p begin='' @ [34] @ lit ''5ms'' @ [34] @ lit ''>'') ''end'' = None"
    using t by (simp_all add: attr_time_def)
  have spans: "ttml_spans f (Some 5) None (lit ''Hello <span>world'') ([], []) =
      (lit ''Hello '', [], lit ''Hello <span>world'')"
    by (subst ttml_spans.simps) (simp add: eval strip_xml_tags_def append_to_last_def Let_def)
  have "trim (lit ''Hello '' @ strip_xml_tags (lit ''Hello <span>world'')) = lit ''Hello Hello world''"
    by (subst trim_keeps) (simp_all add: strip_xml_tags_def lit_Cons is_whitespace_def)
  with attrs spans xml show ?thesis by (simp add: parse_ttml_aaml_def ttml_paragraph_def Let_def)
qed

end
