(* ===== verification/Lyrics_Chain.thy ===== *)
theory Lyrics_Chain
  imports Lyrics_Text Response_Rows Track_Ids
begin

text \<open>
  Where lyrics come from (crates/core/src/lyrics.rs, and the cache of crates/core/src/db.rs): the files beside a
  local song, the cache, and the chain of providers, each with the choice it makes among its candidates. What the
  servers answer is a record of functions of the request; lengths are rationals. A cue of a provider's own wire
  format comes through the parsers of \<open>Lyrics_Text\<close>.
\<close>

section \<open>Requests and candidates\<close>

record lyrics_request =
  req_video :: ustr
  req_title :: ustr
  req_artists :: ustr
  req_album :: "ustr option"
  req_duration :: "rat option"

record lrclib_track =
  lb_instrumental :: bool
  plain_lyrics :: "ustr option"
  synced_lyrics :: "ustr option"
  lb_duration :: "rat option"

definition MISS_TTL_SECS :: int where
  "MISS_TTL_SECS = 24 * 3600"

definition MATCH_TOLERANCE_SECS :: rat where
  "MATCH_TOLERANCE_SECS = 5"

definition known_length :: "rat option \<Rightarrow> rat option" where
  "known_length d = (case d of Some x \<Rightarrow> if 0 < x then Some x else None | None \<Rightarrow> None)"

text \<open>The distance of a candidate's length from the track's: infinite when the candidate has none.\<close>

datatype gap = Gap rat | Endless

definition length_gap :: "rat \<Rightarrow> rat option \<Rightarrow> gap" where
  "length_gap ours d = (case d of Some x \<Rightarrow> Gap \<bar>x - ours\<bar> | None \<Rightarrow> Endless)"

fun closer :: "gap \<Rightarrow> gap \<Rightarrow> bool" where
  "closer (Gap a) (Gap b) = (a < b)"
| "closer (Gap a) Endless = True"
| "closer Endless g = False"

fun inside :: "rat \<Rightarrow> gap \<Rightarrow> bool" where
  "inside r (Gap a) = (a \<le> r)"
| "inside r Endless = False"

text \<open>\<open>Iterator::min_by\<close>: the first of the smallest.\<close>

fun min_by :: "('a \<Rightarrow> 'a \<Rightarrow> bool) \<Rightarrow> 'a list \<Rightarrow> 'a option" where
  "min_by lt [] = None"
| "min_by lt (x # xs) = Some (foldl (\<lambda>best y. if lt y best then y else best) x xs)"

definition best_by_duration :: "rat option \<Rightarrow> ('c \<Rightarrow> rat option) \<Rightarrow> 'c list \<Rightarrow> 'c option" where
  "best_by_duration ours secs cands =
     (case known_length ours of
        None \<Rightarrow> (case cands of [] \<Rightarrow> None | c # _ \<Rightarrow> Some c)
      | Some d \<Rightarrow> map_option snd (min_by (\<lambda>a b. closer (fst a) (fst b))
          (filter (\<lambda>(g, _). inside MATCH_TOLERANCE_SECS g \<or> g = Endless)
            (map (\<lambda>c. (length_gap d (secs c), c)) cands))))"

text \<open>\<open>"3:21"\<close> or \<open>"1:02:03"\<close> in seconds.\<close>

fun clock_parts :: "nat \<Rightarrow> ustr list \<Rightarrow> nat option" where
  "clock_parts acc [] = Some acc"
| "clock_parts acc (p # ps) =
     (case parse_u64 (trim p) of None \<Rightarrow> None | Some n \<Rightarrow> clock_parts (u64_wrap (u64_wrap (acc * 60) + n)) ps)"

definition duration_str_secs :: "ustr \<Rightarrow> rat option" where
  "duration_str_secs s =
     (case clock_parts 0 (split_on 58 s) of Some n \<Rightarrow> if 0 < n then Some (of_nat n) else None | None \<Rightarrow> None)"

section \<open>What a text becomes\<close>

definition plain_from_text :: "ustr option \<Rightarrow> ustr \<Rightarrow> lyrics option" where
  "plain_from_text text source =
     (case text of None \<Rightarrow> None
      | Some t \<Rightarrow> (if trim t = [] then None
          else Some \<lparr>lyrics_source = source, synced = False, instrumental = False,
                     lyric_lines = map (\<lambda>l. simple_line None (trim_end l)) (str_lines (trim t))\<rparr>))"

definition from_parsed :: "ustr \<Rightarrow> lyric_line list \<Rightarrow> lyrics option" where
  "from_parsed source ls =
     (if ls = [] then None
      else Some \<lparr>lyrics_source = source, synced = list_ex (\<lambda>l. time_ms l \<noteq> None) ls, instrumental = False, lyric_lines = ls\<rparr>)"

definition has_synced :: "lrclib_track \<Rightarrow> bool" where
  "has_synced t = (case synced_lyrics t of Some s \<Rightarrow> trim s \<noteq> [] | None \<Rightarrow> False)"

definition lrclib_to_lyrics :: "lrclib_track \<Rightarrow> lyrics option" where
  "lrclib_to_lyrics t =
     (if lb_instrumental t
      then Some \<lparr>lyrics_source = lit ''LRCLIB'', synced = False, instrumental = True, lyric_lines = []\<rparr>
      else let ls = (if has_synced t then parse_lrc (the (synced_lyrics t)) else [])
           in if ls \<noteq> []
              then Some \<lparr>lyrics_source = lit ''LRCLIB'', synced = True, instrumental = False, lyric_lines = ls\<rparr>
              else plain_from_text (plain_lyrics t) (lit ''LRCLIB''))"

text \<open>The choice of the LRCLIB search among its candidates, in their order.\<close>

definition search_gap :: "rat option \<Rightarrow> lrclib_track \<Rightarrow> gap" where
  "search_gap ours t = (case ours of Some d \<Rightarrow> length_gap d (lb_duration t) | None \<Rightarrow> Endless)"

fun search_choice :: "rat option \<Rightarrow> lrclib_track list \<Rightarrow> (gap \<times> lrclib_track) option \<Rightarrow> lrclib_track option \<Rightarrow>
    lrclib_track option" where
  "search_choice ours [] best plain = (case best of Some (_, t) \<Rightarrow> Some t | None \<Rightarrow> plain)"
| "search_choice ours (t # ts) best plain =
     (if \<not> (ours = None \<or> inside 5 (search_gap ours t)) then search_choice ours ts best plain
      else if has_synced t
      then search_choice ours ts
             (case best of None \<Rightarrow> Some (search_gap ours t, t)
              | Some (d, b) \<Rightarrow> if closer (search_gap ours t) d then Some (search_gap ours t, t) else Some (d, b)) plain
      else search_choice ours ts best (if plain = None then Some t else plain))"

section \<open>Providers\<close>

text \<open>What the outside answers, for one moment: each request with its parameters. \<open>None\<close> is a request that failed, a
  body that is no JSON, or a client that is not configured.\<close>

record lyrics_net =
  pinned :: "ustr option"
  boidu_setting :: "ustr option"
  ask_next :: "ustr \<Rightarrow> json option"
  ask_boidu :: "(string \<times> ustr) list \<Rightarrow> json option"
  ask_lrclib_get :: "(string \<times> ustr) list \<Rightarrow> unit + lrclib_track option"
  ask_lrclib_search :: "(string \<times> ustr) list \<Rightarrow> unit + lrclib_track list"
  ask_timed :: "ustr \<Rightarrow> json option"
  ask_plain :: "ustr \<Rightarrow> json option"
  ask_netease :: "ustr \<Rightarrow> json option"
  ask_netease_lyric :: "nat \<Rightarrow> json option"
  ask_qq :: "ustr \<Rightarrow> json option"
  ask_qq_lyric :: "ustr \<Rightarrow> json option"
  ask_kugou :: "ustr \<Rightarrow> json option"
  ask_kugou_candidates :: "ustr \<Rightarrow> json option"
  ask_kugou_file :: "ustr \<Rightarrow> ustr \<Rightarrow> json option"
  base64_text :: "ustr \<Rightarrow> ustr option"
  read_f64 :: "ustr \<Rightarrow> f64 option"
  read_json :: "ustr \<Rightarrow> json option"
  show_json :: "json \<Rightarrow> ustr"

text \<open>\<open>d.round() as i64\<close> of a positive length.\<close>

definition rounded :: "rat \<Rightarrow> ustr" where
  "rounded d = dec (nat (min (2 ^ 63 - 1) \<lfloor>d + 1 / 2\<rfloor>))"

definition track_query :: "string \<Rightarrow> string \<Rightarrow> string \<Rightarrow> string \<Rightarrow> lyrics_request \<Rightarrow> (string \<times> ustr) list" where
  "track_query t a b d r =
     [(t, req_title r), (a, req_artists r)] @
     (case req_album r of Some x \<Rightarrow> [(b, x)] | None \<Rightarrow> []) @
     (case known_length (req_duration r) of Some x \<Rightarrow> [(d, rounded x)] | None \<Rightarrow> [])"

definition boidu_text :: "lyrics_net \<Rightarrow> json \<Rightarrow> ustr option" where
  "boidu_text net resp =
     Option.bind (jfirst resp [''ttml'', ''syncedLyrics'', ''lyrics'', ''lrc'']) (\<lambda>v.
       case jstr v of
         Some s \<Rightarrow> if trim s \<noteq> [] then Some s else None
       | None \<Rightarrow> if jarr v \<noteq> None then Some (show_json net v) else None)"

definition boidu_get :: "lyrics_net \<Rightarrow> lyrics_request \<Rightarrow> lyrics option" where
  "boidu_get net r =
     Option.bind (ask_boidu net (track_query ''s'' ''a'' ''al'' ''d'' r)) (\<lambda>resp.
     Option.bind (boidu_text net resp) (\<lambda>text.
     from_parsed (lit ''Boidu'') (parse_lrc_or_ttml (read_f64 net) (read_json net) text)))"

definition search_text :: "lyrics_request \<Rightarrow> ustr" where
  "search_text r = req_title r @ [32] @ req_artists r"

definition json_items_at :: "json \<Rightarrow> string list \<Rightarrow> json list" where
  "json_items_at resp path = (case Option.bind (jpath resp path) jarr of Some xs \<Rightarrow> xs | None \<Rightarrow> [])"

definition add_translation :: "lyric_line list \<Rightarrow> lyric_line \<Rightarrow> lyric_line" where
  "add_translation tlines l =
     (case time_ms l of None \<Rightarrow> l
      | Some t \<Rightarrow> (case find (\<lambda>x. time_ms x = Some t) tlines of None \<Rightarrow> l
          | Some x \<Rightarrow> if trim (line_text x) \<noteq> [] then l\<lparr>translation := Some (line_text x)\<rparr> else l))"

definition jnat :: "json \<Rightarrow> nat option" where
  "jnat j = (case jnum j of Some q \<Rightarrow> if 0 \<le> q \<and> q < 2 ^ 64 \<and> of_int \<lfloor>q\<rfloor> = q then Some (nat \<lfloor>q\<rfloor>) else None | None \<Rightarrow> None)"

definition netease_lines :: "lyrics_net \<Rightarrow> json \<Rightarrow> lyric_line list option" where
  "netease_lines net resp =
     (let parse = parse_lrc_or_ttml (read_f64 net) (read_json net) in
      map_option (\<lambda>lrc.
        let ls = parse lrc;
            ls = (case Option.bind (jpath resp [''klyric'', ''lyric'']) jstr of
                    Some k \<Rightarrow> lrc_mux ls (parse k) | None \<Rightarrow> ls)
        in (case Option.bind (jpath resp [''tlyric'', ''lyric'']) jstr of
              Some t \<Rightarrow> map (add_translation (parse_lrc t)) ls | None \<Rightarrow> ls))
        (Option.bind (jpath resp [''lrc'', ''lyric'']) jstr))"

definition netease_get :: "lyrics_net \<Rightarrow> lyrics_request \<Rightarrow> lyrics option" where
  "netease_get net r =
     Option.bind (ask_netease net (search_text r)) (\<lambda>resp.
     Option.bind (best_by_duration (req_duration r) (\<lambda>s. map_option (\<lambda>q. q / 1000) (Option.bind (jget s ''duration'') jnum))
       (json_items_at resp [''result'', ''songs''])) (\<lambda>hit.
     Option.bind (Option.bind (jget hit ''id'') jnat) (\<lambda>id.
     Option.bind (ask_netease_lyric net id) (\<lambda>l.
     Option.bind (netease_lines net l) (from_parsed (lit ''Netease Cloud Music''))))))"

definition qqmusic_get :: "lyrics_net \<Rightarrow> lyrics_request \<Rightarrow> lyrics option" where
  "qqmusic_get net r =
     Option.bind (ask_qq net (search_text r)) (\<lambda>resp.
     Option.bind (best_by_duration (req_duration r) (\<lambda>s. Option.bind (jget s ''interval'') jnum)
       (json_items_at resp [''data'', ''song'', ''list''])) (\<lambda>hit.
     Option.bind (Option.bind (jget hit ''songmid'') jstr) (\<lambda>mid.
     Option.bind (ask_qq_lyric net mid) (\<lambda>l.
     let raw = (case Option.bind (jget l ''lyric'') jstr of Some s \<Rightarrow> s | None \<Rightarrow> []);
         text = (case base64_text net raw of Some s \<Rightarrow> s | None \<Rightarrow> raw)
     in from_parsed (lit ''QQ Music'') (parse_lrc_or_ttml (read_f64 net) (read_json net) text)))))"

definition kugou_get :: "lyrics_net \<Rightarrow> lyrics_request \<Rightarrow> lyrics option" where
  "kugou_get net r =
     Option.bind (ask_kugou net (search_text r)) (\<lambda>resp.
     Option.bind (best_by_duration (req_duration r) (\<lambda>s. Option.bind (jget s ''Duration'') jnum)
       (json_items_at resp [''data'', ''lists''])) (\<lambda>hit.
     Option.bind (Option.bind (jget hit ''FileHash'') jstr) (\<lambda>h.
     Option.bind (ask_kugou_candidates net h) (\<lambda>c.
     Option.bind (jnth 0 (json_items_at c [''candidates''])) (\<lambda>cand.
     Option.bind (Option.bind (jget cand ''id'') jstr) (\<lambda>id.
     Option.bind (Option.bind (jget cand ''accesskey'') jstr) (\<lambda>key.
     Option.bind (ask_kugou_file net id key) (\<lambda>d.
     Option.bind (base64_text net (case Option.bind (jget d ''content'') jstr of Some s \<Rightarrow> s | None \<Rightarrow> [])) (\<lambda>text.
     from_parsed (lit ''Kugou'') (parse_lrc_or_ttml (read_f64 net) (read_json net) text))))))))))"

definition lrclib_search :: "lyrics_net \<Rightarrow> lyrics_request \<Rightarrow> unit + lrclib_track option" where
  "lrclib_search net r =
     (case ask_lrclib_search net [(''track_name'', req_title r), (''artist_name'', req_artists r)] of
        Inl e \<Rightarrow> Inl e
      | Inr ts \<Rightarrow> Inr (search_choice (known_length (req_duration r)) ts None None))"

section \<open>The chain\<close>

definition with_length :: "next_result option \<Rightarrow> lyrics_request \<Rightarrow> lyrics_request" where
  "with_length page r =
     (if req_duration r \<noteq> None then r
      else r\<lparr>req_duration := Option.bind page (\<lambda>n.
             Option.bind (find (\<lambda>i. video_id i = req_video r) (next_items n)) (\<lambda>i.
             Option.bind (song_duration i) duration_str_secs))\<rparr>)"

definition pinned_get :: "lyrics_net \<Rightarrow> ustr \<Rightarrow> lyrics_request \<Rightarrow> lyrics option" where
  "pinned_get net only r =
     (if only = lit ''boidu'' then boidu_get net r
      else if only = lit ''netease'' then netease_get net r
      else if only = lit ''qq'' then qqmusic_get net r
      else if only = lit ''kugou'' then kugou_get net r
      else None)"

text \<open>The tier of unsynced texts, and what it knows of the search before it.\<close>

definition plain_tier :: "lyrics_net \<Rightarrow> lyrics_request \<Rightarrow> ustr option \<Rightarrow> unit + lrclib_track option \<Rightarrow>
    unit + lrclib_track option \<Rightarrow> bool \<Rightarrow> lyrics option \<times> bool" where
  "plain_tier net r browse lr searched definitive =
     (let known = req_duration r \<noteq> None in
      case (case lr of Inr (Some hit) \<Rightarrow> plain_from_text (plain_lyrics hit) (lit ''LRCLIB'') | _ \<Rightarrow> None) of
        Some l \<Rightarrow> (Some l, known)
      | None \<Rightarrow>
     (case (case Option.bind (Option.bind browse (ask_plain net)) parse_lyrics_plain of
              Some p \<Rightarrow> plain_from_text (Some (page_text p))
                (case page_footer p of Some f \<Rightarrow> f | None \<Rightarrow> lit ''YouTube Music'')
            | _ \<Rightarrow> None) of
        Some l \<Rightarrow> (Some l, True)
      | None \<Rightarrow>
     (case (case searched of Inr (Some hit) \<Rightarrow> lrclib_to_lyrics hit | _ \<Rightarrow> None) of
        Some l \<Rightarrow> (Some l, known)
      | None \<Rightarrow> (None, definitive))))"

definition only_if :: "(lyrics \<Rightarrow> bool) \<Rightarrow> lyrics option \<Rightarrow> lyrics option" where
  "only_if p l = (case l of Some x \<Rightarrow> if p x then Some x else None | None \<Rightarrow> None)"

definition answered :: "unit + 'a \<Rightarrow> bool" where
  "answered r = (case r of Inr _ \<Rightarrow> True | Inl _ \<Rightarrow> False)"

definition lrclib_hit :: "unit + lrclib_track option \<Rightarrow> lyrics option" where
  "lrclib_hit r = (case r of Inr (Some hit) \<Rightarrow> lrclib_to_lyrics hit | _ \<Rightarrow> None)"

definition timed_lyrics :: "lyrics_net \<Rightarrow> ustr option \<Rightarrow> lyrics option" where
  "timed_lyrics net browse =
     (case map_option parse_lyrics_timed (Option.bind browse (ask_timed net)) of
        Some ls \<Rightarrow> if ls = [] then None
          else Some \<lparr>lyrics_source = lit ''YouTube Music'', synced = True, instrumental = False,
                     lyric_lines = map (\<lambda>(t, s). simple_line (Some t) s) ls\<rparr>
      | None \<Rightarrow> None)"

definition fetch :: "lyrics_net \<Rightarrow> lyrics_request \<Rightarrow> lyrics option \<times> bool" where
  "fetch net r0 =
     (let page = (if is_local_song (req_video r0) then None
                  else map_option (next_answer (Some (req_video r0))) (ask_next net (req_video r0)));
          browse = Option.bind page lyrics_browse;
          r = with_length page r0;
          known = req_duration r \<noteq> None
      in case pinned net of
        Some only \<Rightarrow> (pinned_get net only r, False)
      | None \<Rightarrow>
     (case (if boidu_setting net \<noteq> Some (lit ''false'') then boidu_get net r else None) of
        Some l \<Rightarrow> (Some l, known)
      | None \<Rightarrow>
     (let lr = ask_lrclib_get net (track_query ''track_name'' ''artist_name'' ''album_name'' ''duration'' r) in
      case only_if (\<lambda>l. synced l \<or> instrumental l) (lrclib_hit lr) of
        Some l \<Rightarrow> (Some l, known)
      | None \<Rightarrow>
     (case timed_lyrics net browse of
        Some l \<Rightarrow> (Some l, True)
      | None \<Rightarrow>
     (case netease_get net r of Some l \<Rightarrow> (Some l, known) | None \<Rightarrow>
     (case qqmusic_get net r of Some l \<Rightarrow> (Some l, known) | None \<Rightarrow>
     (case kugou_get net r of Some l \<Rightarrow> (Some l, known) | None \<Rightarrow>
     (let searched = lrclib_search net r in
      case only_if synced (lrclib_hit searched) of
        Some l \<Rightarrow> (Some l, known)
      | None \<Rightarrow> plain_tier net r browse lr searched (answered lr \<or> page \<noteq> None \<or> answered searched)))))))))"

section \<open>The files of a local song, and the cache\<close>

record companion_file =
  is_regular :: bool
  stat_bytes :: nat
  read_bytes :: nat
  read_text :: "ustr option"

definition companion :: "companion_file option \<Rightarrow> ustr option" where
  "companion f =
     (case f of None \<Rightarrow> None
      | Some f \<Rightarrow> (if \<not> is_regular f \<or> stat_bytes f > 512 * 1024 then None
          else if read_bytes f \<le> 512 * 1024 then read_text f else None))"

record local_song =
  beside_lrc :: "companion_file option"
  embedded :: "ustr option list"
  beside_txt :: "companion_file option"

definition local_lyrics :: "local_song \<Rightarrow> lyrics option" where
  "local_lyrics f =
     (case Option.bind (companion (beside_lrc f)) (\<lambda>text. from_parsed (lit ''Local LRC'') (parse_lrc text)) of
        Some l \<Rightarrow> Some l
      | None \<Rightarrow> (case find_map (\<lambda>t. plain_from_text t (lit ''Embedded lyrics'')) (embedded f) of
        Some l \<Rightarrow> Some l
      | None \<Rightarrow> Option.bind (companion (beside_txt f)) (\<lambda>text. plain_from_text (Some text) (lit ''Local lyrics''))))"

type_synonym lyrics_cache = "ustr \<Rightarrow> (ustr option \<times> int) option"

definition cached_lyrics :: "lyrics_cache \<Rightarrow> ustr \<Rightarrow> int \<Rightarrow> ustr option option" where
  "cached_lyrics c v now =
     (case c v of None \<Rightarrow> None
      | Some (text, fetched) \<Rightarrow> if text = None \<and> MISS_TTL_SECS < now - fetched then None else Some text)"

definition put_lyrics :: "lyrics_cache \<Rightarrow> ustr \<Rightarrow> ustr option \<Rightarrow> int \<Rightarrow> lyrics_cache" where
  "put_lyrics c v text now = c(v \<mapsto> (text, now))"

text \<open>The whole request. \<open>show_lyrics\<close> and \<open>read_lyrics\<close> are serde_json on the derived format; \<open>files\<close> is the song behind
  a local id.\<close>

definition get_lyrics :: "(lyrics \<Rightarrow> ustr) \<Rightarrow> (ustr \<Rightarrow> lyrics option) \<Rightarrow> (ustr \<Rightarrow> local_song option) \<Rightarrow> lyrics_net \<Rightarrow>
    int \<Rightarrow> lyrics_request \<Rightarrow> lyrics_cache \<Rightarrow> lyrics option \<times> lyrics_cache" where
  "get_lyrics show_lyrics read_lyrics files net now r c =
     (case Option.bind (song_path (req_video r)) (\<lambda>path. Option.bind (files path) local_lyrics) of
        Some l \<Rightarrow> (Some l, c)
      | None \<Rightarrow>
     (case (if pinned net = None then cached_lyrics c (req_video r) now else None) of
        Some text \<Rightarrow> (Option.bind text read_lyrics, c)
      | None \<Rightarrow>
     (let (l, cacheable) = fetch net r
      in (l, if cacheable \<and> pinned net = None then put_lyrics c (req_video r) (map_option show_lyrics l) now else c))))"

section \<open>The choice among candidates\<close>

lemma closer_order: "\<not> closer b a \<Longrightarrow> \<not> closer c b \<Longrightarrow> \<not> closer c a"
  by (cases a; cases b; cases c) auto

lemma closer_asym: "closer a b \<Longrightarrow> \<not> closer b a"
  by (cases a; cases b) auto

lemma closer_irrefl [simp]: "\<not> closer a a"
  by (cases a) auto

lemma foldl_least:
  fixes key :: "'a \<Rightarrow> gap"
  defines "pick \<equiv> foldl (\<lambda>best y. if closer (key y) (key best) then y else best)"
  shows "pick x xs \<in> set (x # xs) \<and> (\<forall>y\<in>set (x # xs). \<not> closer (key y) (key (pick x xs)))"
proof (induction xs arbitrary: x)
  case Nil
  show ?case by (simp add: pick_def)
next
  case (Cons z xs)
  let ?b = "if closer (key z) (key x) then z else x"
  have step: "pick x (z # xs) = pick ?b xs" by (simp add: pick_def)
  have "pick ?b xs \<in> set (?b # xs)" and least: "\<forall>y\<in>set (?b # xs). \<not> closer (key y) (key (pick ?b xs))"
    using Cons [of ?b] by blast+
  moreover have "\<not> closer (key x) (key ?b)" "\<not> closer (key z) (key ?b)" using closer_asym by auto
  moreover have "\<not> closer (key ?b) (key (pick ?b xs))" using least by simp
  ultimately have "\<not> closer (key x) (key (pick ?b xs))" "\<not> closer (key z) (key (pick ?b xs))"
    using closer_order by blast+
  with least \<open>pick ?b xs \<in> set (?b # xs)\<close> show ?case unfolding step by (auto split: if_splits)
qed

lemma min_by_least:
  assumes "min_by (\<lambda>a b. closer (key a) (key b)) xs = Some m"
  shows "m \<in> set xs" "\<forall>y\<in>set xs. \<not> closer (key y) (key m)"
  using assms foldl_least [of key] by (cases xs; auto)+

text \<open>Among the hits of a search the provider picks one whose length is nearest to the playing track's and within
  five seconds of it; one of unknown length only if no hit of known length is that near.\<close>

theorem nearest_hit_is_chosen:
  assumes "0 < d" "best_by_duration (Some d) secs cands = Some c"
  shows "c \<in> set cands \<and>
    (case secs c of
       Some x \<Rightarrow> \<bar>x - d\<bar> \<le> 5 \<and> (\<forall>c'\<in>set cands. \<forall>x'. secs c' = Some x' \<longrightarrow> \<bar>x - d\<bar> \<le> \<bar>x' - d\<bar>)
     | None \<Rightarrow> (\<forall>c'\<in>set cands. \<forall>x'. secs c' = Some x' \<longrightarrow> 5 < \<bar>x' - d\<bar>))"
proof -
  let ?k = "\<lambda>c. length_gap d (secs c)"
  let ?xs = "filter (\<lambda>(g, _). inside 5 g \<or> g = Endless) (map (\<lambda>c. (?k c, c)) cands)"
  obtain g where m: "min_by (\<lambda>a b. closer (fst a) (fst b)) ?xs = Some (g, c)"
    using assms by (auto simp: best_by_duration_def known_length_def MATCH_TOLERANCE_SECS_def)
  note least = min_by_least [of fst, OF m]
  have c: "c \<in> set cands" "g = ?k c" "inside 5 g \<or> g = Endless" using least(1) by auto
  have none: "\<not> closer (?k c') g" if "c' \<in> set cands" "inside 5 (?k c')" for c'
    using least(2) that by auto
  show ?thesis
  proof (cases "secs c")
    case None
    with c none have "5 < \<bar>x' - d\<bar>" if "c' \<in> set cands" "secs c' = Some x'" for c' x'
      using that by (fastforce simp: length_gap_def)
    with c None show ?thesis by simp
  next
    case (Some x)
    with c have near: "\<bar>x - d\<bar> \<le> 5" by (simp add: length_gap_def)
    have "\<bar>x - d\<bar> \<le> \<bar>x' - d\<bar>" if "c' \<in> set cands" "secs c' = Some x'" for c' x'
      using none [OF that(1)] that(2) near c(2) Some by (cases "\<bar>x' - d\<bar> \<le> 5") (auto simp: length_gap_def)
    with c near Some show ?thesis by simp
  qed
qed

definition sample_hits :: "(rat option \<times> ustr) list" where
  "sample_hits = [(Some 263, lit ''edit''), (None, lit ''unknown''), (Some 231, lit ''remix''), (Some 233, lit ''original'')]"

theorem nearest_hit_is_chosen_witness:
  "best_by_duration (Some 233) fst sample_hits = Some (Some 233, lit ''original'') \<and>
   (Some 233, lit ''original'') \<in> set sample_hits \<and> \<bar>233 - 233\<bar> \<le> \<bar>231 - (233 :: rat)\<bar>"
proof -
  have best: "best_by_duration (Some 233) fst sample_hits = Some (Some 233, lit ''original'')"
    by (simp add: sample_hits_def best_by_duration_def known_length_def MATCH_TOLERANCE_SECS_def length_gap_def)
  from nearest_hit_is_chosen [OF _ this] have "(Some 233, lit ''original'') \<in> set sample_hits"
    "\<forall>c'\<in>set sample_hits. \<forall>x'. fst c' = Some x' \<longrightarrow> \<bar>233 - 233\<bar> \<le> \<bar>x' - (233 :: rat)\<bar>" by simp_all
  with best show ?thesis by (auto simp: sample_hits_def)
qed

definition close_to :: "rat option \<Rightarrow> lrclib_track \<Rightarrow> bool" where
  "close_to ours t \<longleftrightarrow> ours = None \<or> inside 5 (search_gap ours t)"

abbreviation nearest :: "(gap \<times> lrclib_track) list \<Rightarrow> (gap \<times> lrclib_track) option" where
  "nearest \<equiv> min_by (\<lambda>a b. closer (fst a) (fst b))"

definition first_of :: "'a list \<Rightarrow> 'a option" where
  "first_of xs = (case xs of [] \<Rightarrow> None | x # _ \<Rightarrow> Some x)"

lemma first_of_member: "first_of xs = Some x \<Longrightarrow> x \<in> set xs"
  by (cases xs) (auto simp: first_of_def)

lemma first_of_simps [simp]: "first_of [] = None" "first_of (x # xs) = Some x"
  by (simp_all add: first_of_def)

lemmas search_step = search_choice.simps(2) [folded close_to_def]

lemma search_choice_spec:
  "search_choice ours ts best plain =
     (case nearest ((case best of Some b \<Rightarrow> [b] | None \<Rightarrow> []) @
             map (\<lambda>t. (search_gap ours t, t)) (filter has_synced (filter (close_to ours) ts))) of
        Some m \<Rightarrow> Some (snd m)
      | None \<Rightarrow> (case plain of Some p \<Rightarrow> Some p
          | None \<Rightarrow> first_of (filter (\<lambda>t. \<not> has_synced t) (filter (close_to ours) ts))))"
proof (induction ts arbitrary: best plain)
  case Nil
  show ?case by (cases best) (auto split: option.split)
next
  case (Cons t ts)
  show ?case
  proof (cases "close_to ours t")
    case False
    then show ?thesis using Cons [of best plain] by (simp add: search_step del: search_choice.simps(2) cong: option.case_cong)
  next
    case True
    show ?thesis
    proof (cases "has_synced t")
      case False
      with True show ?thesis using Cons [of best "if plain = None then Some t else plain"]
        by (cases plain) (simp_all add: search_step del: search_choice.simps(2) cong: option.case_cong split: option.split)
    next
      case synced: True
      show ?thesis
      proof (cases best)
        case None
        with True synced show ?thesis using Cons [of "Some (search_gap ours t, t)" plain] by (simp add: search_step del: search_choice.simps(2) cong: option.case_cong)
      next
        case (Some b)
        obtain d u where b: "b = (d, u)" by fastforce
        with True synced Some show ?thesis
          using Cons [of "if closer (search_gap ours t) d then Some (search_gap ours t, t) else Some (d, u)" plain]
          by (simp add: search_step del: search_choice.simps(2) cong: option.case_cong)
      qed
    qed
  qed
qed

text \<open>The LRCLIB search, with the track's length known, answers a candidate whose own length is known and within five
  seconds; one with synced lyrics if there is any, and of those one whose length is nearest.\<close>

theorem search_answers_the_nearest:
  assumes "search_choice (Some d) ts None None = Some t"
  shows "t \<in> set ts \<and> inside 5 (search_gap (Some d) t) \<and>
    (has_synced t \<or> (\<forall>u\<in>set ts. has_synced u \<longrightarrow> \<not> inside 5 (search_gap (Some d) u))) \<and>
    (has_synced t \<longrightarrow> (\<forall>u\<in>set ts. has_synced u \<longrightarrow> \<not> closer (search_gap (Some d) u) (search_gap (Some d) t)))"
proof -
  let ?s = "filter has_synced (filter (close_to (Some d)) ts)" and ?g = "search_gap (Some d)"
  have closer_in: "closer g h \<Longrightarrow> inside 5 h \<Longrightarrow> inside 5 g" for g h by (cases g; cases h) auto
  note spec = assms [unfolded search_choice_spec, simplified]
  show ?thesis
  proof (cases "nearest (map (\<lambda>t. (?g t, t)) ?s)")
    case None
    then have "?s = []" by (cases ?s) auto
    moreover have "t \<in> set (filter (\<lambda>t. \<not> has_synced t) (filter (close_to (Some d)) ts))"
      using spec None by (intro first_of_member) simp
    ultimately show ?thesis by (auto simp: close_to_def filter_empty_conv)
  next
    case (Some m)
    note least = min_by_least [of fst, OF Some]
    from spec Some have t: "t = snd m" by simp
    with least(1) have m: "m = (?g t, t)" "t \<in> set ?s" by auto
    have near: "\<not> closer (?g u) (?g t)" if "u \<in> set ts" "has_synced u" for u
    proof
      assume c: "closer (?g u) (?g t)"
      with closer_in m(2) have "inside 5 (?g u)" by (auto simp: close_to_def)
      with that have "(?g u, u) \<in> set (map (\<lambda>t. (?g t, t)) ?s)" by (auto simp: close_to_def)
      with least(2) m(1) c show False by fastforce
    qed
    with m(2) show ?thesis by (auto simp: close_to_def)
  qed
qed

definition synced_track :: "rat option \<Rightarrow> lrclib_track" where
  "synced_track d = \<lparr>lb_instrumental = False, plain_lyrics = None, synced_lyrics = Some (lit ''[00:01.00] la''), lb_duration = d\<rparr>"

lemma has_synced_track [simp]: "has_synced (synced_track d)" "lb_duration (synced_track d) = d"
  by (simp_all add: has_synced_def synced_track_def trim_keeps is_whitespace_def lit_Cons)

theorem search_answers_the_nearest_witness:
  "search_choice (Some 233) [synced_track None, synced_track (Some 229), synced_track (Some 232)] None None
     = Some (synced_track (Some 232)) \<and>
   \<not> closer (search_gap (Some 233) (synced_track (Some 229))) (search_gap (Some 233) (synced_track (Some 232)))"
proof -
  have "search_choice (Some 233) [synced_track None, synced_track (Some 229), synced_track (Some 232)] None None
     = Some (synced_track (Some 232))"
    by (simp add: search_gap_def length_gap_def)
  with search_answers_the_nearest [OF this] show ?thesis by simp
qed

text \<open>A candidate of unknown length is left out, however good the rest of its record is.\<close>

theorem unknown_lengths_are_excluded: "search_choice (Some d) [synced_track None] None None = None"
  by (simp add: search_gap_def length_gap_def)

section \<open>The cache\<close>

text \<open>The files a test of the whole request needs none of.\<close>

lemma remote_request:
  assumes "\<not> is_local_song (req_video r)"
  shows "get_lyrics show_lyrics read_lyrics files net now r c =
     (case (if pinned net = None then cached_lyrics c (req_video r) now else None) of
        Some text \<Rightarrow> (Option.bind text read_lyrics, c)
      | None \<Rightarrow>
     (let (l, cacheable) = fetch net r
      in (l, if cacheable \<and> pinned net = None then put_lyrics c (req_video r) (map_option show_lyrics l) now else c)))"
  using assms by (simp add: get_lyrics_def is_local_song_def song_path_def starts_with_def strip_prefix_def)

text \<open>C22: What was put in the cache stands: lyrics are answered from it at any later time, and a track without lyrics
  is not asked for again for a day, whatever the providers have come to answer. After that day it is.\<close>

theorem cached_answer_stands:
  assumes "\<not> is_local_song (req_video r)" "req_video r' = req_video r" "pinned net = None" "pinned net' = None"
    and "cached_lyrics c (req_video r) now = None" "fetch net r = (l, True)"
    and "\<And>x. l = Some x \<Longrightarrow> read_lyrics (show_lyrics x) = Some x"
    and "get_lyrics show_lyrics read_lyrics files net now r c = (a, c')"
  shows "get_lyrics show_lyrics read_lyrics files net' now' r' c' =
    (if l \<noteq> None \<or> now' - now \<le> MISS_TTL_SECS then (l, c')
     else let (l', cacheable) = fetch net' r'
          in (l', if cacheable then put_lyrics c' (req_video r) (map_option show_lyrics l') now' else c'))"
proof -
  have c': "c' = put_lyrics c (req_video r) (map_option show_lyrics l) now"
    using assms by (auto simp: remote_request)
  have local': "\<not> is_local_song (req_video r')" using assms by simp
  show ?thesis
  proof (cases l)
    case None
    then have "cached_lyrics c' (req_video r') now' = (if now' - now \<le> MISS_TTL_SECS then Some None else None)"
      using assms(2) by (simp add: c' cached_lyrics_def put_lyrics_def)
    with None assms(2,4) show ?thesis by (simp add: remote_request [OF local'] split: prod.split)
  next
    case (Some x)
    then have "cached_lyrics c' (req_video r') now' = Some (Some (show_lyrics x))"
      using assms(2) by (simp add: c' cached_lyrics_def put_lyrics_def)
    with Some assms(4,7) show ?thesis by (simp add: remote_request [OF local'])
  qed
qed

text \<open>Nobody answers.\<close>

definition silent_net :: lyrics_net where
  "silent_net = \<lparr>pinned = None, boidu_setting = None, ask_next = \<lambda>_. None, ask_boidu = \<lambda>_. None,
     ask_lrclib_get = \<lambda>_. Inl (), ask_lrclib_search = \<lambda>_. Inl (), ask_timed = \<lambda>_. None, ask_plain = \<lambda>_. None,
     ask_netease = \<lambda>_. None, ask_netease_lyric = \<lambda>_. None, ask_qq = \<lambda>_. None, ask_qq_lyric = \<lambda>_. None,
     ask_kugou = \<lambda>_. None, ask_kugou_candidates = \<lambda>_. None, ask_kugou_file = \<lambda>_ _. None,
     base64_text = \<lambda>_. None, read_f64 = \<lambda>_. None, read_json = \<lambda>_. None, show_json = \<lambda>_. []\<rparr>"

definition instrumental_track :: lrclib_track where
  "instrumental_track = \<lparr>lb_instrumental = True, plain_lyrics = None, synced_lyrics = None, lb_duration = Some 200\<rparr>"

definition some_request :: lyrics_request where
  "some_request = \<lparr>req_video = lit ''dQw4w9WgXcQ'', req_title = lit ''Title'', req_artists = lit ''Artist'',
     req_album = None, req_duration = Some 200\<rparr>"

lemma some_request_simps [simp]: "req_video some_request = lit ''dQw4w9WgXcQ''" "req_duration some_request = Some 200"
  "\<not> is_local_song (lit ''dQw4w9WgXcQ'')"
  by (simp_all add: some_request_def is_local_song_def SONG_PREFIX_def starts_with_def lit_Cons)

lemmas silent_simps = silent_net_def fetch_def boidu_get_def netease_get_def qqmusic_get_def kugou_get_def lrclib_hit_def
  timed_lyrics_def only_if_def plain_tier_def lrclib_search_def with_length_def answered_def Let_def

theorem cached_answer_stands_witness:
  "\<exists>l c'. lyrics_source l = lit ''LRCLIB'' \<and> instrumental l \<and>
    get_lyrics lyrics_source (\<lambda>s. Some \<lparr>lyrics_source = s, synced = False, instrumental = True, lyric_lines = []\<rparr>) (\<lambda>_. None)
      silent_net 99999999 some_request c' = (Some l, c')"
proof -
  let ?l = "\<lparr>lyrics_source = lit ''LRCLIB'', synced = False, instrumental = True, lyric_lines = []\<rparr>"
  let ?net = "silent_net\<lparr>ask_lrclib_get := \<lambda>_. Inr (Some instrumental_track)\<rparr>"
  let ?read = "\<lambda>s. Some \<lparr>lyrics_source = s, synced = False, instrumental = True, lyric_lines = []\<rparr>"
  have f: "fetch ?net some_request = (Some ?l, True)"
    by (simp add: silent_simps lrclib_to_lyrics_def instrumental_track_def)
  obtain a c' where g: "get_lyrics lyrics_source ?read (\<lambda>_. None) ?net 0 some_request (\<lambda>_. None) = (a, c')" by fastforce
  have "get_lyrics lyrics_source ?read (\<lambda>_. None) silent_net 99999999 some_request c' =
    (if Some ?l \<noteq> None \<or> 99999999 - 0 \<le> MISS_TTL_SECS then (Some ?l, c')
     else let (l', cacheable) = fetch silent_net some_request
          in (l', if cacheable then put_lyrics c' (req_video some_request) (map_option lyrics_source l') 99999999 else c'))"
    by (rule cached_answer_stands [OF _ refl _ _ _ f _ g]) (simp_all add: cached_lyrics_def silent_net_def)
  then show ?thesis by (intro exI [of _ ?l] exI [of _ c']) simp
qed

lemma plain_tier_miss: "plain_tier net r b lr s d = (None, True) \<Longrightarrow> d"
  by (auto simp: plain_tier_def Let_def split: option.splits)

text \<open>A track is only remembered as having no lyrics when somebody answered: YouTube its player page, or LRCLIB one of
  its two requests. When everything fails, the cache is as it was.\<close>

theorem miss_needs_an_answer:
  assumes "get_lyrics show_lyrics read_lyrics files net now r c = (None, c')" "c' \<noteq> c"
  shows "c' = c(req_video r \<mapsto> (None, now)) \<and> pinned net = None \<and>
    (\<not> is_local_song (req_video r) \<and> ask_next net (req_video r) \<noteq> None \<or>
     (\<exists>q. answered (ask_lrclib_get net q)) \<or> (\<exists>q. answered (ask_lrclib_search net q)))"
proof -
  have f: "fetch net r = (None, True)" "pinned net = None" "c' = put_lyrics c (req_video r) None now"
    using assms by (auto simp: get_lyrics_def split: option.splits prod.splits if_splits)
  have searched: "answered (lrclib_search net x) \<Longrightarrow> \<exists>q. answered (ask_lrclib_search net q)" for x
    by (intro exI [of _ "[(''track_name'', req_title x), (''artist_name'', req_artists x)]"])
      (auto simp: lrclib_search_def answered_def split: sum.splits)
  have "\<not> is_local_song (req_video r) \<and> ask_next net (req_video r) \<noteq> None \<or>
     (\<exists>q. answered (ask_lrclib_get net q)) \<or> (\<exists>x. answered (lrclib_search net x))"
    using f(1,2) by (auto simp: fetch_def Let_def split: option.splits if_splits dest!: plain_tier_miss)
  with searched have "\<not> is_local_song (req_video r) \<and> ask_next net (req_video r) \<noteq> None \<or>
     (\<exists>q. answered (ask_lrclib_get net q)) \<or> (\<exists>q. answered (ask_lrclib_search net q))"
    by blast
  with f show ?thesis by (simp add: put_lyrics_def)
qed

theorem miss_needs_an_answer_witness:
  "\<exists>q. answered (ask_lrclib_get (silent_net\<lparr>ask_lrclib_get := \<lambda>_. Inr None\<rparr>) q) \<or>
    answered (ask_lrclib_search (silent_net\<lparr>ask_lrclib_get := \<lambda>_. Inr None\<rparr>) q)"
proof -
  let ?net = "silent_net\<lparr>ask_lrclib_get := \<lambda>_. Inr None\<rparr>"
  have f: "fetch ?net some_request = (None, True)" by (simp add: silent_simps)
  have "get_lyrics lyrics_source (\<lambda>_. None) (\<lambda>_. None) ?net 5 some_request (\<lambda>_. None) =
      (None, (\<lambda>_. None)(lit ''dQw4w9WgXcQ'' \<mapsto> (None, 5)))"
    using f by (simp add: remote_request cached_lyrics_def put_lyrics_def silent_net_def)
  from miss_needs_an_answer [OF this] show ?thesis
    by (auto simp: silent_net_def answered_def fun_eq_iff split: if_splits)
qed

text \<open>With the length unknown everywhere, a miss is cached all the same.\<close>

theorem miss_cached_without_length:
  "fetch (silent_net\<lparr>ask_lrclib_get := \<lambda>_. Inr None\<rparr>) (some_request\<lparr>req_duration := None\<rparr>) = (None, True)"
  by (simp add: silent_simps)

end
