(* ===== verification/Store.thy ===== *)
theory Store
  imports Lyrics_Chain "HOL-Library.Product_Lexorder" "HOL-Library.List_Lexorder"
begin

text \<open>
  The database (crates/core/src/db.rs): one record of tables, one definition per method. A table with a primary key is
  a map; \<open>plays\<close> and the songs of device playlists are lists of rows. What SQLite leaves open is a parameter: \<open>tie\<close>
  picks the row that stands for a group when several are the newest. A failing statement rolls its transaction
  back; \<open>fails\<close> says which statement fails. Times are seconds, compared and added as integers.
\<close>

section \<open>Tables\<close>

record cached_stream =
  cs_url :: ustr
  cs_itag :: int
  cs_expires_at :: int
  cs_loudness :: "rat option"
  cs_is_video :: "bool option"
  cs_ping_url :: "ustr option"
  cs_ping_client :: "ustr option"

record play =
  play_video :: ustr
  played_at :: int
  play_json :: ustr

record local_playlist =
  lp_title :: ustr
  created_at :: int
  updated_at :: int

record playlist_song =
  ps_playlist :: ustr
  ps_video :: ustr
  ps_position :: int
  ps_json :: ustr

record local_track =
  lo_path :: ustr
  lo_title :: ustr
  lo_artist :: ustr
  lo_album :: ustr
  album_key :: ustr
  track_no :: int
  duration_secs :: int
  lo_cover :: "ustr option"
  mtime :: int

record store =
  settings :: "(ustr, ustr) hmap"
  streams :: "(ustr, cached_stream) hmap"
  lyrics_rows :: lyrics_cache
  plays :: "play list"
  local_rows :: "(ustr, local_track) hmap"
  playlist_track :: "(ustr \<times> ustr) list"
  local_lists :: "(ustr, local_playlist) hmap"
  local_songs :: "playlist_song list"
  stations :: "(ustr, ustr \<times> int) hmap"

section \<open>Settings\<close>

definition get_setting :: "store \<Rightarrow> ustr \<Rightarrow> ustr option" where
  "get_setting s k = hget (settings s) k"

definition set_setting :: "ustr \<Rightarrow> ustr \<Rightarrow> store \<Rightarrow> store" where
  "set_setting k v s = s\<lparr>settings := hput k v (settings s)\<rparr>"

definition delete_setting :: "ustr \<Rightarrow> store \<Rightarrow> store" where
  "delete_setting k s = s\<lparr>settings := hdel k (settings s)\<rparr>"

definition all_settings :: "store \<Rightarrow> (ustr \<times> ustr) list" where
  "all_settings s = settings s"

subsection \<open>Transactions\<close>

text \<open>Statement number \<open>i\<close> of a transaction fails when \<open>fails i\<close>; 0 is its begin, and the number after the last
  statement is its commit. The answer is \<open>None\<close> for an error, and then nothing was written.\<close>

fun run_statements :: "(nat \<Rightarrow> bool) \<Rightarrow> nat \<Rightarrow> (store \<Rightarrow> store) list \<Rightarrow> store \<Rightarrow> store option" where
  "run_statements fails i [] s = (if fails i then None else Some s)" |
  "run_statements fails i (f # fs) s = (if fails i then None else run_statements fails (Suc i) fs (f s))"

definition transaction :: "(nat \<Rightarrow> bool) \<Rightarrow> (store \<Rightarrow> store) list \<Rightarrow> store \<Rightarrow> store option" where
  "transaction fails fs s = (if fails 0 then None else run_statements fails 1 fs s)"

definition K_COOKIE :: ustr where "K_COOKIE = lit ''session_cookie''"
definition K_SELECTED :: ustr where "K_SELECTED = lit ''selected_identity_json''"
definition K_SYNC_ID :: ustr where "K_SYNC_ID = lit ''data_sync_id''"
definition K_ACCOUNT :: ustr where "K_ACCOUNT = lit ''account_json''"
definition K_PENDING :: ustr where "K_PENDING = lit ''account_selection_pending''"

definition set_auth_identity ::
    "(nat \<Rightarrow> bool) \<Rightarrow> ustr \<Rightarrow> ustr \<Rightarrow> ustr option \<Rightarrow> ustr \<Rightarrow> store \<Rightarrow> store option" where
  "set_auth_identity fails session_cookie selected_json sync_id account_json =
     transaction fails
       [set_setting K_COOKIE session_cookie,
        set_setting K_SELECTED selected_json,
        (case sync_id of Some i \<Rightarrow> set_setting K_SYNC_ID i | None \<Rightarrow> delete_setting K_SYNC_ID),
        set_setting K_ACCOUNT account_json,
        delete_setting K_PENDING]"

definition set_pending_auth_selection :: "(nat \<Rightarrow> bool) \<Rightarrow> ustr \<Rightarrow> store \<Rightarrow> store option" where
  "set_pending_auth_selection fails session_cookie =
     transaction fails
       ([set_setting K_COOKIE session_cookie] @ map delete_setting [K_SELECTED, K_SYNC_ID, K_ACCOUNT] @
        [set_setting K_PENDING (lit ''true'')])"

definition clear_auth_identity :: "(nat \<Rightarrow> bool) \<Rightarrow> store \<Rightarrow> store option" where
  "clear_auth_identity fails =
     transaction fails (map delete_setting [K_SELECTED, K_SYNC_ID, K_ACCOUNT, K_PENDING])"

section \<open>Caches\<close>

definition STATIONS_KEPT :: nat where "STATIONS_KEPT = 64"

text \<open>\<open>ORDER BY updated_at DESC LIMIT 64\<close>; \<open>order\<close> breaks the ties.\<close>

definition put_radio_station ::
    "((ustr \<times> ustr \<times> int) list \<Rightarrow> (ustr \<times> ustr \<times> int) list) \<Rightarrow> ustr \<Rightarrow> ustr \<Rightarrow> int \<Rightarrow> store \<Rightarrow> store" where
  "put_radio_station order station_id station_json now s =
     (let m = hput station_id (station_json, now) (stations s);
          kept = map fst (take STATIONS_KEPT (sort_key (\<lambda>(_, _, u). - u) (order m)))
      in s\<lparr>stations := filter (\<lambda>(k, _). k \<in> set kept) m\<rparr>)"

definition get_radio_station :: "store \<Rightarrow> ustr \<Rightarrow> ustr option" where
  "get_radio_station s station_id = map_option fst (hget (stations s) station_id)"

definition get_stream :: "store \<Rightarrow> ustr \<Rightarrow> int \<Rightarrow> cached_stream option" where
  "get_stream s v now =
     (case hget (streams s) v of
        Some c \<Rightarrow> if now < cs_expires_at c then Some c else None
      | None \<Rightarrow> None)"

definition evict_stream :: "ustr \<Rightarrow> store \<Rightarrow> store" where
  "evict_stream v s = s\<lparr>streams := hdel v (streams s)\<rparr>"

definition sweep_streams :: "int \<Rightarrow> store \<Rightarrow> store" where
  "sweep_streams now s = s\<lparr>streams := filter (\<lambda>(_, c). now < cs_expires_at c) (streams s)\<rparr>"

definition put_stream :: "ustr \<Rightarrow> cached_stream \<Rightarrow> int \<Rightarrow> store \<Rightarrow> store" where
  "put_stream v c now s = sweep_streams now (s\<lparr>streams := hput v c (streams s)\<rparr>)"

definition clear_stream_cache :: "store \<Rightarrow> store" where
  "clear_stream_cache s = s\<lparr>streams := [], lyrics_rows := (\<lambda>_. None)\<rparr>"

definition clear_lyrics_cache :: "store \<Rightarrow> store" where
  "clear_lyrics_cache s = s\<lparr>lyrics_rows := (\<lambda>_. None)\<rparr>"

section \<open>Play history\<close>

definition record_play :: "ustr \<Rightarrow> ustr \<Rightarrow> int \<Rightarrow> int \<Rightarrow> store \<Rightarrow> store" where
  "record_play v song_json now window s =
     s\<lparr>plays := filter (\<lambda>p. now - window \<le> played_at p)
        (plays s @ [\<lparr>play_video = v, played_at = now, play_json = song_json\<rparr>])\<rparr>"

definition plays_since :: "store \<Rightarrow> int \<Rightarrow> play list" where
  "plays_since s since = filter (\<lambda>p. since \<le> played_at p) (plays s)"

text \<open>\<open>GROUP BY video_id\<close>: the groups of some rows, and for each its count, its newest time and the row that stands
  for it.\<close>

definition songs_in :: "play list \<Rightarrow> ustr list" where
  "songs_in ps = remdups (map play_video ps)"

definition plays_of :: "play list \<Rightarrow> ustr \<Rightarrow> play list" where
  "plays_of ps v = filter (\<lambda>p. play_video p = v) ps"

definition last_play :: "play list \<Rightarrow> ustr \<Rightarrow> int" where
  "last_play ps v = Max (set (map played_at (plays_of ps v)))"

definition newest_play :: "(play list \<Rightarrow> play) \<Rightarrow> play list \<Rightarrow> ustr \<Rightarrow> play" where
  "newest_play tie ps v = tie (filter (\<lambda>p. played_at p = last_play ps v) (plays_of ps v))"

definition top_plays :: "(play list \<Rightarrow> play) \<Rightarrow> store \<Rightarrow> int \<Rightarrow> nat \<Rightarrow> (ustr \<times> nat) list" where
  "top_plays tie s since limit =
     (let ps = plays_since s since
      in map (\<lambda>v. (play_json (newest_play tie ps v), length (plays_of ps v)))
           (take limit (sort_key (\<lambda>v. (- int (length (plays_of ps v)), - last_play ps v)) (songs_in ps))))"

definition recent_unique_plays :: "(play list \<Rightarrow> play) \<Rightarrow> store \<Rightarrow> int \<Rightarrow> nat \<Rightarrow> ustr list" where
  "recent_unique_plays tie s since limit =
     (let ps = plays_since s since
      in map (\<lambda>v. play_json (newest_play tie ps v))
           (take limit (sort_key (\<lambda>v. - last_play ps v) (songs_in ps))))"

definition rediscover_plays :: "(play list \<Rightarrow> play) \<Rightarrow> store \<Rightarrow> int \<Rightarrow> int \<Rightarrow> nat \<Rightarrow> ustr list" where
  "rediscover_plays tie s newer_than older_than limit =
     (let ps = plays s
      in map (\<lambda>v. play_json (newest_play tie ps v))
           (take limit (sort_key (last_play ps)
              (filter (\<lambda>v. newer_than \<le> last_play ps v \<and> last_play ps v \<le> older_than) (songs_in ps)))))"

definition play_rows :: "store \<Rightarrow> int \<Rightarrow> ustr list" where
  "play_rows s since = map play_json (sort_key (\<lambda>p. - played_at p) (plays_since s since))"

definition play_counts :: "store \<Rightarrow> int \<Rightarrow> (ustr \<times> nat) list" where
  "play_counts s since =
     (let ps = plays_since s since in map (\<lambda>v. (v, length (plays_of ps v))) (songs_in ps))"

section \<open>Which playlists hold a track\<close>

definition insert_or_ignore :: "'a \<Rightarrow> 'a list \<Rightarrow> 'a list" where
  "insert_or_ignore x xs = (if x \<in> set xs then xs else xs @ [x])"

definition set_playlist_tracks :: "ustr \<Rightarrow> ustr list \<Rightarrow> store \<Rightarrow> store" where
  "set_playlist_tracks p vs s =
     s\<lparr>playlist_track := fold (\<lambda>v. insert_or_ignore (p, v)) vs (filter (\<lambda>(q, _). q \<noteq> p) (playlist_track s))\<rparr>"

definition add_playlist_track :: "ustr \<Rightarrow> ustr \<Rightarrow> store \<Rightarrow> store" where
  "add_playlist_track p v s = s\<lparr>playlist_track := insert_or_ignore (p, v) (playlist_track s)\<rparr>"

definition remove_playlist_track :: "ustr \<Rightarrow> ustr \<Rightarrow> store \<Rightarrow> store" where
  "remove_playlist_track p v s = s\<lparr>playlist_track := filter (\<lambda>r. r \<noteq> (p, v)) (playlist_track s)\<rparr>"

definition forget_playlist :: "ustr \<Rightarrow> store \<Rightarrow> store" where
  "forget_playlist p s = s\<lparr>playlist_track := filter (\<lambda>(q, _). q \<noteq> p) (playlist_track s)\<rparr>"

definition retain_playlists :: "ustr list \<Rightarrow> store \<Rightarrow> store" where
  "retain_playlists keep s =
     (if keep = [] then s\<lparr>playlist_track := []\<rparr>
      else s\<lparr>playlist_track := filter (\<lambda>(q, _). q \<in> set keep) (playlist_track s)\<rparr>)"

definition clear_playlist_index :: "store \<Rightarrow> store" where
  "clear_playlist_index s = s\<lparr>playlist_track := []\<rparr>"

definition push_entry :: "'k \<Rightarrow> 'v \<Rightarrow> ('k, 'v list) hmap \<Rightarrow> ('k, 'v list) hmap" where
  "push_entry k v m = hput k (case hget m k of None \<Rightarrow> [v] | Some vs \<Rightarrow> vs @ [v]) m"

definition local_playlist_memberships :: "store \<Rightarrow> (ustr, ustr list) hmap" where
  "local_playlist_memberships s = fold (\<lambda>r. push_entry (ps_video r) (ps_playlist r)) (local_songs s) []"

definition playlist_memberships :: "store \<Rightarrow> (ustr, ustr list) hmap" where
  "playlist_memberships s =
     fold (\<lambda>(v, ps) m. hput v (case hget m v of None \<Rightarrow> ps | Some qs \<Rightarrow> qs @ ps) m) (local_playlist_memberships s)
       (fold (\<lambda>(p, v). push_entry v p) (playlist_track s) [])"

section \<open>Device playlists\<close>

text \<open>Methods that can fail answer \<open>None\<close> for an error of the database or for a playlist that is not there.\<close>

definition songs_of_playlist :: "store \<Rightarrow> ustr \<Rightarrow> playlist_song list" where
  "songs_of_playlist s p = filter (\<lambda>r. ps_playlist r = p) (local_songs s)"

definition local_playlists :: "store \<Rightarrow> (ustr \<times> local_playlist \<times> nat) list" where
  "local_playlists s =
     sort_key (\<lambda>(_, r, _). (- updated_at r, - created_at r))
       (map (\<lambda>(p, r). (p, r, length (songs_of_playlist s p))) (local_lists s))"

definition local_playlist_row :: "store \<Rightarrow> ustr \<Rightarrow> (local_playlist \<times> nat) option" where
  "local_playlist_row s p = map_option (\<lambda>r. (r, length (songs_of_playlist s p))) (hget (local_lists s) p)"

definition create_local_playlist :: "bool \<Rightarrow> ustr \<Rightarrow> ustr \<Rightarrow> int \<Rightarrow> store \<Rightarrow> store option" where
  "create_local_playlist io p name now s =
     (if \<not> io \<or> hget (local_lists s) p \<noteq> None then None
      else Some (s\<lparr>local_lists := hput p \<lparr>lp_title = name, created_at = now, updated_at = now\<rparr> (local_lists s)\<rparr>))"

definition rename_local_playlist :: "bool \<Rightarrow> ustr \<Rightarrow> ustr \<Rightarrow> int \<Rightarrow> store \<Rightarrow> store option" where
  "rename_local_playlist io p name now s =
     (case hget (local_lists s) p of
        Some r \<Rightarrow>
          if io then Some (s\<lparr>local_lists := hput p (r\<lparr>lp_title := name, updated_at := now\<rparr>) (local_lists s)\<rparr>) else None
      | None \<Rightarrow> None)"

definition delete_local_playlist :: "(nat \<Rightarrow> bool) \<Rightarrow> ustr \<Rightarrow> store \<Rightarrow> store option" where
  "delete_local_playlist fails p s =
     (if hget (local_lists s) p = None then None
      else transaction fails
        [\<lambda>s. s\<lparr>local_songs := filter (\<lambda>r. ps_playlist r \<noteq> p) (local_songs s)\<rparr>,
         \<lambda>s. s\<lparr>local_lists := hdel p (local_lists s)\<rparr>] s)"

definition touch_local_playlist :: "ustr \<Rightarrow> int \<Rightarrow> store \<Rightarrow> store" where
  "touch_local_playlist p now s =
     (case hget (local_lists s) p of
        Some r \<Rightarrow> s\<lparr>local_lists := hput p (r\<lparr>updated_at := now\<rparr>) (local_lists s)\<rparr>
      | None \<Rightarrow> s)"

text \<open>\<open>COALESCE(MAX(position) + 1, 0)\<close>.\<close>

definition tail_position :: "store \<Rightarrow> ustr \<Rightarrow> int" where
  "tail_position s p =
     (case map ps_position (songs_of_playlist s p) of [] \<Rightarrow> 0 | xs \<Rightarrow> Max (set xs) + 1)"

definition holds_song :: "store \<Rightarrow> ustr \<Rightarrow> ustr \<Rightarrow> bool" where
  "holds_song s p v \<longleftrightarrow> (\<exists>r \<in> set (local_songs s). ps_playlist r = p \<and> ps_video r = v)"

definition add_local_playlist_track ::
    "(nat \<Rightarrow> bool) \<Rightarrow> ustr \<Rightarrow> ustr \<Rightarrow> ustr \<Rightarrow> int \<Rightarrow> store \<Rightarrow> (bool \<times> store) option" where
  "add_local_playlist_track fails p v song_json now s =
     (if hget (local_lists s) p = None then None
      else if holds_song s p v then map_option (Pair False) (transaction fails [id, id, id] s)
      else map_option (Pair True) (transaction fails
        [id, id,
         \<lambda>s. s\<lparr>local_songs := local_songs s @
           [\<lparr>ps_playlist = p, ps_video = v, ps_position = tail_position s p, ps_json = song_json\<rparr>]\<rparr>,
         touch_local_playlist p now] s))"

definition remove_local_playlist_track :: "(nat \<Rightarrow> bool) \<Rightarrow> ustr \<Rightarrow> ustr \<Rightarrow> int \<Rightarrow> store \<Rightarrow> store option" where
  "remove_local_playlist_track fails p v now s =
     (if holds_song s p v
      then transaction fails
        [\<lambda>s. s\<lparr>local_songs := filter (\<lambda>r. \<not> (ps_playlist r = p \<and> ps_video r = v)) (local_songs s)\<rparr>,
         touch_local_playlist p now] s
      else transaction fails [id] s)"

definition playlist_in_order :: "store \<Rightarrow> ustr \<Rightarrow> playlist_song list" where
  "playlist_in_order s p = sort_key ps_position (songs_of_playlist s p)"

definition local_playlist_track_json :: "store \<Rightarrow> ustr \<Rightarrow> ustr list" where
  "local_playlist_track_json s p = map ps_json (playlist_in_order s p)"

text \<open>\<open>thumb\<close> is the trimmed thumbnail \<open>json_extract\<close> finds in a row, when it is a text that is not blank. The first
  four distinct ones in playlist order.\<close>

fun first_seen :: "'a list \<Rightarrow> 'a list \<Rightarrow> 'a list" where
  "first_seen seen [] = []" |
  "first_seen seen (x # xs) = (if x \<in> set seen then first_seen seen xs else x # first_seen (x # seen) xs)"

definition local_playlist_track_thumbnails :: "(ustr \<Rightarrow> ustr option) \<Rightarrow> store \<Rightarrow> ustr \<Rightarrow> ustr list" where
  "local_playlist_track_thumbnails thumb s p =
     take 4 (first_seen [] (List.map_filter thumb (local_playlist_track_json s p)))"

section \<open>Local files\<close>

definition local_mtimes :: "store \<Rightarrow> (ustr, int) hmap" where
  "local_mtimes s = map (\<lambda>(p, t). (p, mtime t)) (local_rows s)"

text \<open>The whole batch is one transaction whose failing statements are skipped; \<open>io\<close> is whether it could be begun and
  committed, \<open>bad\<close> the rows refused.\<close>

definition put_local_tracks :: "bool \<Rightarrow> (local_track \<Rightarrow> bool) \<Rightarrow> local_track list \<Rightarrow> store \<Rightarrow> store" where
  "put_local_tracks io bad ts s =
     (if ts = [] \<or> \<not> io then s
      else s\<lparr>local_rows := fold (\<lambda>t. hput (lo_path t) t) (filter (\<lambda>t. \<not> bad t) ts) (local_rows s)\<rparr>)"

definition delete_local_tracks :: "bool \<Rightarrow> ustr list \<Rightarrow> store \<Rightarrow> store" where
  "delete_local_tracks io ps s =
     (if ps = [] \<or> \<not> io then s else s\<lparr>local_rows := filter (\<lambda>(p, _). p \<notin> set ps) (local_rows s)\<rparr>)"

definition has_local_track :: "store \<Rightarrow> ustr \<Rightarrow> bool" where
  "has_local_track s p \<longleftrightarrow> hget (local_rows s) p \<noteq> None"

text \<open>\<open>ORDER BY album, track_no, title\<close>: SQLite compares text by its bytes, which is the order of code points.\<close>

definition local_tracks :: "store \<Rightarrow> ustr option \<Rightarrow> local_track list" where
  "local_tracks s k =
     sort_key (\<lambda>t. (lo_album t, track_no t, lo_title t))
       (filter (\<lambda>t. case k of None \<Rightarrow> True | Some a \<Rightarrow> album_key t = a) (map snd (local_rows s)))"

section \<open>Opening\<close>

text \<open>What opening does to the rows of an existing file: plays of local files go, and expired streams; a file from
  before the video column loses its cached streams. \<open>LIKE\<close> ignores the case of ASCII letters. The schema itself is not modelled.\<close>

definition open_store :: "bool \<Rightarrow> int \<Rightarrow> store \<Rightarrow> store" where
  "open_store adds_video_column now s =
     (let s = (if adds_video_column then s\<lparr>streams := []\<rparr> else s);
          s = s\<lparr>plays := filter (\<lambda>p. \<not> starts_with (lit ''local:'') (to_ascii_lowercase (play_video p))) (plays s)\<rparr>
      in sweep_streams now s)"

end
