(* ===== verification/Store_Laws.thy ===== *)
theory Store_Laws
  imports Store
begin

text \<open>
  What the database keeps: its invariant under every method, device playlists as lists without duplicates, the account
  settings that only change together, the stream cache, and the ranking of the play history.
\<close>

section \<open>Transactions\<close>

lemma run_statements_eq:
  "run_statements fails i fs s = (if \<exists>j \<le> length fs. fails (i + j) then None else Some (fold (\<lambda>f. f) fs s))"
proof (induction fs arbitrary: i s)
  case Nil
  then show ?case by simp
next
  case (Cons f fs)
  have "(\<exists>j \<le> Suc (length fs). fails (i + j)) \<longleftrightarrow> fails i \<or> (\<exists>j \<le> length fs. fails (Suc i + j))"
    by (metis Suc_le_mono add.right_neutral add_Suc_right add_Suc_shift le0 not0_implies_Suc)
  then show ?case
    using Cons.IH [of "Suc i"] by auto
qed

definition tx_fails :: "(nat \<Rightarrow> bool) \<Rightarrow> nat \<Rightarrow> bool" where
  "tx_fails fails n \<longleftrightarrow> (\<exists>j \<le> Suc n. fails j)"

lemma transaction_eq:
  "transaction fails fs s = (if tx_fails fails (length fs) then None else Some (fold (\<lambda>f. f) fs s))"
proof -
  have "(\<exists>j \<le> Suc (length fs). fails j) \<longleftrightarrow> fails 0 \<or> (\<exists>j \<le> length fs. fails (1 + j))"
    by (metis One_nat_def Suc_le_mono le0 not0_implies_Suc plus_1_eq_Suc)
  then show ?thesis
    by (simp add: transaction_def tx_fails_def run_statements_eq)
qed

lemma transaction_Some: "transaction fails fs s = Some s' \<Longrightarrow> s' = fold (\<lambda>f. f) fs s"
  by (simp add: transaction_eq split: if_splits)

section \<open>The invariant\<close>

definition positions_rise :: "playlist_song list \<Rightarrow> bool" where
  "positions_rise rs \<longleftrightarrow> (\<forall>p. sorted_wrt (<) (map ps_position (filter (\<lambda>r. ps_playlist r = p) rs)))"

definition store_ok :: "store \<Rightarrow> bool" where
  "store_ok s \<longleftrightarrow>
     hwf (settings s) \<and> hwf (streams s) \<and> hwf (local_rows s) \<and> hwf (local_lists s) \<and> hwf (stations s) \<and>
     distinct (playlist_track s) \<and> length (stations s) \<le> STATIONS_KEPT \<and>
     (\<forall>(p, t) \<in> set (local_rows s). lo_path t = p) \<and>
     distinct (map (\<lambda>r. (ps_playlist r, ps_video r)) (local_songs s)) \<and>
     positions_rise (local_songs s) \<and>
     (\<forall>r \<in> set (local_songs s). hget (local_lists s) (ps_playlist r) \<noteq> None)"

definition empty_store :: store where
  "empty_store = \<lparr>settings = [], streams = [], lyrics_rows = (\<lambda>_. None), plays = [], local_rows = [],
     playlist_track = [], local_lists = [], local_songs = [], stations = []\<rparr>"

lemma empty_store_ok: "store_ok empty_store"
  by (simp add: store_ok_def empty_store_def positions_rise_def)

lemma hwf_filter: "hwf m \<Longrightarrow> hwf (filter P m)"
  by (simp add: hwf_def distinct_map_filter)

lemma positions_rise_filter: "positions_rise rs \<Longrightarrow> positions_rise (filter P rs)"
proof -
  assume r: "positions_rise rs"
  have "sorted_wrt (<) (map ps_position (filter (\<lambda>r. ps_playlist r = p) (filter P rs)))" for p
  proof -
    have "sorted_wrt (\<lambda>a b. ps_position a < ps_position b) (filter (\<lambda>r. ps_playlist r = p) rs)"
      using r by (simp add: positions_rise_def sorted_wrt_map)
    then have "sorted_wrt (\<lambda>a b. ps_position a < ps_position b) (filter P (filter (\<lambda>r. ps_playlist r = p) rs))"
      by (rule sorted_wrt_filter)
    then show ?thesis
      by (simp add: sorted_wrt_map filter_filter conj_commute)
  qed
  then show ?thesis
    by (simp add: positions_rise_def)
qed

lemma tail_position_above: "r \<in> set (local_songs s) \<Longrightarrow> ps_playlist r = p \<Longrightarrow> ps_position r < tail_position s p"
proof -
  assume r: "r \<in> set (local_songs s)" "ps_playlist r = p"
  let ?xs = "map ps_position (songs_of_playlist s p)"
  have m: "ps_position r \<in> set ?xs"
    using r by (auto simp: songs_of_playlist_def)
  then have "?xs \<noteq> []" by auto
  then have "tail_position s p = Max (set ?xs) + 1"
    by (auto simp: tail_position_def split: list.split)
  moreover have "ps_position r \<le> Max (set ?xs)"
    using m by (simp add: Max_ge)
  ultimately show ?thesis by simp
qed

lemma positions_rise_append:
  assumes "positions_rise (local_songs s)" "ps_position r = tail_position s (ps_playlist r)"
  shows "positions_rise (local_songs s @ [r])"
proof -
  have "\<forall>x \<in> set (filter (\<lambda>x. ps_playlist x = ps_playlist r) (local_songs s)). ps_position x < ps_position r"
    using tail_position_above assms(2) by auto
  then show ?thesis
    using assms(1) by (auto simp: positions_rise_def sorted_wrt_append)
qed

subsection \<open>Every method\<close>

lemma ok_settings: "store_ok s \<Longrightarrow> store_ok (set_setting k v s)" "store_ok s \<Longrightarrow> store_ok (delete_setting k s)"
  by (simp_all add: store_ok_def set_setting_def delete_setting_def)

lemma fold_ok: "(\<And>f s. f \<in> set fs \<Longrightarrow> store_ok s \<Longrightarrow> store_ok (f s)) \<Longrightarrow> store_ok s \<Longrightarrow> store_ok (fold (\<lambda>f. f) fs s)"
  by (induction fs arbitrary: s) auto

lemma ok_transaction:
  "transaction fails fs s = Some s' \<Longrightarrow> store_ok s \<Longrightarrow> (\<And>f s. f \<in> set fs \<Longrightarrow> store_ok s \<Longrightarrow> store_ok (f s)) \<Longrightarrow>
    store_ok s'"
  using transaction_Some fold_ok by metis

lemma ok_set_auth_identity:
  "set_auth_identity fails c sel i a s = Some s' \<Longrightarrow> store_ok s \<Longrightarrow> store_ok s'"
  unfolding set_auth_identity_def
  by (erule ok_transaction) (auto simp: ok_settings split: option.splits)

lemma ok_set_pending_auth_selection:
  "set_pending_auth_selection fails c s = Some s' \<Longrightarrow> store_ok s \<Longrightarrow> store_ok s'"
  unfolding set_pending_auth_selection_def
  by (erule ok_transaction) (auto simp: ok_settings)

lemma ok_clear_auth_identity: "clear_auth_identity fails s = Some s' \<Longrightarrow> store_ok s \<Longrightarrow> store_ok s'"
  unfolding clear_auth_identity_def
  by (erule ok_transaction) (auto simp: ok_settings)

lemma ok_streams:
  "store_ok s \<Longrightarrow> store_ok (put_stream v c now s)" "store_ok s \<Longrightarrow> store_ok (evict_stream v s)"
  "store_ok s \<Longrightarrow> store_ok (clear_stream_cache s)" "store_ok s \<Longrightarrow> store_ok (clear_lyrics_cache s)"
  "store_ok s \<Longrightarrow> store_ok (sweep_streams now s)"
  by (simp_all add: store_ok_def put_stream_def sweep_streams_def evict_stream_def clear_stream_cache_def
      clear_lyrics_cache_def hwf_filter)

lemma filter_keys_length:
  assumes "hwf m" "length ks \<le> n"
  shows "length (filter (\<lambda>(k, _). k \<in> set ks) m) \<le> n"
proof -
  let ?f = "filter (\<lambda>(k, _). k \<in> set ks) m"
  have "length ?f = card (set (map fst ?f))"
    using hwf_filter [OF assms(1)] distinct_card by (metis hwf_def length_map)
  also have "\<dots> \<le> card (set ks)"
    by (rule card_mono) auto
  also have "\<dots> \<le> n"
    using card_length assms(2) le_trans by blast
  finally show ?thesis .
qed

lemma ok_put_radio_station:
  assumes "store_ok s"
  shows "store_ok (put_radio_station order i j now s)"
proof -
  let ?m = "hput i (j, now) (stations s)"
  have w: "hwf ?m" using assms by (simp add: store_ok_def)
  have "length (map fst (take STATIONS_KEPT (sort_key (\<lambda>(_, _, u). - u) (order ?m)))) \<le> STATIONS_KEPT"
    by simp
  from filter_keys_length [OF w this] hwf_filter [OF w] show ?thesis
    using assms by (simp add: store_ok_def put_radio_station_def Let_def)
qed

lemma ok_record_play: "store_ok s \<Longrightarrow> store_ok (record_play v j now w s)"
  by (simp add: store_ok_def record_play_def)

lemma distinct_insert_or_ignore: "distinct xs \<Longrightarrow> distinct (insert_or_ignore x xs)"
  by (simp add: insert_or_ignore_def)

lemma distinct_fold_insert: "distinct xs \<Longrightarrow> distinct (fold (\<lambda>v. insert_or_ignore (p, v)) vs xs)"
  by (induction vs arbitrary: xs) (simp_all add: distinct_insert_or_ignore)

lemma ok_index:
  "store_ok s \<Longrightarrow> store_ok (set_playlist_tracks p vs s)" "store_ok s \<Longrightarrow> store_ok (add_playlist_track p v s)"
  "store_ok s \<Longrightarrow> store_ok (remove_playlist_track p v s)" "store_ok s \<Longrightarrow> store_ok (forget_playlist p s)"
  "store_ok s \<Longrightarrow> store_ok (retain_playlists ps s)" "store_ok s \<Longrightarrow> store_ok (clear_playlist_index s)"
  by (simp_all add: store_ok_def set_playlist_tracks_def add_playlist_track_def remove_playlist_track_def
      forget_playlist_def retain_playlists_def clear_playlist_index_def distinct_insert_or_ignore distinct_fold_insert)

lemma ok_create: "create_local_playlist io p name now s = Some s' \<Longrightarrow> store_ok s \<Longrightarrow> store_ok s'"
  by (auto simp: create_local_playlist_def store_ok_def split: if_splits)

lemma ok_rename: "rename_local_playlist io p name now s = Some s' \<Longrightarrow> store_ok s \<Longrightarrow> store_ok s'"
  by (auto simp: rename_local_playlist_def store_ok_def split: if_splits option.splits)

lemma ok_touch: "store_ok s \<Longrightarrow> store_ok (touch_local_playlist p now s)"
  by (auto simp: touch_local_playlist_def store_ok_def split: option.splits)

lemma ok_drop_songs: "store_ok s \<Longrightarrow> store_ok (s\<lparr>local_songs := filter P (local_songs s)\<rparr>)"
  by (simp add: store_ok_def positions_rise_filter distinct_map_filter)

lemma ok_delete: "delete_local_playlist fails p s = Some s' \<Longrightarrow> store_ok s \<Longrightarrow> store_ok s'"
proof -
  assume d: "delete_local_playlist fails p s = Some s'" and ok: "store_ok s"
  let ?t = "s\<lparr>local_songs := filter (\<lambda>r. ps_playlist r \<noteq> p) (local_songs s)\<rparr>"
  have s': "s' = ?t\<lparr>local_lists := hdel p (local_lists ?t)\<rparr>"
    using d by (auto simp: delete_local_playlist_def transaction_eq split: if_splits)
  have "store_ok ?t" using ok by (rule ok_drop_songs)
  then show ?thesis
    using ok unfolding s' by (auto simp: store_ok_def)
qed

lemma ok_add: "add_local_playlist_track fails p v j now s = Some (b, s') \<Longrightarrow> store_ok s \<Longrightarrow> store_ok s'"
proof -
  assume a: "add_local_playlist_track fails p v j now s = Some (b, s')" and ok: "store_ok s"
  show ?thesis
  proof (cases "holds_song s p v")
    case True
    then have "s' = s" using a by (auto simp: add_local_playlist_track_def transaction_eq split: if_splits)
    then show ?thesis using ok by simp
  next
    case False
    let ?r = "\<lparr>ps_playlist = p, ps_video = v, ps_position = tail_position s p, ps_json = j\<rparr>"
    let ?t = "s\<lparr>local_songs := local_songs s @ [?r]\<rparr>"
    have s': "s' = touch_local_playlist p now ?t" and p: "hget (local_lists s) p \<noteq> None"
      using a False by (auto simp: add_local_playlist_track_def transaction_eq split: if_splits)
    have "positions_rise (local_songs s @ [?r])"
      using ok by (intro positions_rise_append) (simp_all add: store_ok_def)
    moreover have "(p, v) \<notin> set (map (\<lambda>r. (ps_playlist r, ps_video r)) (local_songs s))"
      using False by (auto simp: holds_song_def)
    ultimately have "store_ok ?t"
      using ok p by (auto simp: store_ok_def)
    then show ?thesis unfolding s' by (rule ok_touch)
  qed
qed

lemma ok_remove: "remove_local_playlist_track fails p v now s = Some s' \<Longrightarrow> store_ok s \<Longrightarrow> store_ok s'"
  by (auto simp: remove_local_playlist_track_def transaction_eq ok_touch ok_drop_songs split: if_splits)

definition rows_keyed :: "(ustr, local_track) hmap \<Rightarrow> bool" where
  "rows_keyed m \<longleftrightarrow> hwf m \<and> (\<forall>(p, t) \<in> set m. lo_path t = p)"

lemma rows_keyed_fold: "rows_keyed m \<Longrightarrow> rows_keyed (fold (\<lambda>t. hput (lo_path t) t) ts m)"
proof (induction ts arbitrary: m)
  case (Cons t ts)
  have "rows_keyed (hput (lo_path t) t m)"
    using Cons.prems set_hput [of "lo_path t" t m] by (auto simp: rows_keyed_def)
  then show ?case by (simp add: Cons.IH)
qed simp

lemma ok_put_local_tracks: "store_ok s \<Longrightarrow> store_ok (put_local_tracks io bad ts s)"
  using rows_keyed_fold [of "local_rows s"] by (simp add: put_local_tracks_def store_ok_def rows_keyed_def)

lemma ok_delete_local_tracks: "store_ok s \<Longrightarrow> store_ok (delete_local_tracks io ps s)"
  by (auto simp: delete_local_tracks_def store_ok_def hwf_filter)

lemma ok_open_store: "store_ok s \<Longrightarrow> store_ok (open_store b now s)"
  by (simp add: open_store_def Let_def sweep_streams_def store_ok_def hwf_filter)

section \<open>Every history of the database\<close>

inductive store_step :: "store \<Rightarrow> store \<Rightarrow> bool" where
  st_set: "store_step s (set_setting k v s)"
| st_unset: "store_step s (delete_setting k s)"
| st_identity: "set_auth_identity fails c sel i a s = Some s' \<Longrightarrow> store_step s s'"
| st_pending: "set_pending_auth_selection fails c s = Some s' \<Longrightarrow> store_step s s'"
| st_signout: "clear_auth_identity fails s = Some s' \<Longrightarrow> store_step s s'"
| st_station: "store_step s (put_radio_station order i j now s)"
| st_stream: "store_step s (put_stream v c now s)"
| st_evict: "store_step s (evict_stream v s)"
| st_clear: "store_step s (clear_stream_cache s)"
| st_clear_lyrics: "store_step s (clear_lyrics_cache s)"
| st_lyrics: "store_step s (s\<lparr>lyrics_rows := put_lyrics (lyrics_rows s) v l now\<rparr>)"
| st_play: "store_step s (record_play v j now w s)"
| st_index: "store_step s (set_playlist_tracks p vs s)"
| st_index_add: "store_step s (add_playlist_track p v s)"
| st_index_remove: "store_step s (remove_playlist_track p v s)"
| st_forget: "store_step s (forget_playlist p s)"
| st_retain: "store_step s (retain_playlists ps s)"
| st_clear_index: "store_step s (clear_playlist_index s)"
| st_create: "create_local_playlist io p name now s = Some s' \<Longrightarrow> store_step s s'"
| st_rename: "rename_local_playlist io p name now s = Some s' \<Longrightarrow> store_step s s'"
| st_delete: "delete_local_playlist fails p s = Some s' \<Longrightarrow> store_step s s'"
| st_add: "add_local_playlist_track fails p v j now s = Some (b, s') \<Longrightarrow> store_step s s'"
| st_remove: "remove_local_playlist_track fails p v now s = Some s' \<Longrightarrow> store_step s s'"
| st_scan: "store_step s (put_local_tracks io bad ts s)"
| st_gone: "store_step s (delete_local_tracks io ps s)"
| st_open: "store_step s (open_store b now s)"

lemma store_step_ok: "store_step s t \<Longrightarrow> store_ok s \<Longrightarrow> store_ok t"
proof (induction rule: store_step.induct)
  case (st_lyrics s v l now)
  then show ?case by (simp add: store_ok_def)
qed (simp_all add: ok_settings ok_set_auth_identity ok_set_pending_auth_selection ok_clear_auth_identity ok_streams
    ok_put_radio_station ok_record_play ok_index ok_create ok_rename ok_delete ok_add ok_remove ok_put_local_tracks
    ok_delete_local_tracks ok_open_store)

interpretation database: invariant "\<lambda>s. s = empty_store" store_step store_ok
  by unfold_locales (auto simp: empty_store_ok store_step_ok)

text \<open>Whatever methods have run in whatever order, with whatever statements failing, the database names every
  setting, stream, file and playlist once, caches at most 64 stations, and has no song of a device playlist whose
  playlist is gone, none twice in a playlist, and each playlist's positions strictly rising in the order its songs
  were added.\<close>

theorem database_invariant:
  assumes "reachable (\<lambda>s. s = empty_store) store_step s"
  shows "hwf (settings s) \<and> hwf (streams s) \<and> hwf (local_rows s) \<and> hwf (local_lists s) \<and> distinct (playlist_track s) \<and>
    length (stations s) \<le> 64 \<and>
    (\<forall>r \<in> set (local_songs s). hget (local_lists s) (ps_playlist r) \<noteq> None) \<and>
    distinct (map (\<lambda>r. (ps_playlist r, ps_video r)) (local_songs s)) \<and>
    (\<forall>p. sorted_wrt (<) (map ps_position (songs_of_playlist s p)))"
proof -
  have "store_ok s"
    using assms by (rule database.inv_reachable)
  then show ?thesis
    by (simp add: store_ok_def STATIONS_KEPT_def positions_rise_def songs_of_playlist_def)
qed

definition one_playlist :: store where
  "one_playlist = the (create_local_playlist True (lit ''p'') (lit ''Mix'') 4 empty_store)"

definition one_song :: store where
  "one_song = snd (the (add_local_playlist_track (\<lambda>_. False) (lit ''p'') (lit ''v'') (lit ''{}'') 5 one_playlist))"

lemma one_playlist_eq: "create_local_playlist True (lit ''p'') (lit ''Mix'') 4 empty_store = Some one_playlist"
  by (simp add: one_playlist_def create_local_playlist_def empty_store_def)

lemma one_song_eq:
  "add_local_playlist_track (\<lambda>_. False) (lit ''p'') (lit ''v'') (lit ''{}'') 5 one_playlist = Some (True, one_song)"
  by (simp add: one_song_def one_playlist_def add_local_playlist_track_def create_local_playlist_def empty_store_def
      holds_song_def transaction_eq tx_fails_def)

lemma one_song_reachable: "reachable (\<lambda>s. s = empty_store) store_step one_song"
proof (rule reachable_step)
  have "store_step empty_store one_playlist"
    by (rule st_create) (rule one_playlist_eq)
  then show "reachable (\<lambda>s. s = empty_store) store_step one_playlist"
    by (rule reachable_step [rotated]) (rule reachable_init, rule refl)
  show "store_step one_playlist one_song"
    by (rule st_add) (rule one_song_eq)
qed

theorem database_invariant_witness:
  "local_songs one_song \<noteq> [] \<and> distinct (map (\<lambda>r. (ps_playlist r, ps_video r)) (local_songs one_song))"
proof -
  have "local_songs one_song \<noteq> []"
    by (simp add: one_song_def one_playlist_def add_local_playlist_track_def create_local_playlist_def empty_store_def
      holds_song_def transaction_eq tx_fails_def touch_local_playlist_def)
  with database_invariant [OF one_song_reachable] show ?thesis by simp
qed

section \<open>Device playlists are lists\<close>

type_synonym playlists = "ustr \<Rightarrow> (ustr \<times> (ustr \<times> ustr) list) option"

definition playlists_of :: "store \<Rightarrow> playlists" where
  "playlists_of s p = map_option
     (\<lambda>r. (lp_title r, map (\<lambda>x. (ps_video x, ps_json x)) (playlist_in_order s p))) (hget (local_lists s) p)"

datatype device_op = CreateList ustr ustr | RenameList ustr ustr | DeleteList ustr | AddSong ustr ustr ustr
  | RemoveSong ustr ustr

fun run_device :: "device_op \<Rightarrow> int \<Rightarrow> store \<Rightarrow> store option" where
  "run_device (CreateList p name) now s = create_local_playlist True p name now s" |
  "run_device (RenameList p name) now s = rename_local_playlist True p name now s" |
  "run_device (DeleteList p) now s = delete_local_playlist (\<lambda>_. False) p s" |
  "run_device (AddSong p v j) now s = map_option snd (add_local_playlist_track (\<lambda>_. False) p v j now s)" |
  "run_device (RemoveSong p v) now s = remove_local_playlist_track (\<lambda>_. False) p v now s"

text \<open>The specification: a playlist is a name and a list of songs; a song is added at the end, once.\<close>

fun spec_device :: "device_op \<Rightarrow> playlists \<Rightarrow> playlists option" where
  "spec_device (CreateList p name) m = (case m p of None \<Rightarrow> Some (m(p \<mapsto> (name, []))) | Some _ \<Rightarrow> None)" |
  "spec_device (RenameList p name) m = (case m p of None \<Rightarrow> None | Some (_, xs) \<Rightarrow> Some (m(p \<mapsto> (name, xs))))" |
  "spec_device (DeleteList p) m = (case m p of None \<Rightarrow> None | Some _ \<Rightarrow> Some (m(p := None)))" |
  "spec_device (AddSong p v j) m =
     (case m p of None \<Rightarrow> None
      | Some (name, xs) \<Rightarrow> Some (if v \<in> fst ` set xs then m else m(p \<mapsto> (name, xs @ [(v, j)]))))" |
  "spec_device (RemoveSong p v) m =
     (case m p of None \<Rightarrow> Some m | Some (name, xs) \<Rightarrow> Some (m(p \<mapsto> (name, filter (\<lambda>(w, _). w \<noteq> v) xs))))"

lemma in_order: "store_ok s \<Longrightarrow> playlist_in_order s p = songs_of_playlist s p"
proof -
  assume "store_ok s"
  then have "sorted_wrt (<) (map ps_position (songs_of_playlist s p))"
    by (simp add: store_ok_def positions_rise_def songs_of_playlist_def)
  then have "sorted (map ps_position (songs_of_playlist s p))"
    by (simp add: strict_sorted_imp_sorted)
  then show ?thesis
    by (simp add: playlist_in_order_def sort_key_id_if_sorted)
qed

lemma songs_touch: "local_songs (touch_local_playlist p now s) = local_songs s"
  by (simp add: touch_local_playlist_def split: option.split)

lemma titles_touch:
  "map_option lp_title (hget (local_lists (touch_local_playlist p now s)) q) = map_option lp_title (hget (local_lists s) q)"
  by (simp add: touch_local_playlist_def split: option.split)

lemma playlists_of_eq:
  "store_ok s \<Longrightarrow> playlists_of s p =
    map_option (\<lambda>t. (t, map (\<lambda>x. (ps_video x, ps_json x)) (songs_of_playlist s p)))
      (map_option lp_title (hget (local_lists s) p))"
  by (simp add: playlists_of_def in_order option.map_comp comp_def)

lemma no_songs: "store_ok s \<Longrightarrow> hget (local_lists s) p = None \<Longrightarrow> songs_of_playlist s p = []"
  by (auto simp: store_ok_def songs_of_playlist_def filter_empty_conv)

lemma holds_song_of: "holds_song s p v \<longleftrightarrow> v \<in> ps_video ` set (songs_of_playlist s p)"
  by (auto simp: holds_song_def songs_of_playlist_def)

lemma run_create:
  assumes "store_ok s"
  shows "map_option playlists_of (run_device (CreateList p name) now s) = spec_device (CreateList p name) (playlists_of s)"
proof (cases "hget (local_lists s) p")
  case None
  have "playlists_of (s\<lparr>local_lists := hput p \<lparr>lp_title = name, created_at = now, updated_at = now\<rparr> (local_lists s)\<rparr>) =
      (playlists_of s)(p \<mapsto> (name, []))"
    using no_songs [OF assms None] assms
    by (auto simp: fun_eq_iff playlists_of_def playlist_in_order_def songs_of_playlist_def)
  with None show ?thesis
    by (simp add: create_local_playlist_def playlists_of_def)
qed (simp add: create_local_playlist_def playlists_of_def)

lemma run_rename:
  "map_option playlists_of (run_device (RenameList p name) now s) = spec_device (RenameList p name) (playlists_of s)"
  by (auto simp: fun_eq_iff rename_local_playlist_def playlists_of_def playlist_in_order_def songs_of_playlist_def
      split: option.split)

lemma run_delete:
  "map_option playlists_of (run_device (DeleteList p) now s) = spec_device (DeleteList p) (playlists_of s)"
proof -
  have "filter (\<lambda>r. ps_playlist r = q) (filter (\<lambda>r. ps_playlist r \<noteq> p) xs) = filter (\<lambda>r. ps_playlist r = q) xs"
    if "q \<noteq> p" for q and xs :: "playlist_song list"
    using that by (induction xs) auto
  then show ?thesis
    by (auto simp: fun_eq_iff delete_local_playlist_def transaction_eq tx_fails_def playlists_of_def playlist_in_order_def
        songs_of_playlist_def split: option.split)
qed

lemma run_add:
  assumes ok: "store_ok s"
  shows "map_option playlists_of (run_device (AddSong p v j) now s) = spec_device (AddSong p v j) (playlists_of s)"
proof (cases "hget (local_lists s) p")
  case None
  then show ?thesis by (simp add: add_local_playlist_track_def playlists_of_def)
next
  case (Some r)
  have pv: "playlists_of s p = Some (lp_title r, map (\<lambda>x. (ps_video x, ps_json x)) (songs_of_playlist s p))"
    using Some by (simp add: playlists_of_eq [OF ok])
  have fst_img: "fst ` set (map (\<lambda>x. (ps_video x, ps_json x)) xs) = ps_video ` set xs" for xs
    by (simp add: image_image)
  show ?thesis
  proof (cases "holds_song s p v")
    case True
    then show ?thesis
      using Some pv fst_img [of "songs_of_playlist s p"]
      by (simp add: add_local_playlist_track_def transaction_eq tx_fails_def holds_song_of)
  next
    case False
    let ?x = "\<lparr>ps_playlist = p, ps_video = v, ps_position = tail_position s p, ps_json = j\<rparr>"
    let ?t = "touch_local_playlist p now (s\<lparr>local_songs := local_songs s @ [?x]\<rparr>)"
    have run: "add_local_playlist_track (\<lambda>_. False) p v j now s = Some (True, ?t)"
      using Some False by (simp add: add_local_playlist_track_def transaction_eq tx_fails_def)
    have "store_ok ?t" by (rule ok_add [OF run ok])
    have songs: "songs_of_playlist ?t q = songs_of_playlist s q @ (if q = p then [?x] else [])" for q
      by (simp add: songs_of_playlist_def songs_touch)
    have "playlists_of ?t q = ((playlists_of s)(p \<mapsto> (lp_title r, map (\<lambda>x. (ps_video x, ps_json x)) (songs_of_playlist s p) @ [(v, j)]))) q" for q
      using Some by (simp add: playlists_of_eq [OF ok] playlists_of_eq [OF \<open>store_ok ?t\<close>] titles_touch songs)
    then show ?thesis
      using run pv False fst_img [of "songs_of_playlist s p"] by (auto simp: holds_song_of fun_eq_iff)
  qed
qed

lemma run_remove:
  assumes ok: "store_ok s"
  shows "map_option playlists_of (run_device (RemoveSong p v) now s) = spec_device (RemoveSong p v) (playlists_of s)"
proof (cases "holds_song s p v")
  case False
  have "filter (\<lambda>(w, _). w \<noteq> v) (map (\<lambda>x. (ps_video x, ps_json x)) (songs_of_playlist s p)) =
      map (\<lambda>x. (ps_video x, ps_json x)) (songs_of_playlist s p)"
    using False by (auto simp: holds_song_of filter_id_conv)
  with False show ?thesis
    by (auto simp: remove_local_playlist_track_def transaction_eq tx_fails_def playlists_of_eq [OF ok] split: option.split)
next
  case True
  then obtain r where r: "hget (local_lists s) p = Some r"
    using no_songs [OF ok] by (cases "hget (local_lists s) p") (auto simp: holds_song_of)
  define t where "t = touch_local_playlist p now
    (s\<lparr>local_songs := filter (\<lambda>r. \<not> (ps_playlist r = p \<and> ps_video r = v)) (local_songs s)\<rparr>)"
  have run: "remove_local_playlist_track (\<lambda>_. False) p v now s = Some t"
    using True by (simp add: remove_local_playlist_track_def transaction_eq tx_fails_def t_def)
  have ok': "store_ok t" by (rule ok_remove [OF run ok])
  have songs: "songs_of_playlist t q =
      (if q = p then filter (\<lambda>x. ps_video x \<noteq> v) (songs_of_playlist s p) else songs_of_playlist s q)" for q
    by (auto simp: songs_of_playlist_def songs_touch t_def intro: filter_cong)
  have titles: "map_option lp_title (hget (local_lists t) q) = map_option lp_title (hget (local_lists s) q)" for q
    by (simp add: t_def titles_touch)
  have m: "map (\<lambda>x. (ps_video x, ps_json x)) (filter (\<lambda>x. ps_video x \<noteq> v) xs) =
      filter (\<lambda>(w, _). w \<noteq> v) (map (\<lambda>x. (ps_video x, ps_json x)) xs)" for xs
    by (induction xs) auto
  have "playlists_of t q = (if q = p then Some (lp_title r, filter (\<lambda>(w, _). w \<noteq> v) (map (\<lambda>x. (ps_video x, ps_json x)) (songs_of_playlist s p)))
      else playlists_of s q)" for q
    using r by (simp add: playlists_of_eq [OF ok] playlists_of_eq [OF ok'] titles songs m)
  then show ?thesis
    using run r by (simp add: playlists_of_eq [OF ok] fun_eq_iff)
qed

text \<open>C9: Device playlists behave as a map from ids to a name and a list of songs: creating, renaming and deleting
  change that one entry and fail exactly when it is there or missing, a song goes to the end unless the list holds it,
  and removing takes out that song only and keeps the order of the rest.\<close>

theorem device_playlists_are_lists:
  assumes "store_ok s"
  shows "map_option playlists_of (run_device op now s) = spec_device op (playlists_of s)"
  using assms by (cases op) (simp_all only: run_create run_rename run_delete run_add run_remove)

theorem device_playlists_are_lists_witness:
  "map_option playlists_of (run_device (AddSong (lit ''p'') (lit ''w'') (lit ''[]'')) 9 one_song) =
   spec_device (AddSong (lit ''p'') (lit ''w'') (lit ''[]'')) (playlists_of one_song)"
  by (rule device_playlists_are_lists) (rule database.inv_reachable [OF one_song_reachable])

section \<open>The account settings\<close>

datatype auth_op = SetIdentity ustr ustr "ustr option" ustr | SetPending ustr | ClearIdentity

fun run_auth :: "(nat \<Rightarrow> bool) \<Rightarrow> auth_op \<Rightarrow> store \<Rightarrow> store option" where
  "run_auth fails (SetIdentity c sel i a) s = set_auth_identity fails c sel i a s" |
  "run_auth fails (SetPending c) s = set_pending_auth_selection fails c s" |
  "run_auth fails ClearIdentity s = clear_auth_identity fails s"

text \<open>A failed call leaves the database as it was; this is what its caller goes on with.\<close>

definition after_auth :: "(nat \<Rightarrow> bool) \<times> auth_op \<Rightarrow> store \<Rightarrow> store" where
  "after_auth fo s = (case run_auth (fst fo) (snd fo) s of Some s' \<Rightarrow> s' | None \<Rightarrow> s)"

text \<open>The specification: who is signed in, as one value.\<close>

datatype identity = NoIdentity | Unfinished | Identity ustr "ustr option" ustr

fun identity_after :: "auth_op \<Rightarrow> identity" where
  "identity_after (SetIdentity c sel i a) = Identity sel i a" |
  "identity_after (SetPending c) = Unfinished" |
  "identity_after ClearIdentity = NoIdentity"

fun stored_identity :: "store \<Rightarrow> identity \<Rightarrow> bool" where
  "stored_identity s (Identity sel i a) \<longleftrightarrow>
     get_setting s K_SELECTED = Some sel \<and> get_setting s K_SYNC_ID = i \<and> get_setting s K_ACCOUNT = Some a \<and>
     get_setting s K_PENDING = None" |
  "stored_identity s Unfinished \<longleftrightarrow>
     get_setting s K_SELECTED = None \<and> get_setting s K_SYNC_ID = None \<and> get_setting s K_ACCOUNT = None \<and>
     get_setting s K_PENDING = Some (lit ''true'')" |
  "stored_identity s NoIdentity \<longleftrightarrow>
     get_setting s K_SELECTED = None \<and> get_setting s K_SYNC_ID = None \<and> get_setting s K_ACCOUNT = None \<and>
     get_setting s K_PENDING = None"

lemma auth_keys_distinct: "distinct [K_COOKIE, K_SELECTED, K_SYNC_ID, K_ACCOUNT, K_PENDING]"
  by (simp add: K_COOKIE_def K_SELECTED_def K_SYNC_ID_def K_ACCOUNT_def K_PENDING_def lit_Cons)

lemma get_setting_set [simp]: "get_setting (set_setting k v s) k' = (if k' = k then Some v else get_setting s k')"
  by (simp add: get_setting_def set_setting_def)

lemma get_setting_delete [simp]: "get_setting (delete_setting k s) k' = (if k' = k then None else get_setting s k')"
  by (simp add: get_setting_def delete_setting_def)

lemma run_auth_stored: "run_auth fails op s = Some s' \<Longrightarrow> stored_identity s' (identity_after op)"
  using auth_keys_distinct
  by (cases op) (auto simp: set_auth_identity_def set_pending_auth_selection_def clear_auth_identity_def transaction_eq
      split: if_splits option.splits)

lemma run_auth_cookie:
  "run_auth fails op s = Some s' \<Longrightarrow>
    get_setting s' K_COOKIE = (case op of SetIdentity c _ _ _ \<Rightarrow> Some c | SetPending c \<Rightarrow> Some c | ClearIdentity \<Rightarrow> get_setting s K_COOKIE)"
  using auth_keys_distinct
  by (cases op) (auto simp: set_auth_identity_def set_pending_auth_selection_def clear_auth_identity_def transaction_eq
      split: if_splits option.splits)

lemma run_auth_fails: "run_auth fails op s = None \<longleftrightarrow> run_auth fails op s' = None"
  by (cases op) (simp_all add: set_auth_identity_def set_pending_auth_selection_def clear_auth_identity_def transaction_eq)

definition succeeds :: "(nat \<Rightarrow> bool) \<times> auth_op \<Rightarrow> bool" where
  "succeeds fo \<longleftrightarrow> run_auth (fst fo) (snd fo) empty_store \<noteq> None"

text \<open>C14: Whichever statements fail and whenever the process stops between two calls, the stored identity is always the
  one the last successful call wrote, whole: its canonical form, its delegated id and its display never come from two
  identities, and an unfinished sign-in has none of them.\<close>

theorem stored_identity_is_whole:
  assumes "stored_identity s start"
  shows "stored_identity (fold after_auth calls s)
    (last (start # map (\<lambda>fo. identity_after (snd fo)) (filter succeeds calls)))"
  using assms
proof (induction calls arbitrary: s start)
  case (Cons fo calls)
  show ?case
  proof (cases "run_auth (fst fo) (snd fo) s")
    case None
    then have "\<not> succeeds fo"
      using run_auth_fails [of "fst fo" "snd fo" s empty_store] by (simp add: succeeds_def)
    with None Cons show ?thesis by (simp add: after_auth_def)
  next
    case (Some s')
    then have "succeeds fo"
      using run_auth_fails [of "fst fo" "snd fo" s empty_store] by (simp add: succeeds_def)
    with Some Cons.IH [OF run_auth_stored [OF Some]] show ?thesis
      by (cases "filter succeeds calls") (simp_all add: after_auth_def)
  qed
qed simp

theorem stored_identity_is_whole_witness:
  "stored_identity (fold after_auth [(\<lambda>_. False, SetIdentity (lit ''c'') (lit ''sel'') None (lit ''acc'')),
      (\<lambda>i. i = 4, SetPending (lit ''d''))] empty_store) (Identity (lit ''sel'') None (lit ''acc''))"
proof -
  let ?calls = "[(\<lambda>_. False, SetIdentity (lit ''c'') (lit ''sel'') None (lit ''acc'')), (\<lambda>i. i = (4::nat), SetPending (lit ''d''))]"
  have f: "filter succeeds ?calls = [(\<lambda>_. False, SetIdentity (lit ''c'') (lit ''sel'') None (lit ''acc''))]"
    by (auto simp: succeeds_def set_auth_identity_def set_pending_auth_selection_def transaction_eq tx_fails_def)
  have "stored_identity empty_store NoIdentity"
    by (simp add: empty_store_def get_setting_def)
  from stored_identity_is_whole [OF this, of ?calls] show ?thesis
    unfolding f by simp
qed

section \<open>The ranking of the play history\<close>

text \<open>A song's place: more plays first, then the later last play.\<close>

definition place :: "play list \<Rightarrow> ustr \<Rightarrow> int \<times> int" where
  "place ps v = (- int (length (plays_of ps v)), - last_play ps v)"

definition on_top :: "play list \<Rightarrow> nat \<Rightarrow> ustr list" where
  "on_top ps limit = take limit (sort_key (place ps) (songs_in ps))"

lemma top_plays_on_top:
  "top_plays tie s since limit =
    map (\<lambda>v. (play_json (newest_play tie (plays_since s since) v), length (plays_of (plays_since s since) v)))
      (on_top (plays_since s since) limit)"
  by (simp add: top_plays_def on_top_def place_def [abs_def] Let_def)

lemma take_sorted_le:
  assumes "sorted (map f xs)" "x \<in> set (take n xs)" "y \<in> set (drop n xs)"
  shows "f x \<le> f y"
proof -
  have "sorted (map f (take n xs) @ map f (drop n xs))"
    using assms(1) by (simp flip: map_append)
  then show ?thesis
    using assms(2,3) by (simp add: sorted_append)
qed

lemma newest_play_of:
  assumes "\<And>xs. xs \<noteq> [] \<Longrightarrow> tie xs \<in> set xs" "v \<in> set (songs_in ps)"
  shows "newest_play tie ps v \<in> set ps \<and> play_video (newest_play tie ps v) = v \<and>
    (\<forall>p \<in> set ps. play_video p = v \<longrightarrow> played_at p \<le> played_at (newest_play tie ps v))"
proof -
  let ?xs = "filter (\<lambda>p. played_at p = last_play ps v) (plays_of ps v)"
  have "plays_of ps v \<noteq> []"
    using assms(2) by (auto simp: songs_in_def plays_of_def filter_empty_conv)
  then have "last_play ps v \<in> set (map played_at (plays_of ps v))"
    unfolding last_play_def by (intro Max_in) auto
  then have "?xs \<noteq> []" by (auto simp: filter_empty_conv)
  from assms(1) [OF this] have n: "newest_play tie ps v \<in> set ?xs"
    by (simp add: newest_play_def)
  have "played_at p \<le> last_play ps v" if "p \<in> set ps" "play_video p = v" for p
    unfolding last_play_def using that by (intro Max_ge) (auto simp: plays_of_def)
  with n show ?thesis by (auto simp: plays_of_def)
qed

text \<open>On Repeat ranks the songs played since a time: it holds as many as exist up to the limit, each once, ordered
  by plays and then by their last play, and no song left out is ahead of one listed; each count is the number of its
  plays, and its metadata that of one of its latest plays.\<close>

theorem on_repeat_ranking:
  assumes "\<And>xs. xs \<noteq> [] \<Longrightarrow> tie xs \<in> set xs"
  shows "let ps = plays_since s since; vs = on_top ps limit in
    distinct vs \<and> length vs = min limit (card (play_video ` set ps)) \<and> sorted (map (place ps) vs) \<and>
    (\<forall>v \<in> set vs. \<forall>w \<in> play_video ` set ps - set vs. place ps v \<le> place ps w) \<and>
    top_plays tie s since limit = map (\<lambda>v. (play_json (newest_play tie ps v), length (plays_of ps v))) vs \<and>
    (\<forall>v \<in> set vs. newest_play tie ps v \<in> set (plays_of ps v) \<and>
       (\<forall>p \<in> set (plays_of ps v). played_at p \<le> played_at (newest_play tie ps v)))"
proof -
  define ps where "ps = plays_since s since"
  let ?all = "sort_key (place ps) (songs_in ps)"
  define vs where "vs = on_top ps limit"
  have d: "distinct ?all" by (simp add: songs_in_def)
  have st: "set ?all = play_video ` set ps" by (simp add: songs_in_def)
  have srt: "sorted (map (place ps) ?all)" by simp
  have vs: "vs = take limit ?all" by (simp add: vs_def on_top_def)
  have len: "length ?all = card (play_video ` set ps)"
    using distinct_card [OF d] st by simp
  have "sorted (map (place ps) vs)"
    using srt by (simp add: vs take_map [symmetric] sorted_wrt_take)
  moreover have "place ps v \<le> place ps w" if "v \<in> set vs" "w \<in> play_video ` set ps - set vs" for v w
  proof -
    have "w \<in> set (take limit ?all @ drop limit ?all)" using that(2) st by simp
    then have "w \<in> set (drop limit ?all)" using that(2) unfolding vs set_append by blast
    then show ?thesis using take_sorted_le [OF srt] that(1) vs by blast
  qed
  moreover have "newest_play tie ps v \<in> set (plays_of ps v) \<and>
      (\<forall>p \<in> set (plays_of ps v). played_at p \<le> played_at (newest_play tie ps v))" if "v \<in> set vs" for v
  proof -
    have "v \<in> set (songs_in ps)" using that in_set_takeD vs by fastforce
    from newest_play_of [OF assms this] show ?thesis by (auto simp: plays_of_def)
  qed
  moreover have "top_plays tie s since limit = map (\<lambda>v. (play_json (newest_play tie ps v), length (plays_of ps v))) vs"
    unfolding vs_def ps_def by (rule top_plays_on_top)
  moreover have "distinct vs" "length vs = min limit (card (play_video ` set ps))"
    using d len by (simp_all add: vs)
  ultimately show ?thesis
    unfolding Let_def ps_def [symmetric] vs_def [symmetric] by blast
qed

theorem on_repeat_ranking_witness:
  "top_plays hd (record_play (lit ''b'') (lit ''B'') 7 60 (record_play (lit ''a'') (lit ''A'') 5 60 empty_store)) 0 1 =
   [(lit ''B'', 1)]"
proof -
  let ?s = "record_play (lit ''b'') (lit ''B'') 7 60 (record_play (lit ''a'') (lit ''A'') 5 60 empty_store)"
  have "top_plays hd ?s 0 1 = map (\<lambda>v. (play_json (newest_play hd (plays_since ?s 0) v), length (plays_of (plays_since ?s 0) v)))
      (on_top (plays_since ?s 0) 1)"
    using on_repeat_ranking [of hd ?s 0 1] by (simp add: Let_def)
  then show ?thesis
    by (simp add: on_top_def place_def record_play_def empty_store_def plays_since_def songs_in_def plays_of_def
        last_play_def newest_play_def lit_Cons less_eq_prod_def)
qed

end
