(* ===== verification/Radio_Stations.thy ===== *)
theory Radio_Stations
  imports Player_Response Store_Laws Download_Names
begin

text \<open>
  Internet radio (crates/core/src/radio.rs): which stations are let in, the cache of stations seen, the directory's
  mirrors, and a station as a queue row and as a stream. The URL and IP parsers, percent encoding and what the directory
  answers are parameters (\<open>url_lib\<close>, \<open>directory\<close>).
\<close>

section \<open>Stations\<close>

record radio_station =
  station_uuid :: ustr
  st_name :: ustr
  st_stream_url :: ustr
  st_url :: ustr
  st_homepage :: ustr
  st_favicon :: ustr
  st_country :: ustr
  st_country_code :: ustr
  st_tags :: ustr
  st_codec :: ustr
  st_bitrate :: int
  st_votes :: int
  st_clickcount :: int

definition STATION_CACHE_MAX :: nat where "STATION_CACHE_MAX = 256"
definition MAX_QUERY_CHARS :: nat where "MAX_QUERY_CHARS = 128"

definition remember_station :: "radio_station \<Rightarrow> radio_station list \<Rightarrow> radio_station list" where
  "remember_station s cache =
     (let c = filter (\<lambda>x. station_uuid x \<noteq> station_uuid s) cache @ [s]
      in drop (length c - STATION_CACHE_MAX) c)"

definition remember_stations :: "radio_station list \<Rightarrow> radio_station list \<Rightarrow> radio_station list" where
  "remember_stations ss cache = fold remember_station ss cache"

definition cached_station :: "radio_station list \<Rightarrow> ustr \<Rightarrow> radio_station option" where
  "cached_station cache uuid = List.find (\<lambda>s. station_uuid s = uuid) (rev cache)"

definition valid_station_uuid :: "ustr \<Rightarrow> bool" where
  "valid_station_uuid uuid \<longleftrightarrow> 1 \<le> byte_len uuid \<and> byte_len uuid \<le> 96 \<and>
     list_all (\<lambda>c. is_ascii_alphanumeric c \<or> c = 45 \<or> c = 95) uuid"

section \<open>Which addresses are let in\<close>

datatype ip_addr = IPv4 nat nat nat nat | IPv6 "nat list"

record parsed_url =
  wu_scheme :: ustr
  wu_username :: ustr
  wu_password :: "ustr option"
  wu_host :: "ustr option"

record url_lib =
  ul_parse :: "ustr \<Rightarrow> parsed_url option"
  ul_ip :: "ustr \<Rightarrow> ip_addr option"

definition public_ipv4 :: "nat \<Rightarrow> nat \<Rightarrow> nat \<Rightarrow> bool" where
  "public_ipv4 a b c \<longleftrightarrow>
     \<not> (a = 0 \<or> a = 10 \<or> a = 127 \<or> (a = 100 \<and> 64 \<le> b \<and> b \<le> 127) \<or> (a = 169 \<and> b = 254) \<or>
        (a = 172 \<and> 16 \<le> b \<and> b \<le> 31) \<or> (a = 192 \<and> b = 0 \<and> c = 0) \<or> (a = 192 \<and> b = 0 \<and> c = 2) \<or>
        (a = 192 \<and> b = 168) \<or> (a = 198 \<and> 18 \<le> b \<and> b \<le> 19) \<or> (a = 198 \<and> b = 51 \<and> c = 100) \<or>
        (a = 203 \<and> b = 0 \<and> c = 113) \<or> 224 \<le> a)"

text \<open>The eight segments of an IPv6 address. A prefix test \<open>seg & mask == value\<close> with a mask of leading ones is a
  comparison with a power of two divided out.\<close>

definition ipv4_mapped :: "nat list \<Rightarrow> (nat \<times> nat \<times> nat) option" where
  "ipv4_mapped seg = (if take 6 seg = [0, 0, 0, 0, 0, 65535] then Some (seg ! 6 div 256, seg ! 6 mod 256, seg ! 7 div 256) else None)"

fun public_ip :: "ip_addr \<Rightarrow> bool" where
  "public_ip (IPv4 a b c d) = public_ipv4 a b c" |
  "public_ip (IPv6 seg) =
     (case ipv4_mapped seg of
        Some (a, b, c) \<Rightarrow> public_ipv4 a b c
      | None \<Rightarrow>
          seg \<noteq> [0, 0, 0, 0, 0, 0, 0, 1] \<and> seg \<noteq> [0, 0, 0, 0, 0, 0, 0, 0] \<and>
          seg ! 0 div 512 \<noteq> 0xfc00 div 512 \<and> seg ! 0 div 64 \<noteq> 0xfe80 div 64 \<and> seg ! 0 div 256 \<noteq> 0xff00 div 256 \<and>
          \<not> (seg ! 0 = 0x2001 \<and> seg ! 1 = 0x0db8) \<and> \<not> list_all (\<lambda>p. p = 0) (take 6 seg))"

definition str_ends_with :: "ustr \<Rightarrow> ustr \<Rightarrow> bool" where
  "str_ends_with p s \<longleftrightarrow> strip_suffix p s \<noteq> None"

definition public_host :: "url_lib \<Rightarrow> ustr \<Rightarrow> bool" where
  "public_host lib host \<longleftrightarrow>
     to_ascii_lowercase host \<noteq> lit ''localhost'' \<and> \<not> str_ends_with (lit ''.localhost'') host \<and>
     \<not> str_ends_with (lit ''.local'') host \<and>
     (let ip_host = (case Option.bind (strip_prefix [91] host) (strip_suffix [93]) of Some h \<Rightarrow> h | None \<Rightarrow> host)
      in case ul_ip lib ip_host of Some ip \<Rightarrow> public_ip ip | None \<Rightarrow> 46 \<in> set host)"

definition http_url :: "url_lib \<Rightarrow> ustr \<Rightarrow> bool" where
  "http_url lib s \<longleftrightarrow> byte_len s \<le> 4096 \<and>
     (case ul_parse lib s of
        None \<Rightarrow> False
      | Some u \<Rightarrow>
          (case wu_host u of
             None \<Rightarrow> False
           | Some host \<Rightarrow> (wu_scheme u = lit ''http'' \<or> wu_scheme u = lit ''https'') \<and> wu_username u = [] \<and>
               wu_password u = None \<and> public_host lib host))"

section \<open>Taking a station in\<close>

definition clean :: "nat \<Rightarrow> ustr \<Rightarrow> ustr" where
  "clean n s = take n (filter (\<lambda>c. \<not> is_control c) (trim s))"

definition to_ascii_uppercase :: "ustr \<Rightarrow> ustr" where
  "to_ascii_uppercase s = map (\<lambda>c. if 97 \<le> c \<and> c \<le> 122 then c - 32 else c) s"

definition cleaned :: "radio_station \<Rightarrow> radio_station" where
  "cleaned s = s\<lparr>station_uuid := trim (station_uuid s), st_name := clean 200 (st_name s),
     st_stream_url := trim (st_stream_url s), st_url := trim (st_url s), st_homepage := trim (st_homepage s),
     st_favicon := trim (st_favicon s), st_country := clean 100 (st_country s),
     st_country_code := to_ascii_uppercase (clean 8 (st_country_code s)), st_tags := clean 512 (st_tags s),
     st_codec := to_ascii_uppercase (clean 32 (st_codec s))\<rparr>"

definition normalize_station :: "url_lib \<Rightarrow> radio_station \<Rightarrow> radio_station option" where
  "normalize_station lib raw =
     (let s = cleaned raw in
      if \<not> valid_station_uuid (station_uuid s) then None
      else let s = (if http_url lib (st_stream_url s) then s else s\<lparr>st_stream_url := st_url s\<rparr>) in
      if station_uuid s = [] \<or> st_name s = [] \<or> \<not> http_url lib (st_stream_url s) then None
      else let s = (if st_homepage s \<noteq> [] \<and> \<not> http_url lib (st_homepage s) then s\<lparr>st_homepage := []\<rparr> else s);
               s = (if st_favicon s \<noteq> [] \<and> \<not> http_url lib (st_favicon s) then s\<lparr>st_favicon := []\<rparr> else s)
           in Some s)"

section \<open>The directory\<close>

definition FALLBACK_SERVERS :: "ustr list" where
  "FALLBACK_SERVERS = [lit ''https://de1.api.radio-browser.info'', lit ''https://nl1.api.radio-browser.info'',
     lit ''https://at1.api.radio-browser.info'']"

definition official_mirror_host :: "ustr \<Rightarrow> ustr option" where
  "official_mirror_host raw =
     (let host = to_ascii_lowercase (trim_end_matches (\<lambda>c. c = 46) (trim raw)) in
      if host = lit ''api.radio-browser.info'' \<or> str_ends_with (lit ''.api.radio-browser.info'') host
      then Some host else None)"

text \<open>\<open>discovered\<close> is what the discovery request named (nothing when it failed), \<open>sh\<close> the shuffle.\<close>

definition radio_mirrors :: "(ustr list \<Rightarrow> ustr list) \<Rightarrow> ustr list \<Rightarrow> ustr list" where
  "radio_mirrors sh discovered =
     (let out = map (\<lambda>h. lit ''https://'' @ h) (List.map_filter official_mirror_host discovered) @ FALLBACK_SERVERS
      in sh (first_seen [] out))"

text \<open>\<open>get_json\<close>: the answer of the first mirror that gives a readable one within the size limit; \<open>None\<close> for
  "Radio Browser is unavailable right now" (the code appends what each mirror said).\<close>

fun first_answer :: "(ustr \<Rightarrow> 'a option) \<Rightarrow> ustr list \<Rightarrow> ustr \<Rightarrow> 'a option" where
  "first_answer ask [] path = None" |
  "first_answer ask (b # bs) path = (case ask (b @ path) of Some x \<Rightarrow> Some x | None \<Rightarrow> first_answer ask bs path)"

record directory =
  dir_mirrors :: "ustr list"
  dir_ask :: "ustr \<Rightarrow> radio_station list option"
  dir_encode :: "ustr \<Rightarrow> ustr"

definition RADIO_UNAVAILABLE :: ustr where "RADIO_UNAVAILABLE = lit ''Radio Browser is unavailable right now''"

definition stations_path :: "directory \<Rightarrow> ustr \<Rightarrow> nat \<Rightarrow> nat \<Rightarrow> ustr" where
  "stations_path dir query offset limit =
     (if query = []
      then lit ''/json/stations/topvote?offset='' @ dec offset @ lit ''&limit='' @ dec limit @ lit ''&hidebroken=true''
      else lit ''/json/stations/search?name='' @ dir_encode dir query @
        lit ''&order=votes&reverse=true&hidebroken=true&offset='' @ dec offset @ lit ''&limit='' @ dec limit)"

text \<open>The answer, an error text or stations, and the cache afterwards.\<close>

definition search_stations :: "url_lib \<Rightarrow> directory \<Rightarrow> ustr option \<Rightarrow> nat \<Rightarrow> nat \<Rightarrow> radio_station list \<Rightarrow>
    (ustr + radio_station list) \<times> radio_station list" where
  "search_stations lib dir query offset limit cache =
     (let limit = max 1 (min limit 50); offset = min offset 10000;
          query = trim (case query of Some q \<Rightarrow> q | None \<Rightarrow> []) in
      if MAX_QUERY_CHARS < length query
      then (Inl (lit ''Radio search is limited to '' @ dec MAX_QUERY_CHARS @ lit '' characters.''), cache)
      else case first_answer (dir_ask dir) (dir_mirrors dir) (stations_path dir query offset limit) of
        None \<Rightarrow> (Inl RADIO_UNAVAILABLE, cache)
      | Some raw \<Rightarrow> let rows = List.map_filter (normalize_station lib) raw in (Inr rows, remember_stations rows cache))"

definition station_by_uuid :: "url_lib \<Rightarrow> directory \<Rightarrow> ustr \<Rightarrow> radio_station list \<Rightarrow>
    (ustr + radio_station) \<times> radio_station list" where
  "station_by_uuid lib dir raw cache =
     (let uuid = trim raw in
      if \<not> valid_station_uuid uuid then (Inl (lit ''Invalid radio station id.''), cache)
      else case cached_station cache uuid of
        Some s \<Rightarrow> (Inr s, cache)
      | None \<Rightarrow>
          (case first_answer (dir_ask dir) (dir_mirrors dir) (lit ''/json/stations/byuuid/'' @ dir_encode dir uuid) of
             None \<Rightarrow> (Inl RADIO_UNAVAILABLE, cache)
           | Some rows \<Rightarrow>
               (case List.find (\<lambda>s. station_uuid s = uuid) (List.map_filter (normalize_station lib) rows) of
                  None \<Rightarrow> (Inl (lit ''That radio station is no longer available.''), cache)
                | Some s \<Rightarrow> (Inr s, remember_stations [s] cache))))"

section \<open>A station in the queue and on the player\<close>

definition empty_song :: song_item where
  "empty_song = \<lparr>video_id = [], song_title = [], artists = [], artist_id = None, artist_runs = [], album = None,
     album_id = None, song_duration = None, play_count = None, song_thumbnail = None, set_video_id = None, added_by = None,
     added_by_avatar = None, song_rating = None, song_queued_by = None, queued = False, queued_end = False,
     queued_from = None, autoplay = False, is_video = False, is_upload = False, explicit = False\<rparr>"

definition station_art :: "radio_station \<Rightarrow> ustr option" where
  "station_art s = (if st_favicon s = [] then None else Some (st_favicon s))"

definition station_song :: "radio_station \<Rightarrow> song_item" where
  "station_song s = empty_song\<lparr>video_id := RADIO_ID_PREFIX @ station_uuid s, song_title := st_name s,
     artists := (if st_country_code s = [] then lit ''Live Radio'' else lit ''Live Radio '' @ [183, 32] @ st_country_code s),
     album := Some (lit ''Internet Radio''), song_thumbnail := station_art s\<rparr>"

definition station_stream :: "radio_station \<Rightarrow> resolved_stream" where
  "station_stream s = (plain_stream (RADIO_ID_PREFIX @ station_uuid s) (st_stream_url s) (lit ''radio''))
     \<lparr>pd_title := Some (st_name s), pd_artists := Some (lit ''Live Radio''), pd_thumbnail := station_art s\<rparr>"

text \<open>The record part of \<open>AppState::play_radio_station\<close>: \<open>json\<close> is what \<open>serde\<close> writes.\<close>

definition play_radio_station :: "url_lib \<Rightarrow> (radio_station \<Rightarrow> ustr) \<Rightarrow>
    ((ustr \<times> ustr \<times> int) list \<Rightarrow> (ustr \<times> ustr \<times> int) list) \<Rightarrow> bool \<Rightarrow> radio_station \<Rightarrow> int \<Rightarrow> store \<Rightarrow>
    (ustr + song_item) \<times> store" where
  "play_radio_station lib json order together raw now s =
     (if together then (Inl (lit ''Live Radio is unavailable while Listen Together is active.''), s)
      else case normalize_station lib raw of
        None \<Rightarrow> (Inl (lit ''This station did not provide a playable HTTP(S) stream.''), s)
      | Some t \<Rightarrow> (Inr (station_song t), put_radio_station order (RADIO_ID_PREFIX @ station_uuid t) (json t) now s))"

text \<open>The radio branch of \<open>AppState::resolve\<close>.\<close>

definition resolve_station :: "url_lib \<Rightarrow> (ustr \<Rightarrow> radio_station option) \<Rightarrow> store \<Rightarrow> ustr \<Rightarrow> resolve_failure + resolved_stream" where
  "resolve_station lib parse s v =
     (case Option.bind (Option.bind (get_radio_station s v) parse) (normalize_station lib) of
        Some st \<Rightarrow> Inr (station_stream st)
      | None \<Rightarrow> Inl (AllClientsFailed v))"

section \<open>What is taken in\<close>

lemma clean_no_control: "c \<in> set (clean n s) \<Longrightarrow> \<not> is_control c"
  by (auto simp: clean_def dest: in_set_takeD)

lemma length_clean: "length (clean n s) \<le> n"
  by (simp add: clean_def)

declare trim_trim [simp]

lemma normalize_station_Some:
  assumes "normalize_station lib raw = Some t"
  shows "valid_station_uuid (station_uuid t)" "station_uuid t = trim (station_uuid raw)"
    "st_name t = clean 200 (st_name raw)" "st_name t \<noteq> []" "http_url lib (st_stream_url t)"
    "trim (st_stream_url t) = st_stream_url t" "st_homepage t = [] \<or> http_url lib (st_homepage t)"
    "st_favicon t = [] \<or> http_url lib (st_favicon t)"
  using assms by (auto simp: normalize_station_def cleaned_def Let_def split: if_splits)

lemma public_ipv4_ranges:
  assumes "public_ipv4 a b c"
  shows "a \<noteq> 0 \<and> a \<noteq> 10 \<and> a \<noteq> 127 \<and> a < 224 \<and> (a, b) \<noteq> (192, 168) \<and> (a, b) \<noteq> (169, 254) \<and>
    \<not> (a = 172 \<and> b div 16 = 1) \<and> \<not> (a = 100 \<and> b div 64 = 1)"
proof -
  have "b div 16 = 1 \<longleftrightarrow> 16 \<le> b \<and> b \<le> 31" and "b div 64 = 1 \<longleftrightarrow> 64 \<le> b \<and> b \<le> 127"
    by linarith+
  then show ?thesis using assms by (simp add: public_ipv4_def)
qed


definition toy_lib :: url_lib where
  "toy_lib = \<lparr>ul_parse = (\<lambda>s. if s = lit ''http://radio.example/live''
       then Some \<lparr>wu_scheme = lit ''http'', wu_username = [], wu_password = None, wu_host = Some (lit ''radio.example'')\<rparr>
       else if s = lit ''http://localhost./live''
       then Some \<lparr>wu_scheme = lit ''http'', wu_username = [], wu_password = None, wu_host = Some (lit ''localhost.'')\<rparr>
       else None),
     ul_ip = (\<lambda>_. None)\<rparr>"

definition station_named :: "ustr \<Rightarrow> ustr \<Rightarrow> radio_station" where
  "station_named name url = \<lparr>station_uuid = lit ''u1'', st_name = name, st_stream_url = url, st_url = [], st_homepage = [],
     st_favicon = [], st_country = [], st_country_code = [], st_tags = [], st_codec = [], st_bitrate = 0, st_votes = 0,
     st_clickcount = 0\<rparr>"

lemma some_uuid: "trim (lit ''u1'') = lit ''u1''" "valid_station_uuid (lit ''u1'')"
  by (simp_all add: trim_def trim_matches_def trim_start_matches_def trim_end_matches_def lit_Cons is_whitespace_def
      valid_station_uuid_def is_ascii_alphanumeric_def is_ascii_digit_def utf8_width_def)

lemma trim_Nil [simp]: "trim [] = []"
  by (rule trim_keeps) simp

lemma clean_Nil [simp]: "clean n [] = []"
  by (simp add: clean_def)

lemma radio_urls:
  "http_url toy_lib (lit ''http://radio.example/live'')" "http_url toy_lib (lit ''http://localhost./live'')"
  "trim (lit ''http://radio.example/live'') = lit ''http://radio.example/live''"
  "trim (lit ''http://localhost./live'') = lit ''http://localhost./live''"
  by (simp_all add: http_url_def toy_lib_def public_host_def str_ends_with_def strip_suffix_def strip_prefix_def lit_Cons
      utf8_width_def to_ascii_lowercase_def trim_def trim_matches_def trim_start_matches_def trim_end_matches_def
      is_whitespace_def)

lemma named_station:
  assumes "http_url lib url" "trim url = url" "clean 200 name \<noteq> []"
  shows "normalize_station lib (station_named name url) = Some (station_named (clean 200 name) url)"
  using assms some_uuid by (simp add: normalize_station_def cleaned_def station_named_def Let_def to_ascii_uppercase_def)
    (simp add: lit_Cons)

lemma clean_fm: "clean 200 (lit ''FM'') = lit ''FM''"
  by (simp add: clean_def lit_Cons trim_def trim_matches_def trim_start_matches_def trim_end_matches_def is_whitespace_def
      is_control_def)


section \<open>A station after a restart\<close>

lemma newest_station_kept:
  fixes m :: "(ustr \<times> ustr \<times> int) list"
  assumes "mset (order m) = mset m" "(k, v, now) \<in> set m" "\<forall>(k', _, u) \<in> set m. k' \<noteq> k \<longrightarrow> u < now" "hwf m"
  shows "k \<in> fst ` set (take STATIONS_KEPT (sort_key (\<lambda>(_, _, u). - u) (order m)))"
proof -
  let ?f = "\<lambda>(_ :: ustr, _ :: ustr, u). - u :: int"
  let ?xs = "sort_key ?f (order m)"
  have "set (order m) = set m" using assms(1) by (rule mset_eq_setD)
  then have st: "set ?xs = set m" by simp
  then have "?xs \<noteq> []" using assms(2) by (metis empty_iff empty_set)
  then obtain h t where xs: "?xs = h # t" by (meson neq_Nil_conv)
  have "h \<in> set ?xs" by (simp only: xs list.set_intros)
  then have hm: "h \<in> set m" by (simp only: st)
  have "sorted (map ?f ?xs)" by (rule sorted_sort_key)
  then have "\<forall>x \<in> set ?xs. ?f h \<le> ?f x" unfolding xs by auto
  then have "?f h \<le> ?f (k, v, now)" using assms(2) unfolding st by blast
  then have "?f h \<le> - now" by simp
  obtain hk hv hu where h: "h = (hk, hv, hu)" by (cases h)
  have "now \<le> hu" using \<open>?f h \<le> - now\<close> h by simp
  then have "hk = k" using assms(3) hm unfolding h by fastforce
  then show ?thesis using xs h by (simp add: STATIONS_KEPT_def)
qed

lemma stored_station:
  assumes "hwf (stations s)" "mset (order (hput k (j, now) (stations s))) = mset (hput k (j, now) (stations s))"
    and "\<forall>(k', _, u) \<in> set (stations s). k' \<noteq> k \<longrightarrow> u < now"
  shows "get_radio_station (put_radio_station order k j now s) k = Some j"
proof -
  let ?m = "hput k (j, now) (stations s)"
  have w: "hwf ?m" using assms(1) by simp
  have "hget ?m k = Some (j, now)" by simp
  then have mem: "(k, j, now) \<in> set ?m" by (rule hget_in_set)
  have "\<forall>(k', _, u) \<in> set ?m. k' \<noteq> k \<longrightarrow> u < now"
  proof (clarify)
    fix k' j' u
    assume "(k', j', u) \<in> set ?m" "k' \<noteq> k"
    then have "(k', j', u) \<in> set (stations s)" using set_hput [of k "(j, now)" "stations s"] by auto
    then show "u < now" using assms(3) \<open>k' \<noteq> k\<close> by auto
  qed
  from newest_station_kept [of order, OF assms(2) mem this w]
  have "(k, j, now) \<in> set (stations (put_radio_station order k j now s))"
    using mem by (auto simp: put_radio_station_def Let_def image_iff)
  moreover have "hwf (stations (put_radio_station order k j now s))"
    using w by (simp add: put_radio_station_def Let_def hwf_filter)
  ultimately show ?thesis
    by (simp add: get_radio_station_def hwf_def map_of_is_SomeI)
qed

lemma clean_again:
  assumes "\<not> list_ex is_control n" "trim n \<noteq> []"
  shows "clean 200 n \<noteq> []"
proof -
  have "filter (\<lambda>c. \<not> is_control c) (trim n) = trim n"
    using assms(1) set_trim [of n] by (auto simp: filter_id_conv list_ex_iff)
  then show ?thesis using assms(2) by (simp add: clean_def)
qed

lemma normalize_again:
  assumes "normalize_station lib raw = Some t" "trim (st_name t) \<noteq> []"
  obtains t' where "normalize_station lib t = Some t'" "station_uuid t' = station_uuid t" "st_stream_url t' = st_stream_url t"
proof -
  note n = normalize_station_Some [OF assms(1)]
  have "\<not> list_ex is_control (st_name t)" using clean_no_control n(3) by (auto simp: list_ex_iff)
  then have "clean 200 (st_name t) \<noteq> []" using assms(2) by (rule clean_again)
  moreover have "trim (station_uuid t) = station_uuid t" using n(2) by simp
  moreover have "station_uuid t \<noteq> []" using n(1) by (auto simp: valid_station_uuid_def)
  ultimately show thesis
    using that n(1,5,6) by (simp add: normalize_station_def cleaned_def Let_def)
qed



section \<open>Stations seen\<close>

lemma remember_station_keeps:
  assumes "distinct (map station_uuid c)" "length c \<le> STATION_CACHE_MAX"
  shows "distinct (map station_uuid (remember_station s c)) \<and> length (remember_station s c) \<le> STATION_CACHE_MAX \<and>
    cached_station (remember_station s c) (station_uuid s) = Some s"
proof -
  let ?c = "filter (\<lambda>x. station_uuid x \<noteq> station_uuid s) c @ [s]"
  let ?k = "length ?c - STATION_CACHE_MAX"
  have "length (filter (\<lambda>x. station_uuid x \<noteq> station_uuid s) c) \<le> STATION_CACHE_MAX"
    using assms(2) le_trans length_filter_le by blast
  then have k: "?k \<le> length (filter (\<lambda>x. station_uuid x \<noteq> station_uuid s) c)"
    by (simp add: STATION_CACHE_MAX_def)
  then have e: "remember_station s c = drop ?k (filter (\<lambda>x. station_uuid x \<noteq> station_uuid s) c) @ [s]"
    by (simp add: remember_station_def Let_def)
  have "distinct (map station_uuid ?c)"
    using assms(1) by (auto simp: distinct_map_filter)
  then have "distinct (map station_uuid (drop ?k ?c))"
    by (metis distinct_drop drop_map)
  moreover have "cached_station (remember_station s c) (station_uuid s) = Some s"
    by (simp add: e cached_station_def)
  ultimately show ?thesis
    by (simp add: remember_station_def Let_def)
qed

section \<open>Two gaps\<close>

text \<open>A name of control characters around a blank passes, is stored, and is then refused whenever the station is resumed:
  the blank is trimmed only the second time.\<close>

theorem blank_station_never_resumes:
  "\<exists>song s'. play_radio_station toy_lib json order False
     (station_named [1, 32, 1] (lit ''http://radio.example/live'')) now s = (Inr song, s') \<and>
   resolve_station toy_lib (\<lambda>_. Some (station_named [32] (lit ''http://radio.example/live''))) s' (video_id song) =
     Inl (AllClientsFailed (video_id song))"
proof -
  have c: "clean 200 [1, 32, 1] = [32]" "clean 200 [32] = []"
    by (simp_all add: clean_def trim_def trim_matches_def trim_start_matches_def trim_end_matches_def is_whitespace_def
        is_control_def)
  have "normalize_station toy_lib (station_named [1, 32, 1] (lit ''http://radio.example/live'')) =
      Some (station_named [32] (lit ''http://radio.example/live''))"
    using named_station [OF radio_urls(1,3), of "[1, 32, 1]"] c by simp
  moreover have "normalize_station toy_lib (station_named [32] (lit ''http://radio.example/live'')) = None"
    using c by (simp add: normalize_station_def cleaned_def station_named_def Let_def)
  ultimately show ?thesis
    by (auto simp: play_radio_station_def resolve_station_def split: option.split)
qed

text \<open>A host with the root dot, \<open>localhost.\<close>, names the machine itself and is let in: both tests compare without the dot.\<close>

theorem rooted_localhost_is_accepted:
  "normalize_station toy_lib (station_named (lit ''FM'') (lit ''http://localhost./live'')) \<noteq> None"
  using named_station [OF radio_urls(2,4), of "lit ''FM''"] by (simp add: clean_fm) (simp add: lit_Cons)

end
