(* ===== verification/Local_Library.thy ===== *)
theory Local_Library
  imports Radio_Stations Wire_Format
begin

text \<open>
  The local library (crates/core/src/local.rs): the watched folders, the scan that brings the table of files in line with
  the disk, the ids the interface may still be showing, and the cards and pages made of the files. What the disk holds, the tag
  reader, the Unicode tables, cover extraction and JSON are parameters. Paths are absolute, without doubled separators.
\<close>

section \<open>Constants\<close>

definition ALBUM_PREFIX :: ustr where "ALBUM_PREFIX = lit ''LOCALALBUM:''"
definition ARTIST_PREFIX :: ustr where "ARTIST_PREFIX = lit ''LOCALARTIST:''"
definition FOLDERS_SETTING :: ustr where "FOLDERS_SETTING = lit ''local_folders''"
definition SCAN_VERSION :: ustr where "SCAN_VERSION = lit ''5''"
definition SCAN_VERSION_SETTING :: ustr where "SCAN_VERSION_SETTING = lit ''local_scan_version''"
definition UNTAGGED_ARTIST :: ustr where "UNTAGGED_ARTIST = lit ''Unknown artist''"
definition MAX_DEPTH :: nat where "MAX_DEPTH = 10"
definition KEY_CHARS :: nat where "KEY_CHARS = 80"
definition AUDIO_EXT :: "ustr list" where
  "AUDIO_EXT = map lit [''mp3'', ''flac'', ''m4a'', ''m4b'', ''aac'', ''ogg'', ''oga'', ''opus'', ''wav'', ''wma'',
     ''aiff'', ''aif'', ''ape'', ''wv'', ''mka'']"

section \<open>What is outside\<close>

datatype disk_kind = DiskDir | DiskFile

record file_tags =
  ft_title :: "ustr option"
  ft_artist :: "ustr option"
  ft_album :: "ustr option"
  ft_album_artist :: "ustr option"
  ft_track :: "nat option"

text \<open>\<open>dk_canonical\<close> is \<open>canonicalize\<close>, or the path itself where that fails; \<open>dk_tags\<close> the length and tag of a file
  the reader could open; \<open>dk_embedded\<close> the cover of a key and a file, \<open>dk_sidecar\<close> that of a key and a folder.\<close>

record disk =
  dk_canonical :: "ustr \<Rightarrow> ustr"
  dk_entries :: "ustr \<Rightarrow> ustr list option"
  dk_kind :: "ustr \<Rightarrow> disk_kind option"
  dk_mtime :: "ustr \<Rightarrow> int"
  dk_tags :: "ustr \<Rightarrow> (nat \<times> file_tags option) option"
  dk_embedded :: "ustr \<Rightarrow> ustr \<Rightarrow> ustr option"
  dk_sidecar :: "ustr \<Rightarrow> ustr \<Rightarrow> ustr option"

record text_lib =
  tl_lower :: "ustr \<Rightarrow> ustr"
  tl_alphanumeric :: "uchar \<Rightarrow> bool"
  tl_strings :: "ustr list \<Rightarrow> ustr"
  tl_parse_strings :: "ustr \<Rightarrow> ustr list option"

section \<open>Folders\<close>

definition folders :: "text_lib \<Rightarrow> store \<Rightarrow> ustr list" where
  "folders tx s = (case Option.bind (get_setting s FOLDERS_SETTING) (tl_parse_strings tx) of Some fs \<Rightarrow> fs | None \<Rightarrow> [])"

definition set_folders :: "text_lib \<Rightarrow> ustr list \<Rightarrow> store \<Rightarrow> store" where
  "set_folders tx fs s = set_setting FOLDERS_SETTING (tl_strings tx fs) s"

text \<open>\<open>Path::starts_with\<close>: component by component.\<close>

definition in_folder :: "ustr \<Rightarrow> ustr \<Rightarrow> bool" where
  "in_folder p f \<longleftrightarrow> take (length (path_of f)) (path_of p) = path_of f"

definition folder_added :: "ustr \<Rightarrow> ustr list \<Rightarrow> ustr list" where
  "folder_added path fs = (if list_ex (in_folder path) fs then fs else filter (\<lambda>f. \<not> in_folder f path) fs @ [path])"

definition add_folder :: "text_lib \<Rightarrow> ustr \<Rightarrow> store \<Rightarrow> store" where
  "add_folder tx path s =
     (if list_ex (in_folder path) (folders tx s) then s else set_folders tx (folder_added path (folders tx s)) s)"

definition remove_folder :: "text_lib \<Rightarrow> ustr \<Rightarrow> store \<Rightarrow> store" where
  "remove_folder tx path s = set_folders tx (filter (\<lambda>f. f \<noteq> path) (folders tx s)) s"

section \<open>Walking the folders\<close>

definition is_audio :: "ustr \<Rightarrow> bool" where
  "is_audio path =
     (case path_of path of
        [] \<Rightarrow> False
      | cs \<Rightarrow> (case extension (last cs) of Some e \<Rightarrow> to_ascii_lowercase e \<in> set AUDIO_EXT | None \<Rightarrow> False))"

text \<open>The first argument is how many more levels may be entered; the state is the folders seen (canonical) and the
  audio files met, in order.\<close>

fun walk_folder :: "nat \<Rightarrow> disk \<Rightarrow> ustr \<Rightarrow> ustr list \<times> ustr list \<Rightarrow> ustr list \<times> ustr list" where
  "walk_folder 0 dk dir st = st" |
  "walk_folder (Suc k) dk dir st =
     (if dk_canonical dk dir \<in> set (fst st) then st
      else case dk_entries dk dir of
        None \<Rightarrow> (dk_canonical dk dir # fst st, snd st)
      | Some es \<Rightarrow>
          fold (\<lambda>e st. case dk_kind dk e of
              Some DiskDir \<Rightarrow> walk_folder k dk e st
            | Some DiskFile \<Rightarrow> if is_audio e then (fst st, snd st @ [e]) else st
            | None \<Rightarrow> st) es (dk_canonical dk dir # fst st, snd st))"

definition audio_files :: "disk \<Rightarrow> ustr list \<Rightarrow> ustr list" where
  "audio_files dk fs = snd (fold (walk_folder (Suc MAX_DEPTH) dk) fs ([], []))"

section \<open>Reading one file\<close>

definition split_filename :: "ustr \<Rightarrow> ustr option \<times> ustr" where
  "split_filename stem =
     (case split_at_text (lit '' - '') stem of
        Some (a, t) \<Rightarrow> if trim a \<noteq> [] \<and> trim t \<noteq> [] then (Some (trim a), trim t) else (None, stem)
      | None \<Rightarrow> (None, stem))"

definition sanitize_key :: "text_lib \<Rightarrow> ustr \<Rightarrow> ustr" where
  "sanitize_key tx raw = take KEY_CHARS (map (\<lambda>c. if tl_alphanumeric tx c \<or> c = 45 then c else 45) (tl_lower tx raw))"

unbundle bit_operations_syntax

definition fnv :: "u8 list \<Rightarrow> u64" where
  "fnv bs = fold (\<lambda>b h. (h XOR ucast b) * 0x100000001b3) bs 0xcbf29ce484222325"

definition hex_digit :: "nat \<Rightarrow> uchar" where
  "hex_digit n = (if n < 10 then 48 + n else 87 + n)"

definition short_digest :: "ustr \<Rightarrow> ustr" where
  "short_digest s =
     (let h = unat (fnv (utf8_encode s) AND 0xffffffffffff)
      in map (\<lambda>i. hex_digit (h div 16 ^ i mod 16)) (rev [0..<12]))"

definition album_key_of :: "text_lib \<Rightarrow> ustr \<Rightarrow> ustr \<Rightarrow> ustr" where
  "album_key_of tx who name =
     (let raw = who @ lit ''--'' @ name; key = sanitize_key tx raw
      in if KEY_CHARS < length raw then key @ lit ''-'' @ short_digest raw else key)"

definition folder_key :: "text_lib \<Rightarrow> ustr \<Rightarrow> ustr \<Rightarrow> ustr" where
  "folder_key tx dir name = lit ''dir-'' @ short_digest dir @ lit ''-'' @ sanitize_key tx name"

text \<open>\<open>Path::parent\<close> and \<open>Path::file_name\<close> as text.\<close>

definition parent_dir :: "ustr \<Rightarrow> ustr" where
  "parent_dir p = (case rsplit_once 47 p of Some (b, _) \<Rightarrow> if b = [] then [47] else b | None \<Rightarrow> [])"

definition name_of :: "ustr \<Rightarrow> ustr option" where
  "name_of p = (case path_of p of [] \<Rightarrow> None | cs \<Rightarrow> if last cs = [46, 46] then None else Some (last cs))"

definition tag_text :: "ustr option \<Rightarrow> ustr option" where
  "tag_text t = (case t of Some s \<Rightarrow> if trim s = [] then None else Some (trim s) | None \<Rightarrow> None)"

definition read_track :: "text_lib \<Rightarrow> disk \<Rightarrow> ustr \<Rightarrow> int \<Rightarrow> local_track" where
  "read_track tx dk path mt =
     (let tag = Option.bind (dk_tags dk path) snd;
          get = (\<lambda>f. tag_text (Option.bind tag f));
          stem = (case name_of path of Some n \<Rightarrow> file_stem n | None \<Rightarrow> []);
          (name_artist, name_title) = split_filename stem;
          ti = (case get ft_title of Some t \<Rightarrow> t | None \<Rightarrow> name_title);
          ar = (case get ft_artist of Some a \<Rightarrow> a | None \<Rightarrow> (case name_artist of Some a \<Rightarrow> a | None \<Rightarrow> UNTAGGED_ARTIST));
          dir = parent_dir path;
          (al, key, cover) =
            (case get ft_album of
               Some a \<Rightarrow>
                 (let k = album_key_of tx (case get ft_album_artist of Some x \<Rightarrow> x | None \<Rightarrow> ar) a
                  in (a, k, case dk_embedded dk k path of Some c \<Rightarrow> Some c | None \<Rightarrow> dk_sidecar dk k dir))
             | None \<Rightarrow>
                 (let n = (case name_of dir of Some n \<Rightarrow> n | None \<Rightarrow> lit ''Local music'')
                  in (n, folder_key tx dir n, dk_embedded dk (lit ''file-'' @ short_digest path) path)))
      in \<lparr>lo_path = path, lo_title = ti, lo_artist = ar, lo_album = al, album_key = key,
          track_no = (case Option.bind tag ft_track of Some n \<Rightarrow> int n | None \<Rightarrow> 0),
          duration_secs = (case dk_tags dk path of Some (n, _) \<Rightarrow> int n | None \<Rightarrow> 0), lo_cover = cover, mtime = mt\<rparr>)"

section \<open>Who a track counts under\<close>

text \<open>Byte offsets as the code computes them: \<open>find\<close> of a text, and \<open>get(..n)\<close>, which is nothing inside a character.\<close>

definition byte_find :: "ustr \<Rightarrow> ustr \<Rightarrow> nat option" where
  "byte_find p s = map_option (\<lambda>(a, _). byte_len a) (split_at_text p s)"

fun byte_take :: "nat \<Rightarrow> ustr \<Rightarrow> ustr option" where
  "byte_take n [] = (if n = 0 then Some [] else None)" |
  "byte_take n (c # s) =
     (if n = 0 then Some [] else if utf8_width c \<le> n then map_option (Cons c) (byte_take (n - utf8_width c) s) else None)"

definition FEATURE_MARKERS :: "ustr list" where
  "FEATURE_MARKERS = map lit ['' feat.'', '' feat '', '' ft.'', '' ft '', '' featuring '']"

definition leading_artist :: "text_lib \<Rightarrow> ustr \<Rightarrow> ustr" where
  "leading_artist tx ar =
     (let cut = (case byte_find [59] ar of Some i \<Rightarrow> i | None \<Rightarrow> byte_len ar);
          low = tl_lower tx ar;
          cut = fold (\<lambda>m cut. case byte_find m low of Some i \<Rightarrow> min cut i | None \<Rightarrow> cut) FEATURE_MARKERS cut
      in trim (case byte_take cut ar of Some a \<Rightarrow> a | None \<Rightarrow> ar))"

definition album_id_of :: "local_track \<Rightarrow> ustr" where
  "album_id_of t = ALBUM_PREFIX @ album_key t"

definition artist_id_of :: "text_lib \<Rightarrow> local_track \<Rightarrow> ustr" where
  "artist_id_of tx t = ARTIST_PREFIX @ leading_artist tx (lo_artist t)"

definition card_ids_of :: "text_lib \<Rightarrow> local_track list \<Rightarrow> ustr list" where
  "card_ids_of tx ts = remdups (concat (map (\<lambda>t. [album_id_of t, artist_id_of tx t]) ts))"

section \<open>Forgetting and scanning\<close>

definition forget_missing :: "text_lib \<Rightarrow> bool \<Rightarrow> store \<Rightarrow> ustr \<Rightarrow> ustr list \<times> store" where
  "forget_missing tx io s path =
     (let all = local_tracks s None;
          s' = delete_local_tracks io [path] s;
          song = SONG_PREFIX @ path
      in case List.find (\<lambda>t. lo_path t = path) all of
           None \<Rightarrow> ([song], s')
         | Some gone \<Rightarrow>
             (let others = filter (\<lambda>t. lo_path t \<noteq> path) all
              in ([song] @ (if list_ex (\<lambda>t. album_key t = album_key gone) others then [] else [album_id_of gone]) @
                  (if list_ex (\<lambda>t. lo_artist t = lo_artist gone) others then [] else [artist_id_of tx gone]), s')))"

text \<open>Which files are read again: those the table does not have at their time, or all of them after the rules changed.\<close>

definition must_read :: "bool \<Rightarrow> (ustr, int) hmap \<Rightarrow> disk \<Rightarrow> ustr \<Rightarrow> bool" where
  "must_read reparse known dk p \<longleftrightarrow> reparse \<or> hget known p \<noteq> Some (dk_mtime dk p)"

text \<open>The scan on the database: the removed ids and the new state. \<open>io\<close> and \<open>bad\<close> are those of the writes.\<close>

definition scan :: "text_lib \<Rightarrow> bool \<Rightarrow> (local_track \<Rightarrow> bool) \<Rightarrow> disk \<Rightarrow> store \<Rightarrow> ustr list \<times> store" where
  "scan tx io bad dk s =
     (let before = card_ids_of tx (local_tracks s None);
          known = local_mtimes s;
          reparse = (get_setting s SCAN_VERSION_SETTING \<noteq> Some SCAN_VERSION);
          found = audio_files dk (folders tx s);
          fresh = map (\<lambda>p. read_track tx dk p (dk_mtime dk p)) (filter (must_read reparse known dk) found);
          s = put_local_tracks io bad fresh s;
          s = (if reparse then set_setting SCAN_VERSION_SETTING SCAN_VERSION s else s);
          gone = filter (\<lambda>p. p \<notin> set found) (hkeys known);
          s = delete_local_tracks io gone s;
          after = card_ids_of tx (local_tracks s None)
      in (map (\<lambda>p. SONG_PREFIX @ p) gone @ filter (\<lambda>c. c \<notin> set after) before, s))"

section \<open>Songs, cards and pages\<close>

definition fmt_duration :: "int \<Rightarrow> ustr" where
  "fmt_duration secs =
     (let h = nat (secs div 3600); m = nat (secs mod 3600 div 60); sec = nat (secs mod 60)
      in if 0 < h then dec h @ [58] @ pad2 m @ [58] @ pad2 sec else dec m @ [58] @ pad2 sec)"

definition to_song :: "local_track \<Rightarrow> song_item" where
  "to_song t = empty_song\<lparr>video_id := SONG_PREFIX @ lo_path t, song_title := lo_title t, artists := lo_artist t,
     album := Some (lo_album t), song_duration := (if 0 < duration_secs t then Some (fmt_duration (duration_secs t)) else None),
     song_thumbnail := lo_cover t\<rparr>"

definition album_artist :: "local_track list \<Rightarrow> ustr" where
  "album_artist ts =
     (let first = (case ts of t # _ \<Rightarrow> lo_artist t | [] \<Rightarrow> UNTAGGED_ARTIST)
      in if list_all (\<lambda>t. lo_artist t = first) ts then first else lit ''Various artists'')"

record local_card =
  lc_id :: ustr
  lc_title :: ustr
  lc_subtitle :: ustr
  lc_thumbnail :: "ustr option"

definition song_count :: "nat \<Rightarrow> ustr" where
  "song_count n = dec n @ lit '' song'' @ (if n = 1 then [] else lit ''s'')"

text \<open>The groups are walked in the order of a hash map, which \<open>arr\<close> stands for.\<close>

definition albums_of :: "text_lib \<Rightarrow> (ustr list \<Rightarrow> ustr list) \<Rightarrow> local_track list \<Rightarrow> local_card list" where
  "albums_of tx arr ts =
     sort_key (\<lambda>c. tl_lower tx (lc_title c))
       (map (\<lambda>k.
          let g = filter (\<lambda>t. album_key t = k) ts;
              face = (case List.find (\<lambda>t. lo_cover t \<noteq> None) g of Some t \<Rightarrow> t | None \<Rightarrow> hd g)
          in \<lparr>lc_id = album_id_of face, lc_title = lo_album face,
              lc_subtitle = album_artist g @ lit '' '' @ [8226, 32] @ song_count (length g), lc_thumbnail = lo_cover face\<rparr>)
        (arr (remdups (map album_key ts))))"

definition first_cover :: "local_track list \<Rightarrow> ustr option" where
  "first_cover ts = (case List.find (\<lambda>t. lo_cover t \<noteq> None) ts of Some t \<Rightarrow> lo_cover t | None \<Rightarrow> None)"

definition artists_of :: "text_lib \<Rightarrow> (ustr list \<Rightarrow> ustr list) \<Rightarrow> local_track list \<Rightarrow> local_card list" where
  "artists_of tx arr ts =
     sort_key (\<lambda>c. tl_lower tx (lc_title c))
       (map (\<lambda>n.
          let g = filter (\<lambda>t. leading_artist tx (lo_artist t) = n) ts
          in \<lparr>lc_id = ARTIST_PREFIX @ n, lc_title = n, lc_subtitle = song_count (length g), lc_thumbnail = first_cover g\<rparr>)
        (arr (remdups (map (\<lambda>t. leading_artist tx (lo_artist t)) ts))))"

record local_page =
  pg_title :: "ustr option"
  pg_artist :: "ustr option"
  pg_second_subtitle :: ustr
  pg_thumbnail :: "ustr option"
  pg_items :: "song_item list"

definition page_of :: "ustr option \<Rightarrow> ustr option \<Rightarrow> local_track list \<Rightarrow> local_page" where
  "page_of ti ar ts = \<lparr>pg_title = ti, pg_artist = ar,
     pg_second_subtitle = song_count (length ts) @ lit '' '' @ [8226, 32] @ fmt_duration (sum_list (map duration_secs ts)),
     pg_thumbnail = first_cover ts, pg_items = map to_song ts\<rparr>"

definition album_page :: "store \<Rightarrow> ustr \<Rightarrow> local_page" where
  "album_page s k =
     (let ts = local_tracks s (Some k)
      in page_of (case ts of [] \<Rightarrow> None | t # _ \<Rightarrow> Some (lo_album t)) (if ts = [] then None else Some (album_artist ts)) ts)"

definition artist_page :: "text_lib \<Rightarrow> store \<Rightarrow> ustr \<Rightarrow> local_page" where
  "artist_page tx s name =
     page_of (Some name) None (filter (\<lambda>t. leading_artist tx (lo_artist t) = name) (local_tracks s None))"

text \<open>\<open>local::playback_data\<close>: \<open>None\<close> when the file is gone.\<close>

definition local_stream :: "(ustr \<Rightarrow> bool) \<Rightarrow> ustr \<Rightarrow> ustr \<Rightarrow> resolved_stream option" where
  "local_stream is_file v path =
     (if is_file path
      then Some ((plain_stream v path (lit ''local''))\<lparr>pd_expires_in := 2 ^ 62 - 1, pd_is_video := None\<rparr>) else None)"

end
