(* ===== verification/Local_Laws.thy ===== *)
theory Local_Laws
  imports Local_Library
begin

text \<open>
  What the local library guarantees: watched folders never nest, a scan leaves exactly the files on disk in the table and
  reports exactly the ids that are no longer shown, a second scan changes nothing, and where forgetting a single file
  reports too much.
\<close>

section \<open>Folders\<close>

lemma in_folder_prefix: "in_folder p f \<longleftrightarrow> (\<exists>r. path_of p = path_of f @ r)"
  by (auto simp: in_folder_def) (metis append_take_drop_id)

lemma in_folder_refl [simp]: "in_folder p p"
  by (simp add: in_folder_def)

lemma in_folder_trans: "in_folder p q \<Longrightarrow> in_folder q r \<Longrightarrow> in_folder p r"
  by (auto simp: in_folder_prefix)

definition apart :: "ustr list \<Rightarrow> bool" where
  "apart fs \<longleftrightarrow> sorted_wrt (\<lambda>f g. \<not> in_folder f g \<and> \<not> in_folder g f) fs"

lemma apart_folder_added: "apart fs \<Longrightarrow> apart (folder_added p fs)"
proof -
  assume a: "apart fs"
  have "apart (filter (\<lambda>f. \<not> in_folder f p) fs)"
    using a by (simp add: apart_def sorted_wrt_filter)
  then show ?thesis
    using a by (auto simp: folder_added_def apart_def sorted_wrt_append list_ex_iff)
qed

lemma folder_added_covers:
  "(\<exists>f \<in> set (folder_added p fs). in_folder x f) \<longleftrightarrow> in_folder x p \<or> (\<exists>f \<in> set fs. in_folder x f)"
proof (cases "list_ex (in_folder p) fs")
  case True
  then show ?thesis using in_folder_trans by (auto simp: folder_added_def list_ex_iff)
next
  case False
  show ?thesis
  proof
    assume "in_folder x p \<or> (\<exists>f \<in> set fs. in_folder x f)"
    then show "\<exists>f \<in> set (folder_added p fs). in_folder x f"
      using False in_folder_trans by (auto simp: folder_added_def)
  qed (use False in \<open>auto simp: folder_added_def\<close>)
qed

datatype folder_op = Watch ustr | Unwatch ustr

fun run_folder :: "text_lib \<Rightarrow> folder_op \<Rightarrow> store \<Rightarrow> store" where
  "run_folder tx (Watch p) s = add_folder tx p s" |
  "run_folder tx (Unwatch p) s = remove_folder tx p s"

lemma folders_set: "tl_parse_strings tx (tl_strings tx fs) = Some fs \<Longrightarrow> folders tx (set_folders tx fs s) = fs"
  by (simp add: folders_def set_folders_def)

lemma folders_run:
  assumes "\<And>fs. tl_parse_strings tx (tl_strings tx fs) = Some fs"
  shows "folders tx (run_folder tx op s) =
    (case op of Watch p \<Rightarrow> folder_added p (folders tx s) | Unwatch p \<Rightarrow> filter (\<lambda>f. f \<noteq> p) (folders tx s))"
  using folders_set [OF assms]
  by (cases op) (auto simp: add_folder_def remove_folder_def folder_added_def)

text \<open>C26: Whatever folders are added and removed, no watched folder lies inside another, so none is walked twice
  for being listed under a parent.\<close>

theorem watched_folders_never_nest:
  assumes "\<And>fs. tl_parse_strings tx (tl_strings tx fs) = Some fs"
    and "get_setting s FOLDERS_SETTING = None"
  shows "apart (folders tx (fold (run_folder tx) ops s))"
proof -
  have "apart (folders tx s)" using assms(2) by (simp add: folders_def apart_def)
  then show ?thesis
  proof (induction ops arbitrary: s)
    case (Cons op ops)
    have "apart (folders tx (run_folder tx op s))"
      unfolding folders_run [OF assms(1)]
      using Cons.prems apart_folder_added by (cases op) (simp_all add: apart_def sorted_wrt_filter)
    then show ?case by (simp add: Cons.IH)
  qed simp
qed

section \<open>The walk\<close>

text \<open>A disk lists a folder's entries once each, and an entry belongs to one folder.\<close>

definition honest_disk :: "(ustr \<Rightarrow> ustr) \<Rightarrow> disk \<Rightarrow> bool" where
  "honest_disk par dk \<longleftrightarrow> (\<forall>d es. dk_entries dk d = Some es \<longrightarrow> distinct es \<and> (\<forall>e \<in> set es. par e = dk_canonical dk d))"

definition grows :: "(ustr \<Rightarrow> ustr) \<Rightarrow> ustr list \<times> ustr list \<Rightarrow> ustr list \<times> ustr list \<Rightarrow> bool" where
  "grows par st st' \<longleftrightarrow> (\<exists>new. snd st' = snd st @ new \<and> distinct new \<and> set (fst st) \<subseteq> set (fst st') \<and>
     (\<forall>f \<in> set new. par f \<in> set (fst st') - set (fst st)))"

text \<open>The same while the entries \<open>es\<close> of the folder \<open>c\<close> are gone through.\<close>

definition grows_in :: "(ustr \<Rightarrow> ustr) \<Rightarrow> ustr \<Rightarrow> ustr list \<Rightarrow> ustr list \<times> ustr list \<Rightarrow> ustr list \<times> ustr list \<Rightarrow> bool" where
  "grows_in par c es st st' \<longleftrightarrow> (\<exists>new. snd st' = snd st @ new \<and> distinct new \<and> set (fst st) \<subseteq> set (fst st') \<and>
     (\<forall>f \<in> set new. par f \<in> set (fst st') - set (fst st) \<or> par f = c \<and> f \<in> set es))"

lemma grows_refl: "grows par st st"
  by (simp add: grows_def)

lemma grows_then_in:
  assumes "grows par st st1" "grows_in par c es st1 st2" "c \<in> set (fst st)"
  shows "grows_in par c (e # es) st st2"
proof -
  from assms(1) obtain n1 where n1: "snd st1 = snd st @ n1" "distinct n1" "set (fst st) \<subseteq> set (fst st1)"
    "\<forall>f \<in> set n1. par f \<in> set (fst st1) - set (fst st)" by (auto simp: grows_def)
  from assms(2) obtain n2 where n2: "snd st2 = snd st1 @ n2" "distinct n2" "set (fst st1) \<subseteq> set (fst st2)"
    "\<forall>f \<in> set n2. par f \<in> set (fst st2) - set (fst st1) \<or> par f = c \<and> f \<in> set es" by (auto simp: grows_in_def)
  have "set n1 \<inter> set n2 = {}" using n1(4) n2(4) assms(3) by fastforce
  moreover have "\<forall>f \<in> set (n1 @ n2). par f \<in> set (fst st2) - set (fst st) \<or> par f = c \<and> f \<in> set (e # es)"
    using n1(3,4) n2(3,4) by auto
  ultimately show ?thesis
    unfolding grows_in_def using n1 n2 by (intro exI [of _ "n1 @ n2"]) auto
qed

lemma file_then_in:
  assumes "grows_in par c es (fst st, snd st @ [e]) st2" "par e = c" "e \<notin> set es" "c \<in> set (fst st)"
  shows "grows_in par c (e # es) st st2"
proof -
  from assms(1) obtain n2 where n2: "snd st2 = snd st @ [e] @ n2" "distinct n2" "set (fst st) \<subseteq> set (fst st2)"
    "\<forall>f \<in> set n2. par f \<in> set (fst st2) - set (fst st) \<or> par f = c \<and> f \<in> set es" by (auto simp: grows_in_def)
  have "e \<notin> set n2" using n2(4) assms(2-4) by auto
  then show ?thesis
    unfolding grows_in_def using n2 assms(2) by (intro exI [of _ "e # n2"]) auto
qed

lemma grows_out:
  assumes "grows_in par c es (c # fst st, snd st) st'" "c \<notin> set (fst st)"
  shows "grows par st st'"
proof -
  from assms(1) obtain n where n: "snd st' = snd st @ n" "distinct n" "set (c # fst st) \<subseteq> set (fst st')"
    "\<forall>f \<in> set n. par f \<in> set (fst st') - set (c # fst st) \<or> par f = c \<and> f \<in> set es"
    by (auto simp: grows_in_def)
  have "\<forall>f \<in> set n. par f \<in> set (fst st') - set (fst st)"
    using n(3,4) assms(2) by auto
  with n show ?thesis unfolding grows_def by (intro exI [of _ n]) auto
qed

lemma walk_grows: "honest_disk par dk \<Longrightarrow> grows par st (walk_folder k dk dir st)"
proof (induction k arbitrary: dir st)
  case 0
  show ?case by (simp add: grows_refl)
next
  case (Suc k)
  let ?c = "dk_canonical dk dir"
  let ?step = "\<lambda>e st. case dk_kind dk e of Some DiskDir \<Rightarrow> walk_folder k dk e st
      | Some DiskFile \<Rightarrow> if is_audio e then (fst st, snd st @ [e]) else st | None \<Rightarrow> st"
  have inner: "grows_in par ?c es st (fold ?step es st)"
    if "distinct es" "\<forall>e \<in> set es. par e = ?c" "?c \<in> set (fst st)" for es st
    using that
  proof (induction es arbitrary: st)
    case Nil
    then show ?case by (simp add: grows_in_def)
  next
    case (Cons e es)
    show ?case
    proof (cases "dk_kind dk e = Some DiskFile \<and> is_audio e")
      case True
      have "grows_in par ?c es (fst st, snd st @ [e]) (fold ?step es (fst st, snd st @ [e]))"
        using Cons.prems by (intro Cons.IH) auto
      then have "grows_in par ?c (e # es) st (fold ?step es (fst st, snd st @ [e]))"
        using Cons.prems by (intro file_then_in) auto
      then show ?thesis using True by simp
    next
      case False
      have g: "grows par st (?step e st)"
        using False Suc.IH [OF Suc.prems] grows_refl by (auto split: option.split disk_kind.split)
      then have "set (fst st) \<subseteq> set (fst (?step e st))" unfolding grows_def by blast
      then have "?c \<in> set (fst (?step e st))" using Cons.prems(3) by blast
      then have "grows_in par ?c es (?step e st) (fold ?step es (?step e st))"
        using Cons.prems by (intro Cons.IH) auto
      then have "grows_in par ?c (e # es) st (fold ?step es (?step e st))"
        using g Cons.prems(3) by (intro grows_then_in)
      then show ?thesis by simp
    qed
  qed
  show ?case
  proof (cases "?c \<in> set (fst st)")
    case True
    then show ?thesis by (simp add: grows_refl)
  next
    case new: False
    show ?thesis
    proof (cases "dk_entries dk dir")
      case None
      with new show ?thesis by (auto simp: grows_def)
    next
      case (Some es)
      have "grows_in par ?c es (?c # fst st, snd st) (fold ?step es (?c # fst st, snd st))"
        using Suc.prems Some by (intro inner) (auto simp: honest_disk_def)
      then have "grows par st (fold ?step es (?c # fst st, snd st))"
        using new by (rule grows_out)
      with new Some show ?thesis by simp
    qed
  qed
qed

lemma audio_files_distinct: "honest_disk par dk \<Longrightarrow> distinct (audio_files dk fs)"
proof -
  assume ok: "honest_disk par dk"
  have "distinct (snd st) \<Longrightarrow> \<forall>f \<in> set (snd st). par f \<in> set (fst st) \<Longrightarrow>
      distinct (snd (fold (walk_folder n dk) fs st))" for st n
  proof (induction fs arbitrary: st)
    case (Cons f fs)
    obtain new where "snd (walk_folder n dk f st) = snd st @ new" "distinct new"
        "set (fst st) \<subseteq> set (fst (walk_folder n dk f st))"
        "\<forall>g \<in> set new. par g \<in> set (fst (walk_folder n dk f st)) - set (fst st)"
      using walk_grows [OF ok, of st n f] by (auto simp: grows_def)
    then have "distinct (snd (walk_folder n dk f st))"
        "\<forall>g \<in> set (snd (walk_folder n dk f st)). par g \<in> set (fst (walk_folder n dk f st))"
      using Cons.prems by auto
    then show ?case by (simp add: Cons.IH)
  qed simp
  then show ?thesis by (simp add: audio_files_def)
qed

section \<open>A scan\<close>

lemma hget_fold_rows:
  "distinct (map lo_path ts) \<Longrightarrow>
    hget (fold (\<lambda>t. hput (lo_path t) t) ts m) p =
      (case List.find (\<lambda>t. lo_path t = p) ts of Some t \<Rightarrow> Some t | None \<Rightarrow> hget m p)"
proof (induction ts arbitrary: m)
  case (Cons t ts)
  have "List.find (\<lambda>u. lo_path u = lo_path t) ts = None"
    using Cons.prems by (simp add: find_None_iff) (metis image_eqI)
  with Cons show ?case by (auto split: option.split)
qed simp

lemma hget_keep_keys: "hget (filter (\<lambda>(q, _). P q) m) p = (if P p then hget m p else None)"
  by (induction m) auto

lemma lo_path_read [simp]: "lo_path (read_track tx dk p mt) = p" "mtime (read_track tx dk p mt) = mt"
  by (simp_all add: read_track_def Let_def split: prod.splits)

definition rescan :: "store \<Rightarrow> bool" where
  "rescan s \<longleftrightarrow> get_setting s SCAN_VERSION_SETTING \<noteq> Some SCAN_VERSION"

definition fresh_rows :: "text_lib \<Rightarrow> disk \<Rightarrow> store \<Rightarrow> local_track list" where
  "fresh_rows tx dk s = map (\<lambda>p. read_track tx dk p (dk_mtime dk p))
     (filter (must_read (rescan s) (local_mtimes s) dk) (audio_files dk (folders tx s)))"

lemma rows_put: "local_rows (put_local_tracks True bad ts s) = fold (\<lambda>t. hput (lo_path t) t) (filter (\<lambda>t. \<not> bad t) ts) (local_rows s)"
  by (simp add: put_local_tracks_def)

lemma rows_delete: "local_rows (delete_local_tracks True ps s) = filter (\<lambda>(p, _). p \<notin> set ps) (local_rows s)"
  by (simp add: delete_local_tracks_def filter_id_conv)

lemma rows_setting: "local_rows (if b then set_setting k v s else s) = local_rows s"
  by (simp add: set_setting_def)

lemma scan_state:
  "local_rows (snd (scan tx True bad dk s)) =
    filter (\<lambda>(p, _). p \<notin> set (filter (\<lambda>p. p \<notin> set (audio_files dk (folders tx s))) (hkeys (local_mtimes s))))
      (fold (\<lambda>t. hput (lo_path t) t) (filter (\<lambda>t. \<not> bad t) (fresh_rows tx dk s)) (local_rows s))"
  unfolding scan_def Let_def snd_conv rows_delete rows_setting rows_put fresh_rows_def rescan_def by (rule refl)

lemma find_fresh:
  "List.find (\<lambda>t. lo_path t = p) (map (\<lambda>p. read_track tx dk p (dk_mtime dk p)) ps) =
    (if p \<in> set ps then Some (read_track tx dk p (dk_mtime dk p)) else None)"
  by (induction ps) auto

lemma hkeys_mtimes [simp]: "hkeys (local_mtimes s) = hkeys (local_rows s)"
  by (simp add: local_mtimes_def comp_def case_prod_unfold)

lemma hget_mtimes: "hget (local_mtimes s) p = map_option mtime (hget (local_rows s) p)"
proof -
  have "map_of (map (\<lambda>(p, t). (p, mtime t)) m) p = map_option mtime (map_of m p)" for m :: "(ustr, local_track) hmap"
    by (induction m) auto
  then show ?thesis by (simp add: local_mtimes_def)
qed

lemma rows_after_scan:
  assumes "honest_disk par dk"
  shows "hget (local_rows (snd (scan tx True (\<lambda>_. False) dk s))) p =
    (if p \<notin> set (audio_files dk (folders tx s)) then None
     else if must_read (rescan s) (local_mtimes s) dk p then Some (read_track tx dk p (dk_mtime dk p))
     else hget (local_rows s) p)"
proof -
  have d: "distinct (map lo_path (fresh_rows tx dk s))"
    using audio_files_distinct [OF assms] by (simp add: fresh_rows_def comp_def)
  have "hget (fold (\<lambda>t. hput (lo_path t) t) (fresh_rows tx dk s) (local_rows s)) p =
      (if p \<in> set (audio_files dk (folders tx s)) \<and> must_read (rescan s) (local_mtimes s) dk p
       then Some (read_track tx dk p (dk_mtime dk p)) else hget (local_rows s) p)"
    unfolding hget_fold_rows [OF d] unfolding fresh_rows_def find_fresh by (simp split: option.split)
  then show ?thesis
    unfolding scan_state by (auto simp: hget_keep_keys hget_eq_None)
qed

lemma unread_known: "\<not> must_read r (local_mtimes s) dk p \<Longrightarrow> hget (local_rows s) p \<noteq> None"
  by (auto simp: must_read_def hget_mtimes)

text \<open>C5: A scan brings the table in line with the disk: afterwards it holds exactly the audio files found, those whose
  time has not moved as they were, every other as its tags read now; with the reading rules changed, all of them.\<close>

theorem scan_matches_disk:
  assumes "honest_disk par dk"
  shows "let s' = snd (scan tx True (\<lambda>_. False) dk s) in
    set (hkeys (local_rows s')) = set (audio_files dk (folders tx s)) \<and>
    (\<forall>p \<in> set (audio_files dk (folders tx s)). hget (local_rows s') p =
       (if get_setting s SCAN_VERSION_SETTING = Some SCAN_VERSION \<and>
           map_option mtime (hget (local_rows s) p) = Some (dk_mtime dk p)
        then hget (local_rows s) p else Some (read_track tx dk p (dk_mtime dk p))))"
proof -
  let ?s' = "snd (scan tx True (\<lambda>_. False) dk s)"
  have "p \<in> set (hkeys (local_rows ?s')) \<longleftrightarrow> p \<in> set (audio_files dk (folders tx s))" for p
    using rows_after_scan [OF assms, where p = p] unread_known [of "rescan s" s dk p] hget_eq_None [of "local_rows ?s'" p]
    by (auto split: if_splits)
  moreover have "hget (local_rows ?s') p =
       (if get_setting s SCAN_VERSION_SETTING = Some SCAN_VERSION \<and>
           map_option mtime (hget (local_rows s) p) = Some (dk_mtime dk p)
        then hget (local_rows s) p else Some (read_track tx dk p (dk_mtime dk p)))"
    if "p \<in> set (audio_files dk (folders tx s))" for p
    using rows_after_scan [OF assms, where p = p] that by (auto simp: must_read_def rescan_def hget_mtimes)
  ultimately show ?thesis by (auto simp: Let_def)
qed

section \<open>The ids a client may be showing\<close>

definition song_ids :: "store \<Rightarrow> ustr set" where
  "song_ids s = (\<lambda>p. SONG_PREFIX @ p) ` set (hkeys (local_rows s))"

definition card_ids :: "text_lib \<Rightarrow> store \<Rightarrow> ustr set" where
  "card_ids tx s = set (card_ids_of tx (local_tracks s None))"

definition shown_ids :: "text_lib \<Rightarrow> store \<Rightarrow> ustr set" where
  "shown_ids tx s = song_ids s \<union> card_ids tx s"

lemma set_local_tracks: "set (local_tracks s None) = set (map snd (local_rows s))"
  by (simp add: local_tracks_def)

lemma card_ids_eq: "card_ids tx s = (\<Union>t \<in> set (map snd (local_rows s)). {album_id_of t, artist_id_of tx t})"
  unfolding card_ids_def card_ids_of_def set_local_tracks [symmetric] by auto

lemma song_not_card: "SONG_PREFIX @ p \<noteq> ALBUM_PREFIX @ q" "SONG_PREFIX @ p \<noteq> ARTIST_PREFIX @ q"
  by (simp_all add: SONG_PREFIX_def ALBUM_PREFIX_def ARTIST_PREFIX_def lit_Cons)

lemma songs_cards_disjoint: "song_ids s \<inter> card_ids tx s' = {}"
  using song_not_card by (auto simp: song_ids_def card_ids_eq album_id_of_def artist_id_of_def)

lemma hkeys_after_scan:
  assumes "honest_disk par dk"
  shows "set (hkeys (local_rows (snd (scan tx True (\<lambda>_. False) dk s)))) = set (audio_files dk (folders tx s))"
proof -
  have "p \<in> set (hkeys (local_rows (snd (scan tx True (\<lambda>_. False) dk s)))) \<longleftrightarrow> p \<in> set (audio_files dk (folders tx s))" for p
    using rows_after_scan [OF assms, where p = p] unread_known [of "rescan s" s dk p] hget_eq_None [of "local_rows (snd (scan tx True (\<lambda>_. False) dk s))" p]
    by (auto split: if_splits)
  then show ?thesis by blast
qed

lemma removed_ids:
  "set (fst (scan tx io bad dk s)) =
    (\<lambda>p. SONG_PREFIX @ p) ` (set (hkeys (local_rows s)) - set (audio_files dk (folders tx s))) \<union>
    (card_ids tx s - card_ids tx (snd (scan tx io bad dk s)))"
  unfolding scan_def Let_def fst_conv snd_conv card_ids_def hkeys_mtimes set_append set_map set_filter by auto

lemma diff_disjoint: "A \<inter> B' = {} \<Longrightarrow> A' \<inter> B = {} \<Longrightarrow> (A \<union> B) - (A' \<union> B') = (A - A') \<union> (B - B')"
  by blast

lemma shown_diff: "shown_ids tx s - shown_ids tx s' = (song_ids s - song_ids s') \<union> (card_ids tx s - card_ids tx s')"
  unfolding shown_ids_def by (intro diff_disjoint songs_cards_disjoint)

lemma removed_by_scan:
  assumes "honest_disk par dk"
  shows "set (fst (scan tx True (\<lambda>_. False) dk s)) = shown_ids tx s - shown_ids tx (snd (scan tx True (\<lambda>_. False) dk s))"
proof -
  let ?s' = "snd (scan tx True (\<lambda>_. False) dk s)"
  have "song_ids ?s' = (\<lambda>p. SONG_PREFIX @ p) ` set (audio_files dk (folders tx s))"
    using hkeys_after_scan [OF assms] by (simp add: song_ids_def)
  moreover have "(\<lambda>p. SONG_PREFIX @ p) ` A - (\<lambda>p. SONG_PREFIX @ p) ` B = (\<lambda>p. SONG_PREFIX @ p) ` (A - B)" for A B :: "ustr set"
    by auto
  ultimately have "(\<lambda>p. SONG_PREFIX @ p) ` (set (hkeys (local_rows s)) - set (audio_files dk (folders tx s))) =
      song_ids s - song_ids ?s'"
    by (simp add: song_ids_def)
  then show ?thesis
    unfolding removed_ids shown_diff by (rule arg_cong2 [where f = union]) (rule refl)
qed

text \<open>C25: A scan reports as removed exactly the ids a client could be showing before and nothing shows afterwards: the
  songs whose files are gone, and the albums and artists that lost their last one.\<close>

theorem scan_reports_what_vanished:
  assumes "honest_disk par dk"
  shows "set (fst (scan tx True (\<lambda>_. False) dk s)) = shown_ids tx s - shown_ids tx (snd (scan tx True (\<lambda>_. False) dk s))"
  using assms by (rule removed_by_scan)

section \<open>Scanning twice\<close>

lemma scan_settings:
  "get_setting (snd (scan tx io bad dk s)) k =
    (if k = SCAN_VERSION_SETTING \<and> rescan s then Some SCAN_VERSION else get_setting s k)"
proof -
  have "settings (put_local_tracks io bad ts s) = settings s" "settings (delete_local_tracks io ps s) = settings s" for ts ps s
    by (simp_all add: put_local_tracks_def delete_local_tracks_def)
  then show ?thesis
    unfolding scan_def Let_def snd_conv get_setting_def rescan_def by (simp add: set_setting_def)
qed

lemma folders_after_scan: "folders tx (snd (scan tx io bad dk s)) = folders tx s"
proof -
  have "FOLDERS_SETTING \<noteq> SCAN_VERSION_SETTING"
    by (simp add: FOLDERS_SETTING_def SCAN_VERSION_SETTING_def lit_Cons)
  then show ?thesis by (simp add: folders_def scan_settings)
qed

lemma no_rescan: "\<not> rescan (snd (scan tx io bad dk s))"
  by (simp add: rescan_def scan_settings)

lemma scan_nothing:
  assumes "\<not> rescan s" "\<forall>p \<in> set (audio_files dk (folders tx s)). \<not> must_read False (local_mtimes s) dk p"
    and "set (hkeys (local_rows s)) \<subseteq> set (audio_files dk (folders tx s))"
  shows "scan tx io bad dk s = ([], s)"
proof -
  have f: "filter (must_read False (local_mtimes s) dk) (audio_files dk (folders tx s)) = []"
    using assms(2) by (simp add: filter_empty_conv)
  have g: "filter (\<lambda>p. p \<notin> set (audio_files dk (folders tx s))) (hkeys (local_mtimes s)) = []"
    using assms(3) by (auto simp: filter_empty_conv)
  have r: "(get_setting s SCAN_VERSION_SETTING \<noteq> Some SCAN_VERSION) = False"
    using assms(1) by (simp add: rescan_def)
  show ?thesis
    unfolding scan_def r f g Let_def by (simp add: put_local_tracks_def delete_local_tracks_def filter_empty_conv)
qed

text \<open>Scanning an unchanged disk a second time reads no file, changes nothing and reports nothing.\<close>

theorem second_scan_changes_nothing:
  assumes "honest_disk par dk"
  shows "scan tx io bad dk (snd (scan tx True (\<lambda>_. False) dk s)) = ([], snd (scan tx True (\<lambda>_. False) dk s))"
proof (rule scan_nothing)
  let ?s' = "snd (scan tx True (\<lambda>_. False) dk s)"
  show "\<not> rescan ?s'" by (rule no_rescan)
  show "set (hkeys (local_rows ?s')) \<subseteq> set (audio_files dk (folders tx ?s'))"
    unfolding hkeys_after_scan [OF assms] folders_after_scan by (rule subset_refl)
  show "\<forall>p \<in> set (audio_files dk (folders tx ?s')). \<not> must_read False (local_mtimes ?s') dk p"
  proof
    fix p assume "p \<in> set (audio_files dk (folders tx ?s'))"
    then have "p \<in> set (audio_files dk (folders tx s))" by (simp add: folders_after_scan)
    then show "\<not> must_read False (local_mtimes ?s') dk p"
      using rows_after_scan [OF assms, where p = p] by (auto simp: must_read_def hget_mtimes split: if_splits)
  qed
qed

section \<open>Forgetting one file\<close>

lemma row_of_path:
  assumes "hwf m" "\<forall>(p, t) \<in> set m. lo_path t = p" "u \<in> set (map snd m)"
  shows "hget m (lo_path u) = Some u"
proof -
  obtain q where q: "(q, u) \<in> set m" using assms(3) by auto
  then have "lo_path u = q" using assms(2) by auto
  with q assms(1) show ?thesis by (simp add: hwf_def)
qed

lemma find_path:
  assumes "hwf m" "\<forall>(p, t) \<in> set m. lo_path t = p" "set ts = set (map snd m)"
  shows "List.find (\<lambda>t. lo_path t = p) ts = hget m p"
proof (cases "hget m p")
  case None
  have "lo_path t \<noteq> p" if "t \<in> set ts" for t
    using row_of_path [OF assms(1,2), of t] that None assms(3) by auto
  then show ?thesis using None by (auto simp: find_None_iff)
next
  case (Some t)
  then have "(p, t) \<in> set m" by (rule hget_in_set)
  then have "snd (p, t) \<in> snd ` set m" "lo_path t = p" using assms(2) by (blast, auto)
  then have "t \<in> set ts" "lo_path t = p" using assms(3) by simp_all
  moreover have u: "u = t" if u: "u \<in> set ts" "lo_path u = p" for u
    using row_of_path [OF assms(1,2), of u] u Some assms(3) by simp
  show ?thesis
  proof (cases "List.find (\<lambda>t. lo_path t = p) ts")
    case None
    with calculation show ?thesis by (auto simp: find_None_iff)
  next
    case (Some w)
    then have "w \<in> set ts" "lo_path w = p" by (auto simp: find_Some_iff)
    then have "w = t" by (rule u)
    with Some \<open>hget m p = Some t\<close> show ?thesis by simp
  qed
qed

lemma rows_forget: "local_rows (snd (forget_missing tx True s p)) = filter (\<lambda>(q, _). q \<noteq> p) (local_rows s)"
  by (simp add: forget_missing_def Let_def rows_delete split: option.split)

text \<open>Forgetting a file reports every id that stops being shown; and when no other file's artist merely begins with
  the same name, it reports nothing else.\<close>

theorem forgetting_reports_enough:
  assumes "store_ok s" "hget (local_rows s) p = Some gone"
  shows "shown_ids tx s - shown_ids tx (snd (forget_missing tx True s p)) \<subseteq> set (fst (forget_missing tx True s p)) \<and>
    ((\<forall>t \<in> set (map snd (local_rows s)). lo_path t \<noteq> p \<longrightarrow> lo_artist t \<noteq> lo_artist gone \<longrightarrow>
        leading_artist tx (lo_artist t) \<noteq> leading_artist tx (lo_artist gone)) \<longrightarrow>
     set (fst (forget_missing tx True s p)) = shown_ids tx s - shown_ids tx (snd (forget_missing tx True s p)))"
proof -
  let ?m = "local_rows s"
  let ?s' = "snd (forget_missing tx True s p)"
  let ?others = "filter (\<lambda>t. lo_path t \<noteq> p) (local_tracks s None)"
  have keyed: "hwf ?m" "\<forall>(q, t) \<in> set ?m. lo_path t = q" using assms(1) by (auto simp: store_ok_def)
  have mem: "(p, gone) \<in> set ?m" using assms(2) by (rule hget_in_set)
  have pg: "lo_path gone = p" using keyed(2) mem by auto
  have find: "List.find (\<lambda>t. lo_path t = p) (local_tracks s None) = Some gone"
    using find_path [OF keyed set_local_tracks] assms(2) by simp
  have others: "set ?others = set (map snd (local_rows ?s'))"
    using keyed(2) by (force simp: rows_forget set_local_tracks)
  have all: "set (map snd ?m) = insert gone (set ?others)"
  proof
    show "insert gone (set ?others) \<subseteq> set (map snd ?m)" using mem by (auto simp: set_local_tracks rev_image_eqI)
    have "t = gone" if t: "t \<in> set (map snd ?m)" "lo_path t = p" for t
      using row_of_path [OF keyed t(1)] t(2) assms(2) by simp
    then show "set (map snd ?m) \<subseteq> insert gone (set ?others)" by (auto simp: set_local_tracks)
  qed
  have cards: "card_ids tx s = card_ids tx ?s' \<union> {album_id_of gone, artist_id_of tx gone}"
    unfolding card_ids_eq all others [symmetric] by auto
  have songs: "song_ids s - song_ids ?s' = {SONG_PREFIX @ p}"
    using mem by (auto simp: song_ids_def rows_forget image_iff) force
  have al: "album_id_of gone \<in> card_ids tx ?s' \<longleftrightarrow> list_ex (\<lambda>t. album_key t = album_key gone) ?others"
  proof -
    have "album_id_of gone \<noteq> artist_id_of tx t" for t
      by (simp add: album_id_of_def artist_id_of_def ALBUM_PREFIX_def ARTIST_PREFIX_def lit_Cons)
    then show ?thesis
      unfolding card_ids_eq others [symmetric] by (auto simp: album_id_of_def list_ex_iff)
  qed
  have ar: "artist_id_of tx gone \<in> card_ids tx ?s' \<longleftrightarrow>
      list_ex (\<lambda>t. leading_artist tx (lo_artist t) = leading_artist tx (lo_artist gone)) ?others"
  proof -
    have "artist_id_of tx gone \<noteq> album_id_of t" for t
      by (simp add: album_id_of_def artist_id_of_def ALBUM_PREFIX_def ARTIST_PREFIX_def lit_Cons)
    then show ?thesis
      unfolding card_ids_eq others [symmetric] by (auto simp: artist_id_of_def list_ex_iff)
  qed
  have ids: "set (fst (forget_missing tx True s p)) = {SONG_PREFIX @ p} \<union>
      (if list_ex (\<lambda>t. album_key t = album_key gone) ?others then {} else {album_id_of gone}) \<union>
      (if list_ex (\<lambda>t. lo_artist t = lo_artist gone) ?others then {} else {artist_id_of tx gone})"
    by (simp add: forget_missing_def Let_def find)
  have gap: "shown_ids tx s - shown_ids tx ?s' = {SONG_PREFIX @ p} \<union>
      (if list_ex (\<lambda>t. album_key t = album_key gone) ?others then {} else {album_id_of gone}) \<union>
      (if list_ex (\<lambda>t. leading_artist tx (lo_artist t) = leading_artist tx (lo_artist gone)) ?others then {} else {artist_id_of tx gone})"
  proof -
    show ?thesis unfolding shown_diff songs cards using al ar by auto
  qed
  have sub: "list_ex (\<lambda>t. lo_artist t = lo_artist gone) ?others \<Longrightarrow>
      list_ex (\<lambda>t. leading_artist tx (lo_artist t) = leading_artist tx (lo_artist gone)) ?others"
    by (auto simp: list_ex_iff)
  moreover have "list_ex (\<lambda>t. leading_artist tx (lo_artist t) = leading_artist tx (lo_artist gone)) ?others \<Longrightarrow>
      list_ex (\<lambda>t. lo_artist t = lo_artist gone) ?others"
    if "\<forall>t \<in> set (map snd ?m). lo_path t \<noteq> p \<longrightarrow> lo_artist t \<noteq> lo_artist gone \<longrightarrow>
        leading_artist tx (lo_artist t) \<noteq> leading_artist tx (lo_artist gone)"
    using that by (auto simp: list_ex_iff set_local_tracks)
  ultimately show ?thesis unfolding ids gap by auto
qed

section \<open>On a small library\<close>

definition pack :: "ustr list \<Rightarrow> ustr" where
  "pack fs = concat (map (\<lambda>s. map Suc s @ [0]) fs)"

definition unjoin :: "ustr \<Rightarrow> ustr list option" where
  "unjoin s = Some (map (map (\<lambda>c. c - 1)) (butlast (split_on 0 s)))"

lemma unpack_pack: "unjoin (pack fs) = Some fs"
proof -
  have "map (map (\<lambda>c. c - 1)) (butlast (split_on 0 (pack fs))) = fs"
  proof (induction fs)
    case (Cons f fs)
    have "split_on 0 (pack (f # fs)) = map Suc f # split_on 0 (pack fs)"
      using split_on_append [of 0 "map Suc f" "pack fs"] by (simp add: pack_def)
    with Cons show ?case by (simp add: comp_def)
  qed (simp add: pack_def)
  then show ?thesis by (simp add: unjoin_def)
qed

definition toy_text :: text_lib where
  "toy_text = \<lparr>tl_lower = to_ascii_lowercase, tl_alphanumeric = is_ascii_alphanumeric, tl_strings = pack,
     tl_parse_strings = unjoin\<rparr>"

lemma toy_codec: "tl_parse_strings toy_text (tl_strings toy_text fs) = Some fs"
  by (simp add: toy_text_def unpack_pack)

definition toy_disk :: disk where
  "toy_disk = \<lparr>dk_canonical = (\<lambda>d. d), dk_entries = (\<lambda>d. if d = lit ''/m'' then Some [lit ''/m/a.mp3''] else None),
     dk_kind = (\<lambda>_. Some DiskFile), dk_mtime = (\<lambda>_. 3), dk_tags = (\<lambda>_. None), dk_embedded = (\<lambda>_ _. None),
     dk_sidecar = (\<lambda>_ _. None)\<rparr>"

lemma toy_disk_ok: "honest_disk (\<lambda>_. lit ''/m'') toy_disk"
  by (auto simp: honest_disk_def toy_disk_def)

definition watched_store :: store where
  "watched_store = add_folder toy_text (lit ''/m'') empty_store"

theorem watched_folders_never_nest_witness:
  "apart (folders toy_text (fold (run_folder toy_text) [Watch (lit ''/m/a''), Watch (lit ''/m''), Unwatch (lit ''/x'')] empty_store))"
  by (rule watched_folders_never_nest) (simp_all add: toy_codec get_setting_def empty_store_def)

lemma toy_files: "audio_files toy_disk (folders toy_text watched_store) = [lit ''/m/a.mp3'']"
proof -
  have "folders toy_text watched_store = [lit ''/m'']"
    using folders_run [of toy_text, OF toy_codec, of "Watch (lit ''/m'')" empty_store]
    by (simp add: watched_store_def folder_added_def folders_def get_setting_def empty_store_def)
  moreover have "is_audio (lit ''/m/a.mp3'')"
    by (simp add: is_audio_def path_of_def lit_Cons extension_def rsplit_once_def AUDIO_EXT_def to_ascii_lowercase_def)
  ultimately show ?thesis
    by (simp add: audio_files_def toy_disk_def)
qed

theorem scan_matches_disk_witness:
  "set (hkeys (local_rows (snd (scan toy_text True (\<lambda>_. False) toy_disk watched_store)))) = {lit ''/m/a.mp3''}"
  using scan_matches_disk [OF toy_disk_ok, of toy_text watched_store] by (simp add: Let_def toy_files)

theorem scan_reports_what_vanished_witness:
  "set (fst (scan toy_text True (\<lambda>_. False) toy_disk watched_store)) =
   shown_ids toy_text watched_store - shown_ids toy_text (snd (scan toy_text True (\<lambda>_. False) toy_disk watched_store))"
  by (rule scan_reports_what_vanished) (rule toy_disk_ok)

theorem second_scan_changes_nothing_witness:
  "fst (scan toy_text True (\<lambda>_. False) toy_disk (snd (scan toy_text True (\<lambda>_. False) toy_disk watched_store))) = []"
  using second_scan_changes_nothing [OF toy_disk_ok, of toy_text True "\<lambda>_. False" watched_store] by simp

definition file_by :: "ustr \<Rightarrow> ustr \<Rightarrow> local_track" where
  "file_by path who = \<lparr>lo_path = path, lo_title = [], lo_artist = who, lo_album = [], album_key = path, track_no = 0,
     duration_secs = 0, lo_cover = None, mtime = 0\<rparr>"

definition two_files :: store where
  "two_files = empty_store\<lparr>local_rows := [(lit ''a'', file_by (lit ''a'') (lit ''D'')),
     (lit ''b'', file_by (lit ''b'') (lit ''D; X''))]\<rparr>"

lemma two_files_ok: "store_ok two_files"
  by (simp add: store_ok_def two_files_def empty_store_def hwf_def positions_rise_def file_by_def lit_Cons)

theorem forgetting_reports_enough_witness:
  "shown_ids toy_text two_files - shown_ids toy_text (snd (forget_missing toy_text True two_files (lit ''a''))) \<subseteq>
   set (fst (forget_missing toy_text True two_files (lit ''a'')))"
proof -
  have "hget (local_rows two_files) (lit ''a'') = Some (file_by (lit ''a'') (lit ''D''))"
    by (simp add: two_files_def)
  from forgetting_reports_enough [OF two_files_ok this, of toy_text] show ?thesis by blast
qed

lemma leading_d: "leading_artist toy_text (lit ''D'') = lit ''D''" "leading_artist toy_text (lit ''D; X'') = lit ''D''"
  by (simp_all add: leading_artist_def toy_text_def byte_find_def lit_Cons strip_prefix_def utf8_width_def FEATURE_MARKERS_def
      to_ascii_lowercase_def trim_def trim_matches_def trim_start_matches_def trim_end_matches_def is_whitespace_def)

text \<open>The artist is compared by the whole text, but shown under the name in front of a guest list: when the file of a
  collaboration disappears, its leading artist is reported as gone while the artist's other files still show it.\<close>

theorem forgetting_reports_a_shown_artist:
  "ARTIST_PREFIX @ lit ''D'' \<in> set (fst (forget_missing toy_text True two_files (lit ''b''))) \<and>
   ARTIST_PREFIX @ lit ''D'' \<in> shown_ids toy_text (snd (forget_missing toy_text True two_files (lit ''b'')))"
proof -
  have srt: "local_tracks two_files None = [file_by (lit ''a'') (lit ''D''), file_by (lit ''b'') (lit ''D; X'')]"
    by (simp add: local_tracks_def two_files_def file_by_def)
  have "fst (forget_missing toy_text True two_files (lit ''b'')) =
      [SONG_PREFIX @ lit ''b'', album_id_of (file_by (lit ''b'') (lit ''D; X'')), artist_id_of toy_text (file_by (lit ''b'') (lit ''D; X''))]"
    unfolding forget_missing_def Let_def srt by (simp add: file_by_def lit_Cons)
  moreover have "file_by (lit ''a'') (lit ''D'') \<in> set (map snd (local_rows (snd (forget_missing toy_text True two_files (lit ''b'')))))"
    unfolding rows_forget by (simp add: two_files_def lit_Cons)
  ultimately show ?thesis
    unfolding shown_ids_def card_ids_eq by (auto simp: artist_id_of_def leading_d file_by_def) (use leading_d in \<open>force\<close>)
qed

end
