(* ===== verification/Stream_Resolution.thy ===== *)
theory Stream_Resolution
  imports Local_Laws
begin

text \<open>
  From a track id to a stream: the orchestrator that goes through YouTube's clients
  (crates/core/src/orchestrator.rs), and \<open>AppState::resolve\<close> around it with its local, radio, Spotify, SoundCloud and
  TIDAL branches, the stream cache and the bot-gate retry (crates/core/src/state.rs). YouTube's answers, deciphering,
  PoTokens and the HEAD probe are parameters; every \<open>/player\<close> call is kept in a log, on which answers may depend.
  Instants are nanoseconds.
\<close>

section \<open>What is outside\<close>

record player_call =
  pc_client :: ustr
  pc_visitor :: "ustr option"
  pc_video :: ustr
  pc_playlist :: "ustr option"
  pc_sts :: "int option"
  pc_pot :: "ustr option"

record rusty_stream =
  ry_url :: ustr
  ry_itag :: nat
  ry_expires :: nat
  ry_loudness :: "rat option"
  ry_title :: "ustr option"
  ry_duration :: "nat option"

record resolve_world =
  rw_clients :: "ustr \<Rightarrow> yt_client option"
  rw_logged_in :: bool
  rw_cookie :: "ustr option"
  rw_sts :: "int option"
  rw_session_pot :: "ustr \<Rightarrow> ustr option"
  rw_player :: "player_call list \<Rightarrow> player_call \<Rightarrow> player_response option"
  rw_decipher :: "ustr \<Rightarrow> ustr \<Rightarrow> ustr option"
  rw_n_param :: "ustr \<Rightarrow> ustr"
  rw_stream_pot :: "ustr \<Rightarrow> ustr \<Rightarrow> ustr option"
  rw_encode :: "ustr \<Rightarrow> ustr"
  rw_head :: "ustr \<Rightarrow> ustr option \<Rightarrow> ustr option \<Rightarrow> bool"
  rw_rustypipe :: "ustr \<Rightarrow> bool \<Rightarrow> rusty_stream option"
  rw_clock :: "player_call list \<Rightarrow> nat"

section \<open>The orchestrator's state\<close>

definition HEAL_WINDOW :: nat where "HEAL_WINDOW = 10 * 60 * 1000000000"

definition NEEDS_N_TRANSFORM :: "ustr list" where
  "NEEDS_N_TRANSFORM = [lit ''WEB'', lit ''WEB_REMIX'', lit ''WEB_CREATOR'', lit ''TVHTML5'']"

text \<open>\<open>heals\<close> counts the self-heal tasks spawned so far.\<close>

record orch =
  web_remix_failed :: "ustr set"
  last_heal :: "nat option"
  heals :: nat

definition mark_web_remix_failed :: "ustr \<Rightarrow> orch \<Rightarrow> orch" where
  "mark_web_remix_failed v o1 = o1\<lparr>web_remix_failed := insert v (web_remix_failed o1)\<rparr>"

definition clear_web_remix_failures :: "orch \<Rightarrow> orch" where
  "clear_web_remix_failures o1 = o1\<lparr>web_remix_failed := {}\<rparr>"

definition take_heal_slot :: "nat \<Rightarrow> orch \<Rightarrow> bool \<times> orch" where
  "take_heal_slot now o1 =
     (case last_heal o1 of
        Some t \<Rightarrow> if now - t < HEAL_WINDOW then (False, o1) else (True, o1\<lparr>last_heal := Some now\<rparr>)
      | None \<Rightarrow> (True, o1\<lparr>last_heal := Some now\<rparr>))"

text \<open>The spawned self-heal: whether the rejected stream changed the cipher's configuration.\<close>

definition heal_task :: "bool \<Rightarrow> orch \<Rightarrow> orch" where
  "heal_task changed o1 = (if changed then clear_web_remix_failures o1 else o1)"

section \<open>Helpers\<close>

definition is_high :: "stream_format \<Rightarrow> bool" where
  "is_high f \<longleftrightarrow> f_quality f = Some (lit ''AUDIO_QUALITY_HIGH'')"

definition better :: "stream_format \<Rightarrow> stream_format option \<Rightarrow> bool" where
  "better a b = (case b of None \<Rightarrow> True | Some b \<Rightarrow> high_key b < high_key a)"

definition playback_ping_of :: "player_response \<Rightarrow> ustr \<Rightarrow> playback_ping option" where
  "playback_ping_of r key = map_option (\<lambda>u. \<lparr>pp_url = u, pp_client = key\<rparr>) (pr_tracking r)"

definition best_thumbnail :: "player_response \<Rightarrow> ustr option" where
  "best_thumbnail r =
     (case pr_details r of
        Some d \<Rightarrow> if vd_thumbnails d = [] then None else Some (last (vd_thumbnails d))
      | None \<Rightarrow> None)"

definition find_url :: "resolve_world \<Rightarrow> stream_format \<Rightarrow> ustr \<Rightarrow> ustr option" where
  "find_url w f v =
     (case direct_url f of
        Some u \<Rightarrow> Some u
      | None \<Rightarrow> Option.bind (cipher_string f) (\<lambda>c. rw_decipher w c v))"

definition user_agent_of :: "resolve_world \<Rightarrow> ustr \<Rightarrow> ustr option" where
  "user_agent_of w key = map_option yc_user_agent (rw_clients w key)"

definition validate_head :: "resolve_world \<Rightarrow> ustr \<Rightarrow> ustr option \<Rightarrow> bool" where
  "validate_head w url ua = rw_head w url ua (rw_cookie w)"

definition build :: "resolve_world \<Rightarrow> ustr \<Rightarrow> stream_format \<Rightarrow> ustr \<Rightarrow> int \<Rightarrow> ustr \<Rightarrow> rat option \<Rightarrow>
    player_response option \<Rightarrow> playback_ping option \<Rightarrow> bool \<Rightarrow> resolved_stream" where
  "build w v f url expires key loudness main ping up =
     (let vd = Option.bind main pr_details in
      \<lparr>pd_video = v, pd_url = url, pd_itag = f_itag f, pd_options = [],
       pd_headers = (case user_agent_of w key of Some ua \<Rightarrow> [(lit ''User-Agent'', ua)] | None \<Rightarrow> []) @
         (if up then (case rw_cookie w of Some c \<Rightarrow> [(lit ''Cookie'', c)] | None \<Rightarrow> []) else []),
       pd_expires_in = expires, pd_loudness = or_option (f_loudness f) loudness, pd_ping = ping,
       pd_title = Option.bind vd vd_title, pd_artists = Option.bind vd vd_author, pd_duration = Option.bind vd vd_length,
       pd_thumbnail = Option.bind main best_thumbnail, pd_is_video = Option.bind vd is_music_video, pd_client = key\<rparr>)"

section \<open>One client's answer\<close>

record candidate =
  ca_format :: stream_format
  ca_url :: ustr
  ca_expires :: int
  ca_client :: ustr
  ca_ping :: "playback_ping option"

text \<open>What a resolve fixes before the chain of clients begins, and what the chain carries along.\<close>

record resolve_request =
  rq_video :: ustr
  rq_upload :: bool
  rq_quality :: audio_quality
  rq_disabled :: "ustr list"
  rq_visitor :: "ustr option"
  rq_session_pot :: "ustr option"
  rq_main :: "player_response option"
  rq_has_high :: bool
  rq_main_ping :: "playback_ping option"

record chain =
  ch_log :: "player_call list"
  ch_orch :: orch
  ch_best :: "candidate option"
  ch_bot :: bool
  ch_loudness :: "rat option"

definition prefer_high :: "audio_quality \<Rightarrow> bool" where
  "prefer_high q \<longleftrightarrow> q = QHigh \<or> q = QAuto"

definition needs_n :: "resolve_world \<Rightarrow> ustr \<Rightarrow> bool" where
  "needs_n w key \<longleftrightarrow> (case rw_clients w key of Some c \<Rightarrow> yc_web_po_tokens c | None \<Rightarrow> False) \<or> key \<in> set NEEDS_N_TRANSFORM"

definition web_stream_url :: "resolve_world \<Rightarrow> resolve_request \<Rightarrow> ustr \<Rightarrow> ustr \<Rightarrow> ustr" where
  "web_stream_url w rq key url =
     (if \<not> needs_n w key then url
      else let url = rw_n_param w url in
        case (rw_clients w key, rq_visitor rq) of
          (Some c, Some vd) \<Rightarrow>
            (if yc_web_po_tokens c
             then (case rw_stream_pot w (rq_video rq) vd of
                     Some pot \<Rightarrow> url @ [if 63 \<in> set url then 38 else 63] @ lit ''pot='' @ rw_encode w pot
                   | None \<Rightarrow> url)
             else url)
        | _ \<Rightarrow> url)"

definition ping_for :: "resolve_request \<Rightarrow> player_response \<Rightarrow> ustr \<Rightarrow> playback_ping option" where
  "ping_for rq resp key = or_option (rq_main_ping rq) (playback_ping_of resp key)"

text \<open>The format and URL an answer offers, if it offers one.\<close>

definition offer :: "resolve_world \<Rightarrow> resolve_request \<Rightarrow> ustr \<Rightarrow> player_response \<Rightarrow> (stream_format \<times> ustr \<times> int) option" where
  "offer w rq key resp =
     (case pr_streaming resp of
        None \<Rightarrow> None
      | Some sd \<Rightarrow>
          (case (expires_in sd, find_format sd (rq_quality rq)) of
             (Some expires, Some f) \<Rightarrow> map_option (\<lambda>u. (f, web_stream_url w rq key u, expires)) (find_url w f (rq_video rq))
           | _ \<Rightarrow> None))"

text \<open>The loudness is taken over as soon as a format is chosen, before its URL is known.\<close>

definition loudness_after :: "resolve_request \<Rightarrow> player_response \<Rightarrow> rat option \<Rightarrow> rat option" where
  "loudness_after rq resp l =
     (case pr_streaming resp of
        None \<Rightarrow> l
      | Some sd \<Rightarrow>
          if expires_in sd = None \<or> find_format sd (rq_quality rq) = None then l else or_option l (pr_loudness resp))"

definition try_answer :: "resolve_world \<Rightarrow> resolve_request \<Rightarrow> ustr \<Rightarrow> player_response \<Rightarrow> chain \<Rightarrow> resolved_stream option \<times> chain" where
  "try_answer w rq key resp ch =
     (let ch = ch\<lparr>ch_loudness := loudness_after rq resp (ch_loudness ch)\<rparr> in
      case offer w rq key resp of
        None \<Rightarrow> (None, ch)
      | Some (f, url, expires) \<Rightarrow>
          if prefer_high (rq_quality rq) \<and> \<not> is_high f \<and> rq_has_high rq
          then (None,
            if better f (map_option ca_format (ch_best ch))
            then ch\<lparr>ch_best := Some \<lparr>ca_format = f, ca_url = url, ca_expires = expires, ca_client = key,
                   ca_ping = ping_for rq resp key\<rparr>\<rparr>
            else ch)
          else if rq_upload rq \<or> validate_head w url (user_agent_of w key)
          then (Some (build w (rq_video rq) f url expires key (ch_loudness ch) (rq_main rq) (ping_for rq resp key) (rq_upload rq)), ch)
          else if needs_n w key
          then (let (granted, o1) = take_heal_slot (rw_clock w (ch_log ch)) (ch_orch ch)
                in (None, ch\<lparr>ch_orch := (if granted then o1\<lparr>heals := Suc (heals o1)\<rparr> else o1)\<rparr>))
          else (None, ch))"

section \<open>The chain\<close>

definition call_of :: "resolve_world \<Rightarrow> resolve_request \<Rightarrow> ustr \<Rightarrow> yt_client \<Rightarrow> player_call" where
  "call_of w rq key c = \<lparr>pc_client = key, pc_visitor = rq_visitor rq, pc_video = rq_video rq,
     pc_playlist = (if rq_upload rq then Some (lit ''MLPT'') else None),
     pc_sts = (if yc_signature_timestamp c then rw_sts w else None),
     pc_pot = (if yc_web_po_tokens c then rq_session_pot rq else None)\<rparr>"

definition ask :: "resolve_world \<Rightarrow> player_call \<Rightarrow> player_call list \<Rightarrow> player_response option \<times> player_call list" where
  "ask w call calls = (rw_player w calls call, calls @ [call])"

definition gated :: "player_response \<Rightarrow> bool" where
  "gated r \<longleftrightarrow> \<not> play_ok (pr_status r) \<and> is_bot_gate (pr_status r)"

definition try_client :: "resolve_world \<Rightarrow> resolve_request \<Rightarrow> ustr \<Rightarrow> chain \<Rightarrow> resolved_stream option \<times> chain" where
  "try_client w rq key ch =
     (if key \<in> set (rq_disabled rq) then (None, ch)
      else case rw_clients w key of
        None \<Rightarrow> (None, ch)
      | Some c \<Rightarrow>
          if yc_login_required c \<and> \<not> rw_logged_in w then (None, ch)
          else let (r, calls) = ask w (call_of w rq key c) (ch_log ch); ch = ch\<lparr>ch_log := calls\<rparr> in
            case r of
              None \<Rightarrow> (None, ch)
            | Some resp \<Rightarrow>
                if play_ok (pr_status resp) then try_answer w rq key resp ch
                else (None, ch\<lparr>ch_bot := (ch_bot ch \<or> is_bot_gate (pr_status resp))\<rparr>))"

fun try_clients :: "resolve_world \<Rightarrow> resolve_request \<Rightarrow> ustr list \<Rightarrow> chain \<Rightarrow> resolved_stream option \<times> chain" where
  "try_clients w rq [] ch = (None, ch)" |
  "try_clients w rq (k # ks) ch =
     (case try_client w rq k ch of
        (Some pd, ch) \<Rightarrow> (Some pd, ch)
      | (None, ch) \<Rightarrow> try_clients w rq ks ch)"

text \<open>Round -1 of the loop: the main answer again.\<close>

definition try_main :: "resolve_world \<Rightarrow> resolve_request \<Rightarrow> chain \<Rightarrow> resolved_stream option \<times> chain" where
  "try_main w rq ch =
     (case rq_main rq of
        None \<Rightarrow> (None, ch)
      | Some r \<Rightarrow>
          if \<not> play_ok (pr_status r) \<or> MAIN_CLIENT \<in> set (rq_disabled rq) \<or>
             (\<not> rq_upload rq \<and> rq_video rq \<in> web_remix_failed (ch_orch ch))
          then (None, ch) else try_answer w rq MAIN_CLIENT r ch)"

text \<open>The main request, with the retry of a gated video as WEB_CREATOR: the answer, its client and the log.\<close>

definition WEB_CREATOR :: ustr where "WEB_CREATOR = lit ''WEB_CREATOR''"

definition main_request :: "resolve_world \<Rightarrow> resolve_request \<Rightarrow> player_call list \<Rightarrow>
    player_response option \<times> ustr \<times> player_call list" where
  "main_request w rq calls =
     (let (first, calls) =
        (case rw_clients w MAIN_CLIENT of
           Some c \<Rightarrow> if MAIN_CLIENT \<notin> set (rq_disabled rq)
             then ask w ((call_of w rq MAIN_CLIENT c)\<lparr>pc_sts := rw_sts w, pc_pot := rq_session_pot rq\<rparr>) calls
             else (None, calls)
         | None \<Rightarrow> (None, calls))
      in if rw_logged_in w \<and> (case first of Some r \<Rightarrow> is_age_gated (pr_status r) | None \<Rightarrow> False)
         then (case rw_clients w WEB_CREATOR of
                 Some c \<Rightarrow>
                   (case ask w (call_of w rq WEB_CREATOR c) calls of
                      (Some r, calls) \<Rightarrow> (Some r, WEB_CREATOR, calls)
                    | (None, calls) \<Rightarrow> (first, MAIN_CLIENT, calls))
               | None \<Rightarrow> (first, MAIN_CLIENT, calls))
         else (first, MAIN_CLIENT, calls))"

definition has_high_in :: "player_response option \<Rightarrow> bool" where
  "has_high_in main =
     (case Option.bind main pr_streaming of Some sd \<Rightarrow> list_ex is_high (adaptive_formats sd) | None \<Rightarrow> False)"

definition prepare :: "resolve_world \<Rightarrow> ustr option \<Rightarrow> ustr \<Rightarrow> bool \<Rightarrow> audio_quality \<Rightarrow> ustr list \<Rightarrow>
    player_call list \<Rightarrow> resolve_request \<times> player_call list" where
  "prepare w visitor v up q disabled calls =
     (let pot =
        (case (rw_clients w MAIN_CLIENT, visitor) of
           (Some c, Some vd) \<Rightarrow> if yc_web_po_tokens c \<and> MAIN_CLIENT \<notin> set disabled then rw_session_pot w vd else None
         | _ \<Rightarrow> None);
          rq = \<lparr>rq_video = v, rq_upload = up, rq_quality = q, rq_disabled = disabled, rq_visitor = visitor,
                rq_session_pot = pot, rq_main = None, rq_has_high = False, rq_main_ping = None\<rparr>;
          (main, key, calls) = main_request w rq calls
      in (rq\<lparr>rq_main := main, rq_has_high := has_high_in main,
             rq_main_ping := Option.bind main (\<lambda>r. playback_ping_of r key)\<rparr>, calls))"

definition rusty_data :: "ustr \<Rightarrow> rusty_stream \<Rightarrow> resolved_stream" where
  "rusty_data v r = \<lparr>pd_video = v, pd_url = ry_url r, pd_itag = int (ry_itag r), pd_options = [], pd_headers = [],
     pd_expires_in = int (ry_expires r), pd_loudness = ry_loudness r, pd_ping = None, pd_title = ry_title r,
     pd_artists = None, pd_duration = map_option dec (ry_duration r), pd_thumbnail = None, pd_is_video = None,
     pd_client = lit ''rustypipe''\<rparr>"

definition orch_resolve :: "resolve_world \<Rightarrow> ustr option \<Rightarrow> ustr \<Rightarrow> bool \<Rightarrow> audio_quality \<Rightarrow> ustr list \<Rightarrow>
    player_call list \<Rightarrow> orch \<Rightarrow> (resolve_failure + resolved_stream) \<times> player_call list \<times> orch" where
  "orch_resolve w visitor v up q disabled calls o1 =
     (let (rq, calls) = prepare w visitor v up q disabled calls;
          ch = \<lparr>ch_log = calls, ch_orch = o1, ch_best = None,
                ch_bot = (case rq_main rq of Some r \<Rightarrow> gated r | None \<Rightarrow> False),
                ch_loudness = Option.bind (rq_main rq) pr_loudness\<rparr>;
          (found, ch) =
            (case try_main w rq ch of
               (Some pd, ch) \<Rightarrow> (Some pd, ch)
             | (None, ch) \<Rightarrow> try_clients w rq (if up then UPLOAD_FALLBACK_ORDER else STREAM_FALLBACK_ORDER) ch);
          result =
            (case found of
               Some pd \<Rightarrow> Inr pd
             | None \<Rightarrow>
                 (case ch_best ch of
                    Some c \<Rightarrow> Inr (build w v (ca_format c) (ca_url c) (ca_expires c) (ca_client c) (ch_loudness ch) (rq_main rq)
                      (ca_ping c) up)
                  | None \<Rightarrow>
                      if up then Inl (UploadUnavailable v)
                      else (case rw_rustypipe w v (prefer_high q) of
                              Some r \<Rightarrow> Inr (rusty_data v r)
                            | None \<Rightarrow> Inl (if ch_bot ch then BotGated v else AllClientsFailed v))))
      in (result, ch_log ch, ch_orch ch))"

section \<open>The application around it\<close>

datatype tidal_answer = TidalSignedOut | TidalFailed ustr | TidalDirect ustr | TidalPresentation ustr

record app_io =
  ai_world :: resolve_world
  ai_text :: text_lib
  ai_is_file :: "ustr \<Rightarrow> bool"
  ai_radio :: url_lib
  ai_station :: "ustr \<Rightarrow> radio_station option"
  ai_spotify :: "(ustr \<Rightarrow> ustr + ustr) option"
  ai_soundcloud :: "nat \<Rightarrow> ustr + ustr"
  ai_tidal :: "nat \<Rightarrow> ustr option \<Rightarrow> tidal_answer"
  ai_write :: "ustr \<Rightarrow> ustr \<Rightarrow> ustr option"
  ai_data_dir :: ustr
  ai_env_disabled :: "ustr option"
  ai_fetch_visitor :: "ustr option"
  ai_db_io :: bool

record app_state =
  as_store :: store
  as_orch :: orch
  as_visitor :: "ustr option"
  as_last_try :: nat
  as_log :: "player_call list"

definition quality_of :: "store \<Rightarrow> audio_quality" where
  "quality_of s =
     (case get_setting s (lit ''quality'') of
        Some q \<Rightarrow> if q = lit ''LOW'' then QLow else if q = lit ''AUTO'' then QAuto else QHigh
      | None \<Rightarrow> QHigh)"

definition disabled_clients :: "ustr option \<Rightarrow> store \<Rightarrow> ustr list" where
  "disabled_clients env s =
     (let raw = (case or_option env (get_setting s (lit ''disabled_stream_clients'')) of Some r \<Rightarrow> r | None \<Rightarrow> [])
      in filter (\<lambda>c. c \<noteq> []) (map trim (split_on 44 raw)))"

definition spotify_mpv_options :: "ustr list" where
  "spotify_mpv_options = map lit [''demuxer=rawaudio'', ''demuxer-rawaudio-format=s16le'', ''demuxer-rawaudio-rate=44100'',
     ''demuxer-rawaudio-channels=2'']"

definition SC_CACHE_SECS :: int where "SC_CACHE_SECS = 30 * 60"
definition RETRY_COOLDOWN_SECS :: nat where "RETRY_COOLDOWN_SECS = 5 * 60"
definition SAFETY_MARGIN :: int where "SAFETY_MARGIN = 60"

text \<open>\<open>refresh_visitor_data\<close> at \<open>now\<close> seconds.\<close>

definition refresh_visitor_data :: "ustr option \<Rightarrow> nat \<Rightarrow> app_state \<Rightarrow> ustr option \<times> app_state" where
  "refresh_visitor_data fetched now st =
     (let last = as_last_try st; st = st\<lparr>as_last_try := now\<rparr> in
      if last \<noteq> 0 \<and> now - last < RETRY_COOLDOWN_SECS then (None, st)
      else case fetched of
        Some vd \<Rightarrow> (Some vd, st\<lparr>as_visitor := Some vd, as_store := set_setting (lit ''visitor_data'') vd (as_store st)\<rparr>)
      | None \<Rightarrow> (None, st))"

definition run_orch :: "app_io \<Rightarrow> ustr \<Rightarrow> bool \<Rightarrow> app_state \<Rightarrow> (resolve_failure + resolved_stream) \<times> app_state" where
  "run_orch io v up st =
     (let s = as_store st;
          (r, calls, o1) = orch_resolve (ai_world io) (as_visitor st) v up (quality_of s)
            (disabled_clients (ai_env_disabled io) s) (as_log st) (as_orch st)
      in (r, st\<lparr>as_log := calls, as_orch := o1\<rparr>))"

definition not_gated :: "resolve_failure \<Rightarrow> resolve_failure" where
  "not_gated e = (case e of BotGated v \<Rightarrow> AllClientsFailed v | _ \<Rightarrow> e)"

text \<open>The orchestrator, with the one retry behind a fresh identity.\<close>

definition resolve_gated :: "app_io \<Rightarrow> nat \<Rightarrow> ustr \<Rightarrow> bool \<Rightarrow> app_state \<Rightarrow> (resolve_failure + resolved_stream) \<times> app_state" where
  "resolve_gated io now v up st =
     (case run_orch io v up st of
        (Inl (BotGated g), st) \<Rightarrow>
          (case refresh_visitor_data (ai_fetch_visitor io) now st of
             (None, st) \<Rightarrow> (Inl (AllClientsFailed g), st)
           | (Some _, st) \<Rightarrow>
               (case run_orch io v up st of
                  (Inl e, st) \<Rightarrow> (Inl (not_gated e), st)
                | (Inr pd, st) \<Rightarrow> (Inr pd, st)))
      | (r, st) \<Rightarrow> (r, st))"

definition cached_row :: "resolved_stream \<Rightarrow> int \<Rightarrow> cached_stream" where
  "cached_row pd now = \<lparr>cs_url = pd_url pd, cs_itag = pd_itag pd, cs_expires_at = now + max 0 (pd_expires_in pd),
     cs_loudness = pd_loudness pd, cs_is_video = pd_is_video pd, cs_ping_url = map_option pp_url (pd_ping pd),
     cs_ping_client = map_option pp_client (pd_ping pd)\<rparr>"

definition from_cache :: "ustr \<Rightarrow> cached_stream \<Rightarrow> int \<Rightarrow> resolved_stream" where
  "from_cache v c now = (plain_stream v (cs_url c) (lit ''cache''))\<lparr>pd_itag := cs_itag c,
     pd_expires_in := cs_expires_at c - now, pd_loudness := cs_loudness c,
     pd_ping := (case (cs_ping_url c, cs_ping_client c) of (Some u, Some k) \<Rightarrow> Some \<lparr>pp_url = u, pp_client = k\<rparr> | _ \<Rightarrow> None),
     pd_is_video := cs_is_video c\<rparr>"

definition put_in_cache :: "ustr \<Rightarrow> cached_stream \<Rightarrow> int \<Rightarrow> app_state \<Rightarrow> app_state" where
  "put_in_cache v c now st = st\<lparr>as_store := put_stream v c now (as_store st)\<rparr>"

definition why :: "ustr \<Rightarrow> ustr \<Rightarrow> resolve_failure" where
  "why v e = AllClientsFailed (v @ lit '': '' @ e)"

definition resolve_tidal :: "app_io \<Rightarrow> ustr \<Rightarrow> nat \<Rightarrow> store \<Rightarrow> resolve_failure + resolved_stream" where
  "resolve_tidal io v i s =
     (case ai_tidal io i (get_setting s (lit ''tidal_quality'')) of
        TidalSignedOut \<Rightarrow> Inl (SignInRequired (lit ''Sign in to TIDAL to play this''))
      | TidalFailed e \<Rightarrow> Inl (why v e)
      | TidalDirect u \<Rightarrow> Inr (plain_stream v u (lit ''tidal''))
      | TidalPresentation xml \<Rightarrow>
          (let path = ai_data_dir io @ lit ''/tidal/'' @ dec i @ lit ''.mpd''
           in case ai_write io path xml of
                Some e \<Rightarrow> Inl (why v e)
              | None \<Rightarrow> Inr (plain_stream v (lit ''file://'' @ path) (lit ''tidal''))))"

definition app_resolve :: "app_io \<Rightarrow> int \<Rightarrow> ustr \<Rightarrow> bool \<Rightarrow> app_state \<Rightarrow> (resolve_failure + resolved_stream) \<times> app_state" where
  "app_resolve io now v up st =
     (case song_path v of
        Some path \<Rightarrow>
          if \<not> has_local_track (as_store st) path then (Inl (LocalMissing path), st)
          else (case local_stream (ai_is_file io) v path of
                  Some pd \<Rightarrow> (Inr pd, st)
                | None \<Rightarrow> (Inl (LocalMissing path),
                    st\<lparr>as_store := snd (forget_missing (ai_text io) (ai_db_io io) (as_store st) path)\<rparr>))
      | None \<Rightarrow>
      if is_radio_id v then (resolve_station (ai_radio io) (ai_station io) (as_store st) v, st)
      else case spotify_track_id v of
        Some tid \<Rightarrow>
          (case ai_spotify io of
             None \<Rightarrow> (Inl (SignInRequired (lit ''Sign in to Spotify to play this'')), st)
           | Some stream \<Rightarrow>
               (case stream tid of
                  Inl e \<Rightarrow> (Inl (why v e), st)
                | Inr fifo \<Rightarrow> (Inr ((plain_stream v fifo (lit ''spotify''))\<lparr>pd_options := spotify_mpv_options\<rparr>), st)))
      | None \<Rightarrow>
      (case get_stream (as_store st) v (now + SAFETY_MARGIN) of
         Some c \<Rightarrow> (Inr (from_cache v c now), st)
       | None \<Rightarrow>
       (case sc_track_id v of
          Some i \<Rightarrow>
            (case ai_soundcloud io i of
               Inl e \<Rightarrow> (Inl (why v e), st)
             | Inr url \<Rightarrow>
                 (Inr ((plain_stream v url (lit ''soundcloud''))\<lparr>pd_expires_in := SC_CACHE_SECS\<rparr>),
                  put_in_cache v \<lparr>cs_url = url, cs_itag = 0, cs_expires_at = now + SC_CACHE_SECS, cs_loudness = None,
                    cs_is_video = Some False, cs_ping_url = None, cs_ping_client = None\<rparr> now st))
        | None \<Rightarrow>
        (case tidal_track_id v of
           Some i \<Rightarrow> (resolve_tidal io v i (as_store st), st)
         | None \<Rightarrow>
            (case resolve_gated io (nat now) v up st of
               (Inl e, st) \<Rightarrow> (Inl e, st)
             | (Inr pd, st) \<Rightarrow>
                 (Inr pd, if pd_client pd \<noteq> lit ''rustypipe'' \<and> \<not> up then put_in_cache v (cached_row pd now) now st
                  else st))))))"

definition prefetch_stream :: "app_io \<Rightarrow> int \<Rightarrow> ustr \<Rightarrow> bool \<Rightarrow> app_state \<Rightarrow> app_state" where
  "prefetch_stream io now v up st = (if is_spotify_id v then st else snd (app_resolve io now v up st))"

end
