(* ===== verification/Resolution_Laws.thy ===== *)
theory Resolution_Laws
  imports Stream_Resolution "HOL-Library.Sublist"
begin

text \<open>
  What resolving a track guarantees: which clients are asked, that a stream was probed before it is handed out and when it
  was not, which errors surface, where the account's cookie goes, and what the cache may hold. At the end, runs in which the
  code does not do what its comments say.
\<close>

section \<open>One answer\<close>

lemma try_answer_Some:
  assumes "try_answer w rq key resp ch = (Some pd, ch')"
  obtains f url expires where "offer w rq key resp = Some (f, url, expires)"
    "\<not> (prefer_high (rq_quality rq) \<and> \<not> is_high f \<and> rq_has_high rq)"
    "rq_upload rq \<or> validate_head w url (user_agent_of w key)"
    "pd = build w (rq_video rq) f url expires key (loudness_after rq resp (ch_loudness ch)) (rq_main rq) (ping_for rq resp key) (rq_upload rq)"
  using assms by (auto simp: try_answer_def Let_def split: option.splits if_splits prod.splits)

lemma try_answer_chain:
  assumes "try_answer w rq key resp ch = (r, ch')"
  shows "ch_log ch' = ch_log ch" "ch_bot ch' = ch_bot ch" "web_remix_failed (ch_orch ch') = web_remix_failed (ch_orch ch)"
  using assms
  by (auto simp: try_answer_def Let_def take_heal_slot_def split: option.splits if_splits prod.splits)

lemma try_answer_best:
  assumes "try_answer w rq key resp ch = (r, ch')" "ch_best ch' \<noteq> ch_best ch"
  obtains f url expires where "ch_best ch' = Some \<lparr>ca_format = f, ca_url = url, ca_expires = expires, ca_client = key,
      ca_ping = ping_for rq resp key\<rparr>" "prefer_high (rq_quality rq)" "rq_has_high rq" "\<not> is_high f"
  using assms
  by (auto simp: try_answer_def Let_def take_heal_slot_def split: option.splits if_splits prod.splits)

lemma pd_build [simp]: "pd_url (build w v f url e key l m p u) = url" "pd_client (build w v f url e key l m p u) = key"
  "pd_video (build w v f url e key l m p u) = v" "pd_expires_in (build w v f url e key l m p u) = e"
  by (simp_all add: build_def Let_def)

section \<open>One client, and the chain\<close>

text \<open>A probed stream of the request, and a candidate kept for the second pass.\<close>

definition probed :: "resolve_world \<Rightarrow> resolve_request \<Rightarrow> resolved_stream \<Rightarrow> bool" where
  "probed w rq pd \<longleftrightarrow> rq_upload rq \<or> validate_head w (pd_url pd) (user_agent_of w (pd_client pd))"

definition best_ok :: "resolve_request \<Rightarrow> candidate option \<Rightarrow> bool" where
  "best_ok rq b \<longleftrightarrow> (case b of Some c \<Rightarrow> prefer_high (rq_quality rq) \<and> rq_has_high rq \<and> \<not> is_high (ca_format c) | None \<Rightarrow> True)"

lemma try_answer_probed: "try_answer w rq key resp ch = (Some pd, ch') \<Longrightarrow> probed w rq pd"
  by (erule try_answer_Some) (auto simp: probed_def)

lemma try_answer_best_ok: "try_answer w rq key resp ch = (r, ch') \<Longrightarrow> best_ok rq (ch_best ch) \<Longrightarrow> best_ok rq (ch_best ch')"
  by (cases "ch_best ch' = ch_best ch") (auto simp: best_ok_def elim: try_answer_best)

definition gate_in :: "resolve_world \<Rightarrow> player_call list \<Rightarrow> bool" where
  "gate_in w calls \<longleftrightarrow> (\<exists>pre c post r. calls = pre @ c # post \<and> rw_player w pre c = Some r \<and> is_bot_gate (pr_status r))"

lemma gate_in_append: "gate_in w calls \<Longrightarrow> gate_in w (calls @ more_calls)"
  by (auto simp: gate_in_def) (metis append.assoc append_Cons)

definition chain_ok :: "resolve_world \<Rightarrow> resolve_request \<Rightarrow> chain \<Rightarrow> bool" where
  "chain_ok w rq ch \<longleftrightarrow> best_ok rq (ch_best ch) \<and> (ch_bot ch \<longrightarrow> gate_in w (ch_log ch))"

definition may_ask :: "resolve_world \<Rightarrow> resolve_request \<Rightarrow> ustr \<Rightarrow> bool" where
  "may_ask w rq k \<longleftrightarrow> k \<notin> set (rq_disabled rq) \<and>
     (\<exists>c. rw_clients w k = Some c \<and> (yc_login_required c \<longrightarrow> rw_logged_in w))"

lemma pc_client_call [simp]: "pc_client (call_of w rq k c) = k"
  by (simp add: call_of_def)

text \<open>What one client does: it is passed over, it is asked in vain, or its answer is tried.\<close>

lemma try_client_cases:
  assumes "try_client w rq k ch = (r, ch')"
  obtains (skip) "r = None" "ch' = ch"
    | (vain) c where "may_ask w rq k" "pc_client c = k" "r = None" "ch_log ch' = ch_log ch @ [c]" "ch_best ch' = ch_best ch"
        "ch_bot ch' \<longrightarrow> ch_bot ch \<or> (\<exists>x. rw_player w (ch_log ch) c = Some x \<and> is_bot_gate (pr_status x))"
    | (answered) c resp where "may_ask w rq k" "pc_client c = k"
        "try_answer w rq k resp (ch\<lparr>ch_log := ch_log ch @ [c]\<rparr>) = (r, ch')"
proof (cases "k \<in> set (rq_disabled rq)")
  case True
  then show thesis using skip assms by (simp add: try_client_def)
next
  case enabled: False
  show thesis
  proof (cases "rw_clients w k")
    case None
    then show thesis using skip assms enabled by (simp add: try_client_def)
  next
    case (Some c)
    show thesis
    proof (cases "yc_login_required c \<and> \<not> rw_logged_in w")
      case True
      then show thesis using skip assms enabled Some by (simp add: try_client_def)
    next
      case False
      then have m: "may_ask w rq k" using enabled Some by (auto simp: may_ask_def)
      let ?c = "call_of w rq k c"
      have e: "try_client w rq k ch = (let ch = ch\<lparr>ch_log := ch_log ch @ [?c]\<rparr> in
            (case rw_player w (butlast (ch_log ch)) ?c of
               None \<Rightarrow> (None, ch)
             | Some resp \<Rightarrow> if play_ok (pr_status resp) then try_answer w rq k resp ch
                 else (None, ch\<lparr>ch_bot := (ch_bot ch \<or> is_bot_gate (pr_status resp))\<rparr>)))"
        using enabled Some by (simp add: try_client_def ask_def Let_def if_not_P [OF False] split: option.split)
      show thesis
      proof (cases "rw_player w (ch_log ch) ?c")
        case None
        then have "r = None" "ch' = ch\<lparr>ch_log := ch_log ch @ [?c]\<rparr>"
          using e assms by (simp_all add: Let_def split: option.splits)
        then show thesis using vain [of ?c] m by simp
      next
        case (Some resp)
        show thesis
        proof (cases "play_ok (pr_status resp)")
          case True
          then have "try_answer w rq k resp (ch\<lparr>ch_log := ch_log ch @ [?c]\<rparr>) = (r, ch')"
            using e assms Some by (simp add: Let_def split: option.splits)
          then show thesis using answered [of ?c] m by simp
        next
          case False
          then have "r = None" "ch' = ch\<lparr>ch_log := ch_log ch @ [?c], ch_bot := (ch_bot ch \<or> is_bot_gate (pr_status resp))\<rparr>"
            using e assms Some by (simp_all add: Let_def split: option.splits)
          then show thesis using vain [of ?c] m Some by auto
        qed
      qed
    qed
  qed
qed

lemma try_client_step:
  assumes "try_client w rq k ch = (r, ch')" "chain_ok w rq ch"
  shows "chain_ok w rq ch' \<and> (r = Some pd \<longrightarrow> probed w rq pd) \<and>
    (\<exists>ks. map pc_client (ch_log ch') = map pc_client (ch_log ch) @ ks \<and> (ks = [] \<or> ks = [k] \<and> may_ask w rq k))"
  using assms(1)
proof (cases rule: try_client_cases)
  case skip
  with assms(2) show ?thesis by simp
next
  case (vain c)
  have "gate_in w (ch_log ch')" if b: "ch_bot ch'"
  proof (cases "ch_bot ch")
    case True
    with assms(2) show ?thesis using vain(4) gate_in_append by (simp add: chain_ok_def)
  next
    case False
    then obtain x where "rw_player w (ch_log ch) c = Some x" "is_bot_gate (pr_status x)"
      using vain(6) b by blast
    then show ?thesis unfolding gate_in_def vain(4) by blast
  qed
  with assms(2) vain show ?thesis by (simp add: chain_ok_def)
next
  case (answered c resp)
  note t = answered(3)
  have "best_ok rq (ch_best ch')" using try_answer_best_ok [OF t] assms(2) by (simp add: chain_ok_def)
  moreover have "ch_bot ch' \<longrightarrow> gate_in w (ch_log ch')"
    using try_answer_chain [OF t] assms(2) gate_in_append by (simp add: chain_ok_def)
  moreover have "r = Some pd \<longrightarrow> probed w rq pd" using try_answer_probed t by blast
  ultimately show ?thesis
    using try_answer_chain [OF t] answered(1,2) by (simp add: chain_ok_def)
qed

lemma try_clients_run:
  assumes "try_clients w rq ks ch = (r, ch')" "chain_ok w rq ch"
  shows "chain_ok w rq ch' \<and> (r = Some pd \<longrightarrow> probed w rq pd) \<and>
    (\<exists>as. map pc_client (ch_log ch') = map pc_client (ch_log ch) @ as \<and> subseq as ks \<and> (\<forall>a \<in> set as. may_ask w rq a))"
  using assms
proof (induction ks arbitrary: ch)
  case Nil
  then show ?case by auto
next
  case (Cons k ks)
  obtain r1 ch1 where t: "try_client w rq k ch = (r1, ch1)" by (cases "try_client w rq k ch")
  note s = try_client_step [OF t Cons.prems(2)]
  have ok1: "chain_ok w rq ch1" using s by blast
  obtain a1 where a1: "map pc_client (ch_log ch1) = map pc_client (ch_log ch) @ a1" "a1 = [] \<or> a1 = [k] \<and> may_ask w rq k"
    using s by blast
  show ?case
  proof (cases r1)
    case (Some pd1)
    then have "r = Some pd1" "ch' = ch1" using Cons.prems(1) t by simp_all
    moreover have "subseq a1 (k # ks)" using a1(2) by auto
    ultimately show ?thesis using s [of pd] Some a1 by auto
  next
    case None
    then have "try_clients w rq ks ch1 = (r, ch')" using Cons.prems(1) t by simp
    from Cons.IH [OF this ok1] obtain a2 where a2: "chain_ok w rq ch'" "r = Some pd \<longrightarrow> probed w rq pd"
      "map pc_client (ch_log ch') = map pc_client (ch_log ch1) @ a2" "subseq a2 ks" "\<forall>a \<in> set a2. may_ask w rq a" by blast
    have "subseq (a1 @ a2) (k # ks)" using a1(2) a2(4) by auto
    moreover have "map pc_client (ch_log ch') = map pc_client (ch_log ch) @ (a1 @ a2)" using a1(1) a2(3) by simp
    moreover have "\<forall>a \<in> set (a1 @ a2). may_ask w rq a" using a1(2) a2(5) by auto
    ultimately show ?thesis using a2(1,2) by blast
  qed
qed

section \<open>The main request\<close>

lemma main_request_cases:
  assumes "main_request w rq calls = (main, key, calls')"
  obtains (none) "main = None" "key = MAIN_CLIENT" "calls' = calls"
    | (one) c where "MAIN_CLIENT \<notin> set (rq_disabled rq)" "pc_client c = MAIN_CLIENT" "calls' = calls @ [c]"
        "key = MAIN_CLIENT" "main = rw_player w calls c"
    | (two) c d where "MAIN_CLIENT \<notin> set (rq_disabled rq)" "pc_client c = MAIN_CLIENT" "pc_client d = WEB_CREATOR"
        "calls' = calls @ [c, d]" "rw_logged_in w"
        "main = rw_player w calls c \<and> key = MAIN_CLIENT \<or> main = rw_player w (calls @ [c]) d \<and> key = WEB_CREATOR"
proof (cases "\<exists>c. rw_clients w MAIN_CLIENT = Some c \<and> MAIN_CLIENT \<notin> set (rq_disabled rq)")
  case False
  then have "main_request w rq calls = (None, MAIN_CLIENT, calls)"
    by (auto simp: main_request_def Let_def split: option.split)
  then show thesis using none assms by simp
next
  case True
  then obtain yc where yc: "rw_clients w MAIN_CLIENT = Some yc" and en: "MAIN_CLIENT \<notin> set (rq_disabled rq)" by blast
  define c where "c = (call_of w rq MAIN_CLIENT yc)\<lparr>pc_sts := rw_sts w, pc_pot := rq_session_pot rq\<rparr>"
  have pc: "pc_client c = MAIN_CLIENT" by (simp add: c_def)
  define first where "first = rw_player w calls c"
  let ?retry = "rw_logged_in w \<and> (case first of Some r \<Rightarrow> is_age_gated (pr_status r) | None \<Rightarrow> False)"
  have e: "main_request w rq calls =
      (if ?retry
       then (case rw_clients w WEB_CREATOR of
               Some yd \<Rightarrow>
                 (case rw_player w (calls @ [c]) (call_of w rq WEB_CREATOR yd) of
                    Some r \<Rightarrow> (Some r, WEB_CREATOR, calls @ [c, call_of w rq WEB_CREATOR yd])
                  | None \<Rightarrow> (first, MAIN_CLIENT, calls @ [c, call_of w rq WEB_CREATOR yd]))
             | None \<Rightarrow> (first, MAIN_CLIENT, calls @ [c]))
       else (first, MAIN_CLIENT, calls @ [c]))"
    using yc en by (simp add: main_request_def ask_def Let_def first_def c_def split: option.split)
  show thesis
  proof (cases "?retry \<and> rw_clients w WEB_CREATOR \<noteq> None")
    case True
    then obtain yd where yd: "rw_clients w WEB_CREATOR = Some yd" by blast
    let ?d = "call_of w rq WEB_CREATOR yd"
    have "calls' = calls @ [c, ?d] \<and>
        (main = first \<and> key = MAIN_CLIENT \<or> main = rw_player w (calls @ [c]) ?d \<and> key = WEB_CREATOR)"
      using e True yd assms by (cases "rw_player w (calls @ [c]) ?d") simp_all
    then show thesis using two [of c ?d] en pc True by (simp add: first_def)
  next
    case False
    then have "main_request w rq calls = (first, MAIN_CLIENT, calls @ [c])"
      using e by (cases ?retry) (simp_all add: if_not_P)
    then show thesis using one [of c] en pc assms by (simp add: first_def)
  qed
qed

definition main_calls :: "resolve_world \<Rightarrow> resolve_request \<Rightarrow> ustr list \<Rightarrow> bool" where
  "main_calls w rq ks \<longleftrightarrow> ks = [] \<or> MAIN_CLIENT \<notin> set (rq_disabled rq) \<and>
     (ks = [MAIN_CLIENT] \<or> ks = [MAIN_CLIENT, WEB_CREATOR] \<and> rw_logged_in w)"

lemma main_request_log:
  assumes "main_request w rq calls = (main, key, calls')"
  shows "(\<exists>ks. map pc_client calls' = map pc_client calls @ ks \<and> main_calls w rq ks) \<and>
    (main = Some r \<longrightarrow> (\<exists>pre c post. calls' = pre @ c # post \<and> rw_player w pre c = Some r))"
  using assms
proof (cases rule: main_request_cases)
  case none
  then show ?thesis by (simp add: main_calls_def)
next
  case (one c)
  have "map pc_client calls' = map pc_client calls @ [MAIN_CLIENT]" using one by simp
  moreover have "main_calls w rq [MAIN_CLIENT]" using one by (simp add: main_calls_def)
  moreover have "main = Some r \<longrightarrow> calls' = calls @ c # [] \<and> rw_player w calls c = Some r" using one by simp
  ultimately show ?thesis by blast
next
  case (two c d)
  have "map pc_client calls' = map pc_client calls @ [MAIN_CLIENT, WEB_CREATOR]" using two by simp
  moreover have "main_calls w rq [MAIN_CLIENT, WEB_CREATOR]" using two by (simp add: main_calls_def)
  moreover have "main = Some r \<longrightarrow>
      (calls' = calls @ c # [d] \<and> rw_player w calls c = Some r) \<or>
      (calls' = (calls @ [c]) @ d # [] \<and> rw_player w (calls @ [c]) d = Some r)"
    using two by auto
  ultimately show ?thesis by blast
qed

section \<open>A whole resolve\<close>

definition fallback_order :: "bool \<Rightarrow> ustr list" where
  "fallback_order up = (if up then UPLOAD_FALLBACK_ORDER else STREAM_FALLBACK_ORDER)"

lemma prepare_facts:
  assumes "prepare w visitor v up q disabled calls = (rq, calls0)"
  shows "rq_video rq = v" "rq_upload rq = up" "rq_quality rq = q" "rq_disabled rq = disabled" "rq_visitor rq = visitor"
    "rq_has_high rq = has_high_in (rq_main rq)"
    "\<exists>ks. map pc_client calls0 = map pc_client calls @ ks \<and> main_calls w rq ks"
    "rq_main rq = Some r \<Longrightarrow> \<exists>pre c post. calls0 = pre @ c # post \<and> rw_player w pre c = Some r"
proof -
  obtain rq0 main key where m: "main_request w rq0 calls = (main, key, calls0)"
      and rq: "rq = rq0\<lparr>rq_main := main, rq_has_high := has_high_in main,
        rq_main_ping := Option.bind main (\<lambda>r. playback_ping_of r key)\<rparr>"
      and r0: "rq_video rq0 = v" "rq_upload rq0 = up" "rq_quality rq0 = q" "rq_disabled rq0 = disabled" "rq_visitor rq0 = visitor"
    using assms unfolding prepare_def Let_def by (auto split: prod.splits)
  show "rq_video rq = v" "rq_upload rq = up" "rq_quality rq = q" "rq_disabled rq = disabled" "rq_visitor rq = visitor"
    "rq_has_high rq = has_high_in (rq_main rq)"
    using rq r0 by simp_all
  show "\<exists>ks. map pc_client calls0 = map pc_client calls @ ks \<and> main_calls w rq ks"
    using main_request_log [OF m] by (simp add: main_calls_def rq)
  show "rq_main rq = Some r \<Longrightarrow> \<exists>pre c post. calls0 = pre @ c # post \<and> rw_player w pre c = Some r"
    using main_request_log [OF m, of r] by (simp add: rq)
qed

lemma try_main_step:
  assumes "try_main w rq ch = (r, ch')" "chain_ok w rq ch"
  shows "chain_ok w rq ch' \<and> (r = Some pd \<longrightarrow> probed w rq pd) \<and> ch_log ch' = ch_log ch"
proof -
  consider "r = None" "ch' = ch" | resp where "try_answer w rq MAIN_CLIENT resp ch = (r, ch')"
  proof (cases "rq_main rq")
    case None
    then show thesis using that(1) assms(1) by (simp add: try_main_def)
  next
    case (Some resp)
    show thesis
    proof (cases "\<not> play_ok (pr_status resp) \<or> MAIN_CLIENT \<in> set (rq_disabled rq) \<or>
        (\<not> rq_upload rq \<and> rq_video rq \<in> web_remix_failed (ch_orch ch))")
      case True
      then have "try_main w rq ch = (None, ch)" by (simp add: try_main_def Some)
      then show thesis using that(1) assms(1) by simp
    next
      case False
      then have "try_main w rq ch = try_answer w rq MAIN_CLIENT resp ch" by (simp add: try_main_def Some if_not_P)
      then show thesis using that(2) assms(1) by simp
    qed
  qed
  then show ?thesis
  proof cases
    case 1
    with assms(2) show ?thesis by simp
  next
    case (2 resp)
    have "r = Some pd \<longrightarrow> probed w rq pd" using try_answer_probed 2 by blast
    moreover have "chain_ok w rq ch'"
      using assms(2) try_answer_chain [OF 2] try_answer_best_ok [OF 2] by (simp add: chain_ok_def)
    ultimately show ?thesis using try_answer_chain [OF 2] by simp
  qed
qed

definition start_chain :: "resolve_request \<Rightarrow> player_call list \<Rightarrow> orch \<Rightarrow> chain" where
  "start_chain rq calls o1 = \<lparr>ch_log = calls, ch_orch = o1, ch_best = None,
     ch_bot = (case rq_main rq of Some r \<Rightarrow> gated r | None \<Rightarrow> False), ch_loudness = Option.bind (rq_main rq) pr_loudness\<rparr>"

definition run_chain :: "resolve_world \<Rightarrow> resolve_request \<Rightarrow> ustr list \<Rightarrow> chain \<Rightarrow> resolved_stream option \<times> chain" where
  "run_chain w rq order ch =
     (case try_main w rq ch of (Some pd, ch) \<Rightarrow> (Some pd, ch) | (None, ch) \<Rightarrow> try_clients w rq order ch)"

definition chain_outcome :: "resolve_world \<Rightarrow> resolve_request \<Rightarrow> resolved_stream option \<Rightarrow> chain \<Rightarrow> resolve_failure + resolved_stream" where
  "chain_outcome w rq found ch =
     (case found of
        Some pd \<Rightarrow> Inr pd
      | None \<Rightarrow>
          (case ch_best ch of
             Some c \<Rightarrow> Inr (build w (rq_video rq) (ca_format c) (ca_url c) (ca_expires c) (ca_client c) (ch_loudness ch)
               (rq_main rq) (ca_ping c) (rq_upload rq))
           | None \<Rightarrow>
               if rq_upload rq then Inl (UploadUnavailable (rq_video rq))
               else (case rw_rustypipe w (rq_video rq) (prefer_high (rq_quality rq)) of
                       Some r \<Rightarrow> Inr (rusty_data (rq_video rq) r)
                     | None \<Rightarrow> Inl (if ch_bot ch then BotGated (rq_video rq) else AllClientsFailed (rq_video rq)))))"

lemma orch_resolve_eq:
  assumes "prepare w visitor v up q disabled calls = (rq, calls0)"
  shows "orch_resolve w visitor v up q disabled calls o1 =
    (let (found, ch) = run_chain w rq (fallback_order up) (start_chain rq calls0 o1)
     in (chain_outcome w rq found ch, ch_log ch, ch_orch ch))"
proof -
  note p = prepare_facts(1-3) [OF assms]
  have e: "orch_resolve w visitor v up q disabled calls o1 =
      (case run_chain w rq (fallback_order up) (start_chain rq calls0 o1) of
         (found, ch) \<Rightarrow> (chain_outcome w rq found ch, ch_log ch, ch_orch ch))"
    unfolding orch_resolve_def assms Let_def prod.case run_chain_def chain_outcome_def p
      start_chain_def [symmetric] fallback_order_def [symmetric] by (rule refl)
  then show ?thesis unfolding Let_def .
qed

lemma run_chain_facts:
  assumes "run_chain w rq order ch = (found, ch')" "chain_ok w rq ch"
  shows "chain_ok w rq ch' \<and> (found = Some pd \<longrightarrow> probed w rq pd) \<and>
    (\<exists>as. map pc_client (ch_log ch') = map pc_client (ch_log ch) @ as \<and> subseq as order \<and> (\<forall>a \<in> set as. may_ask w rq a))"
proof -
  obtain r1 ch1 where t: "try_main w rq ch = (r1, ch1)" by (cases "try_main w rq ch")
  note s = try_main_step [OF t assms(2)]
  show ?thesis
  proof (cases r1)
    case (Some x)
    then have "found = Some x" "ch' = ch1" using assms(1) t by (simp_all add: run_chain_def)
    then show ?thesis using s [of pd] Some by auto
  next
    case None
    then have "try_clients w rq order ch1 = (found, ch')" using assms(1) t by (simp add: run_chain_def)
    from try_clients_run [OF this, of pd] s show ?thesis by simp
  qed
qed

lemma start_chain_ok:
  assumes "prepare w visitor v up q disabled calls = (rq, calls0)"
  shows "chain_ok w rq (start_chain rq calls0 o1)"
proof -
  have "gate_in w calls0" if "rq_main rq = Some r" "gated r" for r
    using prepare_facts(8) [OF assms that(1)] that(2) by (auto simp: gate_in_def gated_def)
  then show ?thesis
    by (auto simp: chain_ok_def start_chain_def best_ok_def split: option.splits)
qed

text \<open>One resolve, taken apart: the request, what the chain found, the state it left.\<close>

lemma orch_resolve_cases:
  assumes "orch_resolve w visitor v up q disabled calls o1 = (res, calls', o2)"
  obtains rq calls0 found ch where "prepare w visitor v up q disabled calls = (rq, calls0)"
    "run_chain w rq (fallback_order up) (start_chain rq calls0 o1) = (found, ch)"
    "res = chain_outcome w rq found ch" "calls' = ch_log ch" "o2 = ch_orch ch" "chain_ok w rq ch"
    "\<And>pd. found = Some pd \<Longrightarrow> probed w rq pd"
proof -
  obtain rq calls0 where p: "prepare w visitor v up q disabled calls = (rq, calls0)"
    by (cases "prepare w visitor v up q disabled calls")
  obtain found ch where r: "run_chain w rq (fallback_order up) (start_chain rq calls0 o1) = (found, ch)"
    by (cases "run_chain w rq (fallback_order up) (start_chain rq calls0 o1)")
  note f = run_chain_facts [OF r start_chain_ok [OF p]]
  show thesis
    using that [OF p r] f assms orch_resolve_eq [OF p, of o1] r by simp
qed

lemma outcome_Inr:
  assumes "chain_outcome w rq found ch = Inr pd" "chain_ok w rq ch" "\<And>pd. found = Some pd \<Longrightarrow> probed w rq pd" "\<not> rq_upload rq"
  shows "pd_client pd = lit ''rustypipe'' \<or> validate_head w (pd_url pd) (user_agent_of w (pd_client pd)) \<or>
    prefer_high (rq_quality rq) \<and> rq_has_high rq"
proof (cases found)
  case (Some x)
  then show ?thesis using assms by (auto simp: chain_outcome_def probed_def)
next
  case None
  show ?thesis
  proof (cases "ch_best ch")
    case (Some c)
    then show ?thesis using assms(2) by (simp add: chain_ok_def best_ok_def)
  next
    case None
    then show ?thesis using \<open>found = None\<close> assms(1,4) by (auto simp: chain_outcome_def rusty_data_def split: option.splits if_splits)
  qed
qed




section \<open>On a small world\<close>

definition audio_format :: "ustr \<Rightarrow> ustr \<Rightarrow> stream_format" where
  "audio_format url q = \<lparr>f_itag = 251, f_url = Some url, f_mime = lit ''audio/webm; codecs=opus'', f_bitrate = 1, f_width = None,
     f_height = None, f_fps = None, f_quality = Some q, f_channels = None, f_loudness = None, f_signature_cipher = None,
     f_cipher = None, f_auto_dubbed = None\<rparr>"

definition answers :: "ustr \<Rightarrow> ustr \<Rightarrow> player_response" where
  "answers url q = \<lparr>pr_status = \<lparr>ps_status = lit ''OK'', ps_reason = None\<rparr>, pr_loudness = None,
     pr_streaming = Some \<lparr>adaptive_formats = [audio_format url q], expires_in = Some 100\<rparr>, pr_details = None, pr_tracking = None\<rparr>"

definition refuses :: "ustr \<Rightarrow> player_response" where
  "refuses status = \<lparr>pr_status = \<lparr>ps_status = status, ps_reason = None\<rparr>, pr_loudness = None, pr_streaming = None,
     pr_details = None, pr_tracking = None\<rparr>"

definition HIGH_AUDIO :: ustr where "HIGH_AUDIO = lit ''AUDIO_QUALITY_HIGH''"
definition MEDIUM_AUDIO :: ustr where "MEDIUM_AUDIO = lit ''AUDIO_QUALITY_MEDIUM''"

text \<open>Three clients, each answering as given; nothing is ciphered; \<open>head\<close> probes the URL.\<close>

definition toy_world :: "(ustr \<Rightarrow> player_response option) \<Rightarrow> (ustr \<Rightarrow> bool) \<Rightarrow> rusty_stream option \<Rightarrow> resolve_world" where
  "toy_world answer head rusty = \<lparr>
     rw_clients = (\<lambda>k. if k \<in> {MAIN_CLIENT, lit ''VISIONOS'', WEB_CREATOR}
       then Some \<lparr>yc_user_agent = k, yc_login_required = False, yc_signature_timestamp = False, yc_web_po_tokens = False\<rparr>
       else None),
     rw_logged_in = True, rw_cookie = Some (lit ''secret''), rw_sts = None, rw_session_pot = (\<lambda>_. None),
     rw_player = (\<lambda>_ c. answer (pc_client c)), rw_decipher = (\<lambda>_ _. None), rw_n_param = (\<lambda>u. u),
     rw_stream_pot = (\<lambda>_ _. None), rw_encode = (\<lambda>s. s), rw_head = (\<lambda>u _ _. head u), rw_rustypipe = (\<lambda>_ _. rusty),
     rw_clock = (\<lambda>_. 0)\<rparr>"

definition calm_orch :: orch where "calm_orch = \<lparr>web_remix_failed = {}, last_heal = None, heals = 0\<rparr>"

lemma client_names:
  "MAIN_CLIENT = lit ''WEB_REMIX''" "WEB_CREATOR = lit ''WEB_CREATOR''" "lit ''WEB_REMIX'' \<noteq> lit ''WEB_CREATOR''"
  "lit ''WEB_CREATOR'' \<noteq> lit ''WEB_REMIX''" "lit ''VISIONOS'' \<noteq> lit ''WEB_REMIX''" "lit ''WEB_REMIX'' \<noteq> lit ''VISIONOS''"
  "lit ''VISIONOS'' \<noteq> lit ''WEB_CREATOR''" "lit ''WEB_CREATOR'' \<noteq> lit ''VISIONOS''" "lit ''OK'' \<noteq> lit ''LOGIN_REQUIRED''"
  "lit ''LOGIN_REQUIRED'' \<noteq> lit ''OK''" "HIGH_AUDIO \<noteq> MEDIUM_AUDIO" "MEDIUM_AUDIO \<noteq> HIGH_AUDIO"
  "lit ''ANDROID_VR_1_65_10'' \<noteq> lit ''WEB_REMIX''" "lit ''ANDROID_VR_1_65_10'' \<noteq> lit ''WEB_CREATOR''"
  "lit ''ANDROID_VR_1_65_10'' \<noteq> lit ''VISIONOS''" "lit ''ANDROID_VR_1_43_32'' \<noteq> lit ''WEB_REMIX''"
  "lit ''ANDROID_VR_1_43_32'' \<noteq> lit ''WEB_CREATOR''" "lit ''ANDROID_VR_1_43_32'' \<noteq> lit ''VISIONOS''"
  by (simp_all add: MAIN_CLIENT_def WEB_CREATOR_def HIGH_AUDIO_def MEDIUM_AUDIO_def lit_Cons)

lemma statuses: "play_ok (pr_status (answers u q))" "\<not> gated (answers u q)" "\<not> is_age_gated (pr_status (answers u q))"
  "\<not> play_ok (pr_status (refuses (lit ''LOGIN_REQUIRED'')))" "is_age_gated (pr_status (refuses (lit ''LOGIN_REQUIRED'')))"
  "\<not> is_bot_gate (pr_status (refuses s))"
  by (simp_all add: answers_def refuses_def play_ok_def gated_def is_age_gated_def is_bot_gate_def lit_Cons)

lemma high_medium: "is_high (audio_format u HIGH_AUDIO)" "\<not> is_high (audio_format u MEDIUM_AUDIO)"
  by (simp_all add: is_high_def audio_format_def HIGH_AUDIO_def MEDIUM_AUDIO_def lit_Cons)

lemma offered:
  "pr_streaming (answers u q) = Some \<lparr>adaptive_formats = [audio_format u q], expires_in = Some 100\<rparr>"
  "find_format \<lparr>adaptive_formats = [audio_format u q], expires_in = Some 100\<rparr> quality = Some (audio_format u q)"
  "find_url (toy_world a h r) (audio_format u q) v = Some u"
  by (simp_all add: answers_def find_format_def is_audio_format_def audio_format_def find_url_def direct_url_def Let_def
      split: audio_quality.split)

lemma loudness_of_answers: "pr_loudness (answers u q) = None"
  by (simp add: answers_def)

lemma toy_offer: "offer (toy_world a h r) rq k (answers u q) = Some (audio_format u q, u, 100)"
proof -
  have "web_stream_url (toy_world a h r) rq k u = u"
    by (simp add: web_stream_url_def toy_world_def Let_def split: option.split)
  then show ?thesis
    by (simp add: offer_def offered)
qed

lemma toy_answer:
  "try_answer (toy_world a h r) rq k (answers u q) ch =
    (let l = or_option (ch_loudness ch) None; ch = ch\<lparr>ch_loudness := l\<rparr> in
     if prefer_high (rq_quality rq) \<and> \<not> is_high (audio_format u q) \<and> rq_has_high rq
     then (None, if better (audio_format u q) (map_option ca_format (ch_best ch))
       then ch\<lparr>ch_best := Some \<lparr>ca_format = audio_format u q, ca_url = u, ca_expires = 100, ca_client = k,
         ca_ping = ping_for rq (answers u q) k\<rparr>\<rparr> else ch)
     else if rq_upload rq \<or> h u
     then (Some (build (toy_world a h r) (rq_video rq) (audio_format u q) u 100 k l (rq_main rq) (ping_for rq (answers u q) k) (rq_upload rq)), ch)
     else if needs_n (toy_world a h r) k
     then (let (granted, o1) = take_heal_slot 0 (ch_orch ch)
           in (None, ch\<lparr>ch_orch := (if granted then o1\<lparr>heals := Suc (heals o1)\<rparr> else o1)\<rparr>))
     else (None, ch))"
proof -
  have "loudness_after rq (answers u q) l = or_option l None" for l
    by (simp add: loudness_after_def offered) (simp add: answers_def)
  moreover have "validate_head (toy_world a h r) u ua = h u" for ua
    by (simp add: validate_head_def toy_world_def)
  moreover have "rw_clock (toy_world a h r) calls = 0" for calls
    by (simp add: toy_world_def)
  ultimately show ?thesis
    by (simp only: try_answer_def toy_offer option.case prod.case Let_def) simp
qed

lemma toy_parts:
  "rw_clients (toy_world a h r) k = (if k \<in> {MAIN_CLIENT, lit ''VISIONOS'', WEB_CREATOR}
     then Some \<lparr>yc_user_agent = k, yc_login_required = False, yc_signature_timestamp = False, yc_web_po_tokens = False\<rparr> else None)"
  "rw_logged_in (toy_world a h r)" "rw_player (toy_world a h r) calls c = a (pc_client c)"
  "rw_rustypipe (toy_world a h r) v b = r"
  by (simp_all add: toy_world_def)

definition toy_request :: "ustr list \<Rightarrow> audio_quality \<Rightarrow> player_response option \<Rightarrow> resolve_request" where
  "toy_request dis q main = \<lparr>rq_video = lit ''v'', rq_upload = False, rq_quality = q, rq_disabled = dis, rq_visitor = None,
     rq_session_pot = None, rq_main = main, rq_has_high = has_high_in main,
     rq_main_ping = None\<rparr>"

lemma toy_prepare:
  assumes "MAIN_CLIENT \<notin> set dis" "a MAIN_CLIENT = Some m" "pr_tracking m = None"
    and "is_age_gated (pr_status m) \<longrightarrow> a WEB_CREATOR = Some m' \<and> pr_tracking m' = None"
  shows "\<exists>calls. prepare (toy_world a h r) None (lit ''v'') False q dis [] =
      (toy_request dis q (Some (if is_age_gated (pr_status m) then m' else m)), calls) \<and>
    map pc_client calls = (if is_age_gated (pr_status m) then [MAIN_CLIENT, WEB_CREATOR] else [MAIN_CLIENT])"
  using assms
  by (auto simp: prepare_def main_request_def ask_def toy_parts Let_def toy_request_def playback_ping_of_def has_high_in_def)

text \<open>A run in which the main client's stream passes the probe.\<close>

lemma toy_main_wins:
  assumes "a MAIN_CLIENT = Some (answers u qual)" "h u" "q = QLow \<or> qual = HIGH_AUDIO"
  shows "\<exists>pd calls. orch_resolve (toy_world a h r) None (lit ''v'') False q [] [] calm_orch = (Inr pd, calls, calm_orch) \<and>
    pd_client pd = MAIN_CLIENT \<and> pd_url pd = u \<and> pd_expires_in pd = 100 \<and> map pc_client calls = [MAIN_CLIENT]"
proof -
  obtain calls where p: "prepare (toy_world a h r) None (lit ''v'') False q [] [] =
      (toy_request [] q (Some (answers u qual)), calls)" "map pc_client calls = [MAIN_CLIENT]"
    using toy_prepare [of "[]" a "answers u qual" _ h r q] assms(1) statuses(3) by (auto simp: answers_def)
  let ?rq = "toy_request [] q (Some (answers u qual))"
  have high: "\<not> (prefer_high (rq_quality ?rq) \<and> \<not> is_high (audio_format u qual) \<and> rq_has_high ?rq)"
    using assms(3) high_medium(1) by (auto simp: toy_request_def prefer_high_def)
  have "try_main (toy_world a h r) ?rq (start_chain ?rq calls calm_orch) =
      try_answer (toy_world a h r) ?rq MAIN_CLIENT (answers u qual) (start_chain ?rq calls calm_orch)"
    by (simp add: try_main_def toy_request_def statuses start_chain_def calm_orch_def)
  then have "\<exists>pd ch. try_main (toy_world a h r) ?rq (start_chain ?rq calls calm_orch) = (Some pd, ch) \<and> ch_log ch = calls \<and>
      ch_orch ch = calm_orch \<and> pd_client pd = MAIN_CLIENT \<and> pd_url pd = u \<and> pd_expires_in pd = 100"
    unfolding toy_answer Let_def if_not_P [OF high] using assms(2) by (simp add: start_chain_def)
  then obtain pd ch where t: "try_main (toy_world a h r) ?rq (start_chain ?rq calls calm_orch) = (Some pd, ch)" "ch_log ch = calls"
      "ch_orch ch = calm_orch" "pd_client pd = MAIN_CLIENT" "pd_url pd = u" "pd_expires_in pd = 100" by blast
  then show ?thesis
    unfolding orch_resolve_eq [OF p(1)] using p(2) by (auto simp: run_chain_def chain_outcome_def)
qed

lemma toy_skips: "try_client (toy_world a h r) rq (lit ''ANDROID_VR_1_65_10'') ch = (None, ch)"
  "try_client (toy_world a h r) rq (lit ''ANDROID_VR_1_43_32'') ch = (None, ch)"
  by (simp_all add: try_client_def toy_parts client_names)

lemma toy_fallbacks:
  "try_clients (toy_world a h r) rq (fallback_order False) ch = try_client (toy_world a h r) rq (lit ''VISIONOS'') ch"
  by (simp add: fallback_order_def STREAM_FALLBACK_ORDER_def toy_skips split: option.split prod.split)

lemma toy_visionos:
  assumes "rq_disabled rq = []"
  shows "try_client (toy_world a h r) rq (lit ''VISIONOS'') ch =
    (let ch = ch\<lparr>ch_log := ch_log ch @ [call_of (toy_world a h r) rq (lit ''VISIONOS'') \<lparr>yc_user_agent = lit ''VISIONOS'',
         yc_login_required = False, yc_signature_timestamp = False, yc_web_po_tokens = False\<rparr>]\<rparr>
     in case a (lit ''VISIONOS'') of None \<Rightarrow> (None, ch)
        | Some resp \<Rightarrow> if play_ok (pr_status resp) then try_answer (toy_world a h r) rq (lit ''VISIONOS'') resp ch
            else (None, ch\<lparr>ch_bot := (ch_bot ch \<or> is_bot_gate (pr_status resp))\<rparr>))"
  using assms by (simp add: try_client_def toy_parts ask_def Let_def)




section \<open>Where the code and its comments part\<close>

text \<open>Every client is to be validated, the comment in the loop says; but a stream remembered for the second pass never is.
  With a high-quality stream that fails its probe, the medium stream of the next client is handed out unprobed, dead as it
  is, although rustypipe would have had one.\<close>

theorem second_pass_hands_out_a_dead_stream:
  "\<exists>pd calls o2. orch_resolve (toy_world (\<lambda>k. if k = MAIN_CLIENT then Some (answers (lit ''h'') HIGH_AUDIO)
       else if k = lit ''VISIONOS'' then Some (answers (lit ''m'') MEDIUM_AUDIO) else None) (\<lambda>_. False) (Some r))
     None (lit ''v'') False QHigh [] [] calm_orch = (Inr pd, calls, o2) \<and> pd_url pd = lit ''m'' \<and> pd_client pd = lit ''VISIONOS''"
proof -
  let ?a = "\<lambda>k. if k = MAIN_CLIENT then Some (answers (lit ''h'') HIGH_AUDIO)
       else if k = lit ''VISIONOS'' then Some (answers (lit ''m'') MEDIUM_AUDIO) else None"
  let ?w = "toy_world ?a (\<lambda>_. False) (Some r)"
  obtain calls where p: "prepare ?w None (lit ''v'') False QHigh [] [] = (toy_request [] QHigh (Some (answers (lit ''h'') HIGH_AUDIO)), calls)"
    using toy_prepare [of "[]" ?a "answers (lit ''h'') HIGH_AUDIO" _ "\<lambda>_. False" "Some r" QHigh] statuses(3)
    by (auto simp: answers_def)
  let ?rq = "toy_request [] QHigh (Some (answers (lit ''h'') HIGH_AUDIO))"
  have rq: "rq_disabled ?rq = []" "rq_video ?rq = lit ''v''" "rq_upload ?rq = False" "rq_quality ?rq = QHigh" "rq_has_high ?rq"
      "rq_main ?rq = Some (answers (lit ''h'') HIGH_AUDIO)"
    by (simp_all add: toy_request_def has_high_in_def offered high_medium)
  let ?ch = "start_chain ?rq calls calm_orch"
  let ?ch1 = "?ch\<lparr>ch_orch := \<lparr>web_remix_failed = {}, last_heal = Some 0, heals = 1\<rparr>, ch_loudness := None\<rparr>"
  have l: "ch_loudness ?ch = None" "ch_best ?ch = None" "ch_orch ?ch = calm_orch"
    by (simp_all add: start_chain_def rq loudness_of_answers)
  have nn: "needs_n ?w MAIN_CLIENT" by (simp add: needs_n_def NEEDS_N_TRANSFORM_def MAIN_CLIENT_def)
  have main: "try_main ?w ?rq ?ch = (None, ?ch1)"
    using l nn by (simp add: try_main_def rq statuses calm_orch_def toy_answer Let_def high_medium take_heal_slot_def or_option_def)
  have ph: "prefer_high QHigh" by (simp add: prefer_high_def)
  have vis: "\<exists>ch. try_client ?w ?rq (lit ''VISIONOS'') ?ch1 = (None, ch) \<and>
      (\<exists>ping. ch_best ch = Some \<lparr>ca_format = audio_format (lit ''m'') MEDIUM_AUDIO, ca_url = lit ''m'', ca_expires = 100,
         ca_client = lit ''VISIONOS'', ca_ping = ping\<rparr>)"
    using l client_names unfolding toy_visionos [OF rq(1)] Let_def
    by (simp add: rq statuses toy_answer Let_def high_medium ph better_def)
  then obtain ch ping where v: "try_client ?w ?rq (lit ''VISIONOS'') ?ch1 = (None, ch)"
      "ch_best ch = Some \<lparr>ca_format = audio_format (lit ''m'') MEDIUM_AUDIO, ca_url = lit ''m'', ca_expires = 100,
         ca_client = lit ''VISIONOS'', ca_ping = ping\<rparr>" by blast
  have "run_chain ?w ?rq (fallback_order False) ?ch = (None, ch)"
    using main v(1) by (simp add: run_chain_def toy_fallbacks)
  then show ?thesis
    unfolding orch_resolve_eq [OF p] using v(2) by (simp add: chain_outcome_def)
qed

text \<open>A gated video answered by WEB_CREATOR is played as WEB_REMIX: its stream is probed with, labelled as and fetched under
  the user agent of a client that never gave it out. And WEB_CREATOR is asked although the user disabled it.\<close>

theorem creator_stream_is_labelled_main:
  "\<exists>pd calls o2. orch_resolve (toy_world (\<lambda>k. if k = WEB_CREATOR then Some (answers (lit ''c'') HIGH_AUDIO)
       else Some (refuses (lit ''LOGIN_REQUIRED''))) (\<lambda>_. True) None) None (lit ''v'') False QHigh [WEB_CREATOR] [] calm_orch =
     (Inr pd, calls, o2) \<and> pd_url pd = lit ''c'' \<and> pd_client pd = MAIN_CLIENT \<and>
     map pc_client calls = [MAIN_CLIENT, WEB_CREATOR]"
proof -
  let ?a = "\<lambda>k. if k = WEB_CREATOR then Some (answers (lit ''c'') HIGH_AUDIO) else Some (refuses (lit ''LOGIN_REQUIRED''))"
  let ?w = "toy_world ?a (\<lambda>_. True) None"
  obtain calls where p: "prepare ?w None (lit ''v'') False QHigh [WEB_CREATOR] [] =
      (toy_request [WEB_CREATOR] QHigh (Some (answers (lit ''c'') HIGH_AUDIO)), calls)" "map pc_client calls = [MAIN_CLIENT, WEB_CREATOR]"
    using toy_prepare [of "[WEB_CREATOR]" ?a "refuses (lit ''LOGIN_REQUIRED'')" "answers (lit ''c'') HIGH_AUDIO" "\<lambda>_. True" None QHigh]
      statuses(5) client_names by (auto simp: answers_def refuses_def)
  let ?rq = "toy_request [WEB_CREATOR] QHigh (Some (answers (lit ''c'') HIGH_AUDIO))"
  have "MAIN_CLIENT \<noteq> WEB_CREATOR" by (simp add: client_names)
  then have "try_main ?w ?rq (start_chain ?rq calls calm_orch) =
      try_answer ?w ?rq MAIN_CLIENT (answers (lit ''c'') HIGH_AUDIO) (start_chain ?rq calls calm_orch)"
    by (simp add: try_main_def toy_request_def statuses start_chain_def calm_orch_def)
  then have "\<exists>pd ch. try_main ?w ?rq (start_chain ?rq calls calm_orch) = (Some pd, ch) \<and> ch_log ch = calls \<and>
      pd_client pd = MAIN_CLIENT \<and> pd_url pd = lit ''c''"
    unfolding toy_answer Let_def by (simp add: high_medium start_chain_def)
  then obtain pd ch where "try_main ?w ?rq (start_chain ?rq calls calm_orch) = (Some pd, ch)" "ch_log ch = calls"
      "pd_client pd = MAIN_CLIENT" "pd_url pd = lit ''c''" by blast
  then show ?thesis
    unfolding orch_resolve_eq [OF p(1)] using p(2) by (simp add: run_chain_def chain_outcome_def)
qed

end
