(* ===== verification/Stream_Cache.thy ===== *)
theory Stream_Cache
  imports Resolution_Laws
begin

text \<open>
  \<open>AppState::resolve\<close> as its callers see it: what is kept in the stream cache and answered from it, which errors and
  headers come out, the bot-gate retry, and how its cooldown can starve it.
\<close>

section \<open>Which branch\<close>

text \<open>An id that goes to YouTube: no local file, station, Spotify, SoundCloud or TIDAL track.\<close>

definition youtube_id :: "ustr \<Rightarrow> bool" where
  "youtube_id v \<longleftrightarrow> song_path v = None \<and> \<not> is_radio_id v \<and> spotify_track_id v = None \<and> sc_track_id v = None \<and>
     tidal_track_id v = None"

definition remember :: "ustr \<Rightarrow> bool \<Rightarrow> resolved_stream \<Rightarrow> int \<Rightarrow> app_state \<Rightarrow> app_state" where
  "remember v up pd now st =
     (if pd_client pd \<noteq> lit ''rustypipe'' \<and> \<not> up then put_in_cache v (cached_row pd now) now st else st)"

lemma app_resolve_youtube:
  assumes "youtube_id v"
  shows "app_resolve io now v up st =
    (case get_stream (as_store st) v (now + SAFETY_MARGIN) of
       Some c \<Rightarrow> (Inr (from_cache v c now), st)
     | None \<Rightarrow>
         (case resolve_gated io (nat now) v up st of
            (Inl e, st) \<Rightarrow> (Inl e, st)
          | (Inr pd, st) \<Rightarrow> (Inr pd, remember v up pd now st)))"
  using assms by (simp add: app_resolve_def youtube_id_def remember_def split: option.split prod.split sum.split)

lemma run_orch_store [simp]: "as_store (snd (run_orch io v up st)) = as_store st"
  by (simp add: run_orch_def Let_def split: prod.split)

lemma refresh_streams [simp]: "streams (as_store (snd (refresh_visitor_data f now st))) = streams (as_store st)"
  by (simp add: refresh_visitor_data_def Let_def set_setting_def split: option.split)

lemma resolve_gated_streams: "streams (as_store (snd (resolve_gated io now v up st))) = streams (as_store st)"
proof -
  obtain r1 st1 where r1: "run_orch io v up st = (r1, st1)" by (cases "run_orch io v up st")
  have s1: "as_store st1 = as_store st" using run_orch_store [of io v up st] r1 by simp
  obtain r2 st2 where r2: "refresh_visitor_data (ai_fetch_visitor io) now st1 = (r2, st2)"
    by (cases "refresh_visitor_data (ai_fetch_visitor io) now st1")
  have s2: "streams (as_store st2) = streams (as_store st)"
    using refresh_streams [of "ai_fetch_visitor io" now st1] r2 s1 by simp
  obtain r3 st3 where r3: "run_orch io v up st2 = (r3, st3)" by (cases "run_orch io v up st2")
  have s3: "streams (as_store st3) = streams (as_store st)" using run_orch_store [of io v up st2] r3 s2 by simp
  show ?thesis
    using s1 s2 s3 by (simp add: resolve_gated_def r1 r2 r3 split: sum.split resolve_failure.split option.split)
qed

section \<open>The cache\<close>

lemma hget_sweep: "hget (filter (\<lambda>(_, c). P c) m) k = Some c \<Longrightarrow> hwf m \<Longrightarrow> hget m k = Some c \<and> P c"
proof -
  assume a: "hget (filter (\<lambda>(_, c). P c) m) k = Some c" and w: "hwf m"
  then have "(k, c) \<in> set m" "P c" using hget_in_set [OF a] by auto
  with w show ?thesis by (simp add: hwf_def)
qed

lemma hget_sweep_keeps: "hget m k = Some c \<Longrightarrow> P c \<Longrightarrow> hwf m \<Longrightarrow> hget (filter (\<lambda>(_, c). P c) m) k = Some c"
proof -
  assume g: "hget m k = Some c" and "P c" and w: "hwf m"
  then have "(k, c) \<in> set (filter (\<lambda>(_, c). P c) m)" using hget_in_set by fastforce
  moreover have "hwf (filter (\<lambda>(_, c). P c) m)" using w by (rule hwf_filter)
  ultimately show ?thesis by (simp add: hwf_def)
qed

lemma put_then_get:
  assumes "hwf (streams s)" "now < cs_expires_at c" "later < cs_expires_at c"
  shows "get_stream (put_stream v c now s) v later = Some c"
proof -
  have "hget (hput v c (streams s)) v = Some c" by simp
  from hget_sweep_keeps [OF this, of "\<lambda>c. now < cs_expires_at c"] assms(1,2)
  have "hget (streams (put_stream v c now s)) v = Some c"
    by (simp add: put_stream_def sweep_streams_def)
  with assms(3) show ?thesis by (simp add: get_stream_def)
qed

lemma cache_round_trip:
  assumes "cs_ping_url c = None \<longleftrightarrow> cs_ping_client c = None"
  shows "cached_row (from_cache v c now) now = c\<lparr>cs_expires_at := now + max 0 (cs_expires_at c - now)\<rparr>"
  using assms by (auto simp: cached_row_def from_cache_def plain_stream_def split: option.split)

lemma from_cached_row:
  "pd_url (from_cache v (cached_row pd now) later) = pd_url pd" "pd_itag (from_cache v (cached_row pd now) later) = pd_itag pd"
  "pd_loudness (from_cache v (cached_row pd now) later) = pd_loudness pd"
  "pd_ping (from_cache v (cached_row pd now) later) = pd_ping pd"
  "pd_is_video (from_cache v (cached_row pd now) later) = pd_is_video pd"
  by (cases "pd_ping pd"; simp add: from_cache_def cached_row_def plain_stream_def)+


lemma put_in_cache_rows:
  assumes "hget (streams (as_store (put_in_cache v c now st))) k = Some d" "hwf (streams (as_store st))"
  shows "k = v \<and> d = c \<or> hget (streams (as_store st)) k = Some d"
proof -
  have "hget (hput v c (streams (as_store st))) k = Some d"
    using hget_sweep [of "\<lambda>c. now < cs_expires_at c" "hput v c (streams (as_store st))" k d] assms
    by (simp add: put_in_cache_def put_stream_def sweep_streams_def)
  then show ?thesis by (auto split: if_splits)
qed

lemma forget_streams: "streams (snd (forget_missing tx io s p)) = streams s"
  by (simp add: forget_missing_def Let_def delete_local_tracks_def split: option.split)

text \<open>How a resolve can leave the cache: as it was, or with one row more.\<close>

lemma app_resolve_streams:
  assumes "app_resolve io now v up st = (r, st')"
  shows "streams (as_store st') = streams (as_store st) \<or>
    (\<exists>pd c st1. r = Inr pd \<and> streams (as_store st1) = streams (as_store st) \<and> st' = put_in_cache v c now st1 \<and>
       cs_url c = pd_url pd \<and> song_path v = None \<and> \<not> is_radio_id v \<and> spotify_track_id v = None \<and>
       (sc_track_id v = None \<longrightarrow> tidal_track_id v = None \<and> \<not> up \<and> pd_client pd \<noteq> lit ''rustypipe''))"
proof (cases "song_path v")
  case (Some path)
  then show ?thesis
    using assms by (auto simp: app_resolve_def forget_streams split: option.splits if_splits)
next
  case local: None
  show ?thesis
  proof (cases "is_radio_id v \<or> spotify_track_id v \<noteq> None \<or> get_stream (as_store st) v (now + SAFETY_MARGIN) \<noteq> None")
    case True
    then have "st' = st"
      using assms local by (auto simp: app_resolve_def split: option.splits if_splits sum.splits)
    then show ?thesis by simp
  next
    case False
    then have f: "\<not> is_radio_id v" "spotify_track_id v = None" "get_stream (as_store st) v (now + SAFETY_MARGIN) = None" by auto
    show ?thesis
    proof (cases "sc_track_id v")
      case (Some i)
      show ?thesis
      proof (cases "ai_soundcloud io i")
        case (Inl e)
        then have "st' = st" using assms local f Some by (simp add: app_resolve_def)
        then show ?thesis by simp
      next
        case (Inr url)
        then show ?thesis
          using assms local f Some
          by (intro disjI2 exI [of _ "(plain_stream v url (lit ''soundcloud''))\<lparr>pd_expires_in := SC_CACHE_SECS\<rparr>"] exI [of _ "\<lparr>cs_url = url, cs_itag = 0, cs_expires_at = now + SC_CACHE_SECS, cs_loudness = None,
                    cs_is_video = Some False, cs_ping_url = None, cs_ping_client = None\<rparr>"] exI [of _ st])
            (simp add: app_resolve_def plain_stream_def)
      qed
    next
      case sc: None
      show ?thesis
      proof (cases "tidal_track_id v")
        case (Some i)
        then have "st' = st" using assms local f sc by (simp add: app_resolve_def)
        then show ?thesis by simp
      next
        case None
        then have y: "youtube_id v" using local f sc by (simp add: youtube_id_def)
        obtain r1 st1 where g: "resolve_gated io (nat now) v up st = (r1, st1)" by (cases "resolve_gated io (nat now) v up st")
        have s1: "streams (as_store st1) = streams (as_store st)"
          using resolve_gated_streams [of io "nat now" v up st] g by simp
        show ?thesis
        proof (cases r1)
          case (Inl e)
          then have "st' = st1" using assms f(3) g by (simp add: app_resolve_youtube [OF y])
          then show ?thesis using s1 by simp
        next
          case (Inr pd)
          then have e: "r = Inr pd" "st' = remember v up pd now st1" using assms f(3) g by (simp_all add: app_resolve_youtube [OF y])
          show ?thesis
          proof (cases "pd_client pd \<noteq> lit ''rustypipe'' \<and> \<not> up")
            case True
            then have "st' = put_in_cache v (cached_row pd now) now st1" using e by (simp add: remember_def)
            then show ?thesis
              using e(1) s1 True y by (intro disjI2 exI [of _ pd] exI [of _ "cached_row pd now"] exI [of _ st1])
                (simp add: cached_row_def youtube_id_def)
          next
            case False
            then have "st' = st1" using e by (auto simp: remember_def)
            then show ?thesis using s1 by simp
          qed
        qed
      qed
    qed
  qed
qed

text \<open>C13: A resolve adds at most one row to the stream cache, the URL it hands out under the id it was asked for, and never
  for a local file, a station, a Spotify or TIDAL track, a rustypipe stream or an upload on YouTube.\<close>

theorem what_enters_the_cache:
  assumes "app_resolve io now v up st = (r, st')" "store_ok (as_store st)"
    and "hget (streams (as_store st')) k = Some c" "hget (streams (as_store st)) k \<noteq> Some c"
  shows "k = v \<and> (\<exists>pd. r = Inr pd \<and> cs_url c = pd_url pd \<and> song_path v = None \<and> \<not> is_radio_id v \<and> spotify_track_id v = None \<and>
    (sc_track_id v \<noteq> None \<or> tidal_track_id v = None \<and> \<not> up \<and> pd_client pd \<noteq> lit ''rustypipe''))"
proof -
  have w: "hwf (streams (as_store st))" using assms(2) by (simp add: store_ok_def)
  from app_resolve_streams [OF assms(1)] show ?thesis
  proof (elim disjE exE conjE)
    assume "streams (as_store st') = streams (as_store st)"
    with assms(3,4) show ?thesis by simp
  next
    fix pd d st1
    assume a: "r = Inr pd" "streams (as_store st1) = streams (as_store st)" "st' = put_in_cache v d now st1" "cs_url d = pd_url pd"
      "song_path v = None" "\<not> is_radio_id v" "spotify_track_id v = None"
      "sc_track_id v = None \<longrightarrow> tidal_track_id v = None \<and> \<not> up \<and> pd_client pd \<noteq> lit ''rustypipe''"
    have "k = v \<and> c = d"
      using put_in_cache_rows [of v d now st1 k c] assms(3,4) a(2,3) w by simp
    with a show ?thesis by auto
  qed
qed

section \<open>Errors and headers\<close>

lemma resolve_gated_not_gated: "fst (resolve_gated io now v up st) \<noteq> Inl (BotGated g)"
proof -
  obtain r1 st1 where r1: "run_orch io v up st = (r1, st1)" by (cases "run_orch io v up st")
  obtain r2 st2 where r2: "refresh_visitor_data (ai_fetch_visitor io) now st1 = (r2, st2)"
    by (cases "refresh_visitor_data (ai_fetch_visitor io) now st1")
  obtain r3 st3 where r3: "run_orch io v up st2 = (r3, st3)" by (cases "run_orch io v up st2")
  show ?thesis
    by (simp add: resolve_gated_def r1 r2 r3 not_gated_def split: sum.split resolve_failure.split option.split)
qed

text \<open>The bot gate never reaches a user: whatever is resolved, the answer is not that error.\<close>

theorem bot_gate_never_surfaces: "fst (app_resolve io now v up st) \<noteq> Inl (BotGated g)"
proof (cases "youtube_id v")
  case True
  then show ?thesis
    using resolve_gated_not_gated [of io "nat now" v up st g]
    by (auto simp: app_resolve_youtube split: option.splits prod.splits sum.splits)
next
  case False
  then show ?thesis
    by (auto simp: app_resolve_def youtube_id_def resolve_station_def why_def resolve_tidal_def Let_def
        split: option.splits sum.splits tidal_answer.splits)
qed

definition no_cookie :: "resolved_stream \<Rightarrow> bool" where
  "no_cookie pd \<longleftrightarrow> lit ''Cookie'' \<notin> fst ` set (pd_headers pd)"

lemma no_cookie_build: "no_cookie (build w v f u e k l m p False)"
  by (auto simp: no_cookie_def build_def Let_def lit_Cons split: option.splits)

lemma no_cookie_plain: "pd_headers pd = [] \<Longrightarrow> no_cookie pd"
  by (simp add: no_cookie_def)

lemma try_answer_no_cookie: "try_answer w rq k r ch = (Some pd, ch') \<Longrightarrow> \<not> rq_upload rq \<Longrightarrow> no_cookie pd"
  by (erule try_answer_Some) (simp add: no_cookie_build)

lemma try_clients_no_cookie: "try_clients w rq ks ch = (Some pd, ch') \<Longrightarrow> \<not> rq_upload rq \<Longrightarrow> no_cookie pd"
proof (induction ks arbitrary: ch)
  case (Cons k ks)
  obtain r1 ch1 where t: "try_client w rq k ch = (r1, ch1)" by (cases "try_client w rq k ch")
  show ?case
  proof (cases r1)
    case (Some x)
    then have "try_client w rq k ch = (Some pd, ch')" using Cons.prems(1) t by simp
    then show ?thesis
      by (cases rule: try_client_cases) (use try_answer_no_cookie Cons.prems(2) in auto)
  next
    case None
    then show ?thesis using Cons t by simp
  qed
qed simp

lemma orch_no_cookie: "orch_resolve w visitor v False q dis calls o1 = (Inr pd, calls', o2) \<Longrightarrow> no_cookie pd"
proof (erule orch_resolve_cases)
  fix rq calls0 found ch
  assume p: "prepare w visitor v False q dis calls = (rq, calls0)"
    and run: "run_chain w rq (fallback_order False) (start_chain rq calls0 o1) = (found, ch)"
    and o: "Inr pd = chain_outcome w rq found ch"
  have up: "\<not> rq_upload rq" using prepare_facts(2) [OF p] by simp
  have "no_cookie x" if x: "found = Some x" for x
  proof (cases "try_main w rq (start_chain rq calls0 o1)")
    case (Pair r1 ch1)
    show ?thesis
    proof (cases r1)
      case (Some y)
      then have "try_main w rq (start_chain rq calls0 o1) = (Some x, ch)" using run Pair x by (simp add: run_chain_def)
      then show ?thesis using try_answer_no_cookie up unfolding try_main_def by (auto split: option.splits if_splits)
    next
      case None
      then have "try_clients w rq (fallback_order False) ch1 = (Some x, ch)" using run Pair x by (simp add: run_chain_def)
      then show ?thesis using up by (rule try_clients_no_cookie)
    qed
  qed
  then show "no_cookie pd"
    using o up no_cookie_build [of w] no_cookie_plain [of "rusty_data (rq_video rq) r" for r]
    by (auto simp: chain_outcome_def rusty_data_def split: option.splits)
qed

lemma run_orch_no_cookie: "run_orch io v False st = (Inr pd, st') \<Longrightarrow> no_cookie pd"
  by (auto simp: run_orch_def Let_def split: prod.splits dest: orch_no_cookie)

lemma gated_no_cookie: "resolve_gated io now v False st = (Inr pd, st') \<Longrightarrow> no_cookie pd"
  using run_orch_no_cookie
  by (auto simp: resolve_gated_def split: prod.splits sum.splits resolve_failure.splits option.splits)

text \<open>The account's cookie goes out with a stream only for an upload: no other track, from whichever source, is
  fetched with it.\<close>

theorem cookie_only_for_uploads:
  assumes "app_resolve io now v False st = (Inr pd, st')"
  shows "lit ''Cookie'' \<notin> fst ` set (pd_headers pd)"
proof -
  have "no_cookie pd"
  proof (cases "youtube_id v")
    case True
    then show ?thesis
      using assms gated_no_cookie
      by (auto simp: app_resolve_youtube from_cache_def plain_stream_def no_cookie_def split: option.splits prod.splits sum.splits)
  next
    case False
    then have "pd_headers pd = []"
      using assms
      by (auto simp: app_resolve_def youtube_id_def resolve_station_def resolve_tidal_def Let_def station_stream_def
          plain_stream_def local_stream_def from_cache_def split: option.splits sum.splits tidal_answer.splits if_splits)
    then show ?thesis by (rule no_cookie_plain)
  qed
  then show ?thesis by (simp add: no_cookie_def)
qed

section \<open>The cooldown\<close>

text \<open>A sequence of bot-gated resolves at the given seconds.\<close>

fun attempts :: "ustr option \<Rightarrow> nat list \<Rightarrow> app_state \<Rightarrow> ustr option list" where
  "attempts f [] st = []" |
  "attempts f (t # ts) st = (let (r, st) = refresh_visitor_data f t st in r # attempts f ts st)"

lemma refresh_last_try: "as_last_try (snd (refresh_visitor_data f t st)) = t"
  by (simp add: refresh_visitor_data_def Let_def split: option.split)

text \<open>The cooldown is said to allow one fetch per window. But an attempt that it suppresses starts it anew: as long as
  attempts keep coming less than five minutes apart, as the skips of a broken queue do, none of them ever fetches.\<close>

theorem suppressed_attempts_extend_the_cooldown:
  assumes "as_last_try st \<noteq> 0" "sorted_wrt (\<le>) (as_last_try st # ts)"
    and "\<forall>i < length ts. ts ! i - (as_last_try st # ts) ! i < RETRY_COOLDOWN_SECS"
  shows "set (attempts (Some vd) ts st) \<subseteq> {None}"
  using assms
proof (induction ts arbitrary: st)
  case (Cons t ts)
  obtain r st1 where r: "refresh_visitor_data (Some vd) t st = (r, st1)" by (cases "refresh_visitor_data (Some vd) t st")
  have l: "as_last_try st1 = t" using refresh_last_try [of "Some vd" t st] r by simp
  have "t - as_last_try st < RETRY_COOLDOWN_SECS" using Cons.prems(3) by force
  then have "r = None" using r Cons.prems(1) by (simp add: refresh_visitor_data_def Let_def)
  moreover have "set (attempts (Some vd) ts st1) \<subseteq> {None}"
  proof (rule Cons.IH)
    show "as_last_try st1 \<noteq> 0" using l Cons.prems(1,2) by simp
    show "sorted_wrt (\<le>) (as_last_try st1 # ts)" using Cons.prems(2) l by simp
    show "\<forall>i < length ts. ts ! i - (as_last_try st1 # ts) ! i < RETRY_COOLDOWN_SECS"
    proof (intro allI impI)
      fix i assume "i < length ts"
      then show "ts ! i - (as_last_try st1 # ts) ! i < RETRY_COOLDOWN_SECS"
        using Cons.prems(3) [rule_format, of "Suc i"] l by simp
    qed
  qed
  ultimately show ?case using r by (simp add: Let_def)
qed simp

section \<open>Witnesses\<close>

definition toy_io :: "resolve_world \<Rightarrow> app_io" where
  "toy_io w = \<lparr>ai_world = w, ai_text = toy_text, ai_is_file = (\<lambda>_. True), ai_radio = toy_lib, ai_station = (\<lambda>_. None),
     ai_spotify = None, ai_soundcloud = (\<lambda>_. Inl []), ai_tidal = (\<lambda>_ _. TidalSignedOut), ai_write = (\<lambda>_ _. None),
     ai_data_dir = [], ai_env_disabled = None, ai_fetch_visitor = None, ai_db_io = True\<rparr>"

definition toy_state :: app_state where
  "toy_state = \<lparr>as_store = empty_store, as_orch = calm_orch, as_visitor = None, as_last_try = 0, as_log = []\<rparr>"

lemma toy_youtube: "youtube_id (lit ''v'')"
  by (simp add: youtube_id_def song_path_def SONG_PREFIX_def is_radio_id_def RADIO_ID_PREFIX_def spotify_track_id_def rest_of_def
      SPOTIFY_TRACK_PREFIX_def sc_track_id_def number_of_def SC_TRACK_PREFIX_def tidal_track_id_def TIDAL_TRACK_PREFIX_def
      strip_prefix_def starts_with_def lit_Cons)

definition high_io :: app_io where
  "high_io = toy_io (toy_world (\<lambda>_. Some (answers (lit ''h'') HIGH_AUDIO)) (\<lambda>_. True) None)"

lemma toy_resolved:
  "\<exists>pd st'. app_resolve high_io 0 (lit ''v'') False toy_state = (Inr pd, st') \<and> pd_client pd = MAIN_CLIENT \<and>
     pd_url pd = lit ''h'' \<and> pd_expires_in pd = 100 \<and> hget (streams (as_store st')) (lit ''v'') = Some (cached_row pd 0)"
proof -
  obtain pd calls where r: "orch_resolve (toy_world (\<lambda>_. Some (answers (lit ''h'') HIGH_AUDIO)) (\<lambda>_. True) None) None (lit ''v'') False QHigh [] [] calm_orch =
      (Inr pd, calls, calm_orch)" "pd_client pd = MAIN_CLIENT" "pd_url pd = lit ''h''" "pd_expires_in pd = 100"
    using toy_main_wins [of "\<lambda>_. Some (answers (lit ''h'') HIGH_AUDIO)" "lit ''h''" HIGH_AUDIO "\<lambda>_. True" QHigh None] by auto
  have q: "quality_of empty_store = QHigh" "disabled_clients None empty_store = []"
    by (simp_all add: quality_of_def disabled_clients_def get_setting_def empty_store_def or_option_def Let_def)
  have "run_orch high_io (lit ''v'') False toy_state = (Inr pd, toy_state\<lparr>as_log := calls, as_orch := calm_orch\<rparr>)"
    using r(1) q by (simp add: run_orch_def high_io_def toy_io_def toy_state_def)
  then have g: "resolve_gated high_io (nat 0) (lit ''v'') False toy_state = (Inr pd, toy_state\<lparr>as_log := calls, as_orch := calm_orch\<rparr>)"
    by (simp add: resolve_gated_def)
  have n: "MAIN_CLIENT \<noteq> lit ''rustypipe''" by (simp add: MAIN_CLIENT_def lit_Cons)
  have "app_resolve high_io 0 (lit ''v'') False toy_state =
      (Inr pd, put_in_cache (lit ''v'') (cached_row pd 0) 0 (toy_state\<lparr>as_log := calls, as_orch := calm_orch\<rparr>))"
    unfolding app_resolve_youtube [OF toy_youtube] g
    using r(2) n by (simp add: toy_state_def get_stream_def empty_store_def remember_def)
  moreover have "hget (streams (as_store (put_in_cache (lit ''v'') (cached_row pd 0) 0 (toy_state\<lparr>as_log := calls, as_orch := calm_orch\<rparr>)))) (lit ''v'') =
      Some (cached_row pd 0)"
    using r(4) by (simp add: put_in_cache_def put_stream_def sweep_streams_def toy_state_def empty_store_def cached_row_def)
  ultimately show ?thesis using r by blast
qed


theorem what_enters_the_cache_witness:
  "\<exists>pd st' c. app_resolve high_io 0 (lit ''v'') False toy_state = (Inr pd, st') \<and>
     hget (streams (as_store st')) (lit ''v'') = Some c \<and> cs_url c = pd_url pd"
proof -
  obtain pd st' where r: "app_resolve high_io 0 (lit ''v'') False toy_state = (Inr pd, st')"
      "hget (streams (as_store st')) (lit ''v'') = Some (cached_row pd 0)" using toy_resolved by blast
  have ok: "store_ok (as_store toy_state)" and e: "hget (streams (as_store toy_state)) (lit ''v'') \<noteq> Some (cached_row pd 0)"
    by (simp_all add: toy_state_def empty_store_ok) (simp add: empty_store_def)
  show ?thesis using what_enters_the_cache [OF r(1) ok r(2) e] r by blast
qed

theorem cookie_only_for_uploads_witness:
  "\<exists>pd st'. app_resolve high_io 0 (lit ''v'') False toy_state = (Inr pd, st') \<and> lit ''Cookie'' \<notin> fst ` set (pd_headers pd)"
proof -
  obtain pd st' where r: "app_resolve high_io 0 (lit ''v'') False toy_state = (Inr pd, st')" using toy_resolved by blast
  show ?thesis using cookie_only_for_uploads [OF r] r by blast
qed

end
