(* ===== verification/Queue_Storage.thy ===== *)
theory Queue_Storage
  imports Queue_Ops Store_Laws
begin

text \<open>
  The queue and the position across a restart (crates/core/src/state.rs): \<open>persist_queue\<close>, \<open>restore_queue\<close>, the two
  fingerprints, the position samples and what a quit writes; with them the play counter behind On Repeat. JSON, hashing
  (\<open>DefaultHasher\<close> leaves its algorithm open) and the text of an \<open>f64\<close> are parameters, collected in \<open>queue_codec\<close>.
\<close>

section \<open>What is written\<close>

text \<open>What \<open>queue_fingerprint\<close> hashes of a row.\<close>

type_synonym hashed_row = "ustr \<times> ustr option \<times> bool \<times> bool \<times> ustr option \<times> ustr option \<times> bool"

definition row_key :: "song_item \<Rightarrow> hashed_row" where
  "row_key i = (video_id i, set_video_id i, queued i, queued_end i, queued_from i, song_queued_by i, autoplay i)"

text \<open>\<open>queue_json\<close> as it is read back, field by field, and \<open>queue_index\<close>.\<close>

record saved_queue =
  sq_items :: "song_item list"
  sq_current :: "nat option"
  sq_played_from :: "nat option"
  sq_repeat :: "repeat_mode option"
  sq_shuffle :: "song_item list option"
  sq_seed :: "ustr option"
  sq_name :: "ustr option"
  sq_radio :: "bool option"

record saved_index =
  si_current :: "nat option"
  si_played_from :: "nat option"
  si_repeat :: "repeat_mode option"
  si_fp :: "ustr option"

record queue_codec =
  qc_hash_rows :: "hashed_row list \<Rightarrow> u64"
  qc_hash_queue :: "u64 \<times> bool \<times> ustr option \<times> ustr option \<times> bool \<Rightarrow> u64"
  qc_blob :: "saved_queue \<Rightarrow> ustr"
  qc_read_blob :: "ustr \<Rightarrow> saved_queue option"
  qc_index :: "saved_index \<Rightarrow> ustr"
  qc_read_index :: "ustr \<Rightarrow> saved_index option"
  qc_song :: "song_item \<Rightarrow> ustr"
  qc_show :: "f64 \<Rightarrow> ustr"
  qc_read :: "ustr \<Rightarrow> f64 option"

definition K_QUEUE :: ustr where "K_QUEUE = lit ''queue_json''"
definition K_INDEX :: ustr where "K_INDEX = lit ''queue_index''"
definition K_POSITION :: ustr where "K_POSITION = lit ''queue_position''"

definition queue_fingerprint :: "queue_codec \<Rightarrow> song_item list \<Rightarrow> u64" where
  "queue_fingerprint c xs = qc_hash_rows c (map row_key xs)"

definition persist_fingerprint :: "queue_codec \<Rightarrow> queue_state \<Rightarrow> u64" where
  "persist_fingerprint c q =
     qc_hash_queue c (queue_fingerprint c (items q), shuffle_orig q \<noteq> None, radio_seed q, source_name q, radio q)"

definition blob_of :: "queue_state \<Rightarrow> saved_queue" where
  "blob_of q = \<lparr>sq_items = items q, sq_current = Some (current q), sq_played_from = Some (played_from q),
     sq_repeat = Some (repeat q), sq_shuffle = shuffle_orig q, sq_seed = radio_seed q, sq_name = source_name q,
     sq_radio = Some (radio q)\<rparr>"

definition fp_text :: "queue_codec \<Rightarrow> song_item list \<Rightarrow> ustr" where
  "fp_text c xs = dec (unat (queue_fingerprint c xs))"

definition index_of :: "queue_codec \<Rightarrow> queue_state \<Rightarrow> saved_index" where
  "index_of c q = \<lparr>si_current = Some (current q), si_played_from = Some (played_from q), si_repeat = Some (repeat q),
     si_fp = Some (fp_text c (items q))\<rparr>"

section \<open>The state\<close>

text \<open>\<open>ss_pushes\<close> is what the media controls, Discord and Last.fm were told.\<close>

record session =
  ss_app :: app
  ss_store :: store
  ss_last_fp :: u64
  ss_latest :: f64
  ss_saved_at :: nat
  ss_pushed_at :: nat
  ss_pushes :: "(bool \<times> f64) list"
  ss_pending :: "(ustr \<times> f64) option"
  ss_playing :: bool

definition startup_session :: "store \<Rightarrow> session" where
  "startup_session st = \<lparr>ss_app = app_new, ss_store = st, ss_last_fp = 0, ss_latest = Fin 0, ss_saved_at = 0,
     ss_pushed_at = 0, ss_pushes = [], ss_pending = None, ss_playing = False\<rparr>"

definition put_key :: "ustr \<Rightarrow> ustr \<Rightarrow> session \<Rightarrow> session" where
  "put_key k v s = s\<lparr>ss_store := set_setting k v (ss_store s)\<rparr>"

section \<open>Saving\<close>

text \<open>The part under the queue lock: what is to be written, the blob only if its fingerprint moved.\<close>

definition persist_read :: "queue_codec \<Rightarrow> session \<Rightarrow> (ustr option \<times> ustr) \<times> session" where
  "persist_read c s =
     (let q = app_queue (ss_app s); fp = persist_fingerprint c q
      in ((if ss_last_fp s \<noteq> fp then Some (qc_blob c (blob_of q)) else None, qc_index c (index_of c q)),
          s\<lparr>ss_last_fp := fp\<rparr>))"

definition write_blob :: "ustr option \<Rightarrow> session \<Rightarrow> session" where
  "write_blob b s = (case b of Some t \<Rightarrow> put_key K_QUEUE t s | None \<Rightarrow> s)"

definition write_index :: "ustr \<Rightarrow> session \<Rightarrow> session" where
  "write_index t s = put_key K_INDEX t s"

definition persist_queue :: "queue_codec \<Rightarrow> session \<Rightarrow> session" where
  "persist_queue c s = (let ((b, i), s) = persist_read c s in write_index i (write_blob b s))"

section \<open>Restoring\<close>

definition f64_positive :: "f64 \<Rightarrow> bool" where
  "f64_positive p \<longleftrightarrow> (case p of Fin x \<Rightarrow> 0 < x | PosInf \<Rightarrow> True | _ \<Rightarrow> False)"

text \<open>The pointer a blob and an index on disk give: the index counts only when it is stamped with these rows.\<close>

definition restored_pointer :: "queue_codec \<Rightarrow> saved_queue \<Rightarrow> saved_index option \<Rightarrow> nat \<times> nat \<times> repeat_mode" where
  "restored_pointer c b idx =
     (let n = length (sq_items b) - 1;
          cur = min (case sq_current b of Some k \<Rightarrow> k | None \<Rightarrow> 0) n;
          pf = min (case sq_played_from b of Some k \<Rightarrow> k | None \<Rightarrow> cur) cur;
          rep = (case sq_repeat b of Some r \<Rightarrow> r | None \<Rightarrow> RepeatOff)
      in case idx of
           None \<Rightarrow> (cur, pf, rep)
         | Some i \<Rightarrow>
             if si_fp i \<noteq> Some (fp_text c (sq_items b)) then (cur, pf, rep)
             else let cur' = (case si_current i of Some k \<Rightarrow> min k n | None \<Rightarrow> cur);
                      pf' = (case si_played_from i of Some k \<Rightarrow> min k cur' | None \<Rightarrow> pf)
                  in (cur', pf', case si_repeat i of Some r \<Rightarrow> r | None \<Rightarrow> rep))"

definition restore_queue :: "queue_codec \<Rightarrow> session \<Rightarrow> session" where
  "restore_queue c s =
     (case Option.bind (get_setting (ss_store s) K_QUEUE) (qc_read_blob c) of
        None \<Rightarrow> s
      | Some b \<Rightarrow>
          if sq_items b = [] then s
          else
            let (cur, pf, rep) =
                  restored_pointer c b (Option.bind (get_setting (ss_store s) K_INDEX) (qc_read_index c));
                seek = (case Option.bind (get_setting (ss_store s) K_POSITION) (qc_read c) of
                          Some p \<Rightarrow> if f64_positive p then Some (video_id (sq_items b ! cur), p) else ss_pending s
                        | None \<Rightarrow> ss_pending s);
                a = upd (\<lambda>q. q\<lparr>items := sq_items b, current := cur, played_from := pf, repeat := rep,
                      shuffle_orig := sq_shuffle b, radio_seed := sq_seed b, source_name := sq_name b,
                      radio := (case sq_radio b of Some r \<Rightarrow> r | None \<Rightarrow> False)\<rparr>) (ss_app s)
            in s\<lparr>ss_app := (if rep = RepeatOne then a\<lparr>player_loop := True\<rparr> else a), ss_pending := seek,
                 ss_playing := False\<rparr>)"

section \<open>The position\<close>

definition note_position_sample :: "f64 \<Rightarrow> session \<Rightarrow> session" where
  "note_position_sample p s = (if f64_is_finite p then s\<lparr>ss_latest := p\<rparr> else s)"

definition record_position :: "queue_codec \<Rightarrow> nat \<Rightarrow> f64 \<Rightarrow> session \<Rightarrow> session" where
  "record_position c now p s =
     (let s = s\<lparr>ss_latest := p\<rparr>;
          s = (if 5 \<le> now - ss_saved_at s then put_key K_POSITION (qc_show c p) (s\<lparr>ss_saved_at := now\<rparr>) else s)
      in if 1 \<le> now - ss_pushed_at s then s\<lparr>ss_pushed_at := now, ss_pushes := ss_pushes s @ [(ss_playing s, p)]\<rparr> else s)"

definition flush_position :: "queue_codec \<Rightarrow> session \<Rightarrow> session" where
  "flush_position c s = put_key K_POSITION (qc_show c (ss_latest s)) s"

text \<open>\<open>shutdown_for_quit\<close>: the position, then mpv; what the media controls are told last is not modelled.\<close>

definition shutdown_for_quit :: "queue_codec \<Rightarrow> session \<Rightarrow> session" where
  "shutdown_for_quit c s =
     (let s = flush_position c s
      in s\<lparr>ss_app := (ss_app s)\<lparr>player_loaded := None, player_appended := []\<rparr>, ss_playing := False\<rparr>)"

text \<open>The seek \<open>start_current\<close> makes once the track is loaded: only for the track the position was saved for.\<close>

definition take_pending :: "ustr \<Rightarrow> session \<Rightarrow> f64 option \<times> session" where
  "take_pending v s =
     (case ss_pending s of
        Some (w, p) \<Rightarrow> (if w = v then Some p else None, s\<lparr>ss_pending := None\<rparr>)
      | None \<Rightarrow> (None, s))"

section \<open>Counting a play\<close>

definition ON_REPEAT_WINDOW_SECS :: int where "ON_REPEAT_WINDOW_SECS = 30 * 24 * 60 * 60"

text \<open>Halfway, at most thirty seconds; thirty until the length is known.\<close>

definition play_threshold :: "f64 \<Rightarrow> rat" where
  "play_threshold d =
     (case d of Fin x \<Rightarrow> if 1 < x then min (x / 2) 30 else 30 | PosInf \<Rightarrow> 30 | _ \<Rightarrow> 30)"

definition reaches :: "f64 \<Rightarrow> rat \<Rightarrow> bool" where
  "reaches p t \<longleftrightarrow> (case p of Fin x \<Rightarrow> t \<le> x | PosInf \<Rightarrow> True | _ \<Rightarrow> False)"

definition counts_as_play :: "song_item \<Rightarrow> bool" where
  "counts_as_play i \<longleftrightarrow> \<not> is_local_song (video_id i) \<and> \<not> is_radio_id (video_id i) \<and> \<not> is_spotify_id (video_id i) \<and>
     \<not> is_sc_id (video_id i)"

definition history_enabled :: "store \<Rightarrow> bool" where
  "history_enabled st = (case get_setting st (lit ''enable_history'') of Some v \<Rightarrow> v \<noteq> lit ''false'' | None \<Rightarrow> True)"

definition count_play :: "queue_codec \<Rightarrow> nat \<Rightarrow> session \<Rightarrow> session" where
  "count_play c now s =
     (let q = app_queue (ss_app s) in
      if current q < length (items q) \<and> counts_as_play (items q ! current q)
      then s\<lparr>ss_store := record_play (video_id (items q ! current q)) (qc_song c (items q ! current q)) (int now)
             ON_REPEAT_WINDOW_SECS (ss_store s)\<rparr>
      else s)"

text \<open>A position tick; the answer is the watch-history ping to send, if one is. \<open>known\<close> says whether the client that
  issued the ping is in the registry.\<close>

definition on_position :: "queue_codec \<Rightarrow> bool \<Rightarrow> bool \<Rightarrow> nat \<Rightarrow> f64 \<Rightarrow> session \<Rightarrow> (ustr \<times> ustr) option \<times> session" where
  "on_position c logged_in known now p s =
     (let s = record_position c now p s; q = app_queue (ss_app s) in
      if history_pinged q \<or> \<not> reaches p (play_threshold (queue_duration q)) then (None, s)
      else let s = s\<lparr>ss_app := upd (\<lambda>q. q\<lparr>history_pinged := True\<rparr>) (ss_app s)\<rparr>;
               s = count_play c now s
           in (if history_enabled (ss_store s) \<and> logged_in \<and> known
               then map_option (\<lambda>u. (u, cpn q)) (playback_ping q) else None, s))"

definition on_duration :: "f64 \<Rightarrow> session \<Rightarrow> session" where
  "on_duration d s =
     (let q = app_queue (ss_app s) in
      if \<not> (f64_is_finite d \<and> f64_positive d) \<or>
         (case id_at (items q) (current q) of Some v \<Rightarrow> is_spotify_id v | None \<Rightarrow> False)
      then s else s\<lparr>ss_app := upd (\<lambda>q. q\<lparr>queue_duration := d\<rparr>) (ss_app s)\<rparr>)"

end
