(* ===== verification/Restart_Laws.thy ===== *)
theory Restart_Laws
  imports Queue_Storage
begin

text \<open>
  What a restart finds: saving and restoring the queue, also with overlapping saves and kills between the two writes, and
  what the code loses: the position on a quit before anything was played, the rows when two saves cross, the track a
  position belongs to. And: one start of a track counts at most one play.
\<close>

section \<open>What the parameters must do\<close>

text \<open>What is restored of a queue: its rows up to metadata and its pointer; and what else the blob keeps.\<close>

definition pointer :: "queue_state \<Rightarrow> hashed_row list \<times> nat \<times> nat \<times> repeat_mode" where
  "pointer q = (map row_key (items q), current q, played_from q, repeat q)"

definition lasting :: "queue_state \<Rightarrow> bool \<times> ustr option \<times> ustr option \<times> bool" where
  "lasting q = (shuffle_orig q \<noteq> None, radio_seed q, source_name q, radio q)"

text \<open>The queues of a run: their JSON is read back, and their hashes neither collide nor are the start value 0.\<close>

definition codec_ok :: "queue_codec \<Rightarrow> queue_state set \<Rightarrow> bool" where
  "codec_ok c Q \<longleftrightarrow>
     (\<forall>q \<in> Q. qc_read_blob c (qc_blob c (blob_of q)) = Some (blob_of q) \<and>
        qc_read_index c (qc_index c (index_of c q)) = Some (index_of c q) \<and>
        qc_hash_queue c (queue_fingerprint c (items q), lasting q) \<noteq> 0 \<and> queue_ok q) \<and>
     inj_on (qc_hash_rows c) ((\<lambda>q. map row_key (items q)) ` Q) \<and>
     inj_on (qc_hash_queue c) ((\<lambda>q. (queue_fingerprint c (items q), lasting q)) ` Q)"

lemma persist_fingerprint_eq: "persist_fingerprint c q = qc_hash_queue c (queue_fingerprint c (items q), lasting q)"
  by (simp add: persist_fingerprint_def lasting_def)

lemma codec_reads:
  assumes "codec_ok c Q" "q \<in> Q"
  shows "qc_read_blob c (qc_blob c (blob_of q)) = Some (blob_of q)"
    "qc_read_index c (qc_index c (index_of c q)) = Some (index_of c q)" "persist_fingerprint c q \<noteq> 0" "queue_ok q"
  using assms unfolding codec_ok_def persist_fingerprint_eq by blast+

lemma codec_rows:
  assumes "codec_ok c Q" "q \<in> Q" "r \<in> Q"
  shows "queue_fingerprint c (items q) = queue_fingerprint c (items r) \<longleftrightarrow> map row_key (items q) = map row_key (items r)"
proof -
  have "inj_on (qc_hash_rows c) ((\<lambda>q. map row_key (items q)) ` Q)" using assms(1) unfolding codec_ok_def by blast
  from inj_on_eq_iff [OF this imageI [OF assms(2)] imageI [OF assms(3)]] show ?thesis
    by (simp add: queue_fingerprint_def)
qed

lemma codec_same:
  assumes "codec_ok c Q" "q \<in> Q" "r \<in> Q" "persist_fingerprint c q = persist_fingerprint c r"
  shows "map row_key (items q) = map row_key (items r)" "lasting q = lasting r"
proof -
  have "inj_on (qc_hash_queue c) ((\<lambda>q. (queue_fingerprint c (items q), lasting q)) ` Q)"
    using assms(1) unfolding codec_ok_def by blast
  from inj_on_eq_iff [OF this imageI [OF assms(2)] imageI [OF assms(3)]] assms(4)
  have "queue_fingerprint c (items q) = queue_fingerprint c (items r)" "lasting q = lasting r"
    by (simp_all add: persist_fingerprint_eq)
  then show "map row_key (items q) = map row_key (items r)" "lasting q = lasting r"
    using codec_rows [OF assms(1-3)] by simp_all
qed

lemma dec_eq_iff: "dec m = dec n \<longleftrightarrow> m = n"
  by (metis digits_value_dec)

lemma fp_text_eq: "fp_text c xs = fp_text c ys \<longleftrightarrow> queue_fingerprint c xs = queue_fingerprint c ys"
  unfolding fp_text_def dec_eq_iff by (rule word_eq_iff_unsigned [symmetric])

section \<open>One blob and one index\<close>

abbreviation key_on_disk :: "store \<Rightarrow> ustr \<Rightarrow> ustr option" where
  "key_on_disk st k \<equiv> get_setting st k"

definition restarted :: "queue_codec \<Rightarrow> store \<Rightarrow> queue_state" where
  "restarted c st = app_queue (ss_app (restore_queue c (startup_session st)))"

lemma keys_distinct [simp]: "K_QUEUE \<noteq> K_INDEX" "K_INDEX \<noteq> K_QUEUE" "K_QUEUE \<noteq> K_POSITION" "K_POSITION \<noteq> K_QUEUE"
  "K_INDEX \<noteq> K_POSITION" "K_POSITION \<noteq> K_INDEX"
  by (simp_all add: K_QUEUE_def K_INDEX_def K_POSITION_def lit_Cons)

lemma restarted_none: "key_on_disk st K_QUEUE = None \<Longrightarrow> items (restarted c st) = []"
  by (simp add: restarted_def restore_queue_def startup_session_def app_new_def queue_state_new_def)

lemma restarted_blob:
  assumes "codec_ok c Q" "q \<in> Q" "key_on_disk st K_QUEUE = Some (qc_blob c (blob_of q))"
  shows "items q = [] \<Longrightarrow> items (restarted c st) = []"
    and "items q \<noteq> [] \<Longrightarrow> items (restarted c st) = items q \<and> lasting (restarted c st) = lasting q \<and>
      (current (restarted c st), played_from (restarted c st), repeat (restarted c st)) =
      restored_pointer c (blob_of q) (Option.bind (key_on_disk st K_INDEX) (qc_read_index c))"
  using assms(3) codec_reads [OF assms(1,2)]
  by (simp_all add: restarted_def restore_queue_def startup_session_def app_new_def queue_state_new_def upd_def blob_of_def
      lasting_def Let_def split: prod.split option.split)

lemma pointer_of_blob:
  assumes "queue_ok q" "items q \<noteq> []"
  shows "restored_pointer c (blob_of q) None = (current q, played_from q, repeat q)"
  using assms by (auto simp: restored_pointer_def blob_of_def queue_ok_def Let_def)

lemma pointer_of_index:
  assumes "codec_ok c Q" "q \<in> Q" "r \<in> Q" "items q \<noteq> []"
  shows "restored_pointer c (blob_of q) (Some (index_of c r)) =
    (if map row_key (items q) = map row_key (items r) then (current r, played_from r, repeat r)
     else (current q, played_from q, repeat q))"
proof -
  let ?n = "length (items q) - Suc 0"
  have e: "restored_pointer c (blob_of q) (Some (index_of c r)) =
    (if fp_text c (items r) \<noteq> fp_text c (items q)
     then (min (current q) ?n, min (played_from q) (min (current q) ?n), repeat q)
     else (min (current r) ?n, min (played_from r) (min (current r) ?n), repeat r))"
    by (simp add: restored_pointer_def blob_of_def index_of_def Let_def)
  have q: "min (current q) ?n = current q" "min (played_from q) (current q) = played_from q"
    using codec_reads(4) [OF assms(1,2)] assms(4) by (auto simp: queue_ok_def)
  show ?thesis
  proof (cases "map row_key (items q) = map row_key (items r)")
    case True
    then have "length (items q) = length (items r)" by (rule map_eq_imp_length_eq)
    then have "min (current r) ?n = current r" "min (played_from r) (current r) = played_from r"
      using codec_reads(4) [OF assms(1,3)] assms(4) by (auto simp: queue_ok_def)
    with True show ?thesis using codec_rows [OF assms(1,3,2)] by (simp add: e fp_text_eq)
  next
    case False
    then show ?thesis using codec_rows [OF assms(1,3,2)] by (simp add: e fp_text_eq q)
  qed
qed

section \<open>Overlapping saves and kills\<close>

text \<open>Saves as the tasks they are: what is to be written is read under the lock, the writes come later, one by one, and
  those of several saves in any order of tasks. A kill forgets the tasks; the restart restores the queue.\<close>

type_synonym saver = "session \<times> ((ustr \<times> ustr) list) list"

definition writes_of :: "ustr option \<times> ustr \<Rightarrow> (ustr \<times> ustr) list" where
  "writes_of w = (case fst w of Some b \<Rightarrow> [(K_QUEUE, b)] | None \<Rightarrow> []) @ [(K_INDEX, snd w)]"

definition with_queue :: "queue_state \<Rightarrow> session \<Rightarrow> session" where
  "with_queue q s = s\<lparr>ss_app := (ss_app s)\<lparr>app_queue := q\<rparr>\<rparr>"

inductive save_step :: "queue_codec \<Rightarrow> queue_state set \<Rightarrow> saver \<Rightarrow> saver \<Rightarrow> bool" for c Q where
  begin_save: "q \<in> Q \<Longrightarrow> persist_read c (with_queue q s) = (w, s') \<Longrightarrow> save_step c Q (s, ts) (s', ts @ [writes_of w])"
| write_one: "i < length ts \<Longrightarrow> ts ! i = (k, v) # ws \<Longrightarrow> save_step c Q (s, ts) (put_key k v s, ts[i := ws])"
| kill: "save_step c Q (s, ts) (restore_queue c (startup_session (ss_store s)), [])"

definition write_ok :: "queue_codec \<Rightarrow> queue_state set \<Rightarrow> ustr \<times> ustr \<Rightarrow> bool" where
  "write_ok c Q kv \<longleftrightarrow>
     (fst kv = K_QUEUE \<and> snd kv \<in> qc_blob c ` blob_of ` Q) \<or> (fst kv = K_INDEX \<and> snd kv \<in> qc_index c ` index_of c ` Q)"

definition disk_fits :: "queue_codec \<Rightarrow> queue_state set \<Rightarrow> store \<Rightarrow> bool" where
  "disk_fits c Q st \<longleftrightarrow>
     (\<forall>b. key_on_disk st K_QUEUE = Some b \<longrightarrow> write_ok c Q (K_QUEUE, b)) \<and>
     (\<forall>b. key_on_disk st K_INDEX = Some b \<longrightarrow> write_ok c Q (K_INDEX, b))"

definition saver_ok :: "queue_codec \<Rightarrow> queue_state set \<Rightarrow> saver \<Rightarrow> bool" where
  "saver_ok c Q x \<longleftrightarrow> disk_fits c Q (ss_store (fst x)) \<and> (\<forall>t \<in> set (snd x). \<forall>w \<in> set t. write_ok c Q w)"

lemma restore_store [simp]: "ss_store (restore_queue c s) = ss_store s"
  by (simp add: restore_queue_def Let_def split: option.split prod.split)

lemma startup_session_store [simp]: "ss_store (startup_session st) = st"
  by (simp add: startup_session_def)

lemma put_key_store [simp]: "ss_store (put_key k v s) = set_setting k v (ss_store s)"
  by (simp add: put_key_def)

lemma disk_fits_put: "disk_fits c Q st \<Longrightarrow> write_ok c Q (k, v) \<Longrightarrow> disk_fits c Q (set_setting k v st)"
  by (auto simp: disk_fits_def)

lemma save_step_ok: "save_step c Q x y \<Longrightarrow> saver_ok c Q x \<Longrightarrow> saver_ok c Q y"
proof (induction rule: save_step.induct)
  case (begin_save q s w s' ts)
  then have "s' = (with_queue q s)\<lparr>ss_last_fp := persist_fingerprint c q\<rparr>" "\<forall>x \<in> set (writes_of w). write_ok c Q x"
    by (auto simp: persist_read_def Let_def with_queue_def writes_of_def write_ok_def split: option.splits if_splits)
  with begin_save.prems show ?case by (auto simp: saver_ok_def with_queue_def)
next
  case (write_one i ts k v ws s)
  then have "(k, v) # ws \<in> set ts" by (metis nth_mem)
  then have "\<forall>x \<in> set ((k, v) # ws). write_ok c Q x" using write_one.prems unfolding saver_ok_def by (metis snd_conv)
  with write_one.prems show ?case
    unfolding saver_ok_def by (auto intro: disk_fits_put dest!: set_update_subset_insert [THEN subsetD])
next
  case (kill s ts)
  then show ?case by (simp add: saver_ok_def)
qed

interpretation saving: invariant "saver_ok c Q" "save_step c Q" "saver_ok c Q" for c Q
  by unfold_locales (auto intro: save_step_ok)

text \<open>C10: Whatever saves overlap, in whatever order their writes land, and wherever the daemon is killed: the queue a
  restart finds has the rows of a queue that was saved together with the pointer, the played run and the repeat mode of
  that same queue. An index never points into rows it was not made for.\<close>

theorem restored_pointer_fits:
  assumes "codec_ok c Q" "(save_step c Q)\<^sup>*\<^sup>* (startup_session st, []) (s, ts)" "get_setting st K_QUEUE = None" "get_setting st K_INDEX = None"
  shows "items (restarted c (ss_store s)) = [] \<or> pointer (restarted c (ss_store s)) \<in> pointer ` Q"
proof -
  have "saver_ok c Q (startup_session st, [])" using assms(3,4) by (simp add: saver_ok_def disk_fits_def)
  from saving.inv_rtranclp [OF assms(2) this] have d: "disk_fits c Q (ss_store s)" by (simp add: saver_ok_def)
  show ?thesis
  proof (cases "key_on_disk (ss_store s) K_QUEUE")
    case None
    then show ?thesis by (simp add: restarted_none)
  next
    case (Some b)
    with d obtain q where q: "q \<in> Q" "b = qc_blob c (blob_of q)" by (auto simp: disk_fits_def write_ok_def)
    note r = restarted_blob [OF assms(1) q(1) Some [unfolded q(2)]]
    show ?thesis
    proof (cases "items q = []")
      case False
      note r = r(2) [OF False]
      show ?thesis
      proof (cases "key_on_disk (ss_store s) K_INDEX")
        case None
        with r pointer_of_blob [OF codec_reads(4) [OF assms(1) q(1)] False]
        have "pointer (restarted c (ss_store s)) = pointer q" by (simp add: pointer_def)
        with q(1) show ?thesis by blast
      next
        case (Some i)
        with d obtain p where p: "p \<in> Q" "i = qc_index c (index_of c p)" by (auto simp: disk_fits_def write_ok_def)
        from r Some p(2) codec_reads(2) [OF assms(1) p(1)] pointer_of_index [OF assms(1) q(1) p(1) False]
        have "pointer (restarted c (ss_store s)) = (if map row_key (items q) = map row_key (items p) then pointer p else pointer q)"
          by (simp add: pointer_def split: if_splits)
        with p(1) q(1) show ?thesis by (auto split: if_splits)
      qed
    qed (use r in simp)
  qed
qed

section \<open>Saves one after another\<close>

datatype save_op = SaveQueue queue_state | Restart

fun run_save :: "queue_codec \<Rightarrow> save_op \<Rightarrow> session \<Rightarrow> session" where
  "run_save c (SaveQueue q) s = persist_queue c (with_queue q s)" |
  "run_save c Restart s = restore_queue c (startup_session (ss_store s))"

fun saves_in :: "queue_state set \<Rightarrow> save_op \<Rightarrow> bool" where
  "saves_in Q (SaveQueue q) = (q \<in> Q)" |
  "saves_in Q Restart = True"

text \<open>The blob on disk is that of a queue with the fingerprint remembered, if one is.\<close>

definition blob_current :: "queue_codec \<Rightarrow> queue_state set \<Rightarrow> session \<Rightarrow> bool" where
  "blob_current c Q s \<longleftrightarrow> ss_last_fp s = 0 \<or>
     (\<exists>q \<in> Q. persist_fingerprint c q = ss_last_fp s \<and> key_on_disk (ss_store s) K_QUEUE = Some (qc_blob c (blob_of q)))"

lemma blob_current_new [simp]: "blob_current c Q (restore_queue c (startup_session st))"
proof -
  have "ss_last_fp (restore_queue c (startup_session st)) = 0"
    by (simp add: restore_queue_def startup_session_def Let_def split: option.split prod.split)
  then show ?thesis by (simp add: blob_current_def)
qed

lemma save_disk:
  assumes "codec_ok c Q" "q \<in> Q" "blob_current c Q s"
  obtains r where "r \<in> Q" "persist_fingerprint c r = persist_fingerprint c q"
    "key_on_disk (ss_store (persist_queue c (with_queue q s))) K_QUEUE = Some (qc_blob c (blob_of r))"
    "key_on_disk (ss_store (persist_queue c (with_queue q s))) K_INDEX = Some (qc_index c (index_of c q))"
    "ss_last_fp (persist_queue c (with_queue q s)) = persist_fingerprint c q"
proof (cases "ss_last_fp s = persist_fingerprint c q")
  case True
  with codec_reads(3) [OF assms(1,2)] assms(3) obtain r where
    "r \<in> Q" "persist_fingerprint c r = persist_fingerprint c q" "key_on_disk (ss_store s) K_QUEUE = Some (qc_blob c (blob_of r))"
    by (auto simp: blob_current_def)
  with True show ?thesis
    by (intro that [of r])
      (simp_all add: persist_queue_def persist_read_def with_queue_def Let_def write_blob_def write_index_def put_key_def)
next
  case False
  with assms(2) show ?thesis
    by (intro that [of q])
      (simp_all add: persist_queue_def persist_read_def with_queue_def Let_def write_blob_def write_index_def put_key_def)
qed

lemma run_save_current:
  assumes "codec_ok c Q" "saves_in Q op" "blob_current c Q s"
  shows "blob_current c Q (run_save c op s)"
proof (cases op)
  case (SaveQueue q)
  with assms obtain r where "r \<in> Q" "persist_fingerprint c r = persist_fingerprint c q"
    "key_on_disk (ss_store (persist_queue c (with_queue q s))) K_QUEUE = Some (qc_blob c (blob_of r))"
    "ss_last_fp (persist_queue c (with_queue q s)) = persist_fingerprint c q"
    by (auto elim: save_disk)
  with SaveQueue show ?thesis by (auto simp: blob_current_def)
qed simp

lemma runs_save_current:
  assumes "codec_ok c Q" "list_all (saves_in Q) ops" "blob_current c Q s"
  shows "blob_current c Q (fold (run_save c) ops s)"
  using assms(2,3)
proof (induction ops arbitrary: s)
  case (Cons op ops)
  then show ?case using run_save_current [OF assms(1)] by simp
qed simp

lemma restarted_after_save:
  assumes "codec_ok c Q" "q \<in> Q" "items q \<noteq> []" "blob_current c Q s"
  shows "pointer (restarted c (ss_store (persist_queue c (with_queue q s)))) = pointer q \<and>
    lasting (restarted c (ss_store (persist_queue c (with_queue q s)))) = lasting q"
proof -
  from save_disk [OF assms(1,2,4)] obtain r where r: "r \<in> Q" "persist_fingerprint c r = persist_fingerprint c q"
    and d: "key_on_disk (ss_store (persist_queue c (with_queue q s))) K_QUEUE = Some (qc_blob c (blob_of r))"
      "key_on_disk (ss_store (persist_queue c (with_queue q s))) K_INDEX = Some (qc_index c (index_of c q))" by metis
  note same = codec_same [OF assms(1) r(1) assms(2) r(2)]
  have ne: "items r \<noteq> []" using same(1) assms(3) by auto
  show ?thesis
    using restarted_blob(2) [OF assms(1) r(1) d(1) ne] d(2) same codec_reads(2) [OF assms(1,2)]
      pointer_of_index [OF assms(1) r(1) assms(2) ne]
    by (simp add: pointer_def)
qed

text \<open>C11: When saves do not overlap, a restart after the last one finds the queue of that save, however many saves and
  restarts came before: its rows up to metadata, the playing row, the played run, the repeat mode, whether it was shuffled,
  the radio seed, the name of its source and whether it is a radio; although the rows are only written when their
  fingerprint has moved.\<close>

theorem last_save_is_restored:
  assumes "codec_ok c Q" "list_all (saves_in Q) ops" "q \<in> Q" "items q \<noteq> []"
  shows "let r = restarted c (ss_store (fold (run_save c) (ops @ [SaveQueue q]) (startup_session st)))
    in pointer r = pointer q \<and> lasting r = lasting q"
proof -
  have "blob_current c Q (startup_session st)" by (simp add: blob_current_def startup_session_def)
  from restarted_after_save [OF assms(1,3,4) runs_save_current [OF assms(1,2) this]] show ?thesis
    by (simp add: Let_def)
qed

section \<open>What is lost\<close>

text \<open>\<open>shutdown_for_quit\<close> writes the latest sample, and until something plays that is still 0: starting the daemon and
  quitting (or idling out) without playing overwrites the position the last session left.\<close>

lemma quit_unplayed_loses_position:
  "get_setting (ss_store (shutdown_for_quit c (restore_queue c (startup_session st)))) K_POSITION = Some (qc_show c (Fin 0))"
proof -
  have "ss_latest (restore_queue c (startup_session st)) = Fin 0"
    by (simp add: restore_queue_def startup_session_def Let_def split: option.split prod.split)
  then show ?thesis by (simp add: shutdown_for_quit_def flush_position_def Let_def)
qed

text \<open>The saved position does not say whose it is: after the next track has been saved and before its first sample is,
  a kill makes the restart seek into that track with the position of the one before.\<close>

lemma position_of_the_track_before:
  assumes "codec_ok c Q" "q \<in> Q" "items q \<noteq> []" "blob_current c Q s"
    and "get_setting (ss_store s) K_POSITION = Some t" "qc_read c t = Some p" "f64_positive p"
  shows "ss_pending (restore_queue c (startup_session (ss_store (persist_queue c (with_queue q s))))) =
    Some (video_id (items q ! current q), p)"
proof -
  let ?st = "ss_store (persist_queue c (with_queue q s))"
  from save_disk [OF assms(1,2,4)] obtain r where r: "r \<in> Q" "persist_fingerprint c r = persist_fingerprint c q"
    and d: "key_on_disk ?st K_QUEUE = Some (qc_blob c (blob_of r))" "key_on_disk ?st K_INDEX = Some (qc_index c (index_of c q))" by metis
  note same = codec_same [OF assms(1) r(1) assms(2) r(2)]
  have ne: "items r \<noteq> []" using same(1) assms(3) by auto
  have pos: "key_on_disk ?st K_POSITION = Some t"
    using assms(5) by (simp add: persist_queue_def persist_read_def with_queue_def Let_def write_blob_def write_index_def
        put_key_def split: option.split)
  have b: "sq_items (blob_of r) = items r" by (simp add: blob_of_def)
  have "ss_pending (restore_queue c (startup_session ?st)) = Some (video_id (items r ! current q), p)"
    using d pos codec_reads [OF assms(1) r(1)] codec_reads(2) [OF assms(1,2)] ne assms(6,7)
      pointer_of_index [OF assms(1) r(1) assms(2) ne] same(1) b
    by (simp add: restore_queue_def Let_def)
  moreover have "current q < length (items q)" using codec_reads(4) [OF assms(1,2)] assms(3) by (auto simp: queue_ok_def)
  then have "video_id (items r ! current q) = video_id (items q ! current q)"
    using same(1) by (metis fst_conv length_map nth_map row_key_def)
  ultimately show ?thesis by simp
qed

text \<open>Two saves that cross: the later one has remembered its fingerprint, but the writes of the earlier one land last. The
  rows of the earlier queue stay on disk through every further save that moves no row, and a restart brings them back.\<close>

definition after_crossing :: "queue_codec \<Rightarrow> queue_state \<Rightarrow> queue_state \<Rightarrow> session \<Rightarrow> session" where
  "after_crossing c q1 q2 s =
     (let (w1, s) = persist_read c (with_queue q1 s);
          (w2, s) = persist_read c (with_queue q2 s)
      in write_index (snd w1) (write_blob (fst w1) (write_index (snd w2) (write_blob (fst w2) s))))"

lemma crossed_saves_keep_old_rows:
  assumes "codec_ok c Q" "q1 \<in> Q" "q2 \<in> Q" "q3 \<in> Q" "items q1 \<noteq> []"
    and "map row_key (items q1) \<noteq> map row_key (items q2)" "persist_fingerprint c q3 = persist_fingerprint c q2"
  shows "pointer (restarted c (ss_store (persist_queue c (with_queue q3 (after_crossing c q1 q2 (startup_session st)))))) = pointer q1"
proof -
  let ?s = "after_crossing c q1 q2 (startup_session st)"
  have ne: "persist_fingerprint c q1 \<noteq> persist_fingerprint c q2"
    using codec_same(1) [OF assms(1,2,3)] assms(6) by blast
  have fp: "ss_last_fp ?s = persist_fingerprint c q2" "key_on_disk (ss_store ?s) K_QUEUE = Some (qc_blob c (blob_of q1))"
    using ne codec_reads(3) [OF assms(1,2)]
    by (simp_all add: after_crossing_def persist_read_def with_queue_def startup_session_def Let_def write_blob_def write_index_def
        put_key_def)
  let ?st = "ss_store (persist_queue c (with_queue q3 ?s))"
  have d: "key_on_disk ?st K_QUEUE = Some (qc_blob c (blob_of q1))" "key_on_disk ?st K_INDEX = Some (qc_index c (index_of c q3))"
    using fp assms(7)
    by (simp_all add: persist_queue_def persist_read_def with_queue_def Let_def write_blob_def write_index_def put_key_def)
  have "map row_key (items q1) \<noteq> map row_key (items q3)"
    using codec_same(1) [OF assms(1,4,3,7)] assms(6) by simp
  then show ?thesis
    using restarted_blob(2) [OF assms(1,2) d(1) assms(5)] d(2) codec_reads(2) [OF assms(1,4)]
      pointer_of_index [OF assms(1,2,4,5)]
    by (simp add: pointer_def)
qed

section \<open>One play counts once\<close>

definition play_tick :: "queue_codec \<Rightarrow> bool \<Rightarrow> bool \<Rightarrow> nat \<times> f64 \<Rightarrow> session \<Rightarrow> session" where
  "play_tick c logged_in known t s = snd (on_position c logged_in known (fst t) (snd t) s)"

lemma record_position_frame [simp]:
  "ss_app (record_position c now p s) = ss_app s" "plays (ss_store (record_position c now p s)) = plays (ss_store s)"
  by (simp_all add: record_position_def Let_def put_key_def set_setting_def)

lemma count_play_frame [simp]: "ss_app (count_play c now s) = ss_app s"
  by (simp add: count_play_def Let_def)

lemma play_tick_pinged:
  assumes "history_pinged (app_queue (ss_app s))"
  shows "ss_app (play_tick c li kn t s) = ss_app s" "plays (ss_store (play_tick c li kn t s)) = plays (ss_store s)"
  using assms by (simp_all add: play_tick_def on_position_def Let_def)

lemma play_tick_below:
  assumes "\<not> reaches (snd t) (play_threshold (queue_duration (app_queue (ss_app s))))"
  shows "ss_app (play_tick c li kn t s) = ss_app s" "plays (ss_store (play_tick c li kn t s)) = plays (ss_store s)"
  using assms by (simp_all add: play_tick_def on_position_def Let_def)

lemma play_tick_crosses:
  assumes "\<not> history_pinged (app_queue (ss_app s))" "reaches (snd t) (play_threshold (queue_duration (app_queue (ss_app s))))"
  shows "history_pinged (app_queue (ss_app (play_tick c li kn t s)))"
    "plays (ss_store (play_tick c li kn t s)) = plays (ss_store (count_play c (fst t) s))"
  using assms unfolding play_tick_def on_position_def Let_def using assms
  by (simp_all add: upd_def count_play_def Let_def record_play_def)

lemma ticks_pinged:
  "history_pinged (app_queue (ss_app s)) \<Longrightarrow> plays (ss_store (fold (play_tick c li kn) ts s)) = plays (ss_store s)"
  by (induction ts arbitrary: s) (simp_all add: play_tick_pinged)

text \<open>C35: However many position ticks a started track gets, it is counted at most once: by the first tick at which half of
  it or thirty seconds have passed, and not at all before that, once it has been counted, or when the row is a local file, a
  radio station, a Spotify or a SoundCloud track.\<close>

theorem a_play_counts_once:
  "plays (ss_store (fold (play_tick c logged_in known) ts s)) =
     (let q = app_queue (ss_app s) in
      case (if history_pinged q then None else List.find (\<lambda>t. reaches (snd t) (play_threshold (queue_duration q))) ts) of
        None \<Rightarrow> plays (ss_store s)
      | Some t \<Rightarrow>
          if current q < length (items q) \<and> counts_as_play (items q ! current q)
          then filter (\<lambda>p. int (fst t) - ON_REPEAT_WINDOW_SECS \<le> played_at p)
            (plays (ss_store s) @ [\<lparr>play_video = video_id (items q ! current q), played_at = int (fst t),
              play_json = qc_song c (items q ! current q)\<rparr>])
          else plays (ss_store s))"
proof (induction ts arbitrary: s)
  case (Cons t ts)
  consider "history_pinged (app_queue (ss_app s))"
    | "\<not> history_pinged (app_queue (ss_app s))" "reaches (snd t) (play_threshold (queue_duration (app_queue (ss_app s))))"
    | "\<not> history_pinged (app_queue (ss_app s))" "\<not> reaches (snd t) (play_threshold (queue_duration (app_queue (ss_app s))))"
    by blast
  then show ?case
  proof cases
    case 1
    then show ?thesis using ticks_pinged [of s c logged_in known "t # ts"] by (simp add: Let_def)
  next
    case 2
    note x = play_tick_crosses [OF 2, of c logged_in known]
    show ?thesis using 2 ticks_pinged [OF x(1)] x(2) by (simp add: Let_def count_play_def record_play_def)
  next
    case 3
    note x = play_tick_below [OF 3(2), of c logged_in known]
    show ?thesis
      using Cons.IH [of "play_tick c logged_in known t s"] 3 by (simp add: Let_def x cong: option.case_cong if_cong)
  qed
qed (simp add: Let_def split: option.split)

section \<open>A codec for the examples\<close>

definition row_named :: "ustr \<Rightarrow> song_item" where
  "row_named v = \<lparr>video_id = v, song_title = v, artists = [], artist_id = None, artist_runs = [], album = None,
     album_id = None, song_duration = None, play_count = None, song_thumbnail = None, set_video_id = None, added_by = None,
     added_by_avatar = None, song_rating = None, song_queued_by = None, queued = False, queued_end = False,
     queued_from = None, autoplay = False, is_video = False, is_upload = False, explicit = False\<rparr>"

definition short_queue :: queue_state where
  "short_queue = queue_state_new\<lparr>items := [row_named [97]]\<rparr>"

definition long_queue :: queue_state where
  "long_queue = queue_state_new\<lparr>items := [row_named [97], row_named [98]], current := 1, played_from := 1, repeat := RepeatAll\<rparr>"

definition demo_codec :: queue_codec where
  "demo_codec = \<lparr>qc_hash_rows = (\<lambda>ks. if length ks = 1 then 1 else 2), qc_hash_queue = fst,
     qc_blob = (\<lambda>b. [length (sq_items b)]),
     qc_read_blob = (\<lambda>u. Some (blob_of (if u = [1] then short_queue else long_queue))),
     qc_index = (\<lambda>i. case si_current i of Some k \<Rightarrow> [k] | None \<Rightarrow> []),
     qc_read_index = (\<lambda>u. Some (if u = [0]
        then \<lparr>si_current = Some 0, si_played_from = Some 0, si_repeat = Some RepeatOff, si_fp = Some (dec 1)\<rparr>
        else \<lparr>si_current = Some 1, si_played_from = Some 1, si_repeat = Some RepeatAll, si_fp = Some (dec 2)\<rparr>)),
     qc_song = song_title, qc_show = (\<lambda>_. []), qc_read = (\<lambda>_. None)\<rparr>"

lemmas toy_defs = demo_codec_def short_queue_def long_queue_def row_named_def queue_state_new_def

lemma toy_fp: "queue_fingerprint demo_codec (items short_queue) = 1" "queue_fingerprint demo_codec (items long_queue) = 2"
  by (simp_all add: queue_fingerprint_def toy_defs)

lemma toy_pfp: "persist_fingerprint demo_codec short_queue = 1" "persist_fingerprint demo_codec long_queue = 2"
  by (simp_all add: persist_fingerprint_def toy_fp) (simp_all add: demo_codec_def)

lemma toy_reads:
  "qc_read_blob demo_codec (qc_blob demo_codec (blob_of short_queue)) = Some (blob_of short_queue)"
  "qc_read_blob demo_codec (qc_blob demo_codec (blob_of long_queue)) = Some (blob_of long_queue)"
  "qc_read_index demo_codec (qc_index demo_codec (index_of demo_codec short_queue)) = Some (index_of demo_codec short_queue)"
  "qc_read_index demo_codec (qc_index demo_codec (index_of demo_codec long_queue)) = Some (index_of demo_codec long_queue)"
  by (simp_all add: index_of_def fp_text_def toy_fp) (simp_all add: toy_defs blob_of_def)

lemma toy_queues_ok: "queue_ok short_queue" "queue_ok long_queue"
  by (simp_all add: queue_ok_def toy_defs)

lemma demo_codec_ok: "codec_ok demo_codec {short_queue, long_queue}"
  using toy_pfp unfolding codec_ok_def by (simp add: toy_reads toy_fp toy_queues_ok persist_fingerprint_eq) (simp add: toy_defs)

lemma no_keys: "get_setting empty_store k = None"
  by (simp add: get_setting_def empty_store_def)

text \<open>The save of the long queue is killed between its two writes.\<close>

definition killed_save :: session where
  "killed_save = put_key K_QUEUE (qc_blob demo_codec (blob_of long_queue))
     (snd (persist_read demo_codec (with_queue long_queue (startup_session empty_store))))"

lemma killed_save_reached:
  "(save_step demo_codec {short_queue, long_queue})\<^sup>*\<^sup>* (startup_session empty_store, [])
    (killed_save, [[(K_INDEX, qc_index demo_codec (index_of demo_codec long_queue))]])"
proof -
  let ?s = "snd (persist_read demo_codec (with_queue long_queue (startup_session empty_store)))"
  let ?b = "(K_QUEUE, qc_blob demo_codec (blob_of long_queue))" and ?i = "(K_INDEX, qc_index demo_codec (index_of demo_codec long_queue))"
  have "persist_read demo_codec (with_queue long_queue (startup_session empty_store)) =
      ((Some (qc_blob demo_codec (blob_of long_queue)), qc_index demo_codec (index_of demo_codec long_queue)), ?s)"
    by (simp add: persist_read_def with_queue_def startup_session_def Let_def toy_pfp)
  from begin_save [OF _ this, of "{short_queue, long_queue}" "[]"]
  have "save_step demo_codec {short_queue, long_queue} (startup_session empty_store, []) (?s, [[?b, ?i]])"
    by (simp add: writes_of_def)
  moreover have "save_step demo_codec {short_queue, long_queue} (?s, [[?b, ?i]]) (killed_save, [[?i]])"
    using write_one [of 0 "[[?b, ?i]]" "fst ?b" "snd ?b" "[?i]" demo_codec "{short_queue, long_queue}" ?s]
    by (simp add: killed_save_def)
  ultimately show ?thesis by (auto intro: converse_rtranclp_into_rtranclp)
qed

lemma restored_pointer_fits_witness:
  "items (restarted demo_codec (ss_store killed_save)) = [] \<or>
   pointer (restarted demo_codec (ss_store killed_save)) \<in> pointer ` {short_queue, long_queue}"
  using restored_pointer_fits [OF demo_codec_ok killed_save_reached no_keys no_keys] .

lemma last_save_is_restored_witness:
  "let r = restarted demo_codec (ss_store (fold (run_save demo_codec) ([SaveQueue short_queue, Restart] @ [SaveQueue long_queue])
     (startup_session empty_store))) in pointer r = pointer long_queue \<and> lasting r = lasting long_queue"
  by (rule last_save_is_restored [OF demo_codec_ok]) (simp_all add: toy_defs)

end
