(* ===== verification/Spec2Isabelle.thy ===== *)
theory Spec2Isabelle
  imports Lifecycle Queue_Faults Download_Faults Saved_Collection Listen_Races Listen_Session Discord_Presence
    Self_Update Scrobbling Stream_Cache Restart_Laws
begin

text \<open>
  Ryotunes is a music player: a daemon (\<open>ryotunesd\<close>) that keeps a play queue, resolves tracks to streams and drives
  mpv, with downloads, lyrics, scrobbling, Discord presence, self-update and Listen Together rooms. Clients talk to the
  daemon over a socket; Listen Together rooms live on a relay of their own (\<open>sync-server\<close>). Every theory below is a
  translation of Rust source under \<open>src/crates\<close>; the map of definitions to lines is in the manifest.

  \<^bold>\<open>Shared ground.\<close>
  \<^item> \<open>Prelude\<close>: strings as sequences of Unicode scalar values with the standard library's operations, 64-bit words,
    decimal printing and parsing, hash maps as association lists with distinct keys, and the locale \<open>invariant\<close>,
    which turns preservation by every step into a fact about every reachable state.
  \<^item> \<open>Json\<close>: \<open>serde_json::Value\<close> and the whole-response searches of the YouTube readers. The parser is a parameter.

  \<^bold>\<open>Playing.\<close>
  \<^item> \<open>Play_Queue\<close>: \<open>QueueState\<close> and the pure functions of core/state.rs on it: where additions land, duplicates,
    shuffle and un-shuffle, pages and radio. \<open>Queue_Ops\<close>: each critical section of \<open>AppState\<close> on the queue, with the
    calls it makes to mpv. \<open>Queue_Edits\<close>, \<open>Queue_Player\<close> and \<open>Queue_Session\<close> prove that mpv and the queue stay
    together over whole sessions; \<open>Queue_Faults\<close> holds the session theorems and the runs in which the code lets the two
    (or the queue and its un-shuffled snapshot) come apart.
  \<^item> \<open>Player_Response\<close>: what YouTube answers to \<open>/player\<close> and the choice of a format. \<open>Stream_Resolution\<close>: the chain of
    clients (core/orchestrator.rs) and \<open>AppState::resolve\<close> around it. \<open>Resolution_Laws\<close>: who is asked, in which order, what
    is probed, why a resolve fails; \<open>Stream_Cache\<close>: what is kept and answered from the cache, and the bot-gate retry.
  \<^item> \<open>Track_Ids\<close>: the id prefixes of local files, radio, Spotify, SoundCloud and TIDAL and their recognisers.
  \<^item> \<open>Lifecycle\<close>: the daemon's idle exit (ryotunesd/lifecycle.rs), with its spawned timers as interleaved steps.

  \<^bold>\<open>What is kept.\<close>
  \<^item> \<open>Store\<close>: the database (core/db.rs), a record of tables with one definition per method; \<open>Store_Laws\<close>: its invariant
    under every operation, and the device playlists, the stored sign-in and On Repeat against what they promise.
  \<^item> \<open>Queue_Storage\<close>: saving and restoring the queue and the position, and the play counter (core/state.rs);
    \<open>Restart_Laws\<close>: what a restart finds after saves that overlap, after a kill and after a quit.
  \<^item> \<open>Local_Library\<close> (core/local.rs): watched folders, the scan, tags and names, cards and pages; \<open>Local_Laws\<close>: the table
    follows the disk, and what is reported as gone is what is gone.
  \<^item> \<open>Radio_Stations\<close> (core/radio.rs): which stations are let in, and a started station across a restart.

  \<^bold>\<open>Listen Together.\<close>
  \<^item> \<open>Listen_Protocol\<close>: the wire types and the extrapolated position. \<open>Sync_Server\<close>: every branch of the relay's
    \<open>dispatch\<close>, disconnection and the sweep. \<open>Relay_Rooms\<close>, \<open>Relay_Traffic\<close> and \<open>Relay_Contracts\<close>: limits, who hears
    what, who may change what, how the host role moves and when a room ends.
  \<^item> \<open>Listen_Client\<close> and \<open>Listen_Loops\<close>: the client's session and its connection loops (core/listentogether/mod.rs);
    \<open>Listen_Races\<close>: giving up, and superseded loops; \<open>Listen_Session\<close>: client and relay together, a guest's client as
    a refinement of the room.

  \<^bold>\<open>Downloads\<close> (ryotunesd/downloads.rs).
  \<^item> \<open>Download_Names\<close>: naming, folder index, yt-dlp command line and output. \<open>Download_Queue\<close>: jobs, workers, history.
    \<open>Download_Publish\<close>: how a file reaches the folder. \<open>Download_Workers\<close>: all of it as a state machine;
    \<open>Download_Invariant\<close> and \<open>Download_Requests\<close>: every step keeps its invariant; \<open>Download_Guarantees\<close> and
    \<open>Download_Faults\<close>: what follows, and what does not.

  \<^bold>\<open>Services.\<close>
  \<^item> \<open>Wire_Format\<close> and \<open>Saved_Collection\<close>: protobuf (spotify/pb.rs) and the saved collection on it (collection2.rs).
  \<^item> \<open>Discord_Presence\<close> (core/discord.rs), \<open>Scrobbling\<close> (core/lastfm.rs), \<open>Self_Update\<close> (core/update.rs).
  \<^item> \<open>Lyrics_Text\<close> and \<open>Lyrics_Chain\<close> (core/lyrics.rs): the formats, then the chain of providers and its cache.
  \<^item> \<open>Response_Rows\<close>: rows, accounts and lyrics pages in YouTube's responses (innertube models).

  \<^bold>\<open>How effects are modelled.\<close> A handler that holds a lock for its whole body is one function on an explicit state.
  Where the code releases a lock or awaits, the parts are separate steps of a step relation and anything may come
  between them; the exceptions (a test of a generation counter and the section behind it) are named where they are made.
  Errors are values of a sum or an option. Sockets, HTTP answers, the clock, random numbers, the file system beyond the
  paths the code tests, mpv, SHA-256, MD5, Unicode tables and the JSON parser are parameters; what a proof needs of one
  is a hypothesis of its theorem, and a witness instantiates it. Words are 64 bits where the code adds or multiplies them;
  numbers that are only compared are integers; \<open>f64\<close> values are rationals, so rounding is not modelled. Loops are structural
  recursion or carry a termination proof; fuel is used only where the code itself counts attempts (pages of a collection,
  reconnections), with the code's own bound.

  \<^bold>\<open>Not modelled.\<close> The method table and the socket server of the daemon (argument decoding and calls into the
  parts above), login windows, tray and other desktop glue; the desktop host (src-tauri), the command line and the QML
  and Svelte clients; InnerTube's transport and its browse pages; the Spotify, SoundCloud and TIDAL clients beyond the
  saved collection; PoToken and signature deciphering, which run YouTube's own scripts; romanisation, which is tables;
  the mpv binding, which is FFI. The manifest lists each with its reason.
\<close>

end
